(* ===== verification/Prelude.thy ===== *)
theory Prelude
  imports Complex_Main "HOL-Library.AList" "HOL-Library.Multiset" "HOL-Library.Sublist"
begin

text \<open>
  Shared vocabulary of the development: the parts of the Go language the sources use.

  \<^item> fixed-width integers: a Go \<open>int32\<close>/\<open>int64\<close> value is an \<open>int\<close>, and every operation that
    can leave the range is wrapped by \<open>int32\<close>/\<open>int64\<close> (two's complement);
  \<^item> maps: a Go \<open>map[K]V\<close> is an association list with distinct keys (\<open>gm_wf\<close>), read by
    \<open>map_of\<close>, written by \<open>AList.update\<close>, shrunk by \<open>AList.delete\<close>, measured by \<open>length\<close>;
  \<^item> iteration: \<open>for k, v := range m\<close> visits the keys in an unspecified order, so each
    operation that ranges over a map takes the order as an argument of type \<open>iter\<close>, of which
    only \<open>perm_iter\<close> (a permutation of the keys) is ever assumed;
  \<^item> \<open>sort.Slice\<close>: the interface \<open>sort_slice\<close> states its documented contract (the result is a
    permutation of the input in which no element is less than an earlier one); it is
    interpreted by the insertion sort that Go runs on slices of at most twelve elements;
  \<^item> results: \<open>Inl\<close>/\<open>Inr\<close> for \<open>(value, error)\<close> pairs, and \<open>outcome\<close> where the code can also
    panic.
\<close>

section \<open>Results, integers and times\<close>

named_theorems go_wrap \<open>when a wrapped value is in range\<close>

datatype ('e, 'a) outcome = Ok 'a | Err 'e | Panic

type_synonym bytes = string
type_synonym time = int      \<comment> \<open>\<open>time.Time\<close>, nanoseconds on the clock\<close>
type_synonym duration = int  \<comment> \<open>\<open>time.Duration\<close>, nanoseconds\<close>

definition int32 :: "int \<Rightarrow> int" where
  "int32 x = signed_take_bit 31 x"

definition int64 :: "int \<Rightarrow> int" where
  "int64 x = signed_take_bit 63 x"

abbreviation is_int32 :: "int \<Rightarrow> bool" where
  "is_int32 x \<equiv> - (2 ^ 31) \<le> x \<and> x < 2 ^ 31"

abbreviation is_int64 :: "int \<Rightarrow> bool" where
  "is_int64 x \<equiv> - (2 ^ 63) \<le> x \<and> x < 2 ^ 63"

section \<open>Maps and their iteration order\<close>

type_synonym ('k, 'v) gomap = "('k \<times> 'v) list"
type_synonym iter = "string list \<Rightarrow> string list"

abbreviation gm_wf :: "('k, 'v) gomap \<Rightarrow> bool" where
  "gm_wf m \<equiv> distinct (map fst m)"

abbreviation gm_keys :: "('k, 'v) gomap \<Rightarrow> 'k set" where
  "gm_keys m \<equiv> fst ` set m"

definition perm_iter :: "iter \<Rightarrow> bool" where
  "perm_iter it \<longleftrightarrow> (\<forall>xs. mset (it xs) = mset xs)"

text \<open>The key/value pairs in the order a \<open>range\<close> loop visits them.\<close>

definition gm_range :: "iter \<Rightarrow> (string, 'v) gomap \<Rightarrow> (string \<times> 'v) list" where
  "gm_range it m = List.map_filter (\<lambda>k. map_option (Pair k) (map_of m k)) (it (map fst m))"

section \<open>Sorting\<close>

definition strict_weak :: "('a \<Rightarrow> 'a \<Rightarrow> bool) \<Rightarrow> bool" where
  "strict_weak lt \<longleftrightarrow>
     (\<forall>x y. lt x y \<longrightarrow> \<not> lt y x) \<and>
     (\<forall>x y z. \<not> lt x y \<longrightarrow> \<not> lt y z \<longrightarrow> \<not> lt x z)"

text \<open>\<open>insertionSort_func\<close> of the Go runtime: insert each element before the greater ones.\<close>

fun insert_by :: "('a \<Rightarrow> 'a \<Rightarrow> bool) \<Rightarrow> 'a \<Rightarrow> 'a list \<Rightarrow> 'a list" where
  "insert_by lt x [] = [x]"
| "insert_by lt x (y # ys) = (if lt x y then x # y # ys else y # insert_by lt x ys)"

definition insertion_sort :: "('a \<Rightarrow> 'a \<Rightarrow> bool) \<Rightarrow> 'a list \<Rightarrow> 'a list" where
  "insertion_sort lt xs = fold (insert_by lt) xs []"

section \<open>Lemmas on wrapped integers\<close>

lemma int32_id [go_wrap]: "is_int32 x \<Longrightarrow> int32 x = x"
  unfolding int32_def by (rule signed_take_bit_int_eq_self) auto

lemma int64_id [go_wrap]: "is_int64 x \<Longrightarrow> int64 x = x"
  unfolding int64_def by (rule signed_take_bit_int_eq_self) auto

lemma int32_range: "is_int32 (int32 x)"
  unfolding int32_def
  by (intro conjI signed_take_bit_int_greater_eq_minus_exp signed_take_bit_int_less_exp)

lemma int64_range: "is_int64 (int64 x)"
  unfolding int64_def
  by (intro conjI signed_take_bit_int_greater_eq_minus_exp signed_take_bit_int_less_exp)

lemma int64_add_left: "int64 (int64 x + y) = int64 (x + y)"
  unfolding int64_def
  by (metis signed_take_bit_add signed_take_bit_of_0 add.right_neutral add_0)

lemma int64_diff_left: "int64 (int64 x - y) = int64 (x - y)"
  using int64_add_left [of x "- y"] by simp

section \<open>Lemmas on maps\<close>

lemma perm_iter_set [simp]: "perm_iter it \<Longrightarrow> set (it xs) = set xs"
  by (metis perm_iter_def set_mset_mset)

lemma perm_iter_length [simp]: "perm_iter it \<Longrightarrow> length (it xs) = length xs"
  by (metis perm_iter_def size_mset)

lemma perm_iter_distinct [simp]: "perm_iter it \<Longrightarrow> distinct (it xs) = distinct xs"
  by (metis perm_iter_def mset_eq_imp_distinct_iff)

lemma perm_iter_id [simp]: "perm_iter (\<lambda>xs. xs)"
  by (simp add: perm_iter_def)

lemma perm_iter_rotate [simp]: "perm_iter (rotate n)"
  unfolding perm_iter_def
  by (metis append_take_drop_id mset_append rotate_drop_take union_commute)


lemma ball_map_of:
  assumes "gm_wf m"
  shows "(\<forall>(k, v) \<in> set m. P k v) \<longleftrightarrow> (\<forall>k v. map_of m k = Some v \<longrightarrow> P k v)"
  using map_of_eq_Some_iff [OF assms] by fast

lemma map_of_Some_key: "map_of m k = Some v \<Longrightarrow> k \<in> gm_keys m"
  by (metis fst_conv image_eqI map_of_SomeD)

lemma key_map_of: "k \<in> gm_keys m \<longleftrightarrow> (\<exists>v. map_of m k = Some v)"
  by (metis domD domI dom_map_of_conv_image_fst)

lemma keys_update [simp]: "gm_keys (AList.update k v m) = insert k (gm_keys m)"
  by (simp add: dom_update)

lemma keys_delete [simp]: "gm_keys (AList.delete k m) = gm_keys m - {k}"
  by (induction m) auto

lemma wf_update [simp]: "gm_wf m \<Longrightarrow> gm_wf (AList.update k v m)"
  by (rule distinct_update)

lemma wf_delete [simp]: "gm_wf m \<Longrightarrow> gm_wf (AList.delete k m)"
  by (rule distinct_delete)

lemma map_of_update [simp]: "map_of (AList.update k v m) = (map_of m)(k \<mapsto> v)"
  by (rule update_conv')

lemma map_of_delete [simp]: "map_of (AList.delete k m) = (map_of m)(k := None)"
  by (rule delete_conv')

lemma length_update_new: "k \<notin> gm_keys m \<Longrightarrow> length (AList.update k v m) = Suc (length m)"
  by (induction m) auto

lemma length_update_old: "k \<in> gm_keys m \<Longrightarrow> length (AList.update k v m) = length m"
  by (induction m) auto

lemma update_new_append: "k \<notin> gm_keys m \<Longrightarrow> AList.update k v m = m @ [(k, v)]"
  by (induction m) auto

lemma keys_list_update_old:
  "k \<in> gm_keys m \<Longrightarrow> map fst (AList.update k v m) = map fst m"
  by (induction m) auto

lemma delete_absent: "k \<notin> gm_keys m \<Longrightarrow> AList.delete k m = m"
  by (induction m) auto

lemma map_filter_ext:
  "(\<And>x. x \<in> set xs \<Longrightarrow> f x = g x) \<Longrightarrow> List.map_filter f xs = List.map_filter g xs"
  by (induction xs) (auto simp: List.map_filter_def)

lemma gm_range_map:
  assumes "perm_iter it"
  shows "gm_range it m = map (\<lambda>k. (k, the (map_of m k))) (it (map fst m))"
proof -
  have "\<And>k. k \<in> set (it (map fst m)) \<Longrightarrow> map_of m k = Some (the (map_of m k))"
    using assms by (metis list.set_map option.collapse perm_iter_set map_of_eq_None_iff)
  then have "gm_range it m = List.map_filter (\<lambda>k. Some (k, the (map_of m k))) (it (map fst m))"
    unfolding gm_range_def by (intro map_filter_ext) (metis option.simps(9))
  then show ?thesis by (simp add: List.map_filter_def)
qed

lemma set_gm_range:
  assumes "perm_iter it" "gm_wf m"
  shows "set (gm_range it m) = set m"
proof -
  have "set (gm_range it m) = (\<lambda>k. (k, the (map_of m k))) ` fst ` set m"
    using assms(1) by (simp add: gm_range_map)
  also have "\<dots> = set m"
    using assms(2) by (force simp: image_iff)
  finally show ?thesis .
qed

lemma keys_gm_range: "perm_iter it \<Longrightarrow> map fst (gm_range it m) = it (map fst m)"
  by (simp add: gm_range_map comp_def)

lemma length_gm_range: "perm_iter it \<Longrightarrow> length (gm_range it m) = length m"
  by (simp add: gm_range_map)

lemma mset_gm_range:
  assumes "perm_iter it" "gm_wf m"
  shows "mset (gm_range it m) = mset m"
proof -
  have "distinct (gm_range it m)"
    using assms by (metis distinct_map keys_gm_range perm_iter_distinct)
  moreover have "distinct m" using assms(2) by (simp add: distinct_map)
  ultimately show ?thesis
    using set_gm_range [OF assms] by (simp add: set_eq_iff_mset_eq_distinct)
qed

section \<open>The contract of sort.Slice\<close>

lemma strict_weak_asym: "strict_weak lt \<Longrightarrow> lt x y \<Longrightarrow> \<not> lt y x"
  unfolding strict_weak_def by blast

lemma strict_weak_negtrans: "strict_weak lt \<Longrightarrow> \<not> lt x y \<Longrightarrow> \<not> lt y z \<Longrightarrow> \<not> lt x z"
  unfolding strict_weak_def by blast

locale sort_slice =
  fixes srt :: "('a \<Rightarrow> 'a \<Rightarrow> bool) \<Rightarrow> 'a list \<Rightarrow> 'a list"
  assumes sort_mset: "mset (srt lt xs) = mset xs"
    and sort_sorted: "strict_weak lt \<Longrightarrow> sorted_wrt (\<lambda>x y. \<not> lt y x) (srt lt xs)"
begin

lemma sort_set: "set (srt lt xs) = set xs"
  by (metis sort_mset set_mset_mset)

lemma sort_length: "length (srt lt xs) = length xs"
  by (metis sort_mset size_mset)

lemma sort_distinct: "distinct (srt lt xs) = distinct xs"
  by (metis sort_mset mset_eq_imp_distinct_iff)

text \<open>A prefix of the sorted slice holds only elements that nothing outside it precedes.\<close>

lemma sort_take_best:
  assumes "strict_weak lt" "distinct xs"
    and "x \<in> set (take n (srt lt xs))" "y \<in> set xs" "y \<notin> set (take n (srt lt xs))"
  shows "\<not> lt y x"
proof -
  let ?s = "srt lt xs"
  have "y \<in> set (drop n ?s)"
    using assms(4,5) by (metis Un_iff append_take_drop_id set_append sort_set)
  moreover have "sorted_wrt (\<lambda>x y. \<not> lt y x) (take n ?s @ drop n ?s)"
    using sort_sorted [OF assms(1)] by simp
  ultimately show ?thesis
    using assms(3) unfolding sorted_wrt_append by blast
qed

text \<open>When no two elements of the slice are tied, the contract determines the result.\<close>

lemma sort_unique:
  assumes "strict_weak lt"
    and ys: "mset ys = mset xs" "sorted_wrt lt ys"
  shows "srt lt xs = ys"
proof -
  have "sorted_wrt (\<lambda>x y. \<not> lt y x) zs \<Longrightarrow> mset zs = mset ys \<Longrightarrow> sorted_wrt lt ys \<Longrightarrow> zs = ys"
    for zs ys
  proof (induction ys arbitrary: zs)
    case (Cons y ys)
    then obtain z zs' where z: "zs = z # zs'" by (cases zs) auto
    have "z = y"
    proof (rule ccontr)
      assume "z \<noteq> y"
      then have "z \<in> set ys" "y \<in> set zs'"
        using Cons.prems(2) z by (metis list.set_intros(1) mset_eq_setD set_ConsD)+
      then show False using Cons.prems(1,3) z by auto
    qed
    with Cons z show ?case by simp
  qed simp
  then show ?thesis using sort_sorted [OF assms(1)] sort_mset ys by metis
qed

end

lemma mset_insert_by: "mset (insert_by lt x ys) = add_mset x (mset ys)"
  by (induction ys) auto

lemma set_insert_by: "set (insert_by lt x ys) = insert x (set ys)"
  by (metis mset_insert_by set_mset_add_mset_insert set_mset_mset)

lemma sorted_insert_by:
  assumes "strict_weak lt" "sorted_wrt (\<lambda>x y. \<not> lt y x) ys"
  shows "sorted_wrt (\<lambda>x y. \<not> lt y x) (insert_by lt x ys)"
  using assms(2)
proof (induction ys)
  case (Cons y ys)
  have tail: "\<forall>z\<in>set ys. \<not> lt z y" using Cons.prems by simp
  show ?case
  proof (cases "lt x y")
    case True
    then have "\<not> lt y x" using strict_weak_asym [OF assms(1)] by blast
    moreover from this have "\<forall>z\<in>set ys. \<not> lt z x"
      using tail strict_weak_negtrans [OF assms(1)] by blast
    ultimately show ?thesis using True Cons.prems by simp
  next
    case False
    then show ?thesis using tail Cons by (simp add: set_insert_by)
  qed
qed simp

lemma mset_fold_insert: "mset (fold (insert_by lt) xs acc) = mset xs + mset acc"
  by (induction xs arbitrary: acc) (auto simp: mset_insert_by)

lemma sorted_fold_insert:
  "strict_weak lt \<Longrightarrow> sorted_wrt (\<lambda>x y. \<not> lt y x) acc \<Longrightarrow>
   sorted_wrt (\<lambda>x y. \<not> lt y x) (fold (insert_by lt) xs acc)"
  by (induction xs arbitrary: acc) (auto simp: sorted_insert_by)

interpretation go_sort: sort_slice insertion_sort
  by unfold_locales (auto simp: insertion_sort_def mset_fold_insert sorted_fold_insert)

end
