(* ===== verification/Go_Strings.thy ===== *)
theory Go_Strings
  imports Prelude
begin

text \<open>
  The string functions of the Go library the sources call: \<open>strings.TrimPrefix\<close>,
  \<open>strings.TrimSuffix\<close>, \<open>strings.Split\<close>, \<open>strings.Join\<close>, \<open>filepath.Join\<close>,
  \<open>filepath.Ext\<close> and the formats \<open>%d\<close> and \<open>%x\<close>. A Go string is a sequence of bytes, as
  HOL's \<open>string\<close> is. The lemmas are the round trips (split and join undo each other) and the
  injectivity facts the components need.
\<close>

definition TrimPrefix :: "string \<Rightarrow> string \<Rightarrow> string" where
  "TrimPrefix s p = (if prefix p s then drop (length p) s else s)"

definition TrimSuffix :: "string \<Rightarrow> string \<Rightarrow> string" where
  "TrimSuffix s p = (if suffix p s then take (length s - length p) s else s)"

text \<open>\<open>strings.Split(s, c)\<close> for a one-byte separator; the empty string splits into one part.\<close>

fun Split :: "string \<Rightarrow> char \<Rightarrow> string list" where
  "Split [] c = [[]]"
| "Split (x # xs) c =
     (if x = c then [] # Split xs c
      else (case Split xs c of [] \<Rightarrow> [[x]] | p # ps \<Rightarrow> (x # p) # ps))"

fun Join :: "string list \<Rightarrow> string \<Rightarrow> string" where
  "Join [] sep = []"
| "Join [p] sep = p"
| "Join (p # q # ps) sep = p @ sep @ Join (q # ps) sep"

text \<open>\<open>%d\<close> of a non-negative and of a signed integer.\<close>

fun fmt_nat :: "nat \<Rightarrow> string" where
  "fmt_nat n =
     (if n < 10 then [''0123456789'' ! n] else fmt_nat (n div 10) @ [''0123456789'' ! (n mod 10)])"

definition fmt_d :: "int \<Rightarrow> string" where
  "fmt_d i = (if i < 0 then ''-'' @ fmt_nat (nat (- i)) else fmt_nat (nat i))"

text \<open>\<open>%x\<close> of a byte slice: two lower-case hexadecimal digits per byte.\<close>

definition hex_byte :: "char \<Rightarrow> string" where
  "hex_byte b = [''0123456789abcdef'' ! (of_char b div 16), ''0123456789abcdef'' ! (of_char b mod 16)]"

definition fmt_x :: "bytes \<Rightarrow> string" where
  "fmt_x bs = concat (map hex_byte bs)"

text \<open>
  \<open>filepath.Clean\<close> and \<open>filepath.Join\<close> (Unix): empty and \<open>.\<close> elements go, \<open>..\<close> removes the
  element before it, \<open>..\<close> at the root of an absolute path is dropped, and the empty result is \<open>.\<close>.
\<close>

definition clean_step :: "bool \<Rightarrow> string list \<Rightarrow> string \<Rightarrow> string list" where
  "clean_step rooted out e =
     (if e = '''' \<or> e = ''.'' then out
      else if e = ''..'' then
        (if out \<noteq> [] \<and> last out \<noteq> ''..'' then butlast out
         else if rooted then out else out @ [e])
      else out @ [e])"

definition filepath_Clean :: "string \<Rightarrow> string" where
  "filepath_Clean p =
     (let rooted = prefix ''/'' p;
          out = foldl (clean_step rooted) [] (Split p (CHR ''/''));
          body = Join out ''/''
      in if rooted then ''/'' @ body else if out = [] then ''.'' else body)"

definition filepath_Join :: "string \<Rightarrow> string \<Rightarrow> string" where
  "filepath_Join a b =
     (let parts = filter (\<lambda>e. e \<noteq> '''') [a, b]
      in if parts = [] then '''' else filepath_Clean (Join parts ''/''))"

text \<open>\<open>filepath.Ext\<close>: from the last dot of the last path element, empty without one.\<close>

definition filepath_Ext :: "string \<Rightarrow> string" where
  "filepath_Ext p =
     (let e = last (Split p (CHR ''/''))
      in if CHR ''.'' \<in> set e then CHR ''.'' # last (Split e (CHR ''.'')) else '''')"

section \<open>Trimming, splitting, joining\<close>

lemma TrimPrefix_append [simp]: "TrimPrefix (p @ s) p = s"
  by (simp add: TrimPrefix_def)

lemma TrimPrefix_Cons [simp]: "TrimPrefix (c # s) [c] = s"
  by (simp add: TrimPrefix_def)

lemma TrimPrefix_other: "\<not> prefix p s \<Longrightarrow> TrimPrefix s p = s"
  by (simp add: TrimPrefix_def)

lemma TrimSuffix_append [simp]: "TrimSuffix (s @ p) p = s"
  by (simp add: TrimSuffix_def suffix_def)

lemma TrimSuffix_other: "\<not> suffix p s \<Longrightarrow> TrimSuffix s p = s"
  by (simp add: TrimSuffix_def)

lemma Split_nonempty [simp]: "Split s c \<noteq> []"
  by (induction s) (auto split: list.splits)

lemma Split_no_sep: "p \<in> set (Split s c) \<Longrightarrow> c \<notin> set p"
proof (induction s arbitrary: p)
  case (Cons x s)
  then show ?case
    by (cases "Split s c") (auto split: if_splits)
qed simp

lemma Join_Cons: "ps \<noteq> [] \<Longrightarrow> Join (p # ps) sep = p @ sep @ Join ps sep"
  by (cases ps) auto

lemma Join_Split: "Join (Split s c) [c] = s"
proof (induction s)
  case (Cons x s)
  show ?case
  proof (cases "x = c")
    case True
    then show ?thesis using Cons by (simp add: Join_Cons)
  next
    case False
    obtain p ps where "Split s c = p # ps" by (cases "Split s c") auto
    then show ?thesis using Cons False by (cases ps) auto
  qed
qed simp

lemma Split_append_sep: "c \<notin> set p \<Longrightarrow> Split (p @ c # s) c = p # Split s c"
  by (induction p) auto

lemma Split_no_occ: "c \<notin> set p \<Longrightarrow> Split p c = [p]"
  by (induction p) auto

lemma Split_Join: "ps \<noteq> [] \<Longrightarrow> \<forall>p\<in>set ps. c \<notin> set p \<Longrightarrow> Split (Join ps [c]) c = ps"
  by (induction ps "[c]" rule: Join.induct) (auto simp: Split_append_sep Split_no_occ)

lemma Join_snoc: "ps \<noteq> [] \<Longrightarrow> Join (ps @ [q]) sep = Join ps sep @ sep @ q"
  by (induction ps sep rule: Join.induct) auto

lemma Split_snoc_part: "c \<notin> set name \<Longrightarrow> Split (s @ c # name) c = Split s c @ [name]"
proof -
  assume n: "c \<notin> set name"
  have "Join (Split s c @ [name]) [c] = s @ c # name"
    by (simp add: Join_snoc Join_Split)
  moreover have "\<forall>p\<in>set (Split s c @ [name]). c \<notin> set p" using n Split_no_sep by fastforce
  ultimately show ?thesis
    using Split_Join [of "Split s c @ [name]" c] by simp
qed

lemma Join_eq_Nil: "Join ps [c] = [] \<longleftrightarrow> ps = [] \<or> ps = [[]]"
  by (induction ps "[c]" rule: Join.induct) auto

lemma last_char_Split: "suffix [c] s \<longleftrightarrow> s \<noteq> [] \<and> last (Split s c) = []"
proof (induction s)
  case (Cons x s)
  obtain p ps where s: "Split s c = p # ps" by (cases "Split s c") auto
  show ?case
  proof (cases "s = []")
    case True
    then show ?thesis by (auto simp: suffix_def)
  next
    case False
    then have "suffix [c] (x # s) \<longleftrightarrow> suffix [c] s" by (simp add: suffix_Cons)
    moreover have "Split s c \<noteq> [[]]" using False Join_Split [of s c] by auto
    ultimately show ?thesis using Cons False s by auto
  qed
qed simp

section \<open>Numbers\<close>

declare fmt_nat.simps [simp del]

lemma digit_inj: "m < 10 \<Longrightarrow> n < 10 \<Longrightarrow> ''0123456789'' ! m = ''0123456789'' ! n \<Longrightarrow> m = n"
  by (rule nth_eq_iff_index_eq [THEN iffD1, of "''0123456789''"]) auto

lemma digit_range: "m < 10 \<Longrightarrow> ''0123456789'' ! m \<in> set ''0123456789''"
  by (rule nth_mem) simp

lemma fmt_nat_digits: "set (fmt_nat n) \<subseteq> set ''0123456789''"
proof (induction n rule: fmt_nat.induct)
  case (1 n)
  show ?case
  proof (cases "n < 10")
    case True
    then show ?thesis
      using digit_range [of n] by (simp only: fmt_nat.simps [of n] if_True) simp
  next
    case False
    then show ?thesis
      using 1 digit_range [of "n mod 10"]
      by (simp only: fmt_nat.simps [of n] if_False set_append) simp
  qed
qed

lemma fmt_nat_nonempty [simp]: "fmt_nat n \<noteq> []"
  by (subst fmt_nat.simps) simp

lemma fmt_nat_length: "length (fmt_nat n) = 1 \<longleftrightarrow> n < 10"
  by (subst fmt_nat.simps) simp

lemma fmt_nat_inj: "fmt_nat m = fmt_nat n \<Longrightarrow> m = n"
proof (induction m arbitrary: n rule: fmt_nat.induct)
  case (1 m)
  have small: "m < 10 \<longleftrightarrow> n < 10" using 1(2) by (metis fmt_nat_length)
  show ?case
  proof (cases "m < 10")
    case True
    then show ?thesis
      using 1(2) small digit_inj by (simp add: fmt_nat.simps [of m] fmt_nat.simps [of n])
  next
    case False
    then have eq: "fmt_nat (m div 10) @ [''0123456789'' ! (m mod 10)] =
        fmt_nat (n div 10) @ [''0123456789'' ! (n mod 10)]"
      using 1(2) small by (simp only: fmt_nat.simps [of m] fmt_nat.simps [of n] if_False)
    then have "m div 10 = n div 10" using 1(1) False by simp
    moreover have "m mod 10 = n mod 10" using eq digit_inj by simp
    ultimately show ?thesis by (metis div_mult_mod_eq)
  qed
qed

lemma fmt_d_of_nat [simp]: "fmt_d (int n) = fmt_nat n"
  by (simp add: fmt_d_def)

section \<open>Hexadecimal\<close>

lemma hex_digit_inj:
  "m < 16 \<Longrightarrow> n < 16 \<Longrightarrow> ''0123456789abcdef'' ! m = ''0123456789abcdef'' ! n \<Longrightarrow> m = n"
  by (rule nth_eq_iff_index_eq [THEN iffD1, of "''0123456789abcdef''"]) auto

lemma high_nibble: "of_char b div 16 < (16::nat)"
  using nat_of_char_less_256 [of b] by (intro less_mult_imp_div_less) linarith

lemma hex_byte_inj: "hex_byte a = hex_byte b \<Longrightarrow> a = b"
proof -
  assume eq: "hex_byte a = hex_byte b"
  have "of_char a div 16 = (of_char b div 16 :: nat)" "of_char a mod 16 = (of_char b mod 16 :: nat)"
    using eq high_nibble by (auto simp: hex_byte_def intro!: hex_digit_inj)
  then have "of_char a = (of_char b :: nat)" by (metis div_mult_mod_eq)
  then show "a = b" by (metis of_char_eq_iff)
qed

lemma fmt_x_length: "length (fmt_x bs) = 2 * length bs"
  by (induction bs) (auto simp: fmt_x_def hex_byte_def)

lemma fmt_x_inj: "fmt_x a = fmt_x b \<Longrightarrow> a = b"
proof (induction a arbitrary: b)
  case Nil
  then show ?case by (cases b) (auto simp: fmt_x_def hex_byte_def)
next
  case (Cons x a)
  then obtain y b' where b: "b = y # b'" by (cases b) (auto simp: fmt_x_def hex_byte_def)
  have "length (hex_byte x) = length (hex_byte y)" by (simp add: hex_byte_def)
  then have "hex_byte x = hex_byte y \<and> fmt_x a = fmt_x b'"
    using Cons.prems b by (simp add: fmt_x_def)
  then show ?case using Cons.IH b hex_byte_inj by blast
qed

lemma hex_byte_digits: "set (hex_byte b) \<subseteq> set ''0123456789abcdef''"
proof -
  have len: "length ''0123456789abcdef'' = 16" by simp
  have "''0123456789abcdef'' ! (of_char b div 16) \<in> set ''0123456789abcdef''"
    by (intro nth_mem) (simp only: len high_nibble)
  moreover have "''0123456789abcdef'' ! (of_char b mod 16) \<in> set ''0123456789abcdef''"
    by (intro nth_mem) simp
  ultimately show ?thesis unfolding hex_byte_def by simp
qed

lemma fmt_x_digits: "set (fmt_x bs) \<subseteq> set ''0123456789abcdef''"
  unfolding fmt_x_def using hex_byte_digits by fastforce

section \<open>Fixed-point formatting\<close>

text \<open>
  \<open>%.pf\<close> of a floating-point value: the nearest decimal with \<open>p\<close> digits after the point, ties to
  even; with \<open>signed\<close> (the \<open>+\<close> flag) a sign is always written.
\<close>

definition round_even :: "real \<Rightarrow> int" where
  "round_even x =
     (let f = \<lfloor>x\<rfloor>; d = x - real_of_int f
      in if d < 1 / 2 then f else if 1 / 2 < d then f + 1 else if even f then f else f + 1)"

definition pad_zeros :: "nat \<Rightarrow> string \<Rightarrow> string" where
  "pad_zeros n s = replicate (n - length s) CHR ''0'' @ s"

definition fmt_f :: "bool \<Rightarrow> nat \<Rightarrow> real \<Rightarrow> string" where
  "fmt_f signed p x =
     (let ds = pad_zeros (p + 1) (fmt_nat (nat (round_even (\<bar>x\<bar> * 10 ^ p))));
          k = length ds - p
      in (if x < 0 then ''-'' else if signed then ''+'' else '''') @
         take k ds @ (if p = 0 then '''' else ''.'' @ drop k ds))"

end
