(* ===== verification/Common.thy ===== *)
theory Common
  imports Go_Strings
begin

text \<open>
  Package \<^verbatim>\<open>internal/common\<close>: the configuration constants and \<open>RiskToStatus\<close>
  (\<^verbatim>\<open>config.go\<close>), chunk identifiers, checksums, and splitting a file into chunks and back
  (\<^verbatim>\<open>utils.go\<close>).

  SHA-256 is an argument \<open>sha\<close> of the definitions that call it, so every result holds for the
  real function; what a result needs of it is a hypothesis. Durations are in nanoseconds. A
  \<open>float64\<close> is a \<open>real\<close>. Reading a file is given by \<open>os_Open\<close> (what \<open>os.Open\<close> finds at a path:
  an error or the content) and by \<open>rd\<close>, which says for each position how many bytes one
  \<open>Read\<close> call delivers (at least one before the end, at most the buffer) or that it fails.
\<close>

section \<open>config.go\<close>

definition ChunkSize :: int where
  "ChunkSize = 4 * 1024 * 1024"

definition DefaultReplicationFactor :: int where
  "DefaultReplicationFactor = 3"

definition Second :: duration where
  "Second = 1000000000"

definition Minute :: duration where
  "Minute = 60 * Second"

definition Hour :: duration where
  "Hour = 60 * Minute"

definition HeartbeatInterval :: duration where
  "HeartbeatInterval = 3 * Second"

definition MetricsReportInterval :: duration where
  "MetricsReportInterval = 5 * Second"

definition DeadNodeTimeout :: duration where
  "DeadNodeTimeout = 15 * Second"

definition RiskHealthy :: real where
  "RiskHealthy = 0.25"

definition RiskWarning :: real where
  "RiskWarning = 0.45"

definition RiskAtRisk :: real where
  "RiskAtRisk = 0.55"

definition RiskCritical :: real where
  "RiskCritical = 0.55"

definition WindowShort :: duration where
  "WindowShort = 5 * Minute"

definition WindowMedium :: duration where
  "WindowMedium = 15 * Minute"

definition WindowLong :: duration where
  "WindowLong = 1 * Hour"

datatype NodeStatus =
  StatusHealthy | StatusWarning | StatusAtRisk | StatusCritical | StatusDead

fun status_string :: "NodeStatus \<Rightarrow> string" where
  "status_string StatusHealthy = ''HEALTHY''"
| "status_string StatusWarning = ''WARNING''"
| "status_string StatusAtRisk = ''AT_RISK''"
| "status_string StatusCritical = ''CRITICAL''"
| "status_string StatusDead = ''DEAD''"

definition RiskToStatus :: "real \<Rightarrow> NodeStatus" where
  "RiskToStatus risk =
     (if risk < RiskHealthy then StatusHealthy
      else if risk < RiskWarning then StatusWarning
      else if risk < RiskAtRisk then StatusAtRisk
      else StatusCritical)"

text \<open>The statuses in the order of their severity.\<close>

fun severity :: "NodeStatus \<Rightarrow> nat" where
  "severity StatusHealthy = 0"
| "severity StatusWarning = 1"
| "severity StatusAtRisk = 2"
| "severity StatusCritical = 3"
| "severity StatusDead = 4"

lemma severity_inj: "severity a = severity b \<longleftrightarrow> a = b"
  by (cases a; cases b) simp_all

instantiation NodeStatus :: linorder
begin

definition less_eq_NodeStatus :: "NodeStatus \<Rightarrow> NodeStatus \<Rightarrow> bool" where
  "a \<le> b \<longleftrightarrow> severity a \<le> severity b"

definition less_NodeStatus :: "NodeStatus \<Rightarrow> NodeStatus \<Rightarrow> bool" where
  "a < b \<longleftrightarrow> severity a < severity b"

instance
  by standard (auto simp: less_eq_NodeStatus_def less_NodeStatus_def severity_inj)

end

lemma status_le_Warning: "st \<le> StatusWarning \<longleftrightarrow> st = StatusHealthy \<or> st = StatusWarning"
  by (cases st) (simp_all add: less_eq_NodeStatus_def)

lemma status_le_Dead [simp]: "st \<le> StatusDead"
  by (cases st) (simp_all add: less_eq_NodeStatus_def)

text \<open>A higher risk never gives a milder status, and no risk gives \<open>DEAD\<close>.\<close>

lemma RiskToStatus_mono: "mono RiskToStatus"
  by (rule monoI) (auto simp: RiskToStatus_def RiskHealthy_def RiskWarning_def RiskAtRisk_def less_eq_NodeStatus_def)

lemma RiskToStatus_alive: "RiskToStatus risk < StatusDead"
  by (simp add: RiskToStatus_def less_NodeStatus_def)

section \<open>utils.go\<close>

definition chunk_key :: "string \<Rightarrow> int \<Rightarrow> bytes" where
  "chunk_key filePath chunkIndex = filePath @ '':chunk:'' @ fmt_d chunkIndex"

definition GenerateChunkID :: "(bytes \<Rightarrow> bytes) \<Rightarrow> string \<Rightarrow> int \<Rightarrow> string" where
  "GenerateChunkID sha filePath chunkIndex = fmt_x (take 8 (sha (chunk_key filePath chunkIndex)))"

definition DataChecksum :: "(bytes \<Rightarrow> bytes) \<Rightarrow> bytes \<Rightarrow> string" where
  "DataChecksum sha data = fmt_x (sha data)"

text \<open>\<open>copy_err\<close>: the error \<open>io.Copy\<close> meets while reading the file, if any.\<close>

definition FileChecksum ::
  "(bytes \<Rightarrow> bytes) \<Rightarrow> (string \<Rightarrow> string + bytes) \<Rightarrow> string option \<Rightarrow> string \<Rightarrow> string + string" where
  "FileChecksum sha os_Open copy_err path =
     (case os_Open path of
        Inl e \<Rightarrow> Inl (''open file: '' @ e)
      | Inr data \<Rightarrow>
          (case copy_err of
             Some e \<Rightarrow> Inl (''compute checksum: '' @ e)
           | None \<Rightarrow> Inr (fmt_x (sha data))))"

text \<open>The read loop: one \<open>Read\<close> into a buffer of \<open>bufsz\<close> bytes per round, until end of file.\<close>

function read_loop ::
  "nat \<Rightarrow> (nat \<Rightarrow> string + nat) \<Rightarrow> bytes \<Rightarrow> nat \<Rightarrow> bytes list \<Rightarrow> string + bytes list" where
  "read_loop bufsz rd data pos chunks =
     (case rd pos of
        Inl e \<Rightarrow> Inl e
      | Inr k \<Rightarrow>
          (if length data \<le> pos then Inr chunks
           else
             let n = max 1 (min k (min bufsz (length data - pos)))
             in read_loop bufsz rd data (pos + n) (chunks @ [take n (drop pos data)])))"
  by pat_completeness auto
termination
  by (relation "measure (\<lambda>(b, rd, data, pos, c). length data - pos)") auto

definition ChunkFile ::
  "(string \<Rightarrow> string + bytes) \<Rightarrow> (nat \<Rightarrow> string + nat) \<Rightarrow> string \<Rightarrow> string + bytes list" where
  "ChunkFile os_Open rd path =
     (case os_Open path of
        Inl e \<Rightarrow> Inl (''open file: '' @ e)
      | Inr data \<Rightarrow>
          (case read_loop (nat ChunkSize) rd data 0 [] of
             Inl e \<Rightarrow> Inl (''read file: '' @ e)
           | Inr chunks \<Rightarrow> Inr chunks))"

text \<open>
  \<open>ReassembleChunks\<close> creates the destination file and appends the chunks; \<open>create_err\<close> and
  \<open>write_err i\<close> are the errors of \<open>os.Create\<close> and of the write of chunk \<open>i\<close>. The result is the
  content of the file, if it was created, and the error.
\<close>

fun write_chunks :: "(nat \<Rightarrow> string option) \<Rightarrow> nat \<Rightarrow> bytes list \<Rightarrow> bytes \<Rightarrow> bytes \<times> string option" where
  "write_chunks write_err i [] f = (f, None)"
| "write_chunks write_err i (chunk # chunks) f =
     (case write_err i of
        Some e \<Rightarrow> (f, Some (''write chunk '' @ fmt_nat i @ '': '' @ e))
      | None \<Rightarrow> write_chunks write_err (Suc i) chunks (f @ chunk))"

definition ReassembleChunks ::
  "string option \<Rightarrow> (nat \<Rightarrow> string option) \<Rightarrow> bytes list \<Rightarrow> bytes option \<times> string option" where
  "ReassembleChunks create_err write_err chunks =
     (case create_err of
        Some e \<Rightarrow> (None, Some (''create file: '' @ e))
      | None \<Rightarrow> (case write_chunks write_err 0 chunks [] of (f, err) \<Rightarrow> (Some f, err)))"

section \<open>Chunk identifiers\<close>

lemma chunk_key_inj:
  assumes "chunk_key p i = chunk_key q j" "0 \<le> i" "0 \<le> j"
  shows "p = q \<and> i = j"
proof -
  obtain m n where mn: "i = int m" "j = int n" using assms(2,3) by (metis nonneg_int_cases)
  have tail: "takeWhile (\<lambda>c. c \<noteq> CHR '':'') (rev (chunk_key r (int k))) = rev (fmt_nat k)" for r k
  proof -
    have "\<forall>c\<in>set (rev (fmt_nat k)). c \<noteq> CHR '':''" using fmt_nat_digits by fastforce
    then show ?thesis by (subst chunk_key_def) (simp add: takeWhile_append)
  qed
  have "rev (fmt_nat m) = rev (fmt_nat n)"
    using assms(1) tail [of p m] tail [of q n] mn by simp
  then have "m = n" using fmt_nat_inj by simp
  then show ?thesis using assms(1) mn by (simp add: chunk_key_def)
qed

text \<open>Distinct chunks share an identifier only if the first eight digest bytes collide.\<close>

lemma GenerateChunkID_inj:
  assumes "inj_on (\<lambda>s. take 8 (sha s)) K"
    and "chunk_key p i \<in> K" "chunk_key q j \<in> K" "0 \<le> i" "0 \<le> j"
    and "GenerateChunkID sha p i = GenerateChunkID sha q j"
  shows "p = q \<and> i = j"
proof -
  have "take 8 (sha (chunk_key p i)) = take 8 (sha (chunk_key q j))"
    using assms(6) by (auto simp: GenerateChunkID_def dest: fmt_x_inj)
  then have "chunk_key p i = chunk_key q j" using assms(1-3) by (auto dest: inj_onD)
  then show ?thesis using assms(4,5) by (rule chunk_key_inj)
qed

lemma path_ids_inj:
  assumes "inj_on (\<lambda>s. take 8 (sha s)) K" "\<forall>i<n. chunk_key path (int i) \<in> K"
  shows "inj_on (\<lambda>i. GenerateChunkID sha path (int i)) {..<n}"
proof (rule inj_onI)
  fix i j assume "i \<in> {..<n}" "j \<in> {..<n}" "GenerateChunkID sha path (int i) = GenerateChunkID sha path (int j)"
  then show "i = j" using GenerateChunkID_inj [OF assms(1), of path "int i" path "int j"] assms(2) by simp
qed

section \<open>Splitting and reassembling files\<close>

declare read_loop.simps [simp del]

lemma read_loop_concat:
  assumes "read_loop b rd data pos acc = Inr cs" "0 < b"
  shows "\<exists>new. cs = acc @ new \<and> concat new = drop pos data \<and> (\<forall>c\<in>set new. c \<noteq> [] \<and> length c \<le> b)"
  using assms
proof (induction b rd data pos acc rule: read_loop.induct)
  case (1 b rd data pos acc)
  from "1.prems" obtain k where k: "rd pos = Inr k"
    by (cases "rd pos") (auto simp: read_loop.simps [of b rd data pos acc])
  show ?case
  proof (cases "length data \<le> pos")
    case True
    then show ?thesis using "1.prems" k by (auto simp: read_loop.simps [of b rd data pos acc])
  next
    case False
    define n where "n = max 1 (min k (min b (length data - pos)))"
    have n: "0 < n" "n \<le> b" "n \<le> length data - pos"
      using False "1.prems"(2) by (auto simp: n_def)
    have "read_loop b rd data (pos + n) (acc @ [take n (drop pos data)]) = Inr cs"
      using "1.prems" k False by (simp add: read_loop.simps [of b rd data pos acc] n_def Let_def)
    from "1.IH" [OF k False n_def this "1.prems"(2)]
    obtain new where new: "cs = (acc @ [take n (drop pos data)]) @ new"
      "concat new = drop (pos + n) data" "\<forall>c\<in>set new. c \<noteq> [] \<and> length c \<le> b" by blast
    have "concat (take n (drop pos data) # new) = drop pos data"
      using new(2) append_take_drop_id [of n "drop pos data"] by (simp add: add.commute)
    moreover have "take n (drop pos data) \<noteq> []" "length (take n (drop pos data)) \<le> b"
      using n False by auto
    ultimately show ?thesis
      using new by (intro exI [of _ "take n (drop pos data) # new"]) auto
  qed
qed

text \<open>When every read fills the buffer, all chunks but the last have the full size.\<close>

lemma read_loop_full:
  assumes "\<And>p. rd p = Inr b" "0 < b"
  shows "\<exists>new. read_loop b rd data pos acc = Inr (acc @ new) \<and>
    length new = (length data - pos + b - 1) div b \<and>
    (\<forall>i<length new. length (new ! i) = min b (length data - (pos + i * b)))"
  using assms
proof (induction b rd data pos acc rule: read_loop.induct)
  case (1 b rd data pos acc)
  show ?case
  proof (cases "length data \<le> pos")
    case True
    then show ?thesis using "1.prems"(2) "1.prems"(1) [of pos]
      by (subst read_loop.simps) simp
  next
    case False
    define n where "n = max 1 (min b (min b (length data - pos)))"
    have n: "n = min b (length data - pos)" using False "1.prems"(2) by (auto simp: n_def)
    define c where "c = take n (drop pos data)"
    from "1.IH" [OF "1.prems"(1) False n_def "1.prems"]
    obtain new where new:
      "read_loop b rd data (pos + n) (acc @ [c]) = Inr ((acc @ [c]) @ new)"
      "length new = (length data - (pos + n) + b - 1) div b"
      "\<forall>i<length new. length (new ! i) = min b (length data - (pos + n + i * b))"
      unfolding c_def by blast
    have eq: "read_loop b rd data pos acc = Inr (acc @ c # new)"
      using new(1) "1.prems" False
      by (simp add: read_loop.simps [of b rd data pos acc] n_def c_def Let_def)
    have len: "length (c # new) = (length data - pos + b - 1) div b"
    proof (cases "length data - pos \<le> b")
      case True
      then have "length new = 0" using new(2) n "1.prems"(2) by simp
      moreover have "(length data - pos + b - 1) div b = 1"
        using True False "1.prems"(2) by (intro div_nat_eqI) auto
      ultimately show ?thesis by simp
    next
      case big: False
      then have "length data - pos + b - 1 = b + (length data - (pos + n) + b - 1)"
        using n by auto
      then have "(length data - pos + b - 1) div b = (length data - (pos + n) + b - 1) div b + 1"
        using "1.prems"(2) by (metis div_add_self1 neq0_conv)
      then show ?thesis using new(2) by simp
    qed
    have "length ((c # new) ! i) = min b (length data - (pos + i * b))" if "i < length (c # new)" for i
    proof (cases i)
      case 0
      then show ?thesis using n by (simp add: c_def)
    next
      case (Suc j)
      then have j: "j < length new" using that by simp
      then have "0 < length new" by auto
      then have "n = b" using new(2) n "1.prems"(2) by (cases "length data - pos \<le> b") auto
      then show ?thesis using Suc j new(3) by (simp add: algebra_simps)
    qed
    then show ?thesis using eq len by blast
  qed
qed

lemma write_chunks_ok: "(\<And>j. write_err j = None) \<Longrightarrow> write_chunks write_err i cs f = (f @ concat cs, None)"
  by (induction cs arbitrary: i f) auto

lemma ChunkFile_concat:
  assumes "ChunkFile os_Open rd path = Inr chunks" "os_Open path = Inr data"
  shows "concat chunks = data" and "\<forall>c\<in>set chunks. c \<noteq> [] \<and> int (length c) \<le> ChunkSize"
proof -
  have r: "read_loop (nat ChunkSize) rd data 0 [] = Inr chunks"
    using assms by (auto simp: ChunkFile_def split: sum.splits)
  have "0 < nat ChunkSize" by (simp add: ChunkSize_def)
  from read_loop_concat [OF r this] show "concat chunks = data"
    and "\<forall>c\<in>set chunks. c \<noteq> [] \<and> int (length c) \<le> ChunkSize"
    by (auto simp: le_nat_iff ChunkSize_def)
qed

end
