(* ===== verification/Namespace.thy ===== *)
theory Namespace
  imports Common
begin

text \<open>
  \<^verbatim>\<open>internal/metaserver/namespace.go\<close>: the in-memory tree of directories and files.

  A \<open>*DirEntry\<close> is a value of the datatype \<open>DirEntry\<close> with the fields of the struct; a nil
  \<open>Children\<close> map is the empty map. The state of a \<open>Namespace\<close> is its root entry. A pointer into
  the tree that an operation writes through is the path of component names leading to it, so
  \<open>mkdirAll\<close> returns that path with the entry it points to, and \<open>at_path\<close> performs the write.
  Both the success and the error results carry the tree after the call, so partial effects of a
  failing call are visible.

  \<open>ns_files\<close> abstracts the tree to a map from component lists to file metadata; the interface
  \<open>file_namespace\<close> states what the metadata server relies on in terms of that map, and is
  interpreted on the operations of the tree.
\<close>

section \<open>Data\<close>

record FileMeta =
  fm_Path :: string
  fm_Size :: int
  fm_ChunkCount :: int
  fm_ReplicationFactor :: int
  fm_Checksum :: string
  fm_ChunkIDs :: "string list"
  fm_CreatedAt :: time

datatype DirEntry =
  DirEntry (deName: string) (deIsDir: bool) (deChildren: "(string \<times> DirEntry) list")
    (deFile: "FileMeta option")

datatype ns_error =
    EmptyPath
  | CreateParentDirs ns_error
  | IsADirectory string
  | IsADirectoryUseRmdir string
  | NotADirectory string
  | PathNotFound string
  | FileNotFound string
  | ParentNotFound ns_error
  | ComponentIsFile string

fun ns_Error :: "ns_error \<Rightarrow> string" where
  "ns_Error EmptyPath = ''empty path''"
| "ns_Error (CreateParentDirs e) = ''create parent dirs: '' @ ns_Error e"
| "ns_Error (IsADirectory p) = ''path '' @ p @ '' is a directory''"
| "ns_Error (IsADirectoryUseRmdir p) = ''path '' @ p @ '' is a directory, use rmdir''"
| "ns_Error (NotADirectory p) = ''path '' @ p @ '' is not a directory''"
| "ns_Error (PathNotFound p) = ''path not found: '' @ p"
| "ns_Error (FileNotFound p) = ''file not found: '' @ p"
| "ns_Error (ParentNotFound e) = ''parent directory not found: '' @ ns_Error e"
| "ns_Error (ComponentIsFile p) = ''path component '' @ p @ '' is a file''"

section \<open>Operations\<close>

definition NewNamespace :: DirEntry where
  "NewNamespace = DirEntry ''/'' True [] None"

definition ns_splitPath :: "string \<Rightarrow> ns_error + string \<times> string" where
  "ns_splitPath path =
     (let path = TrimPrefix path ''/''
      in if path = '''' then Inl EmptyPath
         else
           let parts = Split path (CHR ''/'')
           in Inr (''/'' @ Join (butlast parts) ''/'', last parts))"

definition ns_cleanPath :: "string \<Rightarrow> string list" where
  "ns_cleanPath path =
     (let path = TrimSuffix (TrimPrefix path ''/'') ''/''
      in if path = '''' then [] else Split path (CHR ''/''))"

fun walk :: "string list \<Rightarrow> DirEntry \<Rightarrow> DirEntry option" where
  "walk [] current = Some current"
| "walk (part # parts) current =
     (case map_of (deChildren current) part of
        None \<Rightarrow> None
      | Some child \<Rightarrow> walk parts child)"

definition ns_resolve :: "DirEntry \<Rightarrow> string \<Rightarrow> ns_error + DirEntry" where
  "ns_resolve rt path =
     (case walk (ns_cleanPath path) rt of
        None \<Rightarrow> Inl (PathNotFound path)
      | Some e \<Rightarrow> Inr e)"

text \<open>The directory a path names, with the path of the pointer returned.\<close>

definition ns_resolveDir :: "DirEntry \<Rightarrow> string \<Rightarrow> ns_error + string list \<times> DirEntry" where
  "ns_resolveDir rt path =
     (if path = ''/'' \<or> path = '''' then Inr ([], rt)
      else
        case ns_resolve rt path of
          Inl e \<Rightarrow> Inl e
        | Inr entry \<Rightarrow>
            if \<not> deIsDir entry then Inl (NotADirectory path)
            else Inr (ns_cleanPath path, entry))"

definition set_child :: "string \<Rightarrow> DirEntry \<Rightarrow> DirEntry \<Rightarrow> DirEntry" where
  "set_child name c d = DirEntry (deName d) (deIsDir d) (AList.update name c (deChildren d)) (deFile d)"

definition del_child :: "string \<Rightarrow> DirEntry \<Rightarrow> DirEntry" where
  "del_child name d = DirEntry (deName d) (deIsDir d) (AList.delete name (deChildren d)) (deFile d)"

text \<open>A write through the pointer that a path denotes.\<close>

fun at_path :: "string list \<Rightarrow> (DirEntry \<Rightarrow> DirEntry) \<Rightarrow> DirEntry \<Rightarrow> DirEntry" where
  "at_path [] f d = f d"
| "at_path (p # ps) f d =
     (case map_of (deChildren d) p of
        None \<Rightarrow> d
      | Some c \<Rightarrow> set_child p (at_path ps f c) d)"

text \<open>The loop of \<open>mkdirAll\<close>: the directory after it, and the entry reached or the error.\<close>

fun mkdir_loop :: "string list \<Rightarrow> DirEntry \<Rightarrow> DirEntry \<times> (ns_error + DirEntry)" where
  "mkdir_loop [] current = (current, Inr current)"
| "mkdir_loop (part # parts) current =
     (case map_of (deChildren current) part of
        None \<Rightarrow>
          (case mkdir_loop parts (DirEntry part True [] None) of
             (child, r) \<Rightarrow> (set_child part child current, r))
      | Some child \<Rightarrow>
          if \<not> deIsDir child then (current, Inl (ComponentIsFile part))
          else
            (case mkdir_loop parts child of
               (child, r) \<Rightarrow> (set_child part child current, r)))"

definition ns_mkdirAll ::
  "DirEntry \<Rightarrow> string \<Rightarrow> DirEntry \<times> (ns_error + string list \<times> DirEntry)" where
  "ns_mkdirAll rt path =
     (if path = ''/'' \<or> path = '''' then (rt, Inr ([], rt))
      else
        case mkdir_loop (ns_cleanPath path) rt of
          (rt', Inl e) \<Rightarrow> (rt', Inl e)
        | (rt', Inr d) \<Rightarrow> (rt', Inr (ns_cleanPath path, d)))"

definition ns_CreateFile ::
  "DirEntry \<Rightarrow> string \<Rightarrow> FileMeta \<Rightarrow> DirEntry \<times> (ns_error + unit)" where
  "ns_CreateFile rt path meta =
     (case ns_splitPath path of
        Inl e \<Rightarrow> (rt, Inl e)
      | Inr (dir, name) \<Rightarrow>
          (case ns_mkdirAll rt dir of
             (rt1, Inl e) \<Rightarrow> (rt1, Inl (CreateParentDirs e))
           | (rt1, Inr (ptr, parent)) \<Rightarrow>
               let write = (at_path ptr (set_child name (DirEntry name False [] (Some meta))) rt1,
                            Inr ())
               in case map_of (deChildren parent) name of
                    Some existing \<Rightarrow>
                      if deIsDir existing then (rt1, Inl (IsADirectory path)) else write
                  | None \<Rightarrow> write))"

definition ns_GetFile :: "DirEntry \<Rightarrow> string \<Rightarrow> ns_error + FileMeta option" where
  "ns_GetFile rt path =
     (case ns_resolve rt path of
        Inl e \<Rightarrow> Inl e
      | Inr entry \<Rightarrow>
          if deIsDir entry then Inl (IsADirectory path) else Inr (deFile entry))"

definition ns_DeleteFile ::
  "DirEntry \<Rightarrow> string \<Rightarrow> DirEntry \<times> (ns_error + FileMeta option)" where
  "ns_DeleteFile rt path =
     (case ns_splitPath path of
        Inl e \<Rightarrow> (rt, Inl e)
      | Inr (dir, name) \<Rightarrow>
          (case ns_resolveDir rt dir of
             Inl e \<Rightarrow> (rt, Inl (ParentNotFound e))
           | Inr (ptr, parent) \<Rightarrow>
               (case map_of (deChildren parent) name of
                  None \<Rightarrow> (rt, Inl (FileNotFound path))
                | Some entry \<Rightarrow>
                    if deIsDir entry then (rt, Inl (IsADirectoryUseRmdir path))
                    else (at_path ptr (del_child name) rt, Inr (deFile entry)))))"

definition ns_ListDir :: "iter \<Rightarrow> DirEntry \<Rightarrow> string \<Rightarrow> ns_error + DirEntry list" where
  "ns_ListDir it rt path =
     (case (if path = ''/'' \<or> path = '''' then Inr rt else ns_resolve rt path) of
        Inl e \<Rightarrow> Inl e
      | Inr dir \<Rightarrow>
          if \<not> deIsDir dir then Inl (NotADirectory path)
          else Inr (map snd (gm_range it (deChildren dir))))"

definition ns_FileExists :: "DirEntry \<Rightarrow> string \<Rightarrow> bool" where
  "ns_FileExists rt path =
     (case ns_resolve rt path of
        Inl e \<Rightarrow> False
      | Inr entry \<Rightarrow> \<not> deIsDir entry)"

function ns_walkFiles :: "iter \<Rightarrow> DirEntry \<Rightarrow> FileMeta list" where
  "ns_walkFiles it (DirEntry name is_dir children file) =
     (if \<not> is_dir \<and> file \<noteq> None then [the file]
      else concat (map (\<lambda>k. case map_of children k of
                              Some child \<Rightarrow> ns_walkFiles it child
                            | None \<Rightarrow> [])
                       (it (map fst children))))"
  by pat_completeness auto

lemma child_size: "map_of ch k = Some c \<Longrightarrow> size c < size (DirEntry n d ch f)"
proof -
  assume "map_of ch k = Some c"
  then have "(k, c) \<in> set ch" by (rule map_of_SomeD)
  then have "size_prod (\<lambda>_. 0) size (k, c) \<le> size_list (size_prod (\<lambda>_. 0) size) ch"
    by (rule size_list_estimation') simp
  then show ?thesis by simp
qed

termination ns_walkFiles
  by (relation "measure (size \<circ> snd)") (auto simp: child_size comp_def simp del: DirEntry.size)

definition ns_GetAllFiles :: "iter \<Rightarrow> DirEntry \<Rightarrow> FileMeta list" where
  "ns_GetAllFiles it rt = ns_walkFiles it rt"

section \<open>Specification\<close>

text \<open>Well-formed trees: distinct names, entries filed under their names, files are leaves.\<close>

fun ns_wf :: "DirEntry \<Rightarrow> bool" where
  "ns_wf (DirEntry n d ch f) \<longleftrightarrow>
     gm_wf ch \<and> (if d then f = None else ch = [] \<and> f \<noteq> None) \<and>
     (\<forall>(k, c) \<in> set ch. deName c = k \<and> ns_wf c)"

text \<open>The files of a tree, by the list of components that leads to each.\<close>

definition ns_files :: "DirEntry \<Rightarrow> string list \<Rightarrow> FileMeta option" where
  "ns_files rt ps =
     (case walk ps rt of
        None \<Rightarrow> None
      | Some e \<Rightarrow> if deIsDir e then None else deFile e)"

text \<open>
  Where \<open>CreateFile\<close> and \<open>DeleteFile\<close> put a path, and where \<open>GetFile\<close> looks for it. The two
  agree on \<open>plain\<close> paths.
\<close>

definition ns_target :: "string \<Rightarrow> string list" where
  "ns_target path =
     (case ns_splitPath path of
        Inl e \<Rightarrow> []
      | Inr (dir, name) \<Rightarrow> ns_cleanPath dir @ [name])"

definition plain :: "string \<Rightarrow> bool" where
  "plain path \<longleftrightarrow>
     TrimPrefix path ''/'' \<noteq> '''' \<and>
     (let parts = Split (TrimPrefix path ''/'') (CHR ''/'')
      in last parts \<noteq> '''' \<and> (butlast parts = [] \<or> last (butlast parts) \<noteq> ''''))"

text \<open>Writes that leave an entry's own fields alone.\<close>

definition keeps_shape :: "(DirEntry \<Rightarrow> DirEntry) \<Rightarrow> bool" where
  "keeps_shape f \<longleftrightarrow> (\<forall>d. deName (f d) = deName d \<and> deIsDir (f d) = deIsDir d \<and> deFile (f d) = deFile d)"

section \<open>Paths\<close>

lemma Split_snoc: "Split (s @ [c]) c = Split s c @ [[]]"
  using Split_snoc_part [of c "[]" s] by simp

lemma cleanPath_root [simp]: "ns_cleanPath ''/'' = []" "ns_cleanPath '''' = []"
  by (simp_all add: ns_cleanPath_def TrimPrefix_def TrimSuffix_def)

lemma cleanPath_Join:
  assumes "\<forall>p\<in>set ps. CHR ''/'' \<notin> set p" "ps \<noteq> [] \<Longrightarrow> last ps \<noteq> ''''"
  shows "ns_cleanPath (''/'' @ Join ps ''/'') = ps"
proof (cases "ps = []")
  case False
  have split: "Split (Join ps ''/'') (CHR ''/'') = ps" by (rule Split_Join [OF False assms(1)])
  have "Join ps ''/'' \<noteq> ''''" using False assms(2) by (auto simp: Join_eq_Nil)
  moreover have "\<not> suffix ''/'' (Join ps ''/'')"
    using assms(2) False split by (simp add: last_char_Split)
  ultimately show ?thesis using split by (simp add: ns_cleanPath_def TrimSuffix_other Let_def)
qed simp

lemma splitPath_parts:
  "TrimPrefix path ''/'' \<noteq> '''' \<Longrightarrow>
   ns_splitPath path = Inr (''/'' @ Join (butlast (Split (TrimPrefix path ''/'') (CHR ''/''))) ''/'',
     last (Split (TrimPrefix path ''/'') (CHR ''/'')))"
  by (simp add: ns_splitPath_def Let_def)

lemma plain_target:
  assumes "plain path"
  shows "ns_target path = ns_cleanPath path" and "ns_cleanPath path \<noteq> []"
proof -
  define q where "q = TrimPrefix path ''/''"
  define ps where "ps = Split q (CHR ''/'')"
  have pl: "q \<noteq> ''''" "last ps \<noteq> ''''" "butlast ps = [] \<or> last (butlast ps) \<noteq> ''''"
    using assms by (auto simp: plain_def q_def ps_def Let_def)
  have "\<not> suffix ''/'' q" using pl by (simp add: last_char_Split ps_def)
  then have clean: "ns_cleanPath path = ps"
    using pl(1) by (simp add: ns_cleanPath_def TrimSuffix_other q_def [symmetric] ps_def Let_def)
  have "\<forall>p\<in>set (butlast ps). CHR ''/'' \<notin> set p"
    using Split_no_sep in_set_butlastD by (metis ps_def)
  then have "ns_cleanPath (''/'' @ Join (butlast ps) ''/'') = butlast ps"
    using pl(3) by (intro cleanPath_Join) auto
  then show "ns_target path = ns_cleanPath path"
    using clean pl(1) splitPath_parts [of path]
    by (simp add: ns_target_def q_def [symmetric] ps_def [symmetric]) (simp add: ps_def)
  show "ns_cleanPath path \<noteq> []" using clean by (simp add: ps_def)
qed

text \<open>A trailing slash moves the write one level down, but not the read.\<close>

lemma trailing_slash:
  assumes "plain path"
  shows "ns_target (path @ ''/'') = ns_cleanPath path @ ['''']"
    and "ns_cleanPath (path @ ''/'') = ns_cleanPath path"
proof -
  define q where "q = TrimPrefix path ''/''"
  have q: "q \<noteq> ''''" "last (Split q (CHR ''/'')) \<noteq> ''''"
    using assms by (auto simp: plain_def q_def Let_def)
  have "path \<noteq> ''''" using q(1) by (auto simp: q_def TrimPrefix_def)
  then have trim: "TrimPrefix (path @ ''/'') ''/'' = q @ ''/''"
    by (cases path) (auto simp: q_def TrimPrefix_def)
  have nosuf: "\<not> suffix ''/'' q" using q by (simp add: last_char_Split)
  show "ns_cleanPath (path @ ''/'') = ns_cleanPath path"
    using trim nosuf by (simp add: ns_cleanPath_def q_def [symmetric] TrimSuffix_other)
  have "ns_cleanPath (''/'' @ Join (Split q (CHR ''/'')) ''/'') = Split q (CHR ''/'')"
    using q(2) Split_no_sep by (intro cleanPath_Join) auto
  moreover have "ns_cleanPath path = Split q (CHR ''/'')"
    using q(1) nosuf by (simp add: ns_cleanPath_def q_def [symmetric] TrimSuffix_other)
  ultimately show "ns_target (path @ ''/'') = ns_cleanPath path @ ['''']"
    using trim by (simp add: ns_target_def ns_splitPath_def Split_snoc butlast_append)
qed

section \<open>Walking and writing through a path\<close>

lemma set_child_simps [simp]:
  "deName (set_child n c d) = deName d" "deIsDir (set_child n c d) = deIsDir d"
  "deFile (set_child n c d) = deFile d"
  "deChildren (set_child n c d) = AList.update n c (deChildren d)"
  by (simp_all add: set_child_def)

lemma del_child_simps [simp]:
  "deName (del_child n d) = deName d" "deIsDir (del_child n d) = deIsDir d"
  "deFile (del_child n d) = deFile d"
  "deChildren (del_child n d) = AList.delete n (deChildren d)"
  by (simp_all add: del_child_def)

lemma set_child_same: "map_of (deChildren d) n = Some c \<Longrightarrow> set_child n c d = d"
  by (cases d) (simp add: set_child_def update_triv)

lemma ns_files_Nil: "ns_files d [] = (if deIsDir d then None else deFile d)"
  by (simp add: ns_files_def)

lemma ns_files_Cons:
  "ns_files d (p # ps) = (case map_of (deChildren d) p of None \<Rightarrow> None | Some c \<Rightarrow> ns_files c ps)"
  by (simp add: ns_files_def split: option.splits)

lemmas ns_files_simps [simp] = ns_files_Nil ns_files_Cons

lemma walk_append:
  "walk (ps @ qs) d = (case walk ps d of None \<Rightarrow> None | Some e \<Rightarrow> walk qs e)"
  by (induction ps arbitrary: d) (auto split: option.splits)

lemma ns_files_append:
  "walk ps d = Some e \<Longrightarrow> ns_files d (ps @ qs) = ns_files e qs"
  by (simp add: ns_files_def walk_append)

lemma ns_files_walk_None: "walk ps d = None \<Longrightarrow> ns_files d (ps @ qs) = None"
  by (simp add: ns_files_def walk_append)

lemma keeps_shape_child [simp]: "keeps_shape (set_child n c)" "keeps_shape (del_child n)"
  by (simp_all add: keeps_shape_def)

lemma keeps_shape_at_path: "keeps_shape f \<Longrightarrow> keeps_shape (at_path ps f)"
  by (cases ps) (auto simp: keeps_shape_def split: option.splits)

lemma ns_files_at_path_in:
  "walk ps d = Some e \<Longrightarrow> ns_files (at_path ps f d) (ps @ qs) = ns_files (f e) qs"
  by (induction ps arbitrary: d) (auto split: option.splits)

lemma ns_files_at_path_out:
  "keeps_shape f \<Longrightarrow> \<not> prefix ps qs \<Longrightarrow> ns_files (at_path ps f d) qs = ns_files d qs"
proof (induction ps arbitrary: d qs)
  case (Cons p ps)
  show ?case
  proof (cases qs)
    case Nil
    have "keeps_shape (at_path (p # ps) f)" using Cons.prems(1) by (rule keeps_shape_at_path)
    then show ?thesis using Nil by (simp add: keeps_shape_def del: at_path.simps)
  next
    case (Cons q qs')
    then show ?thesis using Cons.IH Cons.prems by (auto split: option.splits)
  qed
qed simp

text \<open>A write at a directory changes the files below it as the write changes the directory.\<close>

lemma ns_files_at_path_upd:
  assumes "walk ps d = Some e" "keeps_shape f"
    and "\<And>qs. ns_files (f e) qs = ((ns_files e)([n] := v)) qs"
  shows "ns_files (at_path ps f d) = (ns_files d)(ps @ [n] := v)"
proof
  fix qs
  show "ns_files (at_path ps f d) qs = ((ns_files d)(ps @ [n] := v)) qs"
  proof (cases "prefix ps qs")
    case True
    then obtain rs where "qs = ps @ rs" by (auto simp: prefix_def)
    then show ?thesis
      using assms(3) ns_files_at_path_in [OF assms(1)] ns_files_append [OF assms(1)] by auto
  next
    case False
    then have "qs \<noteq> ps @ [n]" by auto
    then show ?thesis using False ns_files_at_path_out [OF assms(2)] by simp
  qed
qed

section \<open>Well-formed trees\<close>

lemma ns_wf_iff:
  "ns_wf d \<longleftrightarrow> gm_wf (deChildren d) \<and>
     (if deIsDir d then deFile d = None else deChildren d = [] \<and> deFile d \<noteq> None) \<and>
     (\<forall>k c. map_of (deChildren d) k = Some c \<longrightarrow> deName c = k \<and> ns_wf c)"
proof (cases d)
  case (DirEntry n b ch f)
  then show ?thesis
    using ball_map_of [of ch "\<lambda>k c. deName c = k \<and> ns_wf c"] by auto
qed

lemma ns_wf_New: "ns_wf NewNamespace"
  by (simp add: NewNamespace_def)

lemma ns_wf_child: "ns_wf d \<Longrightarrow> map_of (deChildren d) k = Some c \<Longrightarrow> ns_wf c"
  using ns_wf_iff by blast

lemma ns_wf_walk: "ns_wf d \<Longrightarrow> walk ps d = Some e \<Longrightarrow> ns_wf e"
  by (induction ps arbitrary: d) (auto split: option.splits dest: ns_wf_child)

lemma ns_wf_set_child:
  "ns_wf d \<Longrightarrow> deIsDir d \<Longrightarrow> ns_wf c \<Longrightarrow> deName c = n \<Longrightarrow> ns_wf (set_child n c d)"
  unfolding ns_wf_iff [of d] ns_wf_iff [of "set_child n c d"] by auto

lemma ns_wf_del_child: "ns_wf d \<Longrightarrow> deIsDir d \<Longrightarrow> ns_wf (del_child n d)"
  unfolding ns_wf_iff [of d] ns_wf_iff [of "del_child n d"] by auto

lemma ns_wf_has_child_dir: "ns_wf d \<Longrightarrow> map_of (deChildren d) p = Some c \<Longrightarrow> deIsDir d"
  using ns_wf_iff [of d] by (auto split: if_splits)

lemma ns_wf_at_path:
  "ns_wf d \<Longrightarrow> walk ps d = Some e \<Longrightarrow> keeps_shape f \<Longrightarrow> ns_wf (f e) \<Longrightarrow> ns_wf (at_path ps f d)"
proof (induction ps arbitrary: d)
  case (Cons p ps)
  then obtain c where c: "map_of (deChildren d) p = Some c" "walk ps c = Some e"
    by (auto split: option.splits)
  have "ns_wf (at_path ps f c)" using Cons c by (auto dest: ns_wf_child)
  moreover have "deName (at_path ps f c) = p"
    using c Cons.prems keeps_shape_at_path [of f ps] ns_wf_iff [of d] by (simp add: keeps_shape_def)
  ultimately show ?case
    using c Cons.prems ns_wf_has_child_dir by (auto intro: ns_wf_set_child)
qed simp

lemma ns_wf_file_leaf: "ns_wf d \<Longrightarrow> \<not> deIsDir d \<Longrightarrow> ns_files d (p # ps) = None"
  using ns_wf_iff [of d] by simp

section \<open>Creating directories\<close>

lemma mkdir_loop_shape:
  "mkdir_loop ps d = (d', r) \<Longrightarrow>
   deName d' = deName d \<and> deIsDir d' = deIsDir d \<and> deFile d' = deFile d"
  by (cases ps) (auto split: option.splits prod.splits if_splits)

lemma mkdir_loop_files: "mkdir_loop ps d = (d', r) \<Longrightarrow> ns_files d' = ns_files d"
proof (induction ps arbitrary: d d' r)
  case (Cons p ps)
  note shape = mkdir_loop_shape [OF Cons.prems]
  show ?case
  proof
    fix qs
    show "ns_files d' qs = ns_files d qs"
    proof (cases qs)
      case Nil
      then show ?thesis using shape by simp
    next
      case qs: (Cons q qs')
      show ?thesis
      proof (cases "map_of (deChildren d) p")
        case None
        obtain c r' where c: "mkdir_loop ps (DirEntry p True [] None) = (c, r')"
          by (cases "mkdir_loop ps (DirEntry p True [] None)")
        have "ns_files c qs' = None" using Cons.IH [OF c] by (cases qs') auto
        then show ?thesis using Cons.prems None c qs by (cases "q = p") auto
      next
        case (Some child)
        obtain c r' where c: "mkdir_loop ps child = (c, r')" by (cases "mkdir_loop ps child")
        show ?thesis
          using Cons.prems Cons.IH [OF c] Some c qs by (cases "q = p") (auto split: if_splits)
      qed
    qed
  qed
qed simp

lemma mkdir_loop_walk:
  "mkdir_loop ps d = (d', Inr e) \<Longrightarrow> deIsDir d \<Longrightarrow> walk ps d' = Some e \<and> deIsDir e"
proof (induction ps arbitrary: d d')
  case (Cons p ps)
  then show ?case
    by (cases "map_of (deChildren d) p") (auto split: prod.splits if_splits)
qed auto

lemma mkdir_loop_fresh: "\<exists>d' e. mkdir_loop ps (DirEntry n True [] None) = (d', Inr e)"
  by (induction ps arbitrary: n) (auto split: prod.splits, metis prod.inject)

lemma mkdir_loop_error: "mkdir_loop ps d = (d', Inl e) \<Longrightarrow> d' = d"
proof (induction ps arbitrary: d d')
  case (Cons p ps)
  show ?case
  proof (cases "map_of (deChildren d) p")
    case None
    then show ?thesis
      using Cons.prems mkdir_loop_fresh [of ps p] by (auto split: prod.splits)
  next
    case (Some child)
    then show ?thesis
      using Cons.prems Cons.IH set_child_same [OF Some] by (fastforce split: prod.splits if_splits)
  qed
qed simp

lemma mkdir_loop_wf: "mkdir_loop ps d = (d', r) \<Longrightarrow> ns_wf d \<Longrightarrow> deIsDir d \<Longrightarrow> ns_wf d'"
proof (induction ps arbitrary: d d' r)
  case (Cons p ps)
  show ?case
  proof (cases "map_of (deChildren d) p")
    case None
    obtain c r' where c: "mkdir_loop ps (DirEntry p True [] None) = (c, r')"
      by (cases "mkdir_loop ps (DirEntry p True [] None)")
    then have "ns_wf c" "deName c = p" using Cons.IH [OF c] mkdir_loop_shape [OF c] by auto
    then show ?thesis using Cons.prems None c by (auto intro: ns_wf_set_child)
  next
    case (Some child)
    obtain c r' where c: "mkdir_loop ps child = (c, r')" by (cases "mkdir_loop ps child")
    have child: "ns_wf child" "deName child = p" using Cons.prems(2) Some ns_wf_iff by blast+
    show ?thesis
    proof (cases "deIsDir child")
      case True
      then have "ns_wf c" "deName c = p" using Cons.IH [OF c] child mkdir_loop_shape [OF c] by auto
      then show ?thesis using Cons.prems Some c True by (auto intro: ns_wf_set_child)
    qed (use Cons.prems Some in auto)
  qed
qed simp

lemma mkdir_loop_ok_iff:
  assumes "ns_wf d" "deIsDir d"
  shows "(\<exists>d' e. mkdir_loop ps d = (d', Inr e)) \<longleftrightarrow> (\<forall>qs. prefix qs ps \<longrightarrow> ns_files d qs = None)"
  using assms
proof (induction ps arbitrary: d)
  case (Cons p ps)
  show ?case
  proof (cases "map_of (deChildren d) p")
    case None
    then show ?thesis
      using Cons.prems mkdir_loop_fresh [of ps p] by (auto simp: prefix_Cons split: prod.splits)
  next
    case (Some child)
    then have child: "ns_wf child" using Cons.prems(1) by (blast dest: ns_wf_child)
    have files: "(\<forall>qs. prefix qs (p # ps) \<longrightarrow> ns_files d qs = None) \<longleftrightarrow>
        (\<forall>qs. prefix qs ps \<longrightarrow> ns_files child qs = None)"
      using Some Cons.prems by (auto simp: prefix_Cons)
    show ?thesis
    proof (cases "deIsDir child")
      case True
      then show ?thesis
        unfolding files using Cons.IH [OF child True] Some by (auto split: prod.splits)
    next
      case False
      then have "ns_files child [] \<noteq> None" using child ns_wf_iff [of child] by simp
      then have "\<not> (\<forall>qs. prefix qs ps \<longrightarrow> ns_files child qs = None)"
        by (meson Nil_prefix)
      then show ?thesis unfolding files using Some False by simp
    qed
  qed
qed simp

text \<open>A directory that \<open>mkdirAll\<close> had to create is empty; reaching one with entries created nothing.\<close>

lemma mkdir_loop_new_empty:
  "mkdir_loop ps (DirEntry n True [] None) = (d', Inr e) \<Longrightarrow> deChildren e = []"
  by (induction ps arbitrary: n d') (auto split: prod.splits)

lemma mkdir_loop_existing:
  "mkdir_loop ps d = (d', Inr e) \<Longrightarrow> map_of (deChildren e) k = Some c \<Longrightarrow> d' = d"
proof (induction ps arbitrary: d d')
  case (Cons p ps)
  show ?case
  proof (cases "map_of (deChildren d) p")
    case None
    then show ?thesis
      using Cons.prems mkdir_loop_new_empty [of ps p] by (fastforce split: prod.splits)
  next
    case (Some child)
    then show ?thesis
      using Cons set_child_same [OF Some] by (fastforce split: prod.splits if_splits)
  qed
qed simp

lemma mkdirAll_eq:
  "ns_mkdirAll rt dir =
     (case mkdir_loop (ns_cleanPath dir) rt of
        (rt', Inl e) \<Rightarrow> (rt', Inl e) | (rt', Inr d) \<Rightarrow> (rt', Inr (ns_cleanPath dir, d)))"
  by (auto simp: ns_mkdirAll_def)

lemma resolveDir_Some:
  "ns_resolveDir rt dir = Inr (ptr, d) \<Longrightarrow> deIsDir rt \<Longrightarrow>
   ptr = ns_cleanPath dir \<and> walk ptr rt = Some d \<and> deIsDir d"
  by (auto simp: ns_resolveDir_def ns_resolve_def split: if_splits option.splits)

section \<open>The operations on the map of files\<close>

abbreviation ns_inv :: "DirEntry \<Rightarrow> bool" where
  "ns_inv rt \<equiv> ns_wf rt \<and> deIsDir rt"

lemma set_file_files:
  assumes "ns_wf d" "\<And>c. map_of (deChildren d) n = Some c \<Longrightarrow> \<not> deIsDir c"
  shows "ns_files (set_child n (DirEntry n False [] (Some m)) d) qs = ((ns_files d)([n] \<mapsto> m)) qs"
proof (cases qs)
  case (Cons q qs')
  show ?thesis
  proof (cases "q = n \<and> qs' \<noteq> []")
    case True
    then obtain r rs where "qs' = r # rs" by (cases qs') auto
    moreover have "map_of (deChildren d) n = Some c \<Longrightarrow> ns_files c (r # rs) = None" for c
      using assms ns_wf_child ns_wf_file_leaf by blast
    ultimately show ?thesis using True Cons by (auto split: option.splits)
  qed (use Cons in auto)
qed simp

lemma del_file_files:
  assumes "ns_wf d" "map_of (deChildren d) n = Some c" "\<not> deIsDir c"
  shows "ns_files (del_child n d) qs = ((ns_files d)([n] := None)) qs"
proof (cases qs)
  case (Cons q qs')
  have "qs' \<noteq> [] \<Longrightarrow> ns_files c qs' = None"
    using assms ns_wf_child ns_wf_file_leaf by (metis list.exhaust)
  then show ?thesis using Cons assms(2) by auto
qed simp

lemma CreateFile_ok:
  assumes "ns_CreateFile rt path meta = (rt', Inr u)" "ns_inv rt"
  shows "ns_inv rt' \<and> ns_files rt' = (ns_files rt)(ns_target path \<mapsto> meta)"
proof -
  obtain dir name rt1 d where sp: "ns_splitPath path = Inr (dir, name)"
    and mk: "mkdir_loop (ns_cleanPath dir) rt = (rt1, Inr d)"
    and rt': "rt' = at_path (ns_cleanPath dir) (set_child name (DirEntry name False [] (Some meta))) rt1"
    and ex: "\<forall>c. map_of (deChildren d) name = Some c \<longrightarrow> \<not> deIsDir c"
    using assms(1)
    by (fastforce simp: ns_CreateFile_def mkdirAll_eq Let_def
        split: sum.splits prod.splits option.splits if_splits)
  have w: "walk (ns_cleanPath dir) rt1 = Some d" "deIsDir d"
    using mkdir_loop_walk [OF mk] assms(2) by auto
  have wf: "ns_wf rt1" "deIsDir rt1"
    using mkdir_loop_wf [OF mk] mkdir_loop_shape [OF mk] assms(2) by auto
  then have "ns_wf d" using w ns_wf_walk by blast
  have "ns_files rt' = (ns_files rt1)(ns_cleanPath dir @ [name] \<mapsto> meta)"
    unfolding rt' using set_file_files [OF \<open>ns_wf d\<close>] ex w
    by (intro ns_files_at_path_upd) auto
  moreover have "ns_wf rt'"
    unfolding rt' using wf w \<open>ns_wf d\<close> by (intro ns_wf_at_path) (auto intro: ns_wf_set_child)
  moreover have "deIsDir rt'"
    unfolding rt' using wf keeps_shape_at_path [of "set_child name (DirEntry name False [] (Some meta))"]
    by (simp add: keeps_shape_def)
  ultimately show ?thesis
    using mkdir_loop_files [OF mk] sp by (simp add: ns_target_def)
qed

lemma CreateFile_error:
  assumes "ns_CreateFile rt path meta = (rt', Inl e)" "ns_inv rt"
  shows "rt' = rt"
proof (cases "ns_splitPath path")
  case (Inr dn)
  obtain dir name where sp: "ns_splitPath path = Inr (dir, name)" using Inr by (cases dn) auto
  obtain rt1 r where mk: "mkdir_loop (ns_cleanPath dir) rt = (rt1, r)"
    by (cases "mkdir_loop (ns_cleanPath dir) rt")
  show ?thesis
  proof (cases r)
    case (Inl e')
    then show ?thesis
      using assms(1) sp mk mkdir_loop_error [of "ns_cleanPath dir" rt rt1 e']
      by (simp add: ns_CreateFile_def mkdirAll_eq)
  next
    case (Inr d)
    then obtain c where c: "map_of (deChildren d) name = Some c" and "rt' = rt1"
      using assms(1) sp mk
      by (auto simp: ns_CreateFile_def mkdirAll_eq Let_def split: option.splits if_splits)
    then show ?thesis
      using mkdir_loop_existing mk Inr assms(2) by blast
  qed
qed (use assms in \<open>simp add: ns_CreateFile_def\<close>)

lemma mkdir_loop_present:
  "ns_wf d \<Longrightarrow> walk ps d = Some e \<Longrightarrow> deIsDir e \<Longrightarrow> mkdir_loop ps d = (d, Inr e)"
proof (induction ps arbitrary: d)
  case (Cons p ps)
  then obtain c where c: "map_of (deChildren d) p = Some c" "walk ps c = Some e"
    by (auto split: option.splits)
  have "ns_wf c" using Cons.prems(1) c(1) by (rule ns_wf_child)
  moreover have "deIsDir c"
  proof (cases ps)
    case Nil
    then show ?thesis using c Cons.prems(3) by simp
  next
    case (Cons q qs)
    then show ?thesis using c(2) \<open>ns_wf c\<close> ns_wf_has_child_dir by (auto split: option.splits)
  qed
  ultimately show ?case using Cons.IH Cons.prems(3) c set_child_same [OF c(1)] by simp
qed simp

lemma strict_prefix_snoc: "strict_prefix qs (ps @ [x]) \<longleftrightarrow> prefix qs ps"
  by (auto simp: strict_prefix_def prefix_snoc)

lemma CreateFile_ok_iff:
  assumes "ns_inv rt"
  shows "(\<exists>rt'. ns_CreateFile rt path meta = (rt', Inr ())) \<longleftrightarrow>
    TrimPrefix path ''/'' \<noteq> '''' \<and>
    (\<forall>qs. strict_prefix qs (ns_target path) \<longrightarrow> ns_files rt qs = None) \<and>
    \<not> (\<exists>d. walk (ns_target path) rt = Some d \<and> deIsDir d)"
proof (cases "TrimPrefix path ''/'' = ''''")
  case False
  then obtain dir name where sp: "ns_splitPath path = Inr (dir, name)"
    by (auto simp: ns_splitPath_def Let_def)
  let ?ps = "ns_cleanPath dir"
  have tgt: "ns_target path = ?ps @ [name]" using sp by (simp add: ns_target_def)
  have pre: "(\<forall>qs. strict_prefix qs (?ps @ [name]) \<longrightarrow> ns_files rt qs = None) \<longleftrightarrow>
      (\<exists>rt1 d. mkdir_loop ?ps rt = (rt1, Inr d))"
    using mkdir_loop_ok_iff [of rt ?ps] assms by (simp add: strict_prefix_snoc)
  obtain rt1 r where mk: "mkdir_loop ?ps rt = (rt1, r)" by (cases "mkdir_loop ?ps rt")
  show ?thesis
  proof (cases r)
    case (Inl e)
    then show ?thesis
      unfolding tgt pre using sp mk by (simp add: ns_CreateFile_def mkdirAll_eq)
  next
    case (Inr d)
    have "(\<exists>c. map_of (deChildren d) name = Some c \<and> deIsDir c) \<longleftrightarrow>
        (\<exists>c. walk (?ps @ [name]) rt = Some c \<and> deIsDir c)" (is "?L \<longleftrightarrow> ?R")
    proof
      assume ?L
      then obtain c where c: "map_of (deChildren d) name = Some c" "deIsDir c" by blast
      then have "rt1 = rt" using mkdir_loop_existing mk Inr by blast
      then show ?R using c mkdir_loop_walk [of ?ps rt rt1 d] mk Inr assms by (simp add: walk_append)
    next
      assume ?R
      then obtain e c where e: "walk ?ps rt = Some e" "map_of (deChildren e) name = Some c" "deIsDir c"
        by (auto simp: walk_append split: option.splits)
      then have "ns_wf e" "deIsDir e" using assms ns_wf_walk ns_wf_has_child_dir by blast+
      then show ?L using mkdir_loop_present [of rt ?ps e] e assms mk Inr by auto
    qed
    then show ?thesis
      unfolding tgt pre using sp mk Inr False
      by (auto simp: ns_CreateFile_def mkdirAll_eq Let_def split: option.splits)
  qed
qed (simp add: ns_CreateFile_def ns_splitPath_def)

lemma ns_wf_file: "ns_wf e \<Longrightarrow> \<not> deIsDir e \<Longrightarrow> \<exists>m. deFile e = Some m"
  using ns_wf_iff [of e] by auto

lemma GetFile_iff:
  assumes "ns_inv rt"
  shows "ns_GetFile rt path = Inr r \<longleftrightarrow> r \<noteq> None \<and> ns_files rt (ns_cleanPath path) = r"
proof (cases "walk (ns_cleanPath path) rt")
  case (Some e)
  then have "ns_wf e" using assms ns_wf_walk by blast
  then show ?thesis using Some ns_wf_file [of e] by (auto simp: ns_GetFile_def ns_resolve_def ns_files_def)
qed (auto simp: ns_GetFile_def ns_resolve_def ns_files_def)

lemma FileExists_iff:
  "ns_inv rt \<Longrightarrow> ns_FileExists rt path \<longleftrightarrow> (\<exists>m. ns_GetFile rt path = Inr (Some m))"
  using ns_wf_walk [of rt "ns_cleanPath path"] ns_wf_file
  by (force simp: ns_FileExists_def ns_GetFile_def ns_resolve_def split: option.splits)

lemma DeleteFile_ok:
  assumes "ns_DeleteFile rt path = (rt', Inr r)" "ns_inv rt"
  shows "ns_inv rt' \<and> r \<noteq> None \<and> ns_files rt (ns_target path) = r \<and>
    ns_files rt' = (ns_files rt)(ns_target path := None)"
proof -
  obtain dir name ptr d c where sp: "ns_splitPath path = Inr (dir, name)"
    and rs: "ns_resolveDir rt dir = Inr (ptr, d)"
    and c: "map_of (deChildren d) name = Some c" "\<not> deIsDir c" "r = deFile c"
    and rt': "rt' = at_path ptr (del_child name) rt"
    using assms(1)
    by (auto simp: ns_DeleteFile_def split: sum.splits prod.splits option.splits if_splits)
  have w: "ptr = ns_cleanPath dir" "walk ptr rt = Some d" "deIsDir d"
    using resolveDir_Some [OF rs] assms(2) by auto
  have "ns_wf d" using w(2) assms(2) ns_wf_walk by blast
  have "ns_files rt' = (ns_files rt)(ptr @ [name] := None)"
    unfolding rt' using del_file_files [OF \<open>ns_wf d\<close> c(1,2)] w
    by (intro ns_files_at_path_upd) auto
  moreover have "ns_inv rt'"
    unfolding rt' using assms(2) w \<open>ns_wf d\<close> keeps_shape_at_path [of "del_child name" ptr]
    by (auto intro!: ns_wf_at_path ns_wf_del_child simp: keeps_shape_def)
  moreover have "ns_files rt (ptr @ [name]) = r" "r \<noteq> None"
    using ns_files_append [OF w(2), of "[name]"] c ns_wf_child [OF \<open>ns_wf d\<close> c(1)] ns_wf_iff [of c]
    by auto
  ultimately show ?thesis using sp w(1) by (simp add: ns_target_def)
qed

lemma DeleteFile_error:
  assumes "ns_DeleteFile rt path = (rt', Inl e)" "ns_inv rt"
  shows "rt' = rt \<and> ns_files rt (ns_target path) = None"
proof (cases "ns_splitPath path")
  case (Inl e')
  then show ?thesis using assms by (simp add: ns_DeleteFile_def ns_target_def)
next
  case (Inr dn)
  obtain dir name where sp: "ns_splitPath path = Inr (dir, name)" using Inr by (cases dn) auto
  let ?ps = "ns_cleanPath dir"
  have "ns_files rt (?ps @ [name]) = None"
  proof (cases "walk ?ps rt")
    case None
    then show ?thesis by (rule ns_files_walk_None)
  next
    case (Some d)
    have wf: "ns_wf d" using Some assms(2) ns_wf_walk by blast
    show ?thesis
    proof (cases "deIsDir d")
      case False
      then show ?thesis using ns_files_append [OF Some] ns_wf_file_leaf [OF wf] by metis
    next
      case True
      then have "ns_resolveDir rt dir = Inr (?ps, d)"
        using Some by (auto simp: ns_resolveDir_def ns_resolve_def)
      then show ?thesis
        using assms(1) sp ns_files_append [OF Some]
        by (auto simp: ns_DeleteFile_def split: option.splits if_splits)
    qed
  qed
  then show ?thesis
    using assms(1) sp
    by (auto simp: ns_DeleteFile_def ns_target_def split: sum.splits option.splits if_splits)
qed

text \<open>A path that was just deleted can be created.\<close>

lemma walk_at_path: "walk ps d = Some e \<Longrightarrow> keeps_shape f \<Longrightarrow> walk ps (at_path ps f d) = Some (f e)"
proof (induction ps arbitrary: d)
  case (Cons p ps)
  then show ?case by (cases d) (auto split: option.splits)
qed simp

lemma delete_then_create:
  assumes "ns_inv rt" "ns_DeleteFile rt path = (rt', Inr r)"
  shows "\<exists>rt''. ns_CreateFile rt' path meta = (rt'', Inr ())"
proof -
  obtain dir name ptr d where sp: "ns_splitPath path = Inr (dir, name)" and rs: "ns_resolveDir rt dir = Inr (ptr, d)"
    and rt': "rt' = at_path ptr (del_child name) rt"
    using assms(2) by (auto simp: ns_DeleteFile_def split: sum.splits prod.splits option.splits if_splits)
  note del = DeleteFile_ok [OF assms(2,1)]
  have w: "ptr = ns_cleanPath dir" "walk ptr rt = Some d" "deIsDir d" using resolveDir_Some [OF rs] assms(1) by auto
  have tgt: "ns_target path = ptr @ [name]" using sp w(1) by (simp add: ns_target_def)
  have "ns_files rt qs = None" if "strict_prefix qs (ns_target path)" for qs
  proof (rule ccontr)
    assume "ns_files rt qs \<noteq> None"
    then obtain e where e: "walk qs rt = Some e" "\<not> deIsDir e" by (auto simp: ns_files_def split: option.splits if_splits)
    obtain p ps where "ns_target path = qs @ p # ps" using \<open>strict_prefix qs _\<close> by (auto elim: strict_prefixE')
    then show False
      using del ns_files_append [OF e(1), of "p # ps"] ns_wf_file_leaf [OF _ e(2)] ns_wf_walk [OF _ e(1)] assms(1) by auto
  qed
  moreover have "walk (ns_target path) rt' = None"
    unfolding tgt rt' walk_append using walk_at_path [OF w(2), of "del_child name"] by (cases d) simp
  moreover have "TrimPrefix path ''/'' \<noteq> ''''" using sp by (auto simp: ns_splitPath_def)
  ultimately show ?thesis using CreateFile_ok_iff [of rt' path meta] del by auto
qed

section \<open>Listing\<close>

lemma ListDir_children:
  assumes "perm_iter it" "ns_ListDir it rt path = Inr es" "ns_inv rt"
  shows "\<exists>d. walk (ns_cleanPath path) rt = Some d \<and> deIsDir d \<and>
    mset es = image_mset snd (mset (deChildren d))"
proof -
  have root: "path = ''/'' \<or> path = '''' \<Longrightarrow> walk (ns_cleanPath path) rt = Some rt" by auto
  obtain d where "walk (ns_cleanPath path) rt = Some d" "deIsDir d"
    "es = map snd (gm_range it (deChildren d))"
    using assms(2) root
    by (auto simp: ns_ListDir_def ns_resolve_def split: if_splits option.splits sum.splits)
  moreover from this have "ns_wf d" using assms(3) ns_wf_walk by blast
  then have "mset (gm_range it (deChildren d)) = mset (deChildren d)"
    using assms(1) ns_wf_iff mset_gm_range by blast
  ultimately show ?thesis by auto
qed

text \<open>The walk visits every file once: its result is the files along some list of all file paths.\<close>

lemma distinct_concat_Cons:
  "distinct ks \<Longrightarrow> (\<And>k. k \<in> set ks \<Longrightarrow> distinct (P k)) \<Longrightarrow>
   distinct (concat (map (\<lambda>k. map ((#) k) (P k)) ks))"
  by (induction ks) (auto simp: distinct_map)

lemma ns_files_leaf: "ns_files (DirEntry n False [] (Some m)) = [[] \<mapsto> m]"
proof
  fix ps
  show "ns_files (DirEntry n False [] (Some m)) ps = [[] \<mapsto> m] ps" by (cases ps) auto
qed

lemma walkFiles_paths:
  "perm_iter it \<Longrightarrow> ns_wf d \<Longrightarrow> \<exists>ps. distinct ps \<and> set ps = dom (ns_files d) \<and>
    ns_walkFiles it d = map (\<lambda>p. the (ns_files d p)) ps"
proof (induction it d rule: ns_walkFiles.induct)
  case (1 it n b ch f)
  let ?d = "DirEntry n b ch f"
  show ?case
  proof (cases b)
    case False
    then obtain m where "ch = []" "f = Some m" using 1(3) by auto
    then show ?thesis using False by (intro exI [of _ "[[]]"]) (auto simp: ns_files_leaf split: if_splits)
  next
    case True
    let ?ks = "it (map fst ch)" and ?c = "\<lambda>k. the (map_of ch k)"
    have ks: "distinct ?ks" "set ?ks = fst ` set ch" using 1(2,3) by auto
    have child: "map_of ch k = Some (?c k) \<and> ns_wf (?c k)" if "k \<in> set ?ks" for k
    proof -
      obtain c where "map_of ch k = Some c" using \<open>k \<in> set ?ks\<close> ks(2) key_map_of [of k ch] by auto
      then show ?thesis using ns_wf_child [OF 1(3)] by simp
    qed
    have some: "k \<in> set ?ks \<Longrightarrow> map_of ch k \<noteq> None" for k
      using child by (metis option.distinct(1))
    have sub: "k \<in> set ?ks \<Longrightarrow> ns_files ?d (k # p) = ns_files (?c k) p" for k p
      using child [of k] by (metis DirEntry.sel(3) ns_files_Cons option.simps(5))
    have "\<exists>ps. distinct ps \<and> set ps = dom (ns_files (?c k)) \<and>
        ns_walkFiles it (?c k) = map (\<lambda>p. the (ns_files (?c k) p)) ps" if "k \<in> set ?ks" for k
      using 1(1) [of k "?c k"] child [OF that] that True 1(2) by simp
    then obtain P where P: "\<And>k. k \<in> set ?ks \<Longrightarrow> distinct (P k) \<and> set (P k) = dom (ns_files (?c k)) \<and>
        ns_walkFiles it (?c k) = map (\<lambda>p. the (ns_files (?c k) p)) (P k)"
      by metis
    define ps where "ps = concat (map (\<lambda>k. map ((#) k) (P k)) ?ks)"
    have "distinct ps" unfolding ps_def using ks(1) P by (intro distinct_concat_Cons) auto
    moreover have "set ps = dom (ns_files ?d)"
    proof -
      have "qs \<in> set ps \<longleftrightarrow> ns_files ?d qs \<noteq> None" for qs
      proof (cases qs)
        case Nil
        then show ?thesis using True by (auto simp: ps_def)
      next
        case (Cons k qs')
        have "qs \<in> set ps \<longleftrightarrow> k \<in> set ?ks \<and> qs' \<in> set (P k)" by (auto simp: ps_def Cons)
        moreover have "k \<notin> set ?ks \<Longrightarrow> map_of ch k = None" by (simp add: ks(2) map_of_eq_None_iff)
        ultimately show ?thesis
          using P [of k] sub [of k qs'] Cons by (cases "k \<in> set ?ks") auto
      qed
      then show ?thesis by (auto simp: dom_def)
    qed
    moreover have "ns_walkFiles it ?d = map (\<lambda>p. the (ns_files ?d p)) ps"
    proof -
      have "ns_walkFiles it ?d = concat (map (\<lambda>k. ns_walkFiles it (?c k)) ?ks)"
        using True by (auto intro!: arg_cong [of _ _ concat] split: option.splits dest: some)
      also have "\<dots> = concat (map (\<lambda>k. map (\<lambda>p. the (ns_files ?d (k # p))) (P k)) ?ks)"
        using P sub by (auto intro!: arg_cong [of _ _ concat] simp del: ns_files_simps)
      also have "\<dots> = map (\<lambda>p. the (ns_files ?d p)) ps"
        by (simp add: ps_def map_concat comp_def del: ns_files_simps)
      finally show ?thesis .
    qed
    ultimately show ?thesis by blast
  qed
qed

lemma GetAllFiles_complete:
  assumes "perm_iter it" "ns_inv rt"
  shows "set (ns_GetAllFiles it rt) = ran (ns_files rt)"
    and "length (ns_GetAllFiles it rt) = card (dom (ns_files rt))"
proof -
  obtain ps where ps: "distinct ps" "set ps = dom (ns_files rt)"
    "ns_walkFiles it rt = map (\<lambda>p. the (ns_files rt p)) ps"
    using walkFiles_paths [of it rt] assms by auto
  then show "length (ns_GetAllFiles it rt) = card (dom (ns_files rt))"
    by (metis ns_GetAllFiles_def distinct_card length_map)
  show "set (ns_GetAllFiles it rt) = ran (ns_files rt)"
    using ps by (force simp: ns_GetAllFiles_def ran_def dom_def)
qed

section \<open>The interface to the metadata server\<close>

text \<open>
  What the server relies on: the namespace behaves as a map from keys to files, written at
  \<open>wkey\<close> and read at \<open>rkey\<close> of a path, and a call that fails changes nothing.
\<close>

locale file_namespace =
  fixes files :: "'s \<Rightarrow> 'k \<Rightarrow> 'm option"
    and wkey rkey :: "'p \<Rightarrow> 'k"
    and inv :: "'s \<Rightarrow> bool"
    and create :: "'s \<Rightarrow> 'p \<Rightarrow> 'm \<Rightarrow> 's \<times> ('e + unit)"
    and get :: "'s \<Rightarrow> 'p \<Rightarrow> 'e + 'm option"
    and remove :: "'s \<Rightarrow> 'p \<Rightarrow> 's \<times> ('e + 'm option)"
  assumes create_ok: "create s p m = (s', Inr u) \<Longrightarrow> inv s \<Longrightarrow>
      inv s' \<and> files s' = (files s)(wkey p \<mapsto> m)"
    and create_err: "create s p m = (s', Inl e) \<Longrightarrow> inv s \<Longrightarrow> s' = s"
    and get_iff: "inv s \<Longrightarrow> get s p = Inr r \<longleftrightarrow> r \<noteq> None \<and> files s (rkey p) = r"
    and remove_ok: "remove s p = (s', Inr r) \<Longrightarrow> inv s \<Longrightarrow>
      inv s' \<and> r \<noteq> None \<and> files s (wkey p) = r \<and> files s' = (files s)(wkey p := None)"
    and remove_err: "remove s p = (s', Inl e) \<Longrightarrow> inv s \<Longrightarrow> s' = s \<and> files s (wkey p) = None"
begin

lemma create_inv: "inv s \<Longrightarrow> inv (fst (create s p m))"
  by (cases "create s p m"; cases "snd (create s p m)") (auto dest: create_ok create_err)

lemma remove_inv: "inv s \<Longrightarrow> inv (fst (remove s p))"
  by (cases "remove s p"; cases "snd (remove s p)") (auto dest: remove_ok remove_err)

lemma get_create:
  assumes "create s p m = (s', Inr u)" "inv s"
  shows "rkey q = wkey p \<Longrightarrow> get s' q = Inr (Some m)"
    and "rkey q \<noteq> wkey p \<Longrightarrow> get s' q = Inr r \<longleftrightarrow> get s q = Inr r"
  using create_ok [OF assms] assms(2) get_iff by auto

lemma get_remove:
  assumes "remove s p = (s', Inr r)" "inv s"
  shows "rkey q = wkey p \<Longrightarrow> \<exists>e. get s' q = Inl e"
    and "rkey q \<noteq> wkey p \<Longrightarrow> get s' q = Inr r' \<longleftrightarrow> get s q = Inr r'"
proof -
  show "rkey q = wkey p \<Longrightarrow> \<exists>e. get s' q = Inl e"
    using remove_ok [OF assms] get_iff [of s' q] by (cases "get s' q") auto
  show "rkey q \<noteq> wkey p \<Longrightarrow> get s' q = Inr r' \<longleftrightarrow> get s q = Inr r'"
    using remove_ok [OF assms] assms(2) get_iff by auto
qed

lemma remove_create:
  assumes "create s p m = (s', Inr u)" "inv s" "wkey q = wkey p"
  shows "snd (remove s' q) = Inr (Some m)"
  using create_ok [OF assms(1,2)] assms(3)
  by (cases "remove s' q"; cases "snd (remove s' q)") (auto dest: remove_ok remove_err)

lemma remove_iff: "inv s \<Longrightarrow> (\<exists>r. snd (remove s p) = Inr r) \<longleftrightarrow> files s (wkey p) \<noteq> None"
  by (cases "remove s p"; cases "snd (remove s p)") (auto dest: remove_ok remove_err)

end

interpretation ns: file_namespace ns_files ns_target ns_cleanPath "\<lambda>rt. ns_inv rt"
  ns_CreateFile ns_GetFile ns_DeleteFile
proof unfold_locales
  fix rt path meta rt' u
  assume "ns_CreateFile rt path meta = (rt', Inr u)" "ns_inv rt"
  then show "ns_inv rt' \<and> ns_files rt' = (ns_files rt)(ns_target path \<mapsto> meta)" by (rule CreateFile_ok)
next
  fix rt path meta rt' e
  assume "ns_CreateFile rt path meta = (rt', Inl e)" "ns_inv rt"
  then show "rt' = rt" by (rule CreateFile_error)
next
  fix rt path r
  assume "ns_inv rt"
  then show "ns_GetFile rt path = Inr r \<longleftrightarrow> r \<noteq> None \<and> ns_files rt (ns_cleanPath path) = r"
    by (rule GetFile_iff)
next
  fix rt path rt' r
  assume "ns_DeleteFile rt path = (rt', Inr r)" "ns_inv rt"
  then show "ns_inv rt' \<and> r \<noteq> None \<and> ns_files rt (ns_target path) = r \<and>
      ns_files rt' = (ns_files rt)(ns_target path := None)" by (rule DeleteFile_ok)
next
  fix rt path rt' e
  assume "ns_DeleteFile rt path = (rt', Inl e)" "ns_inv rt"
  then show "rt' = rt \<and> ns_files rt (ns_target path) = None" by (rule DeleteFile_error)
qed

section \<open>Properties\<close>

definition sample_meta :: "string \<Rightarrow> FileMeta" where
  "sample_meta path = \<lparr>fm_Path = path, fm_Size = 5, fm_ChunkCount = 1, fm_ReplicationFactor = 3,
     fm_Checksum = ''c'', fm_ChunkIDs = [''id''], fm_CreatedAt = 0\<rparr>"

text \<open>
  C24: the tree implements a map from paths to files. \<open>CreateFile\<close> is an update: on success exactly the entry
  at the path's target becomes the given metadata and every other file is as before (directories
  created on the way hold no files); on any error the tree is unchanged, although \<open>mkdirAll\<close>
  runs before the last check. \<open>DeleteFile\<close> is a removal: it succeeds exactly when a file is stored at the path's target,
  returns that file's metadata and removes that entry only; otherwise the tree is unchanged. \<open>GetFile\<close> is the lookup, at the
  cleaned path. The tree invariant is kept in all cases.
\<close>

theorem namespace_refines_map:
  assumes "ns_inv rt"
  shows "(case ns_CreateFile rt path meta of
      (rt', Inr _) \<Rightarrow> ns_inv rt' \<and> ns_files rt' = (ns_files rt)(ns_target path \<mapsto> meta)
    | (rt', Inl _) \<Rightarrow> rt' = rt) \<and>
    (case ns_DeleteFile rt path of
      (rt', Inr r) \<Rightarrow> ns_inv rt' \<and> r \<noteq> None \<and> ns_files rt (ns_target path) = r \<and>
        ns_files rt' = (ns_files rt)(ns_target path := None)
    | (rt', Inl _) \<Rightarrow> rt' = rt \<and> ns_files rt (ns_target path) = None) \<and>
    (case ns_GetFile rt path of
      Inr r \<Rightarrow> r \<noteq> None \<and> ns_files rt (ns_cleanPath path) = r
    | Inl _ \<Rightarrow> ns_files rt (ns_cleanPath path) = None)"
proof (intro conjI)
  show "case ns_CreateFile rt path meta of
      (rt', Inr _) \<Rightarrow> ns_inv rt' \<and> ns_files rt' = (ns_files rt)(ns_target path \<mapsto> meta)
    | (rt', Inl _) \<Rightarrow> rt' = rt"
    using ns.create_ok [of rt path meta] ns.create_err [of rt path meta] assms by (auto split: prod.splits sum.splits)
  show "case ns_DeleteFile rt path of
      (rt', Inr r) \<Rightarrow> ns_inv rt' \<and> r \<noteq> None \<and> ns_files rt (ns_target path) = r \<and>
        ns_files rt' = (ns_files rt)(ns_target path := None)
    | (rt', Inl _) \<Rightarrow> rt' = rt \<and> ns_files rt (ns_target path) = None"
    using ns.remove_ok [of rt path] ns.remove_err [of rt path] assms by (auto split: prod.splits sum.splits)
  show "case ns_GetFile rt path of
      Inr r \<Rightarrow> r \<noteq> None \<and> ns_files rt (ns_cleanPath path) = r
    | Inl _ \<Rightarrow> ns_files rt (ns_cleanPath path) = None"
  proof (cases "ns_GetFile rt path")
    case (Inl e)
    have "ns_files rt (ns_cleanPath path) \<noteq> Some m" for m using ns.get_iff [OF assms, of path "Some m"] Inl by simp
    then show ?thesis using Inl by (cases "ns_files rt (ns_cleanPath path)") auto
  next
    case (Inr r)
    then show ?thesis using ns.get_iff [OF assms, of path r] by simp
  qed
qed

theorem namespace_refines_map_witness:
  "\<exists>rt'. ns_CreateFile NewNamespace ''/a'' (sample_meta ''/a'') = (rt', Inr ()) \<and>
     ns_files rt' [''a''] = Some (sample_meta ''/a'') \<and>
     ns_DeleteFile NewNamespace ''/a'' = (NewNamespace, Inl (FileNotFound ''/a'')) \<and> ns_files NewNamespace [''a''] = None"
proof -
  have ok: "ns_CreateFile NewNamespace ''/a'' (sample_meta ''/a'') =
      (DirEntry ''/'' True [(''a'', DirEntry ''a'' False [] (Some (sample_meta ''/a'')))] None, Inr ())"
    by code_simp
  have no: "ns_DeleteFile NewNamespace ''/a'' = (NewNamespace, Inl (FileNotFound ''/a''))" by code_simp
  have "ns_target ''/a'' = [''a'']" by code_simp
  then show ?thesis
    using namespace_refines_map [of NewNamespace "''/a''" "sample_meta ''/a''"] ok no
    by (simp add: NewNamespace_def)
qed

text \<open>
  The exact condition under which \<open>CreateFile\<close> succeeds: the path is not empty (or a single
  slash), no proper ancestor of the target is a file, and the target is not a directory.
\<close>

theorem create_succeeds_iff:
  assumes "ns_inv rt"
  shows "(\<exists>rt'. ns_CreateFile rt path meta = (rt', Inr ())) \<longleftrightarrow>
    TrimPrefix path ''/'' \<noteq> '''' \<and>
    (\<forall>qs. strict_prefix qs (ns_target path) \<longrightarrow> ns_files rt qs = None) \<and>
    \<not> (\<exists>d. walk (ns_target path) rt = Some d \<and> deIsDir d)"
  using assms by (rule CreateFile_ok_iff)

theorem create_succeeds_iff_witness:
  "\<exists>rt'. ns_CreateFile NewNamespace ''/a/b'' (sample_meta ''/a/b'') = (rt', Inr ())"
proof -
  have t: "ns_target ''/a/b'' = [''a'', ''b'']" "TrimPrefix ''/a/b'' ''/'' \<noteq> ''''"
    by code_simp+
  have empty: "ns_files NewNamespace qs = None" for qs
    by (cases qs) (auto simp: NewNamespace_def)
  have "ns_inv NewNamespace" by (simp add: NewNamespace_def)
  from create_succeeds_iff [OF this, of "''/a/b''" "sample_meta ''/a/b''"] show ?thesis
    using t empty by (simp add: NewNamespace_def)
qed

text \<open>
  Round trip. For a path whose last component is not empty and whose parent component is not
  empty, a successful \<open>CreateFile\<close> is seen by \<open>GetFile\<close> and \<open>FileExists\<close> at that path, and a
  successful \<open>DeleteFile\<close> at that path makes \<open>GetFile\<close> fail again.
\<close>

theorem create_get_delete_roundtrip:
  assumes "ns_inv rt" "plain path" "ns_CreateFile rt path meta = (rt1, Inr ())"
  shows "ns_GetFile rt1 path = Inr (Some meta) \<and> ns_FileExists rt1 path \<and>
    (\<exists>rt2. ns_DeleteFile rt1 path = (rt2, Inr (Some meta)) \<and> (\<exists>e. ns_GetFile rt2 path = Inl e))"
proof -
  have key: "ns_cleanPath path = ns_target path" using plain_target [OF assms(2)] by simp
  have inv: "ns_inv rt1" using ns.create_ok [OF assms(3,1)] by blast
  have get: "ns_GetFile rt1 path = Inr (Some meta)" using ns.get_create(1) [OF assms(3,1) key] .
  have "snd (ns_DeleteFile rt1 path) = Inr (Some meta)" using ns.remove_create [OF assms(3,1)] by simp
  then obtain rt2 where del: "ns_DeleteFile rt1 path = (rt2, Inr (Some meta))"
    by (cases "ns_DeleteFile rt1 path") auto
  then show ?thesis
    using get inv FileExists_iff ns.get_remove(1) [OF del inv key] by blast
qed

theorem create_get_delete_roundtrip_witness:
  "\<exists>rt1. ns_CreateFile NewNamespace ''/a/b'' (sample_meta ''x'') = (rt1, Inr ()) \<and>
     ns_GetFile rt1 ''/a/b'' = Inr (Some (sample_meta ''x''))"
proof -
  have "ns_inv NewNamespace" by (simp add: NewNamespace_def)
  moreover have "plain ''/a/b''" by code_simp
  moreover obtain rt1 where "ns_CreateFile NewNamespace ''/a/b'' (sample_meta ''x'') = (rt1, Inr ())"
  proof -
    have "snd (ns_CreateFile NewNamespace ''/a/b'' (sample_meta ''x'')) = Inr ()" by code_simp
    then show thesis using that by (metis prod.collapse)
  qed
  ultimately show ?thesis using create_get_delete_roundtrip by blast
qed

text \<open>
  A path with a trailing slash does not round trip. \<open>CreateFile\<close> at \<open>path/\<close> stores an entry
  with the empty name inside the directory \<open>path\<close>, while \<open>GetFile\<close> trims the slash and finds the
  directory: the file just created cannot be read at its path.
\<close>

theorem trailing_slash_unreadable:
  assumes "ns_inv rt" "plain path" "ns_CreateFile rt (path @ ''/'') meta = (rt1, Inr ())"
  shows "ns_files rt1 (ns_cleanPath path @ ['''']) = Some meta \<and>
    ns_GetFile rt1 (path @ ''/'') = Inl (IsADirectory (path @ ''/''))"
proof -
  have files: "ns_inv rt1" "ns_files rt1 (ns_cleanPath path @ ['''']) = Some meta"
    using ns.create_ok [OF assms(3,1)] trailing_slash [OF assms(2)] by auto
  then obtain d c where d: "walk (ns_cleanPath path) rt1 = Some d" "map_of (deChildren d) '''' = Some c"
    by (cases "walk (ns_cleanPath path) rt1") (auto simp: ns_files_def walk_append split: option.splits)
  then have "deIsDir d" using files(1) ns_wf_walk ns_wf_has_child_dir by blast
  then show ?thesis
    using d(1) files(2) trailing_slash [OF assms(2)] by (simp add: ns_GetFile_def ns_resolve_def)
qed

theorem trailing_slash_unreadable_witness:
  "\<exists>rt1. ns_CreateFile NewNamespace ''/a/'' (sample_meta ''x'') = (rt1, Inr ()) \<and>
     ns_GetFile rt1 ''/a/'' = Inl (IsADirectory ''/a/'')"
proof -
  have "ns_inv NewNamespace" by (simp add: NewNamespace_def)
  moreover have "plain ''/a''" by code_simp
  moreover obtain rt1 where "ns_CreateFile NewNamespace (''/a'' @ ''/'') (sample_meta ''x'') = (rt1, Inr ())"
  proof -
    have "snd (ns_CreateFile NewNamespace (''/a'' @ ''/'') (sample_meta ''x'')) = Inr ()" by code_simp
    then show thesis using that by (metis prod.collapse)
  qed
  ultimately show ?thesis
    using trailing_slash_unreadable [of NewNamespace "''/a''" "sample_meta ''x''"] by auto
qed

text \<open>
  \<open>GetAllFiles\<close> returns every file of the namespace exactly once, whatever order the map
  iterations take: its elements are the files of the abstract map and its length is their number.
\<close>

theorem all_files_once:
  assumes "perm_iter it" "ns_inv rt"
  shows "set (ns_GetAllFiles it rt) = ran (ns_files rt) \<and>
    length (ns_GetAllFiles it rt) = card (dom (ns_files rt))"
  using GetAllFiles_complete [OF assms] by blast

theorem all_files_once_witness:
  "card (dom (ns_files (DirEntry ''/'' True
     [(''a'', DirEntry ''a'' False [] (Some (sample_meta ''/a''))),
      (''b'', DirEntry ''b'' False [] (Some (sample_meta ''/b'')))] None))) = 2"
    (is "card (dom (ns_files ?rt)) = 2")
proof -
  have "perm_iter rev" by (simp add: perm_iter_def)
  moreover have "ns_inv ?rt" by simp
  moreover have "length (ns_GetAllFiles rev ?rt) = 2" by code_simp
  ultimately show ?thesis using all_files_once [of rev ?rt] by simp
qed

end
