(* ===== verification/Chunk_Manager.thy ===== *)
theory Chunk_Manager
  imports Common
begin

text \<open>
  \<^verbatim>\<open>internal/metaserver/chunk_manager.go\<close>: the registry of data nodes and the map from chunks to
  the nodes that hold them.

  The state is the record \<open>ChunkManager\<close> of the two maps. Every exported method of the Go type
  runs under the manager's mutex, so each is one function from state to state, with the current
  time \<open>now\<close> where the code calls \<open>time.Now\<close>/\<open>time.Since\<close>, an iteration order \<open>it\<close> where it
  ranges over a map, the sorting routine \<open>srt\<close> behind \<open>sort.Slice\<close> and the hash \<open>sha\<close>. A
  \<open>*DataNodeInfo\<close> is represented by the key of its entry in \<open>nodes\<close> (entries are created once and
  never removed): \<open>deref\<close> reads it and \<open>upd_node\<close> writes through it, so a list of candidate nodes
  taken before a loop sees the updates the loop makes, as the pointers of the source do.
\<close>

section \<open>Data\<close>

record DataNodeInfo =
  dni_NodeID :: string
  dni_Address :: string
  dni_CapacityBytes :: int
  dni_UsedBytes :: int
  dni_ChunkCount :: int
  dni_Status :: NodeStatus
  dni_RiskScore :: real
  dni_LastHeartbeat :: time
  dni_Chunks :: "(string, bool) gomap"

record ChunkMeta =
  ck_ChunkID :: string
  ck_ChunkIndex :: int
  ck_Size :: int
  ck_Checksum :: string
  ck_NodeIDs :: "string list"
  ck_FilePath :: string

record ChunkManager =
  cm_nodes :: "(string, DataNodeInfo) gomap"
  cm_chunks :: "(string, ChunkMeta) gomap"

record ChunkPlacementInfo =
  pl_ChunkID :: string
  pl_ChunkIndex :: int
  pl_NodeIDs :: "string list"
  pl_NodeAddresses :: "string list"

record ChunkLocationInfo =
  lo_ChunkID :: string
  lo_ChunkIndex :: int
  lo_NodeAddresses :: "string list"
  lo_NodeIDs :: "string list"

record ClusterStats =
  st_TotalNodes :: int
  st_HealthyNodes :: int
  st_WarningNodes :: int
  st_AtRiskNodes :: int
  st_DeadNodes :: int
  st_TotalCap :: int
  st_TotalUsed :: int
  st_TotalChunks :: int

datatype cm_error =
    UnknownNode string
  | NoHealthyNodes
  | ChunkNotFound string
  | NoLiveNodes string

fun cm_Error :: "cm_error \<Rightarrow> string" where
  "cm_Error (UnknownNode n) = ''unknown node: '' @ n"
| "cm_Error NoHealthyNodes = ''no healthy nodes available''"
| "cm_Error (ChunkNotFound c) = ''chunk not found: '' @ c"
| "cm_Error (NoLiveNodes c) = ''no live nodes for chunk '' @ c"

section \<open>Operations\<close>

definition NewChunkManager :: ChunkManager where
  "NewChunkManager = \<lparr>cm_nodes = [], cm_chunks = []\<rparr>"

definition deref :: "ChunkManager \<Rightarrow> string \<Rightarrow> DataNodeInfo" where
  "deref cm p = the (map_of (cm_nodes cm) p)"

definition upd_node :: "string \<Rightarrow> (DataNodeInfo \<Rightarrow> DataNodeInfo) \<Rightarrow> ChunkManager \<Rightarrow> ChunkManager" where
  "upd_node p f cm =
     (case map_of (cm_nodes cm) p of
        None \<Rightarrow> cm
      | Some n \<Rightarrow> cm\<lparr>cm_nodes := AList.update p (f n) (cm_nodes cm)\<rparr>)"

definition upd_chunk :: "string \<Rightarrow> (ChunkMeta \<Rightarrow> ChunkMeta) \<Rightarrow> ChunkManager \<Rightarrow> ChunkManager" where
  "upd_chunk c f cm =
     (case map_of (cm_chunks cm) c of
        None \<Rightarrow> cm
      | Some m \<Rightarrow> cm\<lparr>cm_chunks := AList.update c (f m) (cm_chunks cm)\<rparr>)"

definition node_name :: "nat \<Rightarrow> string" where
  "node_name i = ''node-'' @ fmt_d (int i)"

definition cm_RegisterNode ::
  "iter \<Rightarrow> time \<Rightarrow> string \<Rightarrow> int \<Rightarrow> ChunkManager \<Rightarrow> ChunkManager \<times> (cm_error + string)" where
  "cm_RegisterNode it now address capacity cm =
     (case find (\<lambda>(k, n). dni_Address n = address) (gm_range it (cm_nodes cm)) of
        Some (k, n) \<Rightarrow> (upd_node k (\<lambda>n. n\<lparr>dni_LastHeartbeat := now\<rparr>) cm, Inr (dni_NodeID n))
      | None \<Rightarrow>
          let nodeID = node_name (length (cm_nodes cm) + 1)
          in (cm\<lparr>cm_nodes := AList.update nodeID
                \<lparr>dni_NodeID = nodeID, dni_Address = address, dni_CapacityBytes = capacity,
                 dni_UsedBytes = 0, dni_ChunkCount = 0, dni_Status = StatusHealthy,
                 dni_RiskScore = 0, dni_LastHeartbeat = now, dni_Chunks = []\<rparr> (cm_nodes cm)\<rparr>,
              Inr nodeID))"

definition cm_UpdateHeartbeat ::
  "time \<Rightarrow> string \<Rightarrow> int \<Rightarrow> int \<Rightarrow> ChunkManager \<Rightarrow> ChunkManager \<times> (cm_error + unit)" where
  "cm_UpdateHeartbeat now nodeID usedBytes chunkCount cm =
     (case map_of (cm_nodes cm) nodeID of
        None \<Rightarrow> (cm, Inl (UnknownNode nodeID))
      | Some node \<Rightarrow>
          (upd_node nodeID (\<lambda>n.
             let n = n\<lparr>dni_LastHeartbeat := now, dni_UsedBytes := usedBytes,
                       dni_ChunkCount := chunkCount\<rparr>
             in if dni_Status n = StatusDead
                then n\<lparr>dni_Status := StatusHealthy, dni_RiskScore := 0\<rparr> else n) cm,
           Inr ()))"

definition cm_UpdateNodeHealth :: "string \<Rightarrow> NodeStatus \<Rightarrow> real \<Rightarrow> ChunkManager \<Rightarrow> ChunkManager" where
  "cm_UpdateNodeHealth nodeID status risk cm =
     (case map_of (cm_nodes cm) nodeID of
        None \<Rightarrow> cm
      | Some node \<Rightarrow> upd_node nodeID (\<lambda>n. n\<lparr>dni_Status := status, dni_RiskScore := risk\<rparr>) cm)"

definition cm_healthy :: "time \<Rightarrow> DataNodeInfo \<Rightarrow> bool" where
  "cm_healthy now n \<longleftrightarrow>
     (dni_Status n = StatusHealthy \<or> dni_Status n = StatusWarning) \<and>
     now - dni_LastHeartbeat n < DeadNodeTimeout"

definition cm_healthyNodes :: "iter \<Rightarrow> time \<Rightarrow> ChunkManager \<Rightarrow> string list" where
  "cm_healthyNodes it now cm = map fst (filter (\<lambda>(k, n). cm_healthy now n) (gm_range it (cm_nodes cm)))"

text \<open>The comparison \<open>selectNodes\<close> passes to \<open>sort.Slice\<close>: risk first, then number of chunks.\<close>

definition cm_less :: "ChunkManager \<Rightarrow> string \<Rightarrow> string \<Rightarrow> bool" where
  "cm_less cm p q =
     (let a = deref cm p; b = deref cm q
      in if dni_RiskScore a \<noteq> dni_RiskScore b then dni_RiskScore a < dni_RiskScore b
         else length (dni_Chunks a) < length (dni_Chunks b))"

type_synonym sorter = "(string \<Rightarrow> string \<Rightarrow> bool) \<Rightarrow> string list \<Rightarrow> string list"

definition cm_selectNodes ::
  "sorter \<Rightarrow> ChunkManager \<Rightarrow> string list \<Rightarrow> int \<Rightarrow> string \<Rightarrow> string list" where
  "cm_selectNodes srt cm candidates cnt chunkID =
     (let srted = srt (cm_less cm) candidates;
          cnt = (if cnt > int (length srted) then int (length srted) else cnt)
      in take (nat cnt) srted)"

text \<open>The size recorded for chunk \<open>i\<close>: a full chunk, or what remains of the file.\<close>

definition chunk_size_at :: "int \<Rightarrow> nat \<Rightarrow> int" where
  "chunk_size_at fileSize i =
     (let size = ChunkSize; remaining = int64 (fileSize - int64 (int i * ChunkSize))
      in if remaining < size then remaining else size)"

text \<open>One round of the loop of \<open>AllocateChunks\<close>.\<close>

definition alloc_chunk ::
  "sorter \<Rightarrow> (bytes \<Rightarrow> bytes) \<Rightarrow> string list \<Rightarrow> int \<Rightarrow> string \<Rightarrow> int \<Rightarrow> nat \<Rightarrow> ChunkManager \<Rightarrow>
   ChunkManager \<times> ChunkPlacementInfo" where
  "alloc_chunk srt sha healthy replFactor filePath fileSize i cm =
     (let chunkID = GenerateChunkID sha filePath (int i);
          size = chunk_size_at fileSize i;
          targets = cm_selectNodes srt cm healthy replFactor chunkID;
          nodeIDs = map (\<lambda>p. dni_NodeID (deref cm p)) targets;
          nodeAddrs = map (\<lambda>p. dni_Address (deref cm p)) targets;
          cm1 = fold (\<lambda>p. upd_node p (\<lambda>n. n\<lparr>dni_Chunks := AList.update chunkID True (dni_Chunks n)\<rparr>))
                  targets cm
      in (cm1\<lparr>cm_chunks := AList.update chunkID
            \<lparr>ck_ChunkID = chunkID, ck_ChunkIndex = int i, ck_Size = size, ck_Checksum = '''',
             ck_NodeIDs = nodeIDs, ck_FilePath = filePath\<rparr> (cm_chunks cm1)\<rparr>,
          \<lparr>pl_ChunkID = chunkID, pl_ChunkIndex = int i, pl_NodeIDs = nodeIDs,
           pl_NodeAddresses = nodeAddrs\<rparr>))"

fun alloc_loop ::
  "sorter \<Rightarrow> (bytes \<Rightarrow> bytes) \<Rightarrow> string list \<Rightarrow> int \<Rightarrow> string \<Rightarrow> int \<Rightarrow> nat list \<Rightarrow> ChunkManager \<Rightarrow>
   ChunkManager \<times> ChunkPlacementInfo list" where
  "alloc_loop srt sha healthy r filePath fileSize [] cm = (cm, [])"
| "alloc_loop srt sha healthy r filePath fileSize (i # is) cm =
     (case alloc_chunk srt sha healthy r filePath fileSize i cm of
        (cm1, p) \<Rightarrow>
          (case alloc_loop srt sha healthy r filePath fileSize is cm1 of
             (cm2, ps) \<Rightarrow> (cm2, p # ps)))"

text \<open>A negative \<open>chunkCount\<close> makes \<open>make([]T, chunkCount)\<close> panic.\<close>

definition cm_AllocateChunks ::
  "iter \<Rightarrow> sorter \<Rightarrow> (bytes \<Rightarrow> bytes) \<Rightarrow> time \<Rightarrow> string \<Rightarrow> int \<Rightarrow> int \<Rightarrow> ChunkManager \<Rightarrow>
   ChunkManager \<times> (cm_error, ChunkPlacementInfo list) outcome" where
  "cm_AllocateChunks it srt sha now filePath chunkCount fileSize cm =
     (let healthy = cm_healthyNodes it now cm
      in if healthy = [] then (cm, Err NoHealthyNodes)
         else
           let replFactor = (if int (length healthy) < DefaultReplicationFactor
                             then int (length healthy) else DefaultReplicationFactor)
           in if chunkCount < 0 then (cm, Panic)
              else
                case alloc_loop srt sha healthy replFactor filePath fileSize [0..<nat chunkCount] cm of
                  (cm', ps) \<Rightarrow> (cm', Ok ps))"

definition live_replicas :: "ChunkManager \<Rightarrow> ChunkMeta \<Rightarrow> (string \<times> DataNodeInfo) list" where
  "live_replicas cm meta =
     List.map_filter (\<lambda>nid. case map_of (cm_nodes cm) nid of
         None \<Rightarrow> None
       | Some node \<Rightarrow> if dni_Status node = StatusDead then None else Some (nid, node))
       (ck_NodeIDs meta)"

definition locate_chunk :: "ChunkManager \<Rightarrow> string \<Rightarrow> cm_error + ChunkLocationInfo" where
  "locate_chunk cm cid =
     (case map_of (cm_chunks cm) cid of
        None \<Rightarrow> Inl (ChunkNotFound cid)
      | Some meta \<Rightarrow>
          let live = live_replicas cm meta
          in if live = [] then Inl (NoLiveNodes cid)
             else Inr \<lparr>lo_ChunkID = ck_ChunkID meta, lo_ChunkIndex = ck_ChunkIndex meta,
                       lo_NodeAddresses = map (dni_Address \<circ> snd) live,
                       lo_NodeIDs = map fst live\<rparr>)"

fun cm_GetChunkLocations :: "ChunkManager \<Rightarrow> string list \<Rightarrow> cm_error + ChunkLocationInfo list" where
  "cm_GetChunkLocations cm [] = Inr []"
| "cm_GetChunkLocations cm (cid # cids) =
     (case locate_chunk cm cid of
        Inl e \<Rightarrow> Inl e
      | Inr loc \<Rightarrow>
          (case cm_GetChunkLocations cm cids of
             Inl e \<Rightarrow> Inl e
           | Inr locs \<Rightarrow> Inr (loc # locs)))"

text \<open>\<open>RemoveChunks\<close>: the inner loop over one chunk's nodes, and the loop over the chunks.\<close>

fun drop_from_nodes ::
  "string \<Rightarrow> string list \<Rightarrow> ChunkManager \<Rightarrow> (string, bool) gomap \<Rightarrow>
   ChunkManager \<times> (string, bool) gomap" where
  "drop_from_nodes cid [] cm addrs = (cm, addrs)"
| "drop_from_nodes cid (nid # nids) cm addrs =
     (case map_of (cm_nodes cm) nid of
        None \<Rightarrow> drop_from_nodes cid nids cm addrs
      | Some node \<Rightarrow>
          drop_from_nodes cid nids
            (upd_node nid (\<lambda>n. n\<lparr>dni_Chunks := AList.delete cid (dni_Chunks n)\<rparr>) cm)
            (AList.update (dni_Address node) True addrs))"

fun remove_loop ::
  "string list \<Rightarrow> ChunkManager \<Rightarrow> (string, bool) gomap \<Rightarrow> ChunkManager \<times> (string, bool) gomap" where
  "remove_loop [] cm addrs = (cm, addrs)"
| "remove_loop (cid # cids) cm addrs =
     (case map_of (cm_chunks cm) cid of
        None \<Rightarrow> remove_loop cids cm addrs
      | Some meta \<Rightarrow>
          (case drop_from_nodes cid (ck_NodeIDs meta) cm addrs of
             (cm1, addrs1) \<Rightarrow>
               remove_loop cids (cm1\<lparr>cm_chunks := AList.delete cid (cm_chunks cm1)\<rparr>) addrs1))"

definition cm_RemoveChunks :: "iter \<Rightarrow> string list \<Rightarrow> ChunkManager \<Rightarrow> ChunkManager \<times> string list" where
  "cm_RemoveChunks it chunkIDs cm =
     (case remove_loop chunkIDs cm [] of (cm', addrs) \<Rightarrow> (cm', map fst (gm_range it addrs)))"

definition cm_UpdateChunkChecksum :: "string \<Rightarrow> string \<Rightarrow> ChunkManager \<Rightarrow> ChunkManager" where
  "cm_UpdateChunkChecksum chunkID checksum cm =
     upd_chunk chunkID (\<lambda>m. m\<lparr>ck_Checksum := checksum\<rparr>) cm"

definition cm_GetChunkMeta :: "ChunkManager \<Rightarrow> string \<Rightarrow> ChunkMeta option" where
  "cm_GetChunkMeta cm chunkID = map_of (cm_chunks cm) chunkID"

definition cm_GetNode :: "ChunkManager \<Rightarrow> string \<Rightarrow> DataNodeInfo option" where
  "cm_GetNode cm nodeID = map_of (cm_nodes cm) nodeID"

definition cm_GetAllNodes :: "iter \<Rightarrow> ChunkManager \<Rightarrow> DataNodeInfo list" where
  "cm_GetAllNodes it cm = map snd (gm_range it (cm_nodes cm))"

definition cm_GetNodeByAddress :: "iter \<Rightarrow> ChunkManager \<Rightarrow> string \<Rightarrow> DataNodeInfo option" where
  "cm_GetNodeByAddress it cm addr =
     map_option snd (find (\<lambda>(k, n). dni_Address n = addr) (gm_range it (cm_nodes cm)))"

definition cm_stale :: "time \<Rightarrow> DataNodeInfo \<Rightarrow> bool" where
  "cm_stale now n \<longleftrightarrow> dni_Status n \<noteq> StatusDead \<and> now - dni_LastHeartbeat n > DeadNodeTimeout"

fun dead_loop :: "time \<Rightarrow> string list \<Rightarrow> ChunkManager \<Rightarrow> ChunkManager \<times> string list" where
  "dead_loop now [] cm = (cm, [])"
| "dead_loop now (k # ks) cm =
     (case map_of (cm_nodes cm) k of
        None \<Rightarrow> dead_loop now ks cm
      | Some n \<Rightarrow>
          if cm_stale now n then
            (case dead_loop now ks (upd_node k (\<lambda>n. n\<lparr>dni_Status := StatusDead\<rparr>) cm) of
               (cm', ids) \<Rightarrow> (cm', dni_NodeID n # ids))
          else dead_loop now ks cm)"

definition cm_CheckDeadNodes :: "iter \<Rightarrow> time \<Rightarrow> ChunkManager \<Rightarrow> ChunkManager \<times> string list" where
  "cm_CheckDeadNodes it now cm = dead_loop now (it (map fst (cm_nodes cm))) cm"

definition cm_GetChunksOnNode :: "iter \<Rightarrow> ChunkManager \<Rightarrow> string \<Rightarrow> string list" where
  "cm_GetChunksOnNode it cm nodeID =
     (case map_of (cm_nodes cm) nodeID of
        None \<Rightarrow> []
      | Some node \<Rightarrow> it (map fst (dni_Chunks node)))"

definition cm_AddChunkToNode :: "string \<Rightarrow> string \<Rightarrow> ChunkManager \<Rightarrow> ChunkManager" where
  "cm_AddChunkToNode chunkID nodeID cm =
     upd_chunk chunkID
       (\<lambda>m. if nodeID \<in> set (ck_NodeIDs m) then m else m\<lparr>ck_NodeIDs := ck_NodeIDs m @ [nodeID]\<rparr>)
       (upd_node nodeID (\<lambda>n. n\<lparr>dni_Chunks := AList.update chunkID True (dni_Chunks n)\<rparr>) cm)"

definition cm_RemoveChunkFromNode :: "string \<Rightarrow> string \<Rightarrow> ChunkManager \<Rightarrow> ChunkManager" where
  "cm_RemoveChunkFromNode chunkID nodeID cm =
     upd_chunk chunkID (\<lambda>m. m\<lparr>ck_NodeIDs := remove1 nodeID (ck_NodeIDs m)\<rparr>)
       (upd_node nodeID (\<lambda>n. n\<lparr>dni_Chunks := AList.delete chunkID (dni_Chunks n)\<rparr>) cm)"

definition cm_GetUnderReplicatedChunks :: "iter \<Rightarrow> ChunkManager \<Rightarrow> ChunkMeta list" where
  "cm_GetUnderReplicatedChunks it cm =
     filter (\<lambda>meta. int (length (live_replicas cm meta)) < DefaultReplicationFactor)
       (map snd (gm_range it (cm_chunks cm)))"

definition stats_add :: "DataNodeInfo \<Rightarrow> ClusterStats \<Rightarrow> ClusterStats" where
  "stats_add n s =
     (let s = s\<lparr>st_TotalNodes := st_TotalNodes s + 1,
               st_TotalCap := int64 (st_TotalCap s + dni_CapacityBytes n),
               st_TotalUsed := int64 (st_TotalUsed s + dni_UsedBytes n)\<rparr>
      in case dni_Status n of
           StatusHealthy \<Rightarrow> s\<lparr>st_HealthyNodes := st_HealthyNodes s + 1\<rparr>
         | StatusWarning \<Rightarrow> s\<lparr>st_WarningNodes := st_WarningNodes s + 1\<rparr>
         | StatusAtRisk \<Rightarrow> s\<lparr>st_AtRiskNodes := st_AtRiskNodes s + 1\<rparr>
         | StatusCritical \<Rightarrow> s\<lparr>st_AtRiskNodes := st_AtRiskNodes s + 1\<rparr>
         | StatusDead \<Rightarrow> s\<lparr>st_DeadNodes := st_DeadNodes s + 1\<rparr>)"

definition cm_GetClusterStats :: "iter \<Rightarrow> ChunkManager \<Rightarrow> ClusterStats" where
  "cm_GetClusterStats it cm =
     fold (\<lambda>(k, n). stats_add n) (gm_range it (cm_nodes cm))
       \<lparr>st_TotalNodes = 0, st_HealthyNodes = 0, st_WarningNodes = 0, st_AtRiskNodes = 0,
        st_DeadNodes = 0, st_TotalCap = 0, st_TotalUsed = 0,
        st_TotalChunks = int (length (cm_chunks cm))\<rparr>"

section \<open>Specification\<close>

text \<open>Node identity: keys, node IDs and addresses, in registration order.\<close>

definition node_sig :: "ChunkManager \<Rightarrow> (string \<times> string \<times> string) list" where
  "node_sig cm = map (\<lambda>(k, n). (k, dni_NodeID n, dni_Address n)) (cm_nodes cm)"

definition sig_ok :: "(string \<times> string \<times> string) list \<Rightarrow> bool" where
  "sig_ok sig \<longleftrightarrow>
     map fst sig = map node_name [1..<Suc (length sig)] \<and>
     (\<forall>(k, i, a) \<in> set sig. i = k) \<and> distinct (map (snd \<circ> snd) sig)"

text \<open>The chunks a node lists, and the nodes a chunk lists.\<close>

definition holdings :: "ChunkManager \<Rightarrow> string \<Rightarrow> string set" where
  "holdings cm nid = (case map_of (cm_nodes cm) nid of None \<Rightarrow> {} | Some n \<Rightarrow> gm_keys (dni_Chunks n))"

definition replicas :: "ChunkManager \<Rightarrow> string \<Rightarrow> string list" where
  "replicas cm c = (case map_of (cm_chunks cm) c of None \<Rightarrow> [] | Some m \<Rightarrow> ck_NodeIDs m)"

text \<open>
  The invariant: nodes are numbered in registration order and have distinct addresses, chunks are
  filed under their IDs, and every node a chunk lists is registered and lists the chunk.
\<close>

definition cm_inv :: "ChunkManager \<Rightarrow> bool" where
  "cm_inv cm \<longleftrightarrow> sig_ok (node_sig cm) \<and> gm_wf (cm_chunks cm) \<and>
     (\<forall>k n. map_of (cm_nodes cm) k = Some n \<longrightarrow> gm_wf (dni_Chunks n)) \<and>
     (\<forall>c m. map_of (cm_chunks cm) c = Some m \<longrightarrow> ck_ChunkID m = c \<and> distinct (ck_NodeIDs m)) \<and>
     (\<forall>c. \<forall>nid\<in>set (replicas cm c). c \<in> holdings cm nid)"

text \<open>Exact bookkeeping: a node lists a chunk only if the chunk lists the node.\<close>

definition cm_exact :: "ChunkManager \<Rightarrow> bool" where
  "cm_exact cm \<longleftrightarrow> (\<forall>nid. \<forall>c\<in>holdings cm nid. nid \<in> set (replicas cm c))"

text \<open>
  The manager as a shared object: goroutines interleave its methods, each atomic under the mutex.
  \<open>AddChunkToNode\<close> is called for registered nodes only.
\<close>

inductive cm_step :: "ChunkManager \<Rightarrow> ChunkManager \<Rightarrow> bool" where
  register: "perm_iter it \<Longrightarrow> cm_step cm (fst (cm_RegisterNode it now address capacity cm))"
| heartbeat: "cm_step cm (fst (cm_UpdateHeartbeat now nodeID used cnt cm))"
| health: "cm_step cm (cm_UpdateNodeHealth nodeID status risk cm)"
| allocate: "perm_iter it \<Longrightarrow> sort_slice srt \<Longrightarrow>
    cm_step cm (fst (cm_AllocateChunks it srt sha now path cnt sz cm))"
| remove: "cm_step cm (fst (cm_RemoveChunks it ids cm))"
| checksum: "cm_step cm (cm_UpdateChunkChecksum c s cm)"
| check_dead: "cm_step cm (fst (cm_CheckDeadNodes it now cm))"
| add_chunk: "map_of (cm_nodes cm) nodeID \<noteq> None \<Longrightarrow> cm_step cm (cm_AddChunkToNode c nodeID cm)"
| remove_chunk: "cm_step cm (cm_RemoveChunkFromNode c nodeID cm)"

inductive cm_reachable :: "ChunkManager \<Rightarrow> bool" where
  new: "cm_reachable NewChunkManager"
| step: "cm_reachable cm \<Longrightarrow> cm_step cm cm' \<Longrightarrow> cm_reachable cm'"

section \<open>Writing through node and chunk pointers\<close>

named_theorems cm_simps \<open>how the manager's components read after an update\<close>

lemma nodes_upd_node [cm_simps]:
  "map_of (cm_nodes (upd_node p f cm)) = (map_of (cm_nodes cm))(p := map_option f (map_of (cm_nodes cm) p))"
  by (auto simp: upd_node_def fun_eq_iff split: option.splits)

lemma chunks_upd_node [cm_simps]: "cm_chunks (upd_node p f cm) = cm_chunks cm"
  by (simp add: upd_node_def split: option.splits)

lemma nodes_upd_chunk [cm_simps]: "cm_nodes (upd_chunk c f cm) = cm_nodes cm"
  by (simp add: upd_chunk_def split: option.splits)

lemma chunks_upd_chunk [cm_simps]:
  "map_of (cm_chunks (upd_chunk c f cm)) =
     (map_of (cm_chunks cm))(c := map_option f (map_of (cm_chunks cm) c))"
  by (auto simp: upd_chunk_def fun_eq_iff split: option.splits)

lemma wf_upd_chunk [cm_simps]: "gm_wf (cm_chunks cm) \<Longrightarrow> gm_wf (cm_chunks (upd_chunk c f cm))"
  by (simp add: upd_chunk_def split: option.splits)

lemma keys_upd_node [cm_simps]: "map fst (cm_nodes (upd_node p f cm)) = map fst (cm_nodes cm)"
  by (auto simp: upd_node_def keys_list_update_old map_of_Some_key split: option.splits)

lemma length_upd_node [cm_simps]: "length (cm_nodes (upd_node p f cm)) = length (cm_nodes cm)"
  by (metis keys_upd_node length_map)

lemma upd_node_commute_chunks:
  "upd_node p f (cm\<lparr>cm_chunks := C\<rparr>) = (upd_node p f cm)\<lparr>cm_chunks := C\<rparr>"
  by (simp add: upd_node_def split: option.splits)

lemma upd_node_upd_chunk: "upd_chunk c g (upd_node p f cm) = upd_node p f (upd_chunk c g cm)"
  by (auto simp: upd_node_def upd_chunk_def split: option.splits)

lemma map_update_same:
  "map_of m p = Some v \<Longrightarrow> g w = g v \<Longrightarrow>
   map (\<lambda>(k, x). (k, g x)) (AList.update p w m) = map (\<lambda>(k, x). (k, g x)) m"
  by (induction m) auto

lemma sig_upd_node [cm_simps]:
  assumes "\<And>n. dni_NodeID (f n) = dni_NodeID n" "\<And>n. dni_Address (f n) = dni_Address n"
  shows "node_sig (upd_node p f cm) = node_sig cm"
proof (cases "map_of (cm_nodes cm) p")
  case (Some v)
  then show ?thesis
    using map_update_same [OF Some, of "\<lambda>n. (dni_NodeID n, dni_Address n)" "f v"] assms
    by (simp add: node_sig_def upd_node_def)
qed (simp add: upd_node_def)

lemma sig_upd_chunk [cm_simps]: "node_sig (upd_chunk c f cm) = node_sig cm"
  by (simp add: node_sig_def cm_simps)

lemma sig_chunks [cm_simps]: "node_sig (cm\<lparr>cm_chunks := C\<rparr>) = node_sig cm"
  by (simp add: node_sig_def)

lemma replicas_upd_node [cm_simps]: "replicas (upd_node p f cm) = replicas cm"
  by (simp add: replicas_def fun_eq_iff cm_simps)

lemma holdings_upd_node [cm_simps]:
  "holdings (upd_node p f cm) q =
     (if q = p then (case map_of (cm_nodes cm) p of None \<Rightarrow> {} | Some n \<Rightarrow> gm_keys (dni_Chunks (f n)))
      else holdings cm q)"
  by (simp add: holdings_def cm_simps split: option.splits)

lemma holdings_upd_chunk [cm_simps]: "holdings (upd_chunk c f cm) = holdings cm"
  by (simp add: holdings_def fun_eq_iff cm_simps)

lemma holdings_chunks [cm_simps]: "holdings (cm\<lparr>cm_chunks := C\<rparr>) = holdings cm"
  by (simp add: holdings_def fun_eq_iff)

section \<open>Node identities\<close>

lemma node_name_inj [simp]: "node_name i = node_name j \<longleftrightarrow> i = j"
  by (auto simp: node_name_def dest: fmt_nat_inj)

lemma sig_keys: "map fst (node_sig cm) = map fst (cm_nodes cm)"
  by (simp add: node_sig_def case_prod_beta comp_def)

lemma sig_length: "length (node_sig cm) = length (cm_nodes cm)"
  by (simp add: node_sig_def)

lemma sig_mem: "map_of (cm_nodes cm) k = Some n \<Longrightarrow> (k, dni_NodeID n, dni_Address n) \<in> set (node_sig cm)"
  unfolding node_sig_def by (force dest: map_of_SomeD)

lemma inv_names:
  "cm_inv cm \<Longrightarrow> map fst (cm_nodes cm) = map node_name [1..<Suc (length (cm_nodes cm))]"
  unfolding cm_inv_def sig_ok_def by (metis sig_keys sig_length)

lemma inv_nodes_wf: "cm_inv cm \<Longrightarrow> gm_wf (cm_nodes cm)"
  by (simp add: inv_names distinct_map inj_on_def)

lemma inv_node_id: "cm_inv cm \<Longrightarrow> map_of (cm_nodes cm) k = Some n \<Longrightarrow> dni_NodeID n = k"
  unfolding cm_inv_def sig_ok_def using sig_mem by fastforce

lemma inv_address_unique:
  assumes "cm_inv cm" "map_of (cm_nodes cm) k = Some n" "map_of (cm_nodes cm) l = Some m"
    and "dni_Address n = dni_Address m"
  shows "k = l"
proof -
  have "inj_on (snd \<circ> snd) (set (node_sig cm))"
    using assms(1) unfolding cm_inv_def sig_ok_def by (simp add: distinct_map)
  from inj_onD [OF this _ sig_mem [OF assms(2)] sig_mem [OF assms(3)]] assms(4)
  show ?thesis by simp
qed

lemma inv_fresh: "cm_inv cm \<Longrightarrow> node_name (length (cm_nodes cm) + 1) \<notin> gm_keys (cm_nodes cm)"
  using arg_cong [OF inv_names, of cm set] by auto

section \<open>The invariant under the elementary updates\<close>

lemma inv_parts:
  assumes "cm_inv cm"
  shows "sig_ok (node_sig cm)" "gm_wf (cm_chunks cm)"
    and "\<And>k n. map_of (cm_nodes cm) k = Some n \<Longrightarrow> gm_wf (dni_Chunks n)"
    and "\<And>c m. map_of (cm_chunks cm) c = Some m \<Longrightarrow> ck_ChunkID m = c"
    and "\<And>c m. map_of (cm_chunks cm) c = Some m \<Longrightarrow> distinct (ck_NodeIDs m)"
    and "\<And>c nid. nid \<in> set (replicas cm c) \<Longrightarrow> c \<in> holdings cm nid"
  using assms unfolding cm_inv_def by blast+

lemma inv_upd_node:
  assumes inv: "cm_inv cm"
    and sig: "\<And>n. dni_NodeID (f n) = dni_NodeID n" "\<And>n. dni_Address (f n) = dni_Address n"
    and wf: "\<And>n. gm_wf (dni_Chunks n) \<Longrightarrow> gm_wf (dni_Chunks (f n))"
    and keep: "\<And>n c. c \<in> gm_keys (dni_Chunks n) \<Longrightarrow> p \<in> set (replicas cm c) \<Longrightarrow>
                 c \<in> gm_keys (dni_Chunks (f n))"
  shows "cm_inv (upd_node p f cm)"
proof -
  have "c \<in> holdings (upd_node p f cm) nid" if rep: "nid \<in> set (replicas cm c)" for c nid
  proof (cases "nid = p")
    case True
    obtain n where n: "map_of (cm_nodes cm) p = Some n" "c \<in> gm_keys (dni_Chunks n)"
      using inv_parts(6) [OF inv rep] True by (fastforce simp: holdings_def split: option.splits)
    show ?thesis using keep [OF n(2)] n(1) rep True by (simp add: cm_simps)
  qed (use inv_parts(6) [OF inv rep] in \<open>simp add: cm_simps\<close>)
  then show ?thesis
    using inv sig wf unfolding cm_inv_def by (auto simp: cm_simps split: if_splits)
qed

lemma inv_node_fields:
  assumes "cm_inv cm"
    and "\<And>n. dni_NodeID (f n) = dni_NodeID n" "\<And>n. dni_Address (f n) = dni_Address n"
    and "\<And>n. dni_Chunks (f n) = dni_Chunks n"
  shows "cm_inv (upd_node p f cm)"
  using assms by (intro inv_upd_node) simp_all

lemma inv_put_chunk:
  assumes "cm_inv cm" "ck_ChunkID m = c" "distinct (ck_NodeIDs m)"
    and "\<And>nid. nid \<in> set (ck_NodeIDs m) \<Longrightarrow> c \<in> holdings cm nid"
  shows "cm_inv (cm\<lparr>cm_chunks := AList.update c m (cm_chunks cm)\<rparr>)"
  using assms unfolding cm_inv_def by (auto simp: cm_simps replicas_def)

lemma inv_delete_chunk:
  "cm_inv cm \<Longrightarrow> cm_inv (cm\<lparr>cm_chunks := AList.delete c (cm_chunks cm)\<rparr>)"
  unfolding cm_inv_def by (auto simp: cm_simps replicas_def)

lemma inv_upd_chunk:
  assumes "cm_inv cm" "\<And>m. ck_ChunkID (f m) = ck_ChunkID m"
    and "\<And>m. map_of (cm_chunks cm) c = Some m \<Longrightarrow> distinct (ck_NodeIDs m) \<Longrightarrow> distinct (ck_NodeIDs (f m))"
    and "\<And>m nid. map_of (cm_chunks cm) c = Some m \<Longrightarrow> nid \<in> set (ck_NodeIDs (f m)) \<Longrightarrow>
           nid \<in> set (ck_NodeIDs m) \<or> c \<in> holdings cm nid"
  shows "cm_inv (upd_chunk c f cm)"
proof (cases "map_of (cm_chunks cm) c")
  case (Some m)
  have eq: "upd_chunk c f cm = cm\<lparr>cm_chunks := AList.update c (f m) (cm_chunks cm)\<rparr>"
    by (simp add: upd_chunk_def Some)
  have "nid \<in> set (ck_NodeIDs m) \<Longrightarrow> c \<in> holdings cm nid" for nid
    using inv_parts(6) [OF assms(1), of nid c] by (simp add: replicas_def Some)
  then show ?thesis
    unfolding eq using assms Some inv_parts(4,5) [OF assms(1) Some]
    by (intro inv_put_chunk) auto
qed (simp add: upd_chunk_def assms(1))

section \<open>Every operation keeps the invariant\<close>

definition add_chunk_entry :: "string \<Rightarrow> DataNodeInfo \<Rightarrow> DataNodeInfo" where
  "add_chunk_entry c n = n\<lparr>dni_Chunks := AList.update c True (dni_Chunks n)\<rparr>"

definition del_chunk_entry :: "string \<Rightarrow> DataNodeInfo \<Rightarrow> DataNodeInfo" where
  "del_chunk_entry c n = n\<lparr>dni_Chunks := AList.delete c (dni_Chunks n)\<rparr>"

lemma add_chunk_entry_sel [simp]:
  "dni_NodeID (add_chunk_entry c n) = dni_NodeID n" "dni_Address (add_chunk_entry c n) = dni_Address n"
  "dni_Status (add_chunk_entry c n) = dni_Status n"
  "dni_LastHeartbeat (add_chunk_entry c n) = dni_LastHeartbeat n"
  "dni_RiskScore (add_chunk_entry c n) = dni_RiskScore n"
  "dni_Chunks (add_chunk_entry c n) = AList.update c True (dni_Chunks n)"
  by (simp_all add: add_chunk_entry_def)

lemma del_chunk_entry_sel [simp]:
  "dni_NodeID (del_chunk_entry c n) = dni_NodeID n" "dni_Address (del_chunk_entry c n) = dni_Address n"
  "dni_Status (del_chunk_entry c n) = dni_Status n"
  "dni_Chunks (del_chunk_entry c n) = AList.delete c (dni_Chunks n)"
  by (simp_all add: del_chunk_entry_def)

lemma inv_add_entry: "cm_inv cm \<Longrightarrow> cm_inv (upd_node p (add_chunk_entry c) cm)"
  by (rule inv_upd_node) simp_all

lemma inv_del_entry:
  "cm_inv cm \<Longrightarrow> p \<notin> set (replicas cm c) \<Longrightarrow> cm_inv (upd_node p (del_chunk_entry c) cm)"
  by (rule inv_upd_node) auto

lemma inv_new: "cm_inv NewChunkManager"
  by (simp add: NewChunkManager_def cm_inv_def node_sig_def sig_ok_def replicas_def)

lemma inv_append_node:
  assumes inv: "cm_inv cm" and k: "k = node_name (length (cm_nodes cm) + 1)"
    and n: "dni_NodeID n = k" "dni_Chunks n = []"
    and fresh: "\<forall>(k, m) \<in> set (cm_nodes cm). dni_Address m \<noteq> dni_Address n"
  shows "cm_inv (cm\<lparr>cm_nodes := AList.update k n (cm_nodes cm)\<rparr>)" (is "cm_inv ?cm'")
proof -
  have new: "k \<notin> gm_keys (cm_nodes cm)" using inv_fresh [OF inv] k by simp
  have sig: "node_sig ?cm' = node_sig cm @ [(k, k, dni_Address n)]"
    by (simp add: node_sig_def update_new_append [OF new] n)
  have "dni_Address n \<notin> (snd \<circ> snd) ` set (node_sig cm)"
    using fresh by (force simp: node_sig_def)
  then have "sig_ok (node_sig ?cm')"
    using inv_parts(1) [OF inv] unfolding sig sig_ok_def by (auto simp: k sig_length)
  moreover have "holdings ?cm' q = (if q = k then {} else holdings cm q)" for q
    by (simp add: holdings_def n)
  moreover have "k \<notin> set (replicas cm c)" for c
    using inv_parts(6) [OF inv, of k c] new
    by (auto simp: holdings_def map_of_eq_None_iff split: option.splits dest: map_of_Some_key)
  moreover have "replicas ?cm' = replicas cm" by (simp add: replicas_def fun_eq_iff)
  ultimately show ?thesis
    using inv n unfolding cm_inv_def by auto
qed

lemma inv_register:
  assumes "cm_inv cm" "perm_iter it"
  shows "cm_inv (fst (cm_RegisterNode it now address capacity cm))"
proof (cases "find (\<lambda>(k, n). dni_Address n = address) (gm_range it (cm_nodes cm))")
  case None
  then have "\<forall>(k, m) \<in> set (cm_nodes cm). dni_Address m \<noteq> address"
    using set_gm_range [OF assms(2) inv_nodes_wf [OF assms(1)]] by (auto simp: find_None_iff)
  then show ?thesis
    using None assms(1) unfolding cm_RegisterNode_def Let_def
    by (simp add: inv_append_node)
next
  case (Some x)
  then show ?thesis
    using assms(1) by (cases x) (simp add: cm_RegisterNode_def inv_node_fields)
qed

lemma inv_heartbeat: "cm_inv cm \<Longrightarrow> cm_inv (fst (cm_UpdateHeartbeat now nodeID used cnt cm))"
  by (auto simp: cm_UpdateHeartbeat_def Let_def intro!: inv_node_fields split: option.splits)

lemma inv_health: "cm_inv cm \<Longrightarrow> cm_inv (cm_UpdateNodeHealth nodeID status risk cm)"
  by (auto simp: cm_UpdateNodeHealth_def intro!: inv_node_fields split: option.splits)

lemma inv_checksum: "cm_inv cm \<Longrightarrow> cm_inv (cm_UpdateChunkChecksum c s cm)"
  by (auto simp: cm_UpdateChunkChecksum_def intro!: inv_upd_chunk)

lemma inv_dead_loop: "cm_inv cm \<Longrightarrow> cm_inv (fst (dead_loop now ks cm))"
  by (induction now ks cm rule: dead_loop.induct)
     (auto simp: inv_node_fields split: option.splits prod.splits if_splits)

lemma AddChunkToNode_eq:
  "cm_AddChunkToNode c nodeID cm =
     upd_chunk c (\<lambda>m. if nodeID \<in> set (ck_NodeIDs m) then m else m\<lparr>ck_NodeIDs := ck_NodeIDs m @ [nodeID]\<rparr>)
       (upd_node nodeID (add_chunk_entry c) cm)"
  by (simp add: cm_AddChunkToNode_def add_chunk_entry_def [abs_def])

lemma RemoveChunkFromNode_eq:
  "cm_RemoveChunkFromNode c nodeID cm =
     upd_node nodeID (del_chunk_entry c)
       (upd_chunk c (\<lambda>m. m\<lparr>ck_NodeIDs := remove1 nodeID (ck_NodeIDs m)\<rparr>) cm)"
  by (simp add: cm_RemoveChunkFromNode_def upd_node_upd_chunk del_chunk_entry_def [abs_def])

lemma inv_AddChunkToNode:
  assumes "cm_inv cm" "map_of (cm_nodes cm) nodeID \<noteq> None"
  shows "cm_inv (cm_AddChunkToNode c nodeID cm)"
  unfolding AddChunkToNode_eq using assms
  by (intro inv_upd_chunk inv_add_entry) (auto simp: cm_simps split: if_splits)

lemma inv_RemoveChunkFromNode:
  assumes "cm_inv cm"
  shows "cm_inv (cm_RemoveChunkFromNode c nodeID cm)"
  unfolding RemoveChunkFromNode_eq
proof (rule inv_del_entry)
  show "cm_inv (upd_chunk c (\<lambda>m. m\<lparr>ck_NodeIDs := remove1 nodeID (ck_NodeIDs m)\<rparr>) cm)"
    using assms by (intro inv_upd_chunk) (auto dest: notin_set_remove1 in_set_remove1 [THEN iffD1] set_remove1_subset [THEN subsetD])
  show "nodeID \<notin> set (replicas (upd_chunk c (\<lambda>m. m\<lparr>ck_NodeIDs := remove1 nodeID (ck_NodeIDs m)\<rparr>) cm) c)"
    using inv_parts(5) [OF assms] by (auto simp: replicas_def cm_simps split: option.splits)
qed

subsection \<open>RemoveChunks\<close>

lemma fold_upd_node_chunks [cm_simps]:
  "cm_chunks (fold (\<lambda>p. upd_node p f) ps cm) = cm_chunks cm"
  by (induction ps arbitrary: cm) (simp_all add: cm_simps)

lemma fold_upd_node_nodes:
  "distinct ps \<Longrightarrow> map_of (cm_nodes (fold (\<lambda>p. upd_node p f) ps cm)) k =
     (if k \<in> set ps then map_option f (map_of (cm_nodes cm) k) else map_of (cm_nodes cm) k)"
  by (induction ps arbitrary: cm) (auto simp: cm_simps)

lemma fold_upd_node_commute:
  "fold (\<lambda>p. upd_node p f) ps (cm\<lparr>cm_chunks := C\<rparr>) = (fold (\<lambda>p. upd_node p f) ps cm)\<lparr>cm_chunks := C\<rparr>"
  by (induction ps arbitrary: cm) (simp_all add: upd_node_commute_chunks)

lemma drop_from_nodes_fst:
  "fst (drop_from_nodes c nids cm addrs) = fold (\<lambda>p. upd_node p (del_chunk_entry c)) nids cm"
  by (induction c nids cm addrs rule: drop_from_nodes.induct)
     (auto simp: del_chunk_entry_def [abs_def] upd_node_def split: option.splits)

text \<open>One round of \<open>RemoveChunks\<close> on the state: the chunk goes, then its entries on the nodes.\<close>

definition forget_chunk :: "string \<Rightarrow> ChunkManager \<Rightarrow> ChunkManager" where
  "forget_chunk c cm = fold (\<lambda>p. upd_node p (del_chunk_entry c)) (replicas cm c)
     (cm\<lparr>cm_chunks := AList.delete c (cm_chunks cm)\<rparr>)"

lemma remove_loop_fst: "fst (remove_loop cs cm addrs) = fold forget_chunk cs cm"
proof (induction cs cm addrs rule: remove_loop.induct)
  case (2 c cs cm addrs)
  show ?case
  proof (cases "map_of (cm_chunks cm) c")
    case None
    then have "forget_chunk c cm = cm"
      using delete_absent [of c "cm_chunks cm"] map_of_eq_None_iff [of "cm_chunks cm" c]
      by (simp add: forget_chunk_def replicas_def)
    then show ?thesis using 2(1) [OF None] None by simp
  next
    case (Some m)
    obtain cm1 addrs1 where d: "drop_from_nodes c (ck_NodeIDs m) cm addrs = (cm1, addrs1)" by force
    have cm1: "cm1 = fold (\<lambda>p. upd_node p (del_chunk_entry c)) (ck_NodeIDs m) cm"
      using drop_from_nodes_fst [of c "ck_NodeIDs m" cm addrs] d by simp
    have "cm1\<lparr>cm_chunks := AList.delete c (cm_chunks cm1)\<rparr> = forget_chunk c cm"
      by (simp add: cm1 forget_chunk_def replicas_def Some fold_upd_node_commute cm_simps)
    then show ?thesis using 2(2) [OF Some d [symmetric]] Some d by simp
  qed
qed simp

lemma inv_fold_del:
  "cm_inv cm \<Longrightarrow> replicas cm c = [] \<Longrightarrow> cm_inv (fold (\<lambda>p. upd_node p (del_chunk_entry c)) ps cm)"
  by (induction ps arbitrary: cm) (simp_all add: inv_del_entry cm_simps)

lemma inv_forget: "cm_inv cm \<Longrightarrow> cm_inv (forget_chunk c cm)"
  unfolding forget_chunk_def
  by (intro inv_fold_del inv_delete_chunk) (simp_all add: replicas_def)

lemma RemoveChunks_fst: "fst (cm_RemoveChunks it cs cm) = fold forget_chunk cs cm"
  using remove_loop_fst [of cs cm "[]"] by (auto simp: cm_RemoveChunks_def split: prod.splits)

lemma inv_remove: "cm_inv cm \<Longrightarrow> cm_inv (fst (cm_RemoveChunks it cs cm))"
proof -
  assume "cm_inv cm"
  then have "cm_inv (fold forget_chunk cs cm)"
    by (induction cs arbitrary: cm) (simp_all add: inv_forget)
  then show ?thesis by (simp add: RemoveChunks_fst)
qed

lemma replicas_forget: "replicas (forget_chunk c cm) d = (if d = c then [] else replicas cm d)"
  by (simp add: forget_chunk_def replicas_def cm_simps)

lemma holdings_forget:
  assumes "cm_inv cm"
  shows "holdings (forget_chunk c cm) k = holdings cm k - (if k \<in> set (replicas cm c) then {c} else {})"
proof -
  have "distinct (replicas cm c)"
    using inv_parts(5) [OF assms] by (auto simp: replicas_def split: option.splits)
  then show ?thesis
    by (auto simp: forget_chunk_def holdings_def fold_upd_node_nodes split: option.splits)
qed

subsection \<open>AllocateChunks\<close>

text \<open>What allocation leaves alone: everything about a node except the set of its chunks.\<close>

definition node_cores :: "ChunkManager \<Rightarrow> (string \<times> DataNodeInfo) list" where
  "node_cores cm = map (\<lambda>(k, n). (k, n\<lparr>dni_Chunks := []\<rparr>)) (cm_nodes cm)"

lemma cores_add_entry: "node_cores (upd_node p (add_chunk_entry c) cm) = node_cores cm"
proof (cases "map_of (cm_nodes cm) p")
  case (Some v)
  then show ?thesis
    using map_update_same [OF Some, of "\<lambda>n. n\<lparr>dni_Chunks := []\<rparr>" "add_chunk_entry c v"]
    by (simp add: node_cores_def upd_node_def add_chunk_entry_def)
qed (simp add: upd_node_def)

lemma cores_fold_add: "node_cores (fold (\<lambda>p. upd_node p (add_chunk_entry c)) ps cm) = node_cores cm"
  by (induction ps arbitrary: cm) (simp_all add: cores_add_entry)

lemma cores_map_of:
  "map_option (\<lambda>n. n\<lparr>dni_Chunks := []\<rparr>) (map_of (cm_nodes cm) k) = map_of (node_cores cm) k"
  by (simp add: node_cores_def map_of_map)

lemma cores_fields:
  assumes "node_cores cm' = node_cores cm" "map_of (cm_nodes cm) k = Some n"
  obtains n' where "map_of (cm_nodes cm') k = Some n'"
    "dni_Address n' = dni_Address n" "dni_RiskScore n' = dni_RiskScore n" "dni_Status n' = dni_Status n"
    "dni_LastHeartbeat n' = dni_LastHeartbeat n"
proof -
  have "map_option (\<lambda>n. n\<lparr>dni_Chunks := []\<rparr>) (map_of (cm_nodes cm') k) = Some (n\<lparr>dni_Chunks := []\<rparr>)"
    using cores_map_of [of cm' k] cores_map_of [of cm k] assms by simp
  then obtain n' where n': "map_of (cm_nodes cm') k = Some n'"
      "n'\<lparr>dni_Chunks := []\<rparr> = n\<lparr>dni_Chunks := []\<rparr>" by auto
  have "P (n'\<lparr>dni_Chunks := []\<rparr>) = P (n\<lparr>dni_Chunks := []\<rparr>)" for P :: "DataNodeInfo \<Rightarrow> 'x"
    by (rule arg_cong [OF n'(2)])
  from this [of dni_Address] this [of dni_RiskScore] this [of dni_Status] this [of dni_LastHeartbeat]
  show ?thesis using that n'(1) by simp
qed

text \<open>
  A placement of chunk \<open>i\<close>: \<open>r\<close> different candidate nodes with their addresses, none of them
  riskier than a candidate passed over.
\<close>

definition placement_ok ::
  "ChunkManager \<Rightarrow> string list \<Rightarrow> nat \<Rightarrow> (bytes \<Rightarrow> bytes) \<Rightarrow> string \<Rightarrow> nat \<Rightarrow> ChunkPlacementInfo \<Rightarrow> bool" where
  "placement_ok cm H r sha path i p \<longleftrightarrow>
     pl_ChunkID p = GenerateChunkID sha path (int i) \<and> pl_ChunkIndex p = int i \<and>
     length (pl_NodeIDs p) = r \<and> distinct (pl_NodeIDs p) \<and> set (pl_NodeIDs p) \<subseteq> set H \<and>
     pl_NodeAddresses p = map (\<lambda>k. dni_Address (deref cm k)) (pl_NodeIDs p) \<and>
     (\<forall>k\<in>set (pl_NodeIDs p). \<forall>h\<in>set H - set (pl_NodeIDs p).
        dni_RiskScore (deref cm k) \<le> dni_RiskScore (deref cm h))"

definition placement_meta :: "string \<Rightarrow> int \<Rightarrow> ChunkPlacementInfo \<Rightarrow> ChunkMeta" where
  "placement_meta path fileSize p =
     \<lparr>ck_ChunkID = pl_ChunkID p, ck_ChunkIndex = pl_ChunkIndex p,
      ck_Size = chunk_size_at fileSize (nat (pl_ChunkIndex p)), ck_Checksum = '''',
      ck_NodeIDs = pl_NodeIDs p, ck_FilePath = path\<rparr>"

lemma cm_less_strict_weak: "strict_weak (cm_less cm)"
  unfolding strict_weak_def cm_less_def Let_def by (auto split: if_splits)

lemma not_less_risk: "\<not> cm_less cm h k \<Longrightarrow> dni_RiskScore (deref cm k) \<le> dni_RiskScore (deref cm h)"
  by (auto simp: cm_less_def Let_def split: if_splits)

lemma selectNodes_facts:
  assumes "sort_slice srt" "distinct H" "0 \<le> r" "r \<le> int (length H)"
  shows "length (cm_selectNodes srt cm H r c) = nat r" "distinct (cm_selectNodes srt cm H r c)"
    and "set (cm_selectNodes srt cm H r c) \<subseteq> set H"
    and "\<And>k h. k \<in> set (cm_selectNodes srt cm H r c) \<Longrightarrow> h \<in> set H \<Longrightarrow>
           h \<notin> set (cm_selectNodes srt cm H r c) \<Longrightarrow> \<not> cm_less cm h k"
proof -
  let ?s = "srt (cm_less cm) H"
  have eq: "cm_selectNodes srt cm H r c = take (nat r) ?s"
    using assms(4) sort_slice.sort_length [OF assms(1), of "cm_less cm" H]
    by (simp add: cm_selectNodes_def)
  show "length (cm_selectNodes srt cm H r c) = nat r" "distinct (cm_selectNodes srt cm H r c)"
    "set (cm_selectNodes srt cm H r c) \<subseteq> set H"
    unfolding eq using assms sort_slice.sort_length [OF assms(1), of "cm_less cm" H]
      sort_slice.sort_distinct [OF assms(1), of "cm_less cm" H]
      sort_slice.sort_set [OF assms(1), of "cm_less cm" H] set_take_subset [of "nat r" ?s]
    by auto
  show "\<not> cm_less cm h k" if "k \<in> set (cm_selectNodes srt cm H r c)" "h \<in> set H"
    "h \<notin> set (cm_selectNodes srt cm H r c)" for h k
    using sort_slice.sort_take_best [OF assms(1) cm_less_strict_weak assms(2)] that unfolding eq
    by blast
qed

lemma deref_Some: "map_of (cm_nodes cm) k = Some n \<Longrightarrow> deref cm k = n"
  by (simp add: deref_def)

lemma alloc_chunk_step:
  assumes inv: "cm_inv cm" and srt: "sort_slice srt" and H: "distinct H" "set H \<subseteq> gm_keys (cm_nodes cm)"
    and r: "r \<le> length H"
    and step: "alloc_chunk srt sha H (int r) path fileSize i cm = (cm', p)"
  shows "cm_inv cm'" "node_cores cm' = node_cores cm" "placement_ok cm H r sha path i p"
    and "cm_chunks cm' = AList.update (pl_ChunkID p) (placement_meta path fileSize p) (cm_chunks cm)"
    and "holdings cm' k = holdings cm k \<union> (if k \<in> set (pl_NodeIDs p) then {pl_ChunkID p} else {})"
proof -
  define c where "c = GenerateChunkID sha path (int i)"
  define T where "T = cm_selectNodes srt cm H (int r) c"
  have T: "length T = r" "distinct T" "set T \<subseteq> set H"
    and best: "\<And>k h. k \<in> set T \<Longrightarrow> h \<in> set H \<Longrightarrow> h \<notin> set T \<Longrightarrow> \<not> cm_less cm h k"
    using selectNodes_facts [OF srt H(1), where r = "int r" and cm = cm and c = c] r
    by (auto simp: T_def)
  have reg: "\<exists>n. map_of (cm_nodes cm) k = Some n" if "k \<in> set T" for k
    using that T(3) H(2) key_map_of by (metis in_mono)
  have ids: "map (\<lambda>p. dni_NodeID (deref cm p)) T = T"
    using reg inv_node_id [OF inv] by (intro map_idI) (auto simp: deref_def dest!: reg)
  let ?cm1 = "fold (\<lambda>p. upd_node p (add_chunk_entry c)) T cm"
  have p: "p = \<lparr>pl_ChunkID = c, pl_ChunkIndex = int i, pl_NodeIDs = T,
                pl_NodeAddresses = map (\<lambda>p. dni_Address (deref cm p)) T\<rparr>"
    and cm': "cm' = ?cm1\<lparr>cm_chunks := AList.update c (placement_meta path fileSize p) (cm_chunks ?cm1)\<rparr>"
    using step by (auto simp: alloc_chunk_def Let_def c_def [symmetric] T_def [symmetric] ids
        add_chunk_entry_def [abs_def] placement_meta_def)
  have "cm_inv (fold (\<lambda>p. upd_node p (add_chunk_entry c)) ps cm)" for ps
    using inv by (induction ps arbitrary: cm) (simp_all add: inv_add_entry)
  moreover have "c \<in> holdings ?cm1 k" if "k \<in> set T" for k
    using reg [OF that] that by (auto simp: holdings_def fold_upd_node_nodes [OF T(2)])
  ultimately show "cm_inv cm'"
    unfolding cm' using T(2) by (intro inv_put_chunk) (auto simp: placement_meta_def p)
  show "node_cores cm' = node_cores cm"
    using cores_fold_add [of c T cm] by (simp add: cm' node_cores_def)
  show "placement_ok cm H r sha path i p"
    using T best [THEN not_less_risk] by (simp add: placement_ok_def p c_def)
  show "cm_chunks cm' = AList.update (pl_ChunkID p) (placement_meta path fileSize p) (cm_chunks cm)"
    by (simp add: cm' p cm_simps)
  show "holdings cm' k = holdings cm k \<union> (if k \<in> set (pl_NodeIDs p) then {pl_ChunkID p} else {})"
    using reg [of k] by (auto simp: holdings_def cm' p fold_upd_node_nodes [OF T(2)])
qed

lemma placement_ok_cores:
  assumes "node_cores cm' = node_cores cm" "set H \<subseteq> gm_keys (cm_nodes cm)"
    and "placement_ok cm' H r sha path i p"
  shows "placement_ok cm H r sha path i p"
proof -
  have eq: "dni_Address (deref cm' k) = dni_Address (deref cm k) \<and>
        dni_RiskScore (deref cm' k) = dni_RiskScore (deref cm k)" if k: "k \<in> set H" for k
  proof -
    obtain n where n: "map_of (cm_nodes cm) k = Some n"
      using subsetD [OF assms(2) k] unfolding key_map_of by blast
    show ?thesis by (rule cores_fields [OF assms(1) n]) (simp add: deref_def n)
  qed
  have sub: "set (pl_NodeIDs p) \<subseteq> set H" using assms(3) by (simp add: placement_ok_def)
  have "map (\<lambda>k. dni_Address (deref cm' k)) (pl_NodeIDs p) = map (\<lambda>k. dni_Address (deref cm k)) (pl_NodeIDs p)"
    using eq sub by (intro map_cong) auto
  moreover have "dni_RiskScore (deref cm k) \<le> dni_RiskScore (deref cm h)"
    if "k \<in> set (pl_NodeIDs p)" "h \<in> set H - set (pl_NodeIDs p)" for k h
  proof -
    have "dni_RiskScore (deref cm' k) \<le> dni_RiskScore (deref cm' h)"
      using assms(3) that unfolding placement_ok_def by blast
    then show ?thesis using eq [of k] eq [of h] sub that by auto
  qed
  ultimately show ?thesis using assms(3) by (simp add: placement_ok_def)
qed

lemma alloc_loop_steps:
  assumes "cm_inv cm" "sort_slice srt" "distinct H" "set H \<subseteq> gm_keys (cm_nodes cm)" "r \<le> length H"
    and "alloc_loop srt sha H (int r) path fileSize is cm = (cm', ps)"
  shows "cm_inv cm' \<and> node_cores cm' = node_cores cm \<and> list_all2 (placement_ok cm H r sha path) is ps \<and>
    map_of (cm_chunks cm') = map_of (cm_chunks cm) ++
      map_of (rev (map (\<lambda>p. (pl_ChunkID p, placement_meta path fileSize p)) ps)) \<and>
    (\<forall>k. holdings cm' k = holdings cm k \<union> pl_ChunkID ` {p \<in> set ps. k \<in> set (pl_NodeIDs p)})"
  using assms
proof (induction "is" arbitrary: cm cm' ps)
  case (Cons i "is")
  obtain cm1 p where p: "alloc_chunk srt sha H (int r) path fileSize i cm = (cm1, p)" by force
  obtain ps' where ps: "alloc_loop srt sha H (int r) path fileSize is cm1 = (cm', ps')" "ps = p # ps'"
    using Cons.prems(6) p by (auto split: prod.splits)
  note step = alloc_chunk_step [OF Cons.prems(1-5) p]
  have keys: "gm_keys (cm_nodes cm1) = gm_keys (cm_nodes cm)"
    using arg_cong [OF step(2), of "\<lambda>xs. set (map fst xs)"]
    by (simp add: node_cores_def image_image case_prod_beta)
  have H1: "set H \<subseteq> gm_keys (cm_nodes cm1)" using Cons.prems(4) keys by simp
  note IH = Cons.IH [OF step(1) Cons.prems(2,3) H1 Cons.prems(5) ps(1)]
  have "list_all2 (placement_ok cm H r sha path) is ps'"
    using IH step(2) placement_ok_cores [OF _ Cons.prems(4)]
    by (auto elim!: list_all2_mono)
  moreover have "holdings cm' k = holdings cm k \<union> pl_ChunkID ` {q \<in> set ps. k \<in> set (pl_NodeIDs q)}" for k
    using IH step(5) [of k] by (auto simp: ps)
  ultimately show ?case using IH step(2-4) by (simp add: ps map_add_def fun_eq_iff split: option.splits)
qed simp

definition alloc_repl :: "string list \<Rightarrow> nat" where
  "alloc_repl H = min 3 (length H)"

lemma AllocateChunks_eq:
  assumes "cm_healthyNodes it now cm = H" "H \<noteq> []" "0 \<le> chunkCount"
  shows "cm_AllocateChunks it srt sha now path chunkCount fileSize cm =
    (let (cm', ps) = alloc_loop srt sha H (int (alloc_repl H)) path fileSize [0..<nat chunkCount] cm
     in (cm', Ok ps))"
proof -
  have "(if int (length H) < DefaultReplicationFactor then int (length H) else DefaultReplicationFactor)
      = int (alloc_repl H)"
    by (auto simp: alloc_repl_def DefaultReplicationFactor_def)
  then show ?thesis using assms by (simp add: cm_AllocateChunks_def Let_def)
qed

lemma healthyNodes_set:
  assumes "cm_inv cm" "perm_iter it"
  shows "set (cm_healthyNodes it now cm) = {k. \<exists>n. map_of (cm_nodes cm) k = Some n \<and> cm_healthy now n}"
    and "distinct (cm_healthyNodes it now cm)"
proof -
  have wf: "gm_wf (cm_nodes cm)" using assms(1) by (rule inv_nodes_wf)
  show "set (cm_healthyNodes it now cm) = {k. \<exists>n. map_of (cm_nodes cm) k = Some n \<and> cm_healthy now n}"
    using set_gm_range [OF assms(2) wf] wf by (force simp: cm_healthyNodes_def)
  have "distinct (map fst (gm_range it (cm_nodes cm)))"
    using wf assms(2) by (simp add: keys_gm_range)
  then show "distinct (cm_healthyNodes it now cm)"
    by (simp add: cm_healthyNodes_def distinct_map_filter)
qed

lemma allocate_ok:
  assumes inv: "cm_inv cm" and it: "perm_iter it" and srt: "sort_slice srt"
    and H: "cm_healthyNodes it now cm = H" "H \<noteq> []" and "0 \<le> chunkCount"
  obtains cm' ps where
    "cm_AllocateChunks it srt sha now path chunkCount fileSize cm = (cm', Ok ps)"
    "cm_inv cm'" "node_cores cm' = node_cores cm"
    "list_all2 (placement_ok cm H (alloc_repl H) sha path) [0..<nat chunkCount] ps"
    "map_of (cm_chunks cm') = map_of (cm_chunks cm) ++
      map_of (rev (map (\<lambda>p. (pl_ChunkID p, placement_meta path fileSize p)) ps))"
proof -
  obtain cm' ps where l:
    "alloc_loop srt sha H (int (alloc_repl H)) path fileSize [0..<nat chunkCount] cm = (cm', ps)" by force
  have sub: "set H \<subseteq> gm_keys (cm_nodes cm)"
    unfolding H(1) [symmetric] healthyNodes_set(1) [OF inv it] by (auto dest: map_of_Some_key)
  have d: "distinct H" using healthyNodes_set(2) [OF inv it, of now] H(1) by simp
  have "alloc_repl H \<le> length H" by (simp add: alloc_repl_def)
  from alloc_loop_steps [OF inv srt d sub this l] show ?thesis
    using that AllocateChunks_eq [OF H assms(6)] l by simp
qed

text \<open>A node comes to list the chunks that were placed on it, and no others.\<close>

lemma allocate_holdings:
  assumes inv: "cm_inv cm" and it: "perm_iter it" and srt: "sort_slice srt"
    and a: "cm_AllocateChunks it srt sha now path chunkCount fileSize cm = (cm', Ok ps)"
  shows "holdings cm' k = holdings cm k \<union> pl_ChunkID ` {p \<in> set ps. k \<in> set (pl_NodeIDs p)}"
proof -
  let ?H = "cm_healthyNodes it now cm"
  have H: "?H \<noteq> []" "0 \<le> chunkCount" using a by (auto simp: cm_AllocateChunks_def Let_def split: if_splits)
  have l: "alloc_loop srt sha ?H (int (alloc_repl ?H)) path fileSize [0..<nat chunkCount] cm = (cm', ps)"
    using a unfolding AllocateChunks_eq [OF refl H] by (simp split: prod.splits)
  have "set ?H \<subseteq> gm_keys (cm_nodes cm)"
    unfolding healthyNodes_set(1) [OF inv it] by (auto dest: map_of_Some_key)
  moreover have "alloc_repl ?H \<le> length ?H" by (simp add: alloc_repl_def)
  ultimately show ?thesis using alloc_loop_steps [OF inv srt healthyNodes_set(2) [OF inv it] _ _ l] by blast
qed

lemma inv_allocate:
  assumes "cm_inv cm" "perm_iter it" "sort_slice srt"
  shows "cm_inv (fst (cm_AllocateChunks it srt sha now path chunkCount fileSize cm))"
proof (cases "cm_healthyNodes it now cm = [] \<or> chunkCount < 0")
  case True
  then show ?thesis using assms(1) by (auto simp: cm_AllocateChunks_def Let_def)
next
  case False
  then have "cm_healthyNodes it now cm \<noteq> []" "0 \<le> chunkCount" by simp_all
  then show ?thesis
    by (rule allocate_ok [OF assms refl, where sha = sha and path = path and fileSize = fileSize]) simp
qed

section \<open>Behaviour of the operations\<close>

inductive_cases cm_stepE: "cm_step cm cm'"

lemma inv_step: "cm_step cm cm' \<Longrightarrow> cm_inv cm \<Longrightarrow> cm_inv cm'"
  by (elim cm_stepE)
     (simp_all add: inv_register inv_heartbeat inv_health inv_allocate inv_remove inv_checksum
        inv_dead_loop inv_AddChunkToNode inv_RemoveChunkFromNode cm_CheckDeadNodes_def)

lemma inv_reachable: "cm_reachable cm \<Longrightarrow> cm_inv cm"
  by (induction rule: cm_reachable.induct) (auto intro: inv_new inv_step)

lemma dead_loop_spec:
  assumes "distinct ks"
  shows "map_of (cm_nodes (fst (dead_loop now ks cm))) k =
      map_option (\<lambda>n. if k \<in> set ks \<and> cm_stale now n then n\<lparr>dni_Status := StatusDead\<rparr> else n)
        (map_of (cm_nodes cm) k)"
    and "set (snd (dead_loop now ks cm)) =
      {dni_NodeID n | k n. k \<in> set ks \<and> map_of (cm_nodes cm) k = Some n \<and> cm_stale now n}"
    and "cm_chunks (fst (dead_loop now ks cm)) = cm_chunks cm"
  using assms
proof (induction ks arbitrary: cm k)
  case (Cons a ks)
  let ?f = "\<lambda>n. n\<lparr>dni_Status := StatusDead\<rparr>"
  {
    case 1
    then show ?case
      using Cons.IH(1) [of "upd_node a ?f cm" k] Cons.IH(1) [of cm k]
      by (cases "k = a"; cases "map_of (cm_nodes cm) k"; cases "map_of (cm_nodes cm) a")
         (auto simp: cm_simps split: prod.splits)
  next
    case 2
    show ?case
    proof (cases "\<exists>n. map_of (cm_nodes cm) a = Some n \<and> cm_stale now n")
      case True
      then obtain n where n: "map_of (cm_nodes cm) a = Some n" "cm_stale now n" by blast
      have "set (snd (dead_loop now (a # ks) cm)) =
          insert (dni_NodeID n) {dni_NodeID m | k m. k \<in> set ks \<and>
            map_of (cm_nodes (upd_node a ?f cm)) k = Some m \<and> cm_stale now m}"
        using Cons.IH(2) [of "upd_node a ?f cm"] 2 n by (simp add: case_prod_beta)
      also have "\<dots> = {dni_NodeID m | k m. k \<in> set (a # ks) \<and> map_of (cm_nodes cm) k = Some m \<and> cm_stale now m}"
        using 2 n by (auto simp: cm_simps)
      finally show ?thesis .
    next
      case False
      then show ?thesis using Cons.IH(2) [of cm] 2 by (auto split: option.splits)
    qed
  next
    case 3
    then show ?case
      using Cons.IH(3) by (auto simp: cm_simps case_prod_beta split: option.splits)
  }
qed (simp_all add: option.map_ident)

lemma live_replicas_set:
  "set (live_replicas cm meta) =
     {(k, n). k \<in> set (ck_NodeIDs meta) \<and> map_of (cm_nodes cm) k = Some n \<and> dni_Status n \<noteq> StatusDead}"
proof -
  have "set (List.map_filter g xs) = {(k, n). k \<in> set xs \<and> map_of (cm_nodes cm) k = Some n \<and> dni_Status n \<noteq> StatusDead}"
    if "g = (\<lambda>nid. case map_of (cm_nodes cm) nid of None \<Rightarrow> None
      | Some node \<Rightarrow> if dni_Status node = StatusDead then None else Some (nid, node))" for g xs
    unfolding that by (induction xs) (auto simp: List.map_filter_def split: option.splits)
  then show ?thesis unfolding live_replicas_def by blast
qed

lemma GetChunkLocations_all:
  "cm_GetChunkLocations cm cids = Inr locs \<longleftrightarrow> map (locate_chunk cm) cids = map Inr locs"
proof (induction cids arbitrary: locs)
  case (Cons c cids)
  show ?case
  proof (cases "locate_chunk cm c")
    case (Inr l)
    then show ?thesis
      using Cons.IH [of "tl locs"] by (cases locs) (auto split: sum.splits)
  qed (auto simp: Cons_eq_map_conv)
qed auto

lemma GetChunkLocations_error:
  "cm_GetChunkLocations cm cids = Inl e \<Longrightarrow> \<exists>c\<in>set cids. locate_chunk cm c = Inl e"
  by (induction cids) (auto split: sum.splits)

lemma GetChunkLocations_succeeds:
  "(\<exists>locs. cm_GetChunkLocations cm cids = Inr locs) \<longleftrightarrow> (\<forall>c\<in>set cids. \<exists>l. locate_chunk cm c = Inr l)"
  by (induction cids) (auto split: sum.splits)

lemma placed_ids:
  assumes "list_all2 (placement_ok cm H r sha path) [0..<n] ps"
  shows "map pl_ChunkID ps = map (\<lambda>i. GenerateChunkID sha path (int i)) [0..<n]"
  using assms by (auto simp: list_all2_conv_all_nth placement_ok_def intro!: nth_equalityI)

lemma placed_lookup:
  assumes "list_all2 (placement_ok cm H r sha path) [0..<n] ps"
    and "inj_on (\<lambda>i. GenerateChunkID sha path (int i)) {..<n}"
    and "M = M0 ++ map_of (rev (map (\<lambda>p. (pl_ChunkID p, placement_meta path fileSize p)) ps))"
  shows "\<forall>i<n. M (GenerateChunkID sha path (int i)) = Some (placement_meta path fileSize (ps ! i))"
    and "\<forall>c. (\<forall>i<n. c \<noteq> GenerateChunkID sha path (int i)) \<longrightarrow> M c = M0 c"
proof -
  let ?id = "\<lambda>i. GenerateChunkID sha path (int i)"
  let ?xs = "map (\<lambda>p. (pl_ChunkID p, placement_meta path fileSize p)) ps"
  have len: "length ps = n" using assms(1) by (auto dest: list_all2_lengthD)
  have fsts: "map fst ?xs = map ?id [0..<n]"
    using placed_ids [OF assms(1)] by (simp add: comp_def)
  have dist: "distinct (map fst ?xs)"
    using assms(2) by (simp only: fsts) (auto simp: distinct_map inj_on_def)
  have M: "M = M0 ++ map_of ?xs"
    using map_of_inject_set [of "rev ?xs" ?xs] dist by (simp add: assms(3) rev_map [symmetric])
  have "map_of ?xs (?id i) = Some (placement_meta path fileSize (ps ! i))" if "i < n" for i
  proof (rule map_of_is_SomeI [OF dist])
    have "pl_ChunkID (ps ! i) = ?id i"
      using arg_cong [OF placed_ids [OF assms(1)], of "\<lambda>xs. xs ! i"] that len by simp
    then show "(?id i, placement_meta path fileSize (ps ! i)) \<in> set ?xs"
      using that len by (auto simp: image_iff intro!: bexI [of _ "ps ! i"])
  qed
  then show "\<forall>i<n. M (?id i) = Some (placement_meta path fileSize (ps ! i))" by (simp add: M)
  show "\<forall>c. (\<forall>i<n. c \<noteq> ?id i) \<longrightarrow> M c = M0 c"
  proof (intro allI impI)
    fix c assume "\<forall>i<n. c \<noteq> ?id i"
    then have "c \<notin> set (map fst ?xs)" by (subst fsts) auto
    then have "map_of ?xs c = None" by (simp add: map_of_eq_None_iff image_image)
    then show "M c = M0 c" by (simp add: M map_add_def)
  qed
qed

lemma allocate_recorded:
  assumes "cm_inv cm" "perm_iter it" "sort_slice srt"
    and "cm_healthyNodes it now cm = H" "H \<noteq> []" "0 \<le> chunkCount"
    and "inj_on (\<lambda>i. GenerateChunkID sha path (int i)) {..<nat chunkCount}"
  obtains cm' ps where
    "cm_AllocateChunks it srt sha now path chunkCount fileSize cm = (cm', Ok ps)"
    "length ps = nat chunkCount" "cm_inv cm'" "node_cores cm' = node_cores cm"
    "\<forall>i<nat chunkCount. placement_ok cm H (min 3 (length H)) sha path i (ps ! i)"
    "\<forall>i<nat chunkCount. map_of (cm_chunks cm') (GenerateChunkID sha path (int i)) =
         Some \<lparr>ck_ChunkID = GenerateChunkID sha path (int i), ck_ChunkIndex = int i,
               ck_Size = chunk_size_at fileSize i, ck_Checksum = '''',
               ck_NodeIDs = pl_NodeIDs (ps ! i), ck_FilePath = path\<rparr>"
    "\<forall>c. (\<forall>i<nat chunkCount. c \<noteq> GenerateChunkID sha path (int i)) \<longrightarrow>
       map_of (cm_chunks cm') c = map_of (cm_chunks cm) c"
proof (rule allocate_ok [OF assms(1-6), where sha = sha and path = path and fileSize = fileSize])
  fix cm' ps
  assume a: "cm_AllocateChunks it srt sha now path chunkCount fileSize cm = (cm', Ok ps)"
    "cm_inv cm'" "node_cores cm' = node_cores cm"
    and p: "list_all2 (placement_ok cm H (alloc_repl H) sha path) [0..<nat chunkCount] ps"
    and M: "map_of (cm_chunks cm') = map_of (cm_chunks cm) ++
      map_of (rev (map (\<lambda>p. (pl_ChunkID p, placement_meta path fileSize p)) ps))"
  have len: "length ps = nat chunkCount" using p by (auto dest: list_all2_lengthD)
  have ok: "placement_ok cm H (min 3 (length H)) sha path i (ps ! i)" if "i < nat chunkCount" for i
    using p that by (auto simp: list_all2_conv_all_nth alloc_repl_def)
  have meta: "placement_meta path fileSize (ps ! i) =
      \<lparr>ck_ChunkID = GenerateChunkID sha path (int i), ck_ChunkIndex = int i,
       ck_Size = chunk_size_at fileSize i, ck_Checksum = '''',
       ck_NodeIDs = pl_NodeIDs (ps ! i), ck_FilePath = path\<rparr>" if "i < nat chunkCount" for i
    using ok [OF that] by (simp add: placement_meta_def placement_ok_def)
  show thesis
    using that [OF a(1) len a(2,3)] ok meta placed_lookup [OF p assms(7) M] by simp
qed

lemma healthy_address:
  assumes "cm_inv cm" "perm_iter it" "node_cores cm' = node_cores cm" "k \<in> set (cm_healthyNodes it now cm)"
  shows "dni_Address (deref cm' k) = dni_Address (deref cm k)"
proof -
  obtain n where n: "map_of (cm_nodes cm) k = Some n"
    using assms(4) healthyNodes_set(1) [OF assms(1,2)] by blast
  show ?thesis by (rule cores_fields [OF assms(3) n]) (simp add: deref_def n)
qed

lemma live_all_healthy:
  assumes "cm_inv cm" "perm_iter it" "node_cores cm' = node_cores cm"
    and "set (ck_NodeIDs meta) \<subseteq> set (cm_healthyNodes it now cm)" "ck_NodeIDs meta = ids"
  shows "live_replicas cm' meta = map (\<lambda>k. (k, deref cm' k)) ids"
proof -
  have live: "\<exists>n. map_of (cm_nodes cm') k = Some n \<and> dni_Status n \<noteq> StatusDead" if k: "k \<in> set ids" for k
  proof -
    obtain n where n: "map_of (cm_nodes cm) k = Some n" "cm_healthy now n"
      using k assms(4,5) healthyNodes_set(1) [OF assms(1,2), of now] by blast
    show ?thesis by (rule cores_fields [OF assms(3) n(1)]) (use n(2) in \<open>auto simp: cm_healthy_def\<close>)
  qed
  have "live_replicas cm' meta = List.map_filter (\<lambda>k. Some (k, deref cm' k)) ids"
    unfolding live_replicas_def assms(5) using live by (intro map_filter_ext) (fastforce simp: deref_def)
  then show ?thesis by (simp add: List.map_filter_def)
qed

section \<open>Properties\<close>

text \<open>A small cluster: three nodes that registered at time 0.\<close>

definition demo_join :: "string \<Rightarrow> ChunkManager \<Rightarrow> ChunkManager" where
  "demo_join a cm = fst (cm_RegisterNode (\<lambda>ks. ks) 0 a 1000 cm)"

definition demo_cm :: ChunkManager where
  "demo_cm = demo_join ''c:1'' (demo_join ''b:1'' (demo_join ''a:1'' NewChunkManager))"

definition demo_node :: "string \<Rightarrow> string \<Rightarrow> DataNodeInfo" where
  "demo_node i a = \<lparr>dni_NodeID = i, dni_Address = a, dni_CapacityBytes = 1000, dni_UsedBytes = 0,
    dni_ChunkCount = 0, dni_Status = StatusHealthy, dni_RiskScore = 0, dni_LastHeartbeat = 0, dni_Chunks = []\<rparr>"

lemma demo_cm_reachable: "cm_reachable demo_cm"
  unfolding demo_cm_def demo_join_def
  by (intro cm_reachable.new cm_reachable.step [OF _ cm_step.register] perm_iter_id)

lemma demo_cm_eq: "demo_cm = \<lparr>cm_nodes = [(''node-1'', demo_node ''node-1'' ''a:1''),
    (''node-2'', demo_node ''node-2'' ''b:1''), (''node-3'', demo_node ''node-3'' ''c:1'')], cm_chunks = []\<rparr>"
  by code_simp
lemma demo_cm_healthy: "cm_healthyNodes (\<lambda>ks. ks) 0 demo_cm = [''node-1'', ''node-2'', ''node-3'']"
  by code_simp

text \<open>
  C11: In every state the chunk manager can reach, whatever the order in which the handlers, the
  dead-node checker, the prediction loop and the migrator call its methods, node IDs are
  \<open>node-1\<close>, \<open>node-2\<close>, ... in registration order, no two nodes share an address, each chunk is
  filed under its own ID with no node listed twice, and every node a chunk lists is registered and
  lists the chunk.
\<close>

theorem reachable_consistent:
  assumes "cm_reachable cm"
  shows "map fst (cm_nodes cm) = map node_name [1..<Suc (length (cm_nodes cm))] \<and>
    (\<forall>k n l m. map_of (cm_nodes cm) k = Some n \<longrightarrow> map_of (cm_nodes cm) l = Some m \<longrightarrow>
       dni_Address n = dni_Address m \<longrightarrow> k = l) \<and>
    (\<forall>c meta. map_of (cm_chunks cm) c = Some meta \<longrightarrow>
       ck_ChunkID meta = c \<and> distinct (ck_NodeIDs meta) \<and>
       (\<forall>nid\<in>set (ck_NodeIDs meta). \<exists>node. map_of (cm_nodes cm) nid = Some node \<and>
          dni_NodeID node = nid \<and> c \<in> gm_keys (dni_Chunks node)))"
proof -
  have inv: "cm_inv cm" using assms by (rule inv_reachable)
  have "\<exists>node. map_of (cm_nodes cm) nid = Some node \<and> dni_NodeID node = nid \<and> c \<in> gm_keys (dni_Chunks node)"
    if "map_of (cm_chunks cm) c = Some meta" "nid \<in> set (ck_NodeIDs meta)" for c meta nid
    using inv_parts(6) [OF inv, of nid c] inv_node_id [OF inv, of nid] that
    by (auto simp: replicas_def holdings_def split: option.splits)
  then show ?thesis
    using inv_names [OF inv] inv_address_unique [OF inv] inv_parts(4,5) [OF inv] by blast
qed

theorem reachable_consistent_witness:
  "map fst (cm_nodes demo_cm) = [''node-1'', ''node-2'', ''node-3''] \<and>
   map fst (cm_nodes demo_cm) = map node_name [1..<Suc (length (cm_nodes demo_cm))]"
  using reachable_consistent [OF demo_cm_reachable] by (simp add: demo_cm_eq)

text \<open>
  C17: \<open>AllocateChunks\<close>, with at least one healthy node and a chunk count that is not negative,
  succeeds and returns one placement per chunk, in order. Each placement names
  \<open>min(3, number of healthy nodes)\<close> different healthy nodes and their addresses, none riskier than
  a healthy node passed over; the chunk's metadata records exactly those nodes; all other chunks
  keep theirs, and no node changes except that it lists, besides the chunks it listed before, exactly
  those placed on it. The hash must not give two chunks of the file the same ID.
\<close>

theorem allocate_places_chunks:
  assumes "cm_inv cm" "perm_iter it" "sort_slice srt"
    and "cm_healthyNodes it now cm \<noteq> []" "0 \<le> chunkCount"
    and "inj_on (\<lambda>i. GenerateChunkID sha path (int i)) {..<nat chunkCount}"
  shows "\<exists>cm' ps. cm_AllocateChunks it srt sha now path chunkCount fileSize cm = (cm', Ok ps) \<and>
    length ps = nat chunkCount \<and> cm_inv cm' \<and> node_cores cm' = node_cores cm \<and>
    (\<forall>i<nat chunkCount.
       placement_ok cm (cm_healthyNodes it now cm) (min 3 (length (cm_healthyNodes it now cm))) sha path i (ps ! i) \<and>
       map_of (cm_chunks cm') (GenerateChunkID sha path (int i)) =
         Some \<lparr>ck_ChunkID = GenerateChunkID sha path (int i), ck_ChunkIndex = int i,
               ck_Size = chunk_size_at fileSize i, ck_Checksum = '''',
               ck_NodeIDs = pl_NodeIDs (ps ! i), ck_FilePath = path\<rparr>) \<and>
    (\<forall>c. (\<forall>i<nat chunkCount. c \<noteq> GenerateChunkID sha path (int i)) \<longrightarrow>
       map_of (cm_chunks cm') c = map_of (cm_chunks cm) c) \<and>
    (\<forall>k. holdings cm' k = holdings cm k \<union>
       {GenerateChunkID sha path (int i) | i. i < nat chunkCount \<and> k \<in> set (pl_NodeIDs (ps ! i))})"
proof (rule allocate_recorded [OF assms(1-3) refl assms(4-6)])
  fix cm' ps
  let ?H = "cm_healthyNodes it now cm"
  assume a: "cm_AllocateChunks it srt sha now path chunkCount fileSize cm = (cm', Ok ps)" and len: "length ps = nat chunkCount"
    and ok: "\<forall>i<nat chunkCount. placement_ok cm ?H (min 3 (length ?H)) sha path i (ps ! i)"
    and rest: "cm_inv cm'" "node_cores cm' = node_cores cm"
      "\<forall>i<nat chunkCount. map_of (cm_chunks cm') (GenerateChunkID sha path (int i)) =
         Some \<lparr>ck_ChunkID = GenerateChunkID sha path (int i), ck_ChunkIndex = int i,
               ck_Size = chunk_size_at fileSize i, ck_Checksum = '''',
               ck_NodeIDs = pl_NodeIDs (ps ! i), ck_FilePath = path\<rparr>"
      "\<forall>c. (\<forall>i<nat chunkCount. c \<noteq> GenerateChunkID sha path (int i)) \<longrightarrow> map_of (cm_chunks cm') c = map_of (cm_chunks cm) c"
  have "pl_ChunkID (ps ! i) = GenerateChunkID sha path (int i)" if "i < nat chunkCount" for i
    using ok that by (simp add: placement_ok_def)
  then have "pl_ChunkID ` {p \<in> set ps. k \<in> set (pl_NodeIDs p)} =
      {GenerateChunkID sha path (int i) | i. i < nat chunkCount \<and> k \<in> set (pl_NodeIDs (ps ! i))}" for k
    by (force simp: set_conv_nth len)
  then have "\<forall>k. holdings cm' k = holdings cm k \<union>
       {GenerateChunkID sha path (int i) | i. i < nat chunkCount \<and> k \<in> set (pl_NodeIDs (ps ! i))}"
    using allocate_holdings [OF assms(1-3) a] by simp
  then show ?thesis using a len ok rest by blast
qed

lemma demo_ids: "inj_on (\<lambda>i. GenerateChunkID rev ''/f'' (int i)) {..<nat 2}"
proof -
  have "GenerateChunkID rev ''/f'' (int 0) \<noteq> GenerateChunkID rev ''/f'' (int 1)" by code_simp
  moreover have "{..<nat 2} = {0, 1}" by auto
  ultimately show ?thesis by (simp add: inj_on_def)
qed

theorem allocate_places_chunks_witness:
  "cm_inv demo_cm \<and> cm_healthyNodes (\<lambda>ks. ks) 0 demo_cm \<noteq> [] \<and>
   (\<exists>cm' ps. cm_AllocateChunks (\<lambda>ks. ks) insertion_sort rev 0 ''/f'' 2 5000000 demo_cm = (cm', Ok ps) \<and>
     length ps = 2 \<and> (\<forall>i<2. length (pl_NodeIDs (ps ! i)) = 3))"
  using allocate_places_chunks [OF inv_reachable [OF demo_cm_reachable] perm_iter_id
      go_sort.sort_slice_axioms _ _ demo_ids, of 0 5000000]
    inv_reachable [OF demo_cm_reachable]
  by (fastforce simp: demo_cm_healthy placement_ok_def)

lemma locate_after_allocate:
  assumes "cm_inv cm" "perm_iter it" "sort_slice srt"
    and "cm_AllocateChunks it srt sha now path chunkCount fileSize cm = (cm', Ok ps)"
    and "inj_on (\<lambda>i. GenerateChunkID sha path (int i)) {..<nat chunkCount}"
  shows "cm_GetChunkLocations cm' (map pl_ChunkID ps) =
    Inr (map (\<lambda>p. \<lparr>lo_ChunkID = pl_ChunkID p, lo_ChunkIndex = pl_ChunkIndex p,
                  lo_NodeAddresses = pl_NodeAddresses p, lo_NodeIDs = pl_NodeIDs p\<rparr>) ps)"
proof -
  let ?H = "cm_healthyNodes it now cm"
  have H: "?H \<noteq> []" "0 \<le> chunkCount"
    using assms(4) by (auto simp: cm_AllocateChunks_def Let_def split: if_splits)
  from allocate_recorded [OF assms(1-3) refl H assms(5), where fileSize = fileSize] assms(4)
  have f: "length ps = nat chunkCount" "node_cores cm' = node_cores cm"
    and ok: "\<forall>i<nat chunkCount. placement_ok cm ?H (min 3 (length ?H)) sha path i (ps ! i)"
    and rec: "\<forall>i<nat chunkCount. map_of (cm_chunks cm') (GenerateChunkID sha path (int i)) =
         Some \<lparr>ck_ChunkID = GenerateChunkID sha path (int i), ck_ChunkIndex = int i,
               ck_Size = chunk_size_at fileSize i, ck_Checksum = '''',
               ck_NodeIDs = pl_NodeIDs (ps ! i), ck_FilePath = path\<rparr>"
    by fastforce+
  have "locate_chunk cm' (pl_ChunkID p) = Inr \<lparr>lo_ChunkID = pl_ChunkID p, lo_ChunkIndex = pl_ChunkIndex p,
                  lo_NodeAddresses = pl_NodeAddresses p, lo_NodeIDs = pl_NodeIDs p\<rparr>" if p: "p \<in> set ps" for p
  proof -
    obtain i where i: "i < nat chunkCount" "p = ps ! i" using p f(1) by (metis in_set_conv_nth)
    note pk = ok [rule_format, OF i(1), folded i(2)]
    have "?H \<noteq> []" by (rule H)
    then have ne: "pl_NodeIDs p \<noteq> []" using pk by (auto simp: placement_ok_def min_def split: if_splits)
    have "live_replicas cm' meta = map (\<lambda>k. (k, deref cm' k)) (pl_NodeIDs p)"
      if "ck_NodeIDs meta = pl_NodeIDs p" for meta
      by (rule live_all_healthy [OF assms(1,2) f(2)]) (use pk that in \<open>auto simp: placement_ok_def\<close>)
    moreover have "map (\<lambda>k. dni_Address (deref cm' k)) (pl_NodeIDs p) = pl_NodeAddresses p"
      using pk healthy_address [OF assms(1,2) f(2)] by (auto simp: placement_ok_def intro!: map_cong)
    ultimately show ?thesis
      using rec [rule_format, OF i(1), folded i(2)] pk ne
      by (simp add: locate_chunk_def placement_ok_def comp_def)
  qed
  then show ?thesis by (simp add: GetChunkLocations_all)
qed

text \<open>
  What \<open>AllocateChunks\<close> hands out, \<open>GetChunkLocations\<close> finds: right after an allocation, asking
  for the chunks of the file returns, chunk by chunk, the nodes and addresses of the placements.
\<close>

theorem allocate_locate_roundtrip:
  assumes "cm_inv cm" "perm_iter it" "sort_slice srt"
    and "cm_AllocateChunks it srt sha now path chunkCount fileSize cm = (cm', Ok ps)"
    and "inj_on (\<lambda>i. GenerateChunkID sha path (int i)) {..<nat chunkCount}"
  shows "cm_GetChunkLocations cm' (map pl_ChunkID ps) =
    Inr (map (\<lambda>p. \<lparr>lo_ChunkID = pl_ChunkID p, lo_ChunkIndex = pl_ChunkIndex p,
                  lo_NodeAddresses = pl_NodeAddresses p, lo_NodeIDs = pl_NodeIDs p\<rparr>) ps)"
  using assms by (rule locate_after_allocate)

theorem allocate_locate_roundtrip_witness:
  "(\<lambda>(cm, r). case r of Ok ps \<Rightarrow> cm_GetChunkLocations cm (map pl_ChunkID ps) =
      Inr (map (\<lambda>p. \<lparr>lo_ChunkID = pl_ChunkID p, lo_ChunkIndex = pl_ChunkIndex p,
                  lo_NodeAddresses = pl_NodeAddresses p, lo_NodeIDs = pl_NodeIDs p\<rparr>) ps) | _ \<Rightarrow> False)
     (cm_AllocateChunks (\<lambda>ks. ks) insertion_sort rev 0 ''/f'' 2 5000000 demo_cm)"
proof -
  let ?r = "cm_AllocateChunks (\<lambda>ks. ks) insertion_sort rev 0 ''/f'' 2 5000000 demo_cm"
  have "case snd ?r of Ok ps \<Rightarrow> True | _ \<Rightarrow> False" by code_simp
  then obtain cm' ps where r: "?r = (cm', Ok ps)" by (cases ?r; cases "snd ?r") auto
  show ?thesis
    using allocate_locate_roundtrip [OF inv_reachable [OF demo_cm_reachable] perm_iter_id
      go_sort.sort_slice_axioms r demo_ids] by (simp add: r)
qed

lemma not_less_order:
  "\<not> cm_less cm h k \<Longrightarrow>
     dni_RiskScore (deref cm k) < dni_RiskScore (deref cm h) \<or>
     dni_RiskScore (deref cm k) = dni_RiskScore (deref cm h) \<and>
     length (dni_Chunks (deref cm k)) \<le> length (dni_Chunks (deref cm h))"
  by (auto simp: cm_less_def Let_def split: if_splits)

text \<open>
  \<open>selectNodes\<close> orders candidates by risk first and uses the number of chunks only between
  nodes of equal risk: it returns \<open>count\<close> different candidates, and a candidate left out has a
  greater risk than each one chosen, or the same risk and at least as many chunks. (The comment in
  the source announces the opposite order: chunk count first, then risk.)
\<close>

theorem selectNodes_best:
  assumes "sort_slice srt" "distinct candidates" "0 \<le> cnt"
  shows "(let T = cm_selectNodes srt cm candidates cnt chunkID
    in length T = min (nat cnt) (length candidates) \<and> distinct T \<and> set T \<subseteq> set candidates \<and>
       (\<forall>k\<in>set T. \<forall>h\<in>set candidates - set T.
          dni_RiskScore (deref cm k) < dni_RiskScore (deref cm h) \<or>
          dni_RiskScore (deref cm k) = dni_RiskScore (deref cm h) \<and>
          length (dni_Chunks (deref cm k)) \<le> length (dni_Chunks (deref cm h))))"
proof -
  define r where "r = min cnt (int (length candidates))"
  have r: "0 \<le> r" "r \<le> int (length candidates)" using assms(3) by (auto simp: r_def)
  have eq: "cm_selectNodes srt cm candidates cnt chunkID = cm_selectNodes srt cm candidates r chunkID"
    using sort_slice.sort_length [OF assms(1), of "cm_less cm" candidates]
    by (auto simp: cm_selectNodes_def r_def Let_def)
  have len: "nat r = min (nat cnt) (length candidates)" by (auto simp: r_def)
  note facts = selectNodes_facts [OF assms(1,2) r, where cm = cm and c = chunkID]
  show ?thesis
    unfolding eq Let_def using facts(1-3) facts(4) [THEN not_less_order] by (auto simp: len)
qed

theorem selectNodes_best_witness:
  "let cm = cm_UpdateNodeHealth ''node-1'' StatusWarning 0.3 demo_cm;
       T = cm_selectNodes insertion_sort cm [''node-1'', ''node-2'', ''node-3''] 2 ''x''
   in T = [''node-2'', ''node-3''] \<and> length T = min 2 3 \<and>
      (\<forall>k\<in>set T. dni_RiskScore (deref cm k) \<le> dni_RiskScore (deref cm ''node-1''))"
proof -
  let ?cm = "cm_UpdateNodeHealth ''node-1'' StatusWarning 0.3 demo_cm"
  have T: "cm_selectNodes insertion_sort ?cm [''node-1'', ''node-2'', ''node-3''] 2 ''x'' = [''node-2'', ''node-3'']"
    by code_simp
  have diff: "set [''node-1'', ''node-2'', ''node-3''] - set [''node-2'', ''node-3''] = {''node-1''}" by auto
  show ?thesis
    using selectNodes_best [OF go_sort.sort_slice_axioms, where candidates = "[''node-1'', ''node-2'', ''node-3'']"
        and cnt = 2 and cm = ?cm and chunkID = "''x''"]
    unfolding Let_def T diff by auto
qed

text \<open>
  The sizes recorded for the chunks of a file: when the client announces the right number of
  chunks, \<open>fileSize\<close> divided by the chunk size and rounded up, every chunk has between 1 and
  \<open>ChunkSize\<close> bytes, all but the last are full, and the sizes add up to the size of the file.
\<close>

theorem chunk_sizes_add_up:
  assumes "0 < fileSize" "fileSize < 2 ^ 62"
    and "n = nat ((fileSize + ChunkSize - 1) div ChunkSize)"
  shows "(\<Sum>i<n. chunk_size_at fileSize i) = fileSize \<and>
    (\<forall>i<n. 0 < chunk_size_at fileSize i \<and> chunk_size_at fileSize i \<le> ChunkSize) \<and>
    (\<forall>i. Suc i < n \<longrightarrow> chunk_size_at fileSize i = ChunkSize)"
proof -
  have CS: "0 < ChunkSize" by (simp add: ChunkSize_def)
  have n: "int n = (fileSize + ChunkSize - 1) div ChunkSize"
    using assms CS by (simp add: pos_imp_zdiv_nonneg_iff)
  have lt: "int i * ChunkSize < fileSize" if "i < n" for i
  proof -
    have "int i + 1 \<le> (fileSize + ChunkSize - 1) div ChunkSize" using that n by linarith
    then have "(int i + 1) * ChunkSize \<le> (fileSize + ChunkSize - 1) div ChunkSize * ChunkSize"
      using CS by (intro mult_right_mono) auto
    also have "\<dots> \<le> fileSize + ChunkSize - 1"
      using pos_mod_sign [OF CS, of "fileSize + ChunkSize - 1"]
      by (simp add: minus_mod_eq_div_mult [symmetric])
    finally have "(int i + 1) * ChunkSize \<le> fileSize + ChunkSize - 1" .
    then show ?thesis by (simp add: algebra_simps)
  qed
  have ge: "fileSize \<le> int n * ChunkSize"
    using n CS by (smt (verit) pos_mod_bound minus_mod_eq_div_mult)
  have size: "chunk_size_at fileSize i = min ChunkSize (fileSize - int i * ChunkSize)" if "i < n" for i
  proof -
    have nn: "0 \<le> int i * ChunkSize" using CS by simp
    have "int64 (int i * ChunkSize) = int i * ChunkSize"
      using nn lt [OF that] assms(2) by (intro int64_id) auto
    moreover have "int64 (fileSize - int i * ChunkSize) = fileSize - int i * ChunkSize"
      using nn lt [OF that] assms(2) by (intro int64_id) auto
    ultimately show ?thesis by (simp add: chunk_size_at_def Let_def min_def)
  qed
  have sum: "m \<le> n \<Longrightarrow> (\<Sum>i<m. chunk_size_at fileSize i) = min fileSize (int m * ChunkSize)" for m
  proof (induction m)
    case (Suc m)
    then show ?case using size [of m] lt [of m] by (simp add: algebra_simps min_def)
  qed (use assms(1) in simp)
  show ?thesis
    using sum [of n] ge size lt CS by (auto simp: min_def algebra_simps dest: lt [of "Suc _"])
qed

theorem chunk_sizes_add_up_witness:
  "(\<Sum>i<2. chunk_size_at 5000000 i) = 5000000 \<and> chunk_size_at 5000000 0 = 4194304"
proof -
  have "2 = nat ((5000000 + ChunkSize - 1) div ChunkSize)" by (simp add: ChunkSize_def)
  from chunk_sizes_add_up [OF _ _ this] show ?thesis by (auto simp: ChunkSize_def)
qed

lemma locate_chunk_live:
  assumes "locate_chunk cm c = Inr loc"
  shows "\<exists>meta. map_of (cm_chunks cm) c = Some meta \<and>
     lo_ChunkIndex loc = ck_ChunkIndex meta \<and> lo_NodeAddresses loc \<noteq> [] \<and>
     set (zip (lo_NodeIDs loc) (lo_NodeAddresses loc)) =
       {(k, dni_Address n) | k n. k \<in> set (ck_NodeIDs meta) \<and> map_of (cm_nodes cm) k = Some n \<and>
          dni_Status n \<noteq> StatusDead}"
proof -
  obtain meta where m: "map_of (cm_chunks cm) c = Some meta" and ne: "live_replicas cm meta \<noteq> []"
    and loc: "lo_ChunkIndex loc = ck_ChunkIndex meta" "lo_NodeIDs loc = map fst (live_replicas cm meta)"
      "lo_NodeAddresses loc = map (dni_Address \<circ> snd) (live_replicas cm meta)"
    using assms by (auto simp: locate_chunk_def Let_def split: option.splits if_splits)
  have "set (zip (lo_NodeIDs loc) (lo_NodeAddresses loc)) =
      (\<lambda>(k, n). (k, dni_Address n)) ` set (live_replicas cm meta)"
    by (simp add: loc zip_map_map zip_same_conv_map case_prod_beta comp_def)
  also have "\<dots> = {(k, dni_Address n) | k n. k \<in> set (ck_NodeIDs meta) \<and> map_of (cm_nodes cm) k = Some n \<and>
          dni_Status n \<noteq> StatusDead}"
    unfolding live_replicas_set by auto
  finally show ?thesis using m ne loc by simp
qed

lemma locate_chunk_error:
  assumes "locate_chunk cm c = Inl e"
  shows "e = ChunkNotFound c \<and> map_of (cm_chunks cm) c = None \<or>
     e = NoLiveNodes c \<and> (\<exists>meta. map_of (cm_chunks cm) c = Some meta \<and>
       (\<forall>k\<in>set (ck_NodeIDs meta). \<forall>n. map_of (cm_nodes cm) k = Some n \<longrightarrow> dni_Status n = StatusDead))"
proof (cases "map_of (cm_chunks cm) c")
  case (Some meta)
  then have e: "e = NoLiveNodes c" "live_replicas cm meta = []"
    using assms by (auto simp: locate_chunk_def Let_def split: if_splits)
  have "set (live_replicas cm meta) = {}" by (simp add: e(2))
  then show ?thesis using Some e(1) unfolding live_replicas_set by blast
qed (use assms in \<open>simp add: locate_chunk_def\<close>)

lemma exact_forget:
  assumes "cm_inv cm" "cm_exact cm"
  shows "cm_exact (forget_chunk c cm)" "holdings (forget_chunk c cm) k = holdings cm k - {c}"
proof -
  have *: "holdings (forget_chunk c cm) k = holdings cm k - {c}" for k
    using assms(2) unfolding holdings_forget [OF assms(1)] cm_exact_def by auto
  show "holdings (forget_chunk c cm) k = holdings cm k - {c}" by (rule *)
  show "cm_exact (forget_chunk c cm)"
    using assms(2) unfolding cm_exact_def * replicas_forget by auto
qed

lemma chunks_forget: "map_of (cm_chunks (forget_chunk c cm)) = (map_of (cm_chunks cm))(c := None)"
  by (simp add: forget_chunk_def cm_simps)

lemma forget_all:
  assumes "cm_inv cm" "cm_exact cm"
  shows "cm_exact (fold forget_chunk cs cm) \<and>
    (\<forall>c. map_of (cm_chunks (fold forget_chunk cs cm)) c = (if c \<in> set cs then None else map_of (cm_chunks cm) c)) \<and>
    (\<forall>k. holdings (fold forget_chunk cs cm) k = holdings cm k - set cs)"
  using assms
proof (induction cs arbitrary: cm)
  case (Cons c cs)
  then show ?case
    using Cons.IH [OF inv_forget [OF Cons.prems(1)] exact_forget(1) [OF Cons.prems]]
    by (auto simp: exact_forget(2) chunks_forget)
qed simp

definition addr_of :: "ChunkManager \<Rightarrow> string \<Rightarrow> string option" where
  "addr_of cm k = map_option dni_Address (map_of (cm_nodes cm) k)"

lemma addr_of_upd [simp]: "(\<And>n. dni_Address (f n) = dni_Address n) \<Longrightarrow> addr_of (upd_node p f cm) = addr_of cm"
  by (auto simp: addr_of_def fun_eq_iff cm_simps option.map_comp comp_def)

lemma addr_of_forget [simp]: "addr_of (forget_chunk c cm) = addr_of cm"
proof -
  have "addr_of (fold (\<lambda>p. upd_node p (del_chunk_entry c)) ps cm) = addr_of cm" for ps cm
    by (induction ps arbitrary: cm) simp_all
  moreover have "addr_of (cm\<lparr>cm_chunks := C\<rparr>) = addr_of cm" for C by (simp add: addr_of_def fun_eq_iff)
  ultimately show ?thesis by (simp add: forget_chunk_def)
qed

lemma drop_from_nodes_addrs:
  assumes "gm_wf addrs"
  shows "gm_wf (snd (drop_from_nodes c nids cm addrs)) \<and>
    gm_keys (snd (drop_from_nodes c nids cm addrs)) = gm_keys addrs \<union> {a. \<exists>k\<in>set nids. addr_of cm k = Some a}"
  using assms
proof (induction nids arbitrary: cm addrs)
  case (Cons k nids)
  then show ?case
  proof (cases "map_of (cm_nodes cm) k")
    case (Some n)
    then have "addr_of cm k = Some (dni_Address n)" by (simp add: addr_of_def)
    then show ?thesis
      using Cons.IH [of "AList.update (dni_Address n) True addrs"] Cons.prems Some by auto
  qed (auto simp: addr_of_def)
qed simp

lemma remove_loop_addrs:
  assumes "gm_wf addrs"
  shows "gm_wf (snd (remove_loop cs cm addrs)) \<and>
    gm_keys (snd (remove_loop cs cm addrs)) =
      gm_keys addrs \<union> {a. \<exists>c\<in>set cs. \<exists>k\<in>set (replicas cm c). addr_of cm k = Some a}"
  using assms
proof (induction cs arbitrary: cm addrs)
  case (Cons c cs)
  show ?case
  proof (cases "map_of (cm_chunks cm) c")
    case None
    then show ?thesis using Cons by (auto simp: replicas_def)
  next
    case (Some m)
    obtain cm1 addrs1 where d: "drop_from_nodes c (ck_NodeIDs m) cm addrs = (cm1, addrs1)" by force
    have cm1: "cm1\<lparr>cm_chunks := AList.delete c (cm_chunks cm1)\<rparr> = forget_chunk c cm"
      using drop_from_nodes_fst [of c "ck_NodeIDs m" cm addrs] d
      by (auto simp: forget_chunk_def replicas_def Some fold_upd_node_commute cm_simps)
    have a1: "gm_wf addrs1" "gm_keys addrs1 = gm_keys addrs \<union> {a. \<exists>k\<in>set (replicas cm c). addr_of cm k = Some a}"
      using drop_from_nodes_addrs [OF Cons.prems, of c "ck_NodeIDs m" cm] d by (auto simp: replicas_def Some)
    have "{a. \<exists>k\<in>set (replicas cm c). addr_of cm k = Some a} \<union>
        {a. \<exists>d\<in>set cs. \<exists>k\<in>set (replicas (forget_chunk c cm) d). addr_of cm k = Some a} =
        {a. \<exists>d\<in>set (c # cs). \<exists>k\<in>set (replicas cm d). addr_of cm k = Some a}"
      by (auto simp: replicas_forget split: if_splits)
    then show ?thesis
      using Cons.IH [OF a1(1), of "forget_chunk c cm"] d Some a1(2) by (simp add: cm1 Un_assoc)
  qed
qed simp

lemma remove_addresses:
  assumes "perm_iter it"
  shows "distinct (snd (cm_RemoveChunks it cs cm))"
    and "set (snd (cm_RemoveChunks it cs cm)) = {dni_Address n | c k n. c \<in> set cs \<and> k \<in> set (replicas cm c) \<and>
                      map_of (cm_nodes cm) k = Some n}"
  using remove_loop_addrs [of "[]" cs cm] assms
  by (auto simp: cm_RemoveChunks_def case_prod_beta keys_gm_range addr_of_def)
text \<open>
  \<open>GetChunkLocations\<close> succeeds exactly if every requested chunk is known and has a registered
  node that is not dead, and then lists, for each chunk, precisely the registered, not dead nodes
  of its metadata with their addresses, at least one of them; otherwise the error names a chunk of
  the request that is unknown or has no live node.
\<close>

theorem locations_live:
  "(\<forall>locs. cm_GetChunkLocations cm cids = Inr locs \<longrightarrow>
      length locs = length cids \<and>
      (\<forall>i<length cids. \<exists>meta. map_of (cm_chunks cm) (cids ! i) = Some meta \<and>
         lo_ChunkIndex (locs ! i) = ck_ChunkIndex meta \<and> lo_NodeAddresses (locs ! i) \<noteq> [] \<and>
         set (zip (lo_NodeIDs (locs ! i)) (lo_NodeAddresses (locs ! i))) =
           {(k, dni_Address n) | k n. k \<in> set (ck_NodeIDs meta) \<and> map_of (cm_nodes cm) k = Some n \<and>
              dni_Status n \<noteq> StatusDead})) \<and>
   (\<forall>e. cm_GetChunkLocations cm cids = Inl e \<longrightarrow>
      (\<exists>c\<in>set cids. e = ChunkNotFound c \<and> map_of (cm_chunks cm) c = None \<or>
         e = NoLiveNodes c \<and> (\<exists>meta. map_of (cm_chunks cm) c = Some meta \<and>
           (\<forall>k\<in>set (ck_NodeIDs meta). \<forall>n. map_of (cm_nodes cm) k = Some n \<longrightarrow> dni_Status n = StatusDead))))"
proof (intro conjI allI impI)
  fix locs assume "cm_GetChunkLocations cm cids = Inr locs"
  then have eq: "map (locate_chunk cm) cids = map Inr locs" by (simp add: GetChunkLocations_all)
  then show "length locs = length cids" by (metis length_map)
  fix i assume i: "i < length cids"
  then have "locate_chunk cm (cids ! i) = Inr (locs ! i)" using eq by (metis length_map nth_map)
  then show "\<exists>meta. map_of (cm_chunks cm) (cids ! i) = Some meta \<and>
         lo_ChunkIndex (locs ! i) = ck_ChunkIndex meta \<and> lo_NodeAddresses (locs ! i) \<noteq> [] \<and>
         set (zip (lo_NodeIDs (locs ! i)) (lo_NodeAddresses (locs ! i))) =
           {(k, dni_Address n) | k n. k \<in> set (ck_NodeIDs meta) \<and> map_of (cm_nodes cm) k = Some n \<and>
              dni_Status n \<noteq> StatusDead}"
    by (rule locate_chunk_live)
next
  fix e assume "cm_GetChunkLocations cm cids = Inl e"
  then obtain c where c: "c \<in> set cids" "locate_chunk cm c = Inl e"
    using GetChunkLocations_error by blast
  from locate_chunk_error [OF c(2)] c(1)
  show "\<exists>c\<in>set cids. e = ChunkNotFound c \<and> map_of (cm_chunks cm) c = None \<or>
         e = NoLiveNodes c \<and> (\<exists>meta. map_of (cm_chunks cm) c = Some meta \<and>
           (\<forall>k\<in>set (ck_NodeIDs meta). \<forall>n. map_of (cm_nodes cm) k = Some n \<longrightarrow> dni_Status n = StatusDead))"
    by blast
qed

text \<open>A cluster that holds a file of two chunks.\<close>

definition demo_stored :: ChunkManager where
  "demo_stored = fst (cm_AllocateChunks (\<lambda>ks. ks) insertion_sort rev 0 ''/f'' 2 5000000 demo_cm)"

definition demo_ids_of :: "string list" where
  "demo_ids_of = map (\<lambda>i. GenerateChunkID rev ''/f'' (int i)) [0, 1]"

theorem locations_live_witness:
  "(case cm_GetChunkLocations demo_stored demo_ids_of of Inr locs \<Rightarrow> length locs = length demo_ids_of | Inl e \<Rightarrow> False)
   \<and> (case cm_GetChunkLocations demo_stored [''nope''] of Inl e \<Rightarrow> e = ChunkNotFound ''nope'' | Inr _ \<Rightarrow> False)"
proof -
  have a: "case cm_GetChunkLocations demo_stored demo_ids_of of Inr locs \<Rightarrow> True | Inl e \<Rightarrow> False" by code_simp
  have b: "case cm_GetChunkLocations demo_stored [''nope''] of Inr locs \<Rightarrow> False | Inl e \<Rightarrow> e \<noteq> NoLiveNodes ''nope''" by code_simp
  show ?thesis
    using locations_live [of demo_stored demo_ids_of] locations_live [of demo_stored "[''nope'']"] a b
    by (auto split: sum.splits)
qed

text \<open>
  \<open>RemoveChunks\<close>, where nodes list only chunks that list them, leaves no trace of the removed
  chunks: they have no metadata, no node lists them, everything else stays, and the returned
  addresses are those of the nodes that held one of them.
\<close>

theorem remove_clears:
  assumes "cm_inv cm" "cm_exact cm" "perm_iter it"
  shows "(let (cm', addrs) = cm_RemoveChunks it chunkIDs cm
    in cm_inv cm' \<and> cm_exact cm' \<and>
       (\<forall>c. map_of (cm_chunks cm') c = (if c \<in> set chunkIDs then None else map_of (cm_chunks cm) c)) \<and>
       (\<forall>k. holdings cm' k = holdings cm k - set chunkIDs) \<and>
       distinct addrs \<and>
       set addrs = {dni_Address n | c k n. c \<in> set chunkIDs \<and> k \<in> set (replicas cm c) \<and>
                      map_of (cm_nodes cm) k = Some n})"
  using forget_all [OF assms(1,2), of chunkIDs] inv_remove [OF assms(1), of it chunkIDs]
    remove_addresses [OF assms(3), of chunkIDs cm] RemoveChunks_fst [of it chunkIDs cm]
  by (auto simp: case_prod_beta Let_def)

theorem remove_clears_witness:
  "cm_exact demo_stored \<and> map_of (cm_chunks (fst (cm_RemoveChunks (\<lambda>ks. ks) demo_ids_of demo_stored))) (hd demo_ids_of) = None \<and>
   holdings (fst (cm_RemoveChunks (\<lambda>ks. ks) demo_ids_of demo_stored)) ''node-2'' = {}"
proof -
  have inv: "cm_inv demo_stored"
    unfolding demo_stored_def
    by (intro inv_allocate inv_reachable [OF demo_cm_reachable] perm_iter_id go_sort.sort_slice_axioms)
  have st: "\<forall>(k, n)\<in>set (cm_nodes demo_stored). \<forall>c\<in>gm_keys (dni_Chunks n). c \<in> set demo_ids_of \<and> k \<in> set (replicas demo_stored c)"
    by code_simp
  have ex: "cm_exact demo_stored"
    using st by (fastforce simp: cm_exact_def holdings_def split: option.splits dest: map_of_SomeD)
  have "holdings demo_stored ''node-2'' \<subseteq> set demo_ids_of"
    using st by (fastforce simp: holdings_def split: option.splits dest: map_of_SomeD)
  moreover have "hd demo_ids_of \<in> set demo_ids_of" by (simp add: demo_ids_of_def)
  ultimately show ?thesis
    using remove_clears [OF inv ex perm_iter_id, of demo_ids_of] ex by (auto simp: Let_def case_prod_beta)
qed

text \<open>
  \<open>CheckDeadNodes\<close> marks dead exactly the nodes that are not dead yet and have been silent for
  more than \<open>DeadNodeTimeout\<close>, changes nothing else, and returns the IDs of just those nodes,
  whatever the order in which it visits them.
\<close>

theorem dead_nodes_exact:
  assumes "cm_inv cm" "perm_iter it"
  shows "(let (cm', ids) = cm_CheckDeadNodes it now cm
    in (\<forall>k. map_of (cm_nodes cm') k =
          map_option (\<lambda>n. if dni_Status n \<noteq> StatusDead \<and> now - dni_LastHeartbeat n > DeadNodeTimeout
                          then n\<lparr>dni_Status := StatusDead\<rparr> else n) (map_of (cm_nodes cm) k)) \<and>
       cm_chunks cm' = cm_chunks cm \<and>
       set ids = {k. \<exists>n. map_of (cm_nodes cm) k = Some n \<and> dni_Status n \<noteq> StatusDead \<and>
                    now - dni_LastHeartbeat n > DeadNodeTimeout})"
proof -
  let ?ks = "it (map fst (cm_nodes cm))"
  have d: "distinct ?ks" using inv_nodes_wf [OF assms(1)] assms(2) by simp
  have mem: "map_of (cm_nodes cm) k = Some n \<Longrightarrow> k \<in> set ?ks" for k n
    using assms(2) map_of_Some_key [of "cm_nodes cm" k n] by simp
  have 1: "map_of (cm_nodes (fst (dead_loop now ?ks cm))) k =
          map_option (\<lambda>n. if cm_stale now n then n\<lparr>dni_Status := StatusDead\<rparr> else n) (map_of (cm_nodes cm) k)" for k
    using mem [of k] by (subst dead_loop_spec(1) [OF d]) (cases "map_of (cm_nodes cm) k"; auto)
  have "{dni_NodeID n | k n. k \<in> set ?ks \<and> map_of (cm_nodes cm) k = Some n \<and> cm_stale now n} =
      {k. \<exists>n. map_of (cm_nodes cm) k = Some n \<and> cm_stale now n}"
    using mem inv_node_id [OF assms(1)] by blast
  then show ?thesis
    using 1 dead_loop_spec(2,3) [OF d, of now cm]
    by (simp add: cm_CheckDeadNodes_def case_prod_beta Let_def cm_stale_def)
qed

theorem dead_nodes_exact_witness:
  "set (snd (cm_CheckDeadNodes (\<lambda>ks. ks) (16 * Second) (fst (cm_UpdateHeartbeat Second ''node-2'' 5 1 demo_cm)))) =
     {''node-1'', ''node-3''} \<and>
   map_option dni_Status (map_of (cm_nodes (fst (cm_CheckDeadNodes (\<lambda>ks. ks) (16 * Second)
     (fst (cm_UpdateHeartbeat Second ''node-2'' 5 1 demo_cm))))) ''node-2'') = Some StatusHealthy"
proof -
  define cm where "cm = fst (cm_UpdateHeartbeat Second ''node-2'' 5 1 demo_cm)"
  have inv: "cm_inv cm" unfolding cm_def by (rule inv_heartbeat [OF inv_reachable [OF demo_cm_reachable]])
  have ids: "snd (cm_CheckDeadNodes (\<lambda>ks. ks) (16 * Second) cm) = [''node-1'', ''node-3'']"
    unfolding cm_def by code_simp
  have "map_option (\<lambda>n. (dni_Status n, dni_LastHeartbeat n)) (map_of (cm_nodes cm) ''node-2'') =
     Some (StatusHealthy, Second)" unfolding cm_def by code_simp
  then obtain n where n: "map_of (cm_nodes cm) ''node-2'' = Some n" "dni_Status n = StatusHealthy"
    "dni_LastHeartbeat n = Second" by auto
  have "map_of (cm_nodes (fst (cm_CheckDeadNodes (\<lambda>ks. ks) (16 * Second) cm))) ''node-2'' = Some n"
    using dead_nodes_exact [OF inv perm_iter_id, of "16 * Second"] n
    unfolding Let_def case_prod_beta by (simp add: DeadNodeTimeout_def Second_def)
  then show ?thesis using ids n unfolding cm_def by simp
qed

text \<open>
  \<open>RegisterNode\<close>: an address seen before gets its old ID back, with a fresh heartbeat and no
  other change; a new address gets the next free ID and one new, healthy, empty node. Either way the
  returned ID then belongs to a node with that address.
\<close>

theorem register_node:
  assumes "cm_inv cm" "perm_iter it"
    and "cm_RegisterNode it now address capacity cm = (cm', r)"
  shows "\<exists>nodeID node. r = Inr nodeID \<and> map_of (cm_nodes cm') nodeID = Some node \<and>
      dni_Address node = address \<and> dni_LastHeartbeat node = now \<and>
      (\<forall>k. k \<noteq> nodeID \<longrightarrow> map_of (cm_nodes cm') k = map_of (cm_nodes cm) k) \<and> cm_chunks cm' = cm_chunks cm \<and>
      (if \<exists>k n. map_of (cm_nodes cm) k = Some n \<and> dni_Address n = address
       then map_option (\<lambda>n. n\<lparr>dni_LastHeartbeat := now\<rparr>) (map_of (cm_nodes cm) nodeID) = Some node \<and>
            length (cm_nodes cm') = length (cm_nodes cm)
       else nodeID = node_name (length (cm_nodes cm) + 1) \<and> map_of (cm_nodes cm) nodeID = None \<and>
            dni_Status node = StatusHealthy \<and> dni_Chunks node = [] \<and>
            length (cm_nodes cm') = Suc (length (cm_nodes cm)))"
proof (cases "find (\<lambda>(k, n). dni_Address n = address) (gm_range it (cm_nodes cm))")
  case None
  have range: "set (gm_range it (cm_nodes cm)) = set (cm_nodes cm)"
    using set_gm_range [OF assms(2) inv_nodes_wf [OF assms(1)]] .
  have "\<not> (\<exists>k n. map_of (cm_nodes cm) k = Some n \<and> dni_Address n = address)"
    using None range by (auto simp: find_None_iff dest!: map_of_SomeD)
  moreover have new: "node_name (length (cm_nodes cm) + 1) \<notin> gm_keys (cm_nodes cm)"
    using inv_fresh [OF assms(1)] .
  ultimately show ?thesis
    using None assms(3) length_update_new [OF new]
    by (auto simp: cm_RegisterNode_def Let_def map_of_eq_None_iff)
next
  case (Some x)
  obtain k n where x: "x = (k, n)" by force
  have mem: "(k, n) \<in> set (cm_nodes cm)" and a: "dni_Address n = address"
    using Some x set_gm_range [OF assms(2) inv_nodes_wf [OF assms(1)]]
    by (auto simp: find_Some_iff dest!: nth_mem)
  then have k: "map_of (cm_nodes cm) k = Some n" using inv_nodes_wf [OF assms(1)] by simp
  then have ex: "\<exists>k n. map_of (cm_nodes cm) k = Some n \<and> dni_Address n = address" using a by blast
  show ?thesis
    using assms(3) Some x k a ex inv_node_id [OF assms(1) k] length_upd_node [of k _ cm]
    by (auto simp: cm_RegisterNode_def cm_simps)
qed

theorem register_node_witness:
  "snd (cm_RegisterNode (\<lambda>ks. ks) 7 ''b:1'' 9 demo_cm) = Inr ''node-2'' \<and>
   snd (cm_RegisterNode (\<lambda>ks. ks) 7 ''d:1'' 9 demo_cm) = Inr (node_name 4)"
proof -
  have inv: "cm_inv demo_cm" by (rule inv_reachable [OF demo_cm_reachable])
  obtain cm' r where r: "cm_RegisterNode (\<lambda>ks. ks) 7 ''d:1'' 9 demo_cm = (cm', r)" by force
  have "\<not> (\<exists>k n. map_of (cm_nodes demo_cm) k = Some n \<and> dni_Address n = ''d:1'')"
    by (auto simp: demo_cm_eq demo_node_def split: if_splits)
  moreover have "length (cm_nodes demo_cm) = 3" by code_simp
  moreover have "snd (cm_RegisterNode (\<lambda>ks. ks) 7 ''b:1'' 9 demo_cm) = Inr ''node-2''" by code_simp
  ultimately show ?thesis
    using register_node [OF inv perm_iter_id r] r by auto
qed

lemma stats_fold:
  assumes "is_int64 (st_TotalCap s)" "is_int64 (st_TotalUsed s)"
  shows "fold (\<lambda>(k, n). stats_add n) xs s =
    s\<lparr>st_TotalNodes := st_TotalNodes s + int (length xs),
      st_HealthyNodes := st_HealthyNodes s + int (length (filter (\<lambda>(k, n). dni_Status n = StatusHealthy) xs)),
      st_WarningNodes := st_WarningNodes s + int (length (filter (\<lambda>(k, n). dni_Status n = StatusWarning) xs)),
      st_AtRiskNodes := st_AtRiskNodes s +
        int (length (filter (\<lambda>(k, n). dni_Status n = StatusAtRisk \<or> dni_Status n = StatusCritical) xs)),
      st_DeadNodes := st_DeadNodes s + int (length (filter (\<lambda>(k, n). dni_Status n = StatusDead) xs)),
      st_TotalCap := int64 (st_TotalCap s + (\<Sum>(k, n)\<leftarrow>xs. dni_CapacityBytes n)),
      st_TotalUsed := int64 (st_TotalUsed s + (\<Sum>(k, n)\<leftarrow>xs. dni_UsedBytes n))\<rparr>"
  using assms
proof (induction xs arbitrary: s)
  case Nil
  then show ?case by (simp add: int64_id)
next
  case (Cons x xs)
  obtain k n where x: "x = (k, n)" by force
  have r: "is_int64 (st_TotalCap (stats_add n s))" "is_int64 (st_TotalUsed (stats_add n s))"
    using int64_range by (auto simp: stats_add_def Let_def split: NodeStatus.splits)
  show ?case
    unfolding x using Cons.IH [OF r]
    by (cases "dni_Status n") (simp_all add: stats_add_def Let_def int64_add_left add.assoc)
qed

text \<open>
  The cluster statistics do not depend on the order in which the nodes are visited. Each
  node is counted once, under its status (CRITICAL counts as at risk), the four counters add up to
  the number of nodes, and the capacity and usage are the 64-bit sums over the nodes.
\<close>

theorem cluster_stats:
  assumes "cm_inv cm" "perm_iter it"
  shows "(let s = cm_GetClusterStats it cm; ns = map snd (cm_nodes cm)
    in st_TotalNodes s = int (length ns) \<and> st_TotalChunks s = int (length (cm_chunks cm)) \<and>
       st_HealthyNodes s = int (length (filter (\<lambda>n. dni_Status n = StatusHealthy) ns)) \<and>
       st_AtRiskNodes s = int (length (filter (\<lambda>n. dni_Status n \<in> {StatusAtRisk, StatusCritical}) ns)) \<and>
       st_DeadNodes s = int (length (filter (\<lambda>n. dni_Status n = StatusDead) ns)) \<and>
       st_HealthyNodes s + st_WarningNodes s + st_AtRiskNodes s + st_DeadNodes s = st_TotalNodes s \<and>
       st_TotalCap s = int64 (sum_list (map dni_CapacityBytes ns)) \<and>
       st_TotalUsed s = int64 (sum_list (map dni_UsedBytes ns)))"
proof -
  let ?xs = "gm_range it (cm_nodes cm)"
  have m: "mset ?xs = mset (cm_nodes cm)" by (rule mset_gm_range [OF assms(2) inv_nodes_wf [OF assms(1)]])
  have cnt: "length (filter (\<lambda>(k, n). P n) ?xs) = length (filter P (map snd (cm_nodes cm)))" for P
  proof -
    have "length (filter (\<lambda>(k, n). P n) ?xs) = size (filter_mset (\<lambda>(k, n). P n) (mset (cm_nodes cm)))"
      by (metis m mset_filter size_mset)
    also have "\<dots> = length (filter (\<lambda>(k, n). P n) (cm_nodes cm))" by (simp flip: mset_filter)
    finally show ?thesis by (simp add: filter_map case_prod_unfold comp_def)
  qed
  have sums: "(\<Sum>(k, n)\<leftarrow>?xs. f n) = sum_list (map f (map snd (cm_nodes cm)))" for f :: "DataNodeInfo \<Rightarrow> int"
  proof -
    have "mset (map (\<lambda>(k, n). f n) ?xs) = mset (map (\<lambda>(k, n). f n) (cm_nodes cm))" using m by simp
    then show ?thesis by (metis (no_types, lifting) sum_mset_sum_list map_map case_prod_beta comp_apply map_cong)
  qed
  have "length (filter (\<lambda>n. dni_Status n = StatusHealthy) ns) + length (filter (\<lambda>n. dni_Status n = StatusWarning) ns)
      + length (filter (\<lambda>n. dni_Status n = StatusAtRisk \<or> dni_Status n = StatusCritical) ns)
      + length (filter (\<lambda>n. dni_Status n = StatusDead) ns) = length ns" for ns
  proof (induction ns)
    case (Cons n ns)
    then show ?case by (cases "dni_Status n") auto
  qed simp
  from this [of "map snd (cm_nodes cm)"] show ?thesis
    unfolding cm_GetClusterStats_def
    by (subst stats_fold) (simp_all add: Let_def cnt sums length_gm_range [OF assms(2)])
qed

theorem cluster_stats_witness:
  "st_HealthyNodes (cm_GetClusterStats (rotate 1) (fst (cm_CheckDeadNodes (\<lambda>ks. ks) 1 demo_cm))) = 3 \<and>
   st_TotalCap (cm_GetClusterStats (rotate 1) demo_cm) = 3000"
proof -
  have d: "cm_inv demo_cm" by (rule inv_reachable [OF demo_cm_reachable])
  have e: "fst (cm_CheckDeadNodes (\<lambda>ks. ks) 1 demo_cm) = demo_cm" by code_simp
  have cap: "int64 3000 = 3000" by (simp add: go_wrap)
  show ?thesis
    unfolding e using cluster_stats [OF d perm_iter_rotate, of 1]
    by (simp add: demo_cm_eq demo_node_def Let_def cap)
qed

end
