(* ===== verification/Metrics.thy ===== *)
theory Metrics
  imports Common
begin

text \<open>
  \<^verbatim>\<open>internal/health/metrics.go\<close> and \<^verbatim>\<open>monitor.go\<close>: sliding windows of timestamped values, the
  windows of a node (short, medium and long for each of six metrics), the store of all nodes, and
  the monitor that ingests the health reports of the data nodes.

  A \<open>float64\<close> is a \<open>real\<close>; the error counters are 64-bit integers whose difference wraps. The
  pointers \<open>*NodeMetrics\<close> and \<open>*SlidingWindow\<close> have one owner each, so the store holds the values.
  \<open>IngestReport\<close> runs under the monitor's mutex and is one step.
\<close>

section \<open>metrics.go\<close>

type_synonym MetricType = string

definition MetricDiskIOLatency :: MetricType where "MetricDiskIOLatency = ''disk_io_latency''"
definition MetricDiskUtil :: MetricType where "MetricDiskUtil = ''disk_utilization''"
definition MetricErrorRate :: MetricType where "MetricErrorRate = ''error_rate''"
definition MetricResponseTime :: MetricType where "MetricResponseTime = ''response_time''"
definition MetricCPUUsage :: MetricType where "MetricCPUUsage = ''cpu_usage''"
definition MetricMemoryUsage :: MetricType where "MetricMemoryUsage = ''memory_usage''"

definition AllMetricTypes :: "MetricType list" where
  "AllMetricTypes = [MetricDiskIOLatency, MetricDiskUtil, MetricErrorRate, MetricResponseTime,
     MetricCPUUsage, MetricMemoryUsage]"

record MetricPoint =
  mp_Value :: real
  mp_Timestamp :: time

record SlidingWindow =
  sw_points :: "MetricPoint list"
  sw_duration :: duration

definition NewSlidingWindow :: "duration \<Rightarrow> SlidingWindow" where
  "NewSlidingWindow d = \<lparr>sw_points = [], sw_duration = d\<rparr>"

definition sw_evict :: "time \<Rightarrow> SlidingWindow \<Rightarrow> SlidingWindow" where
  "sw_evict now sw =
     (let cutoff = now - sw_duration sw
      in sw\<lparr>sw_points := dropWhile (\<lambda>p. mp_Timestamp p < cutoff) (sw_points sw)\<rparr>)"

definition sw_Add :: "real \<Rightarrow> time \<Rightarrow> SlidingWindow \<Rightarrow> SlidingWindow" where
  "sw_Add v ts sw =
     sw_evict ts (sw\<lparr>sw_points := sw_points sw @ [\<lparr>mp_Value = v, mp_Timestamp = ts\<rparr>]\<rparr>)"

definition sw_Points :: "SlidingWindow \<Rightarrow> MetricPoint list" where
  "sw_Points sw = sw_points sw"

definition sw_Values :: "SlidingWindow \<Rightarrow> real list" where
  "sw_Values sw = map mp_Value (sw_points sw)"

definition sw_Len :: "SlidingWindow \<Rightarrow> nat" where
  "sw_Len sw = length (sw_points sw)"

definition sw_Latest :: "SlidingWindow \<Rightarrow> real" where
  "sw_Latest sw = (if sw_points sw = [] then 0 else mp_Value (last (sw_points sw)))"

definition sw_Mean :: "SlidingWindow \<Rightarrow> real" where
  "sw_Mean sw =
     (if sw_points sw = [] then 0
      else fold (\<lambda>p s. s + mp_Value p) (sw_points sw) 0 / real (length (sw_points sw)))"

record MetricWindows =
  mw_Short :: SlidingWindow
  mw_Medium :: SlidingWindow
  mw_Long :: SlidingWindow

record NodeMetrics =
  nm_NodeID :: string
  nm_Windows :: "(MetricType, MetricWindows) gomap"

definition new_windows :: MetricWindows where
  "new_windows = \<lparr>mw_Short = NewSlidingWindow (5 * Minute), mw_Medium = NewSlidingWindow (15 * Minute),
     mw_Long = NewSlidingWindow (1 * Hour)\<rparr>"

definition NewNodeMetrics :: "string \<Rightarrow> NodeMetrics" where
  "NewNodeMetrics nodeID = \<lparr>nm_NodeID = nodeID,
     nm_Windows = fold (\<lambda>mt ws. AList.update mt new_windows ws) AllMetricTypes []\<rparr>"

definition nm_Record :: "MetricType \<Rightarrow> real \<Rightarrow> time \<Rightarrow> NodeMetrics \<Rightarrow> NodeMetrics" where
  "nm_Record mt v ts nm =
     (case map_of (nm_Windows nm) mt of
        None \<Rightarrow> nm
      | Some w \<Rightarrow> nm\<lparr>nm_Windows := AList.update mt
          \<lparr>mw_Short = sw_Add v ts (mw_Short w), mw_Medium = sw_Add v ts (mw_Medium w),
           mw_Long = sw_Add v ts (mw_Long w)\<rparr> (nm_Windows nm)\<rparr>)"

definition nm_GetWindow :: "NodeMetrics \<Rightarrow> MetricType \<Rightarrow> string \<Rightarrow> SlidingWindow option" where
  "nm_GetWindow nm mt window =
     (case map_of (nm_Windows nm) mt of
        None \<Rightarrow> None
      | Some w \<Rightarrow>
          Some (if window = ''short'' then mw_Short w
                else if window = ''medium'' then mw_Medium w
                else if window = ''long'' then mw_Long w
                else mw_Short w))"

record MetricStore =
  ms_nodes :: "(string, NodeMetrics) gomap"

definition NewMetricStore :: MetricStore where
  "NewMetricStore = \<lparr>ms_nodes = []\<rparr>"

definition ms_GetOrCreate :: "string \<Rightarrow> MetricStore \<Rightarrow> MetricStore \<times> NodeMetrics" where
  "ms_GetOrCreate nodeID ms =
     (case map_of (ms_nodes ms) nodeID of
        Some nm \<Rightarrow> (ms, nm)
      | None \<Rightarrow>
          let nm = NewNodeMetrics nodeID
          in (ms\<lparr>ms_nodes := AList.update nodeID nm (ms_nodes ms)\<rparr>, nm))"

definition ms_Get :: "MetricStore \<Rightarrow> string \<Rightarrow> NodeMetrics option" where
  "ms_Get ms nodeID = map_of (ms_nodes ms) nodeID"

definition ms_AllNodeIDs :: "iter \<Rightarrow> MetricStore \<Rightarrow> string list" where
  "ms_AllNodeIDs it ms = it (map fst (ms_nodes ms))"

section \<open>monitor.go\<close>

record HealthReport =
  hr_NodeID :: string
  hr_DiskIOLatency :: real
  hr_DiskUtil :: real
  hr_ErrorCount :: int
  hr_ResponseTime :: real
  hr_CPUUsage :: real
  hr_MemoryUsage :: real
  hr_Timestamp :: time

record Monitor =
  mon_store :: MetricStore
  mon_lastErrorCount :: "(string, int) gomap"

definition NewMonitor :: Monitor where
  "NewMonitor = \<lparr>mon_store = NewMetricStore, mon_lastErrorCount = []\<rparr>"

text \<open>The value recorded as error rate: the growth of the node's error counter, never negative.\<close>

definition error_delta :: "int option \<Rightarrow> int \<Rightarrow> int" where
  "error_delta lastCount errorCount =
     (case lastCount of
        None \<Rightarrow> 0
      | Some l \<Rightarrow> let delta = int64 (errorCount - l) in if delta < 0 then 0 else delta)"

definition mon_IngestReport :: "HealthReport \<Rightarrow> Monitor \<Rightarrow> Monitor" where
  "mon_IngestReport report m =
     (case ms_GetOrCreate (hr_NodeID report) (mon_store m) of
        (store, nm) \<Rightarrow>
          let ts = hr_Timestamp report;
              nm = nm_Record MetricDiskIOLatency (hr_DiskIOLatency report) ts nm;
              nm = nm_Record MetricDiskUtil (hr_DiskUtil report) ts nm;
              nm = nm_Record MetricResponseTime (hr_ResponseTime report) ts nm;
              nm = nm_Record MetricCPUUsage (hr_CPUUsage report) ts nm;
              nm = nm_Record MetricMemoryUsage (hr_MemoryUsage report) ts nm;
              delta = error_delta (map_of (mon_lastErrorCount m) (hr_NodeID report)) (hr_ErrorCount report);
              nm = nm_Record MetricErrorRate (real_of_int delta) ts nm
          in \<lparr>mon_store = store\<lparr>ms_nodes := AList.update (hr_NodeID report) nm (ms_nodes store)\<rparr>,
              mon_lastErrorCount =
                AList.update (hr_NodeID report) (hr_ErrorCount report) (mon_lastErrorCount m)\<rparr>)"

definition mon_GetStore :: "Monitor \<Rightarrow> MetricStore" where
  "mon_GetStore m = mon_store m"

definition mon_GetNodeMetrics :: "Monitor \<Rightarrow> string \<Rightarrow> NodeMetrics option" where
  "mon_GetNodeMetrics m nodeID = ms_Get (mon_store m) nodeID"

definition mon_GetAllNodeIDs :: "iter \<Rightarrow> Monitor \<Rightarrow> string list" where
  "mon_GetAllNodeIDs it m = ms_AllNodeIDs it (mon_store m)"

definition mon_GetLatestSnapshot :: "Monitor \<Rightarrow> string \<Rightarrow> (MetricType, real) gomap" where
  "mon_GetLatestSnapshot m nodeID =
     (case ms_Get (mon_store m) nodeID of
        None \<Rightarrow> []
      | Some nm \<Rightarrow>
          fold (\<lambda>mt snap. case nm_GetWindow nm mt ''short'' of
                  None \<Rightarrow> snap
                | Some w \<Rightarrow> AList.update mt (sw_Latest w) snap) AllMetricTypes [])"

section \<open>Specification\<close>

text \<open>The points a window of duration \<open>d\<close> should hold at the time of the last of \<open>ps\<close>.\<close>

definition recent :: "duration \<Rightarrow> MetricPoint list \<Rightarrow> MetricPoint list" where
  "recent d ps = (if ps = [] then [] else filter (\<lambda>p. mp_Timestamp (last ps) - d \<le> mp_Timestamp p) ps)"

definition add_all :: "MetricPoint list \<Rightarrow> SlidingWindow \<Rightarrow> SlidingWindow" where
  "add_all ps sw = fold (\<lambda>p. sw_Add (mp_Value p) (mp_Timestamp p)) ps sw"

text \<open>The value a report carries for each metric.\<close>

definition report_value :: "Monitor \<Rightarrow> HealthReport \<Rightarrow> MetricType \<Rightarrow> real" where
  "report_value m r mt =
     (if mt = MetricDiskIOLatency then hr_DiskIOLatency r
      else if mt = MetricDiskUtil then hr_DiskUtil r
      else if mt = MetricErrorRate then
        real_of_int (error_delta (map_of (mon_lastErrorCount m) (hr_NodeID r)) (hr_ErrorCount r))
      else if mt = MetricResponseTime then hr_ResponseTime r
      else if mt = MetricCPUUsage then hr_CPUUsage r
      else hr_MemoryUsage r)"

text \<open>
  A well-formed node: exactly the six metrics, each with windows of 5 minutes, 15 minutes and one
  hour, and the same timestamps in the windows of all metrics.
\<close>

definition nm_wf :: "NodeMetrics \<Rightarrow> bool" where
  "nm_wf nm \<longleftrightarrow> gm_wf (nm_Windows nm) \<and> gm_keys (nm_Windows nm) = set AllMetricTypes \<and>
     (\<exists>s m l. \<forall>mt w. map_of (nm_Windows nm) mt = Some w \<longrightarrow>
        sw_duration (mw_Short w) = 5 * Minute \<and> sw_duration (mw_Medium w) = 15 * Minute \<and>
        sw_duration (mw_Long w) = 1 * Hour \<and>
        map mp_Timestamp (sw_points (mw_Short w)) = s \<and> map mp_Timestamp (sw_points (mw_Medium w)) = m \<and>
        map mp_Timestamp (sw_points (mw_Long w)) = l)"

definition mon_inv :: "Monitor \<Rightarrow> bool" where
  "mon_inv m \<longleftrightarrow> gm_wf (ms_nodes (mon_store m)) \<and> gm_wf (mon_lastErrorCount m) \<and>
     gm_keys (mon_lastErrorCount m) = gm_keys (ms_nodes (mon_store m)) \<and>
     (\<forall>k nm. map_of (ms_nodes (mon_store m)) k = Some nm \<longrightarrow> nm_NodeID nm = k \<and> nm_wf nm)"

section \<open>Sliding windows\<close>

lemma add_points:
  "sw_points (sw_Add v ts sw) =
     dropWhile (\<lambda>p. mp_Timestamp p < ts - sw_duration sw)
       (sw_points sw @ [\<lparr>mp_Value = v, mp_Timestamp = ts\<rparr>])"
  "sw_duration (sw_Add v ts sw) = sw_duration sw"
  by (simp_all add: sw_Add_def sw_evict_def Let_def)

lemma dropWhile_sorted_filter:
  fixes ps :: "MetricPoint list"
  assumes "sorted (map mp_Timestamp ps)"
  shows "dropWhile (\<lambda>p. mp_Timestamp p < c) ps = filter (\<lambda>p. c \<le> mp_Timestamp p) ps"
  using assms
proof (induction ps)
  case (Cons p ps)
  show ?case
  proof (cases "mp_Timestamp p < c")
    case False
    then have "\<forall>q\<in>set (p # ps). c \<le> mp_Timestamp q" using Cons.prems by auto
    then have "filter (\<lambda>p. c \<le> mp_Timestamp p) (p # ps) = p # ps" by (intro filter_True)
    then show ?thesis using False by simp
  qed (use Cons in simp)
qed simp

text \<open>An addition never drops a point inside the duration, whatever the order of the timestamps.\<close>

lemma add_keeps_recent:
  assumes "p \<in> set (sw_points sw @ [\<lparr>mp_Value = v, mp_Timestamp = ts\<rparr>])" "ts - sw_duration sw \<le> mp_Timestamp p"
  shows "p \<in> set (sw_points (sw_Add v ts sw))"
proof -
  let ?P = "\<lambda>p. mp_Timestamp p < ts - sw_duration sw" and ?xs = "sw_points sw @ [\<lparr>mp_Value = v, mp_Timestamp = ts\<rparr>]"
  have "p \<notin> set (takeWhile ?P ?xs)" using assms(2) by (auto dest: set_takeWhileD)
  then show ?thesis
    using assms(1) unfolding add_points by (metis Un_iff set_append takeWhile_dropWhile_id)
qed

lemma add_all_window:
  assumes "sorted (map mp_Timestamp ps)" "0 \<le> d"
  shows "sw_points (add_all ps (NewSlidingWindow d)) = recent d ps \<and> sw_duration (add_all ps (NewSlidingWindow d)) = d"
  using assms
proof (induction ps rule: rev_induct)
  case Nil
  then show ?case by (simp add: add_all_def recent_def NewSlidingWindow_def)
next
  case (snoc p ps)
  have srt: "sorted (map mp_Timestamp ps)" and le: "\<And>q. q \<in> set ps \<Longrightarrow> mp_Timestamp q \<le> mp_Timestamp p"
    using snoc.prems(1) by (auto simp: sorted_append)
  let ?c = "mp_Timestamp p - d"
  have IH: "sw_points (add_all ps (NewSlidingWindow d)) = recent d ps"
    "sw_duration (add_all ps (NewSlidingWindow d)) = d" using snoc.IH [OF srt snoc.prems(2)] by auto
  have step: "add_all (ps @ [p]) (NewSlidingWindow d) =
      sw_Add (mp_Value p) (mp_Timestamp p) (add_all ps (NewSlidingWindow d))"
    by (simp add: add_all_def)
  have pt: "\<lparr>mp_Value = mp_Value p, mp_Timestamp = mp_Timestamp p\<rparr> = p" by (cases p) simp
  have sr: "sorted (map mp_Timestamp (recent d ps @ [p]))"
  proof -
    have "sorted (map mp_Timestamp (filter P (ps @ [p])))" for P
      using snoc.prems(1) by (rule sorted_filter)
    from this [of "\<lambda>q. q = p \<or> mp_Timestamp (last ps) - d \<le> mp_Timestamp q"] le
    show ?thesis using snoc.prems(1) unfolding recent_def
      by (auto simp: sorted_append sorted_filter)
  qed
  have "sw_points (add_all (ps @ [p]) (NewSlidingWindow d)) = filter (\<lambda>q. ?c \<le> mp_Timestamp q) (recent d ps @ [p])"
    unfolding step add_points IH pt by (rule dropWhile_sorted_filter [OF sr])
  also have "\<dots> = filter (\<lambda>q. ?c \<le> mp_Timestamp q) (ps @ [p])"
  proof -
    have "filter (\<lambda>q. ?c \<le> mp_Timestamp q) (recent d ps) = filter (\<lambda>q. ?c \<le> mp_Timestamp q) ps"
    proof (cases "ps = []")
      case False
      then have "mp_Timestamp (last ps) \<le> mp_Timestamp p" using le by simp
      then show ?thesis using False unfolding recent_def by (auto intro!: filter_cong)
    qed (simp add: recent_def)
    then show ?thesis by simp
  qed
  finally show ?case by (simp add: step add_points(2) IH(2) recent_def)
qed

section \<open>Ingesting reports\<close>

lemmas metric_names = MetricDiskIOLatency_def MetricDiskUtil_def MetricErrorRate_def
  MetricResponseTime_def MetricCPUUsage_def MetricMemoryUsage_def

definition add_to_windows :: "real \<Rightarrow> time \<Rightarrow> MetricWindows \<Rightarrow> MetricWindows" where
  "add_to_windows v ts w = \<lparr>mw_Short = sw_Add v ts (mw_Short w), mw_Medium = sw_Add v ts (mw_Medium w),
     mw_Long = sw_Add v ts (mw_Long w)\<rparr>"

lemma record_windows:
  "map_of (nm_Windows (nm_Record mt v ts nm)) = (map_of (nm_Windows nm))
     (mt := map_option (add_to_windows v ts) (map_of (nm_Windows nm) mt))"
  by (auto simp: nm_Record_def add_to_windows_def fun_eq_iff split: option.splits)

lemma record_keys:
  "map fst (nm_Windows (nm_Record mt v ts nm)) = map fst (nm_Windows nm)"
  "nm_NodeID (nm_Record mt v ts nm) = nm_NodeID nm"
  by (auto simp: nm_Record_def keys_list_update_old map_of_Some_key split: option.splits)

text \<open>The six \<open>Record\<close> calls of \<open>IngestReport\<close> together.\<close>

definition record_report :: "(MetricType \<Rightarrow> real) \<Rightarrow> time \<Rightarrow> NodeMetrics \<Rightarrow> NodeMetrics" where
  "record_report val ts nm =
     fold (\<lambda>mt. nm_Record mt (val mt) ts)
       [MetricDiskIOLatency, MetricDiskUtil, MetricResponseTime, MetricCPUUsage, MetricMemoryUsage, MetricErrorRate] nm"

lemma record_fold:
  "distinct mts \<Longrightarrow> map_of (nm_Windows (fold (\<lambda>mt. nm_Record mt (val mt) ts) mts nm)) mt =
     (if mt \<in> set mts then map_option (add_to_windows (val mt) ts) (map_of (nm_Windows nm) mt)
      else map_of (nm_Windows nm) mt)"
  by (induction mts arbitrary: nm) (auto simp: record_windows)

lemma record_fold_keys:
  "map fst (nm_Windows (fold (\<lambda>mt. nm_Record mt (val mt) ts) mts nm)) = map fst (nm_Windows nm) \<and>
   nm_NodeID (fold (\<lambda>mt. nm_Record mt (val mt) ts) mts nm) = nm_NodeID nm"
  by (induction mts arbitrary: nm) (simp_all add: record_keys)

lemma metrics_distinct:
  "distinct [MetricDiskIOLatency, MetricDiskUtil, MetricResponseTime, MetricCPUUsage, MetricMemoryUsage, MetricErrorRate]"
  by (simp add: metric_names)

lemma record_report_windows:
  assumes "gm_keys (nm_Windows nm) = set AllMetricTypes"
  shows "map_of (nm_Windows (record_report val ts nm)) mt =
    map_option (add_to_windows (val mt) ts) (map_of (nm_Windows nm) mt)"
proof (cases "mt \<in> set AllMetricTypes")
  case False
  then have "map_of (nm_Windows nm) mt = None" using assms by (simp add: map_of_eq_None_iff)
  then show ?thesis unfolding record_report_def record_fold [OF metrics_distinct] by simp
next
  case True
  then show ?thesis unfolding record_report_def record_fold [OF metrics_distinct]
    by (auto simp: AllMetricTypes_def)
qed

lemma wf_new_node: "nm_wf (NewNodeMetrics n)"
proof -
  have w: "nm_Windows (NewNodeMetrics n) = map (\<lambda>mt. (mt, new_windows)) AllMetricTypes"
    by (simp add: NewNodeMetrics_def AllMetricTypes_def metric_names)
  have "distinct AllMetricTypes" by (simp add: AllMetricTypes_def metric_names)
  moreover have "map_of (nm_Windows (NewNodeMetrics n)) mt = Some w \<Longrightarrow> w = new_windows" for mt w
    unfolding w by (auto dest!: map_of_SomeD)
  ultimately show ?thesis
    unfolding nm_wf_def w [symmetric]
    by (intro conjI exI [of _ "[]"] allI impI)
       (auto simp: w comp_def image_image new_windows_def NewSlidingWindow_def)
qed

text \<open>Adding a point at the same time to windows with the same timestamps keeps them aligned.\<close>

lemma add_timestamps:
  assumes "sw_duration sw = d" "map mp_Timestamp (sw_points sw) = tss"
  shows "map mp_Timestamp (sw_points (sw_Add v ts sw)) = dropWhile (\<lambda>t. t < ts - d) (tss @ [ts])"
proof -
  have "dropWhile (\<lambda>t. t < ts - d) (map mp_Timestamp ps) = map mp_Timestamp (dropWhile (\<lambda>p. mp_Timestamp p < ts - d) ps)" for ps
    by (simp add: dropWhile_map comp_def)
  from this [of "sw_points sw @ [\<lparr>mp_Value = v, mp_Timestamp = ts\<rparr>]"] show ?thesis
    using assms unfolding add_points by simp
qed

lemma wf_record_report:
  assumes "nm_wf nm"
  shows "nm_wf (record_report val ts nm)"
proof -
  have keys: "map fst (nm_Windows (record_report val ts nm)) = map fst (nm_Windows nm)"
    unfolding record_report_def using record_fold_keys by blast
  have keys_set: "gm_keys (nm_Windows (record_report val ts nm)) = gm_keys (nm_Windows nm)"
    using arg_cong [OF keys, of set] by simp
  obtain s m l where old: "\<And>mt w. map_of (nm_Windows nm) mt = Some w \<Longrightarrow>
        sw_duration (mw_Short w) = 5 * Minute \<and> sw_duration (mw_Medium w) = 15 * Minute \<and>
        sw_duration (mw_Long w) = 1 * Hour \<and>
        map mp_Timestamp (sw_points (mw_Short w)) = s \<and> map mp_Timestamp (sw_points (mw_Medium w)) = m \<and>
        map mp_Timestamp (sw_points (mw_Long w)) = l"
    using assms unfolding nm_wf_def by meson
  let ?dw = "\<lambda>d ps. dropWhile (\<lambda>t. t < ts - d) (ps @ [ts])"
  have "sw_duration (mw_Short w) = 5 * Minute \<and> sw_duration (mw_Medium w) = 15 * Minute \<and>
        sw_duration (mw_Long w) = 1 * Hour \<and>
        map mp_Timestamp (sw_points (mw_Short w)) = ?dw (5 * Minute) s \<and>
        map mp_Timestamp (sw_points (mw_Medium w)) = ?dw (15 * Minute) m \<and>
        map mp_Timestamp (sw_points (mw_Long w)) = ?dw (1 * Hour) l"
    if w: "map_of (nm_Windows (record_report val ts nm)) mt = Some w" for mt w
  proof -
    have "gm_keys (nm_Windows nm) = set AllMetricTypes" using assms by (simp add: nm_wf_def)
    from w [unfolded record_report_windows [OF this]] obtain w0
      where w0: "map_of (nm_Windows nm) mt = Some w0" "w = add_to_windows (val mt) ts w0" by auto
    show ?thesis using old [OF w0(1)] unfolding w0(2) add_to_windows_def
      by (simp add: add_points(2) add_timestamps)
  qed
  then show ?thesis using assms unfolding nm_wf_def keys keys_set by blast
qed

lemma ingest_eq:
  "mon_IngestReport r m =
     (case ms_GetOrCreate (hr_NodeID r) (mon_store m) of (store, nm) \<Rightarrow>
        \<lparr>mon_store = store\<lparr>ms_nodes := AList.update (hr_NodeID r)
            (record_report (report_value m r) (hr_Timestamp r) nm) (ms_nodes store)\<rparr>,
         mon_lastErrorCount = AList.update (hr_NodeID r) (hr_ErrorCount r) (mon_lastErrorCount m)\<rparr>)"
proof -
  have "report_value m r MetricDiskIOLatency = hr_DiskIOLatency r" "report_value m r MetricDiskUtil = hr_DiskUtil r"
    "report_value m r MetricResponseTime = hr_ResponseTime r" "report_value m r MetricCPUUsage = hr_CPUUsage r"
    "report_value m r MetricMemoryUsage = hr_MemoryUsage r"
    "report_value m r MetricErrorRate =
      real_of_int (error_delta (map_of (mon_lastErrorCount m) (hr_NodeID r)) (hr_ErrorCount r))"
    by (simp_all add: report_value_def metric_names)
  then show ?thesis
    by (simp add: mon_IngestReport_def record_report_def Let_def split: prod.splits)
qed

text \<open>The metrics of a node before a report: those in the store, or fresh ones.\<close>

definition metrics_of :: "Monitor \<Rightarrow> string \<Rightarrow> NodeMetrics" where
  "metrics_of m n = (case map_of (ms_nodes (mon_store m)) n of None \<Rightarrow> NewNodeMetrics n | Some nm \<Rightarrow> nm)"

lemma wf_metrics_of: "mon_inv m \<Longrightarrow> nm_wf (metrics_of m n) \<and> nm_NodeID (metrics_of m n) = n"
  by (auto simp: metrics_of_def mon_inv_def wf_new_node NewNodeMetrics_def split: option.splits)
     (simp flip: NewNodeMetrics_def add: wf_new_node)

lemma ingest_nodes:
  "map_of (ms_nodes (mon_store (mon_IngestReport r m))) =
     (map_of (ms_nodes (mon_store m)))
       (hr_NodeID r \<mapsto> record_report (report_value m r) (hr_Timestamp r) (metrics_of m (hr_NodeID r)))"
  by (auto simp: ingest_eq ms_GetOrCreate_def metrics_of_def Let_def split: option.splits)

lemma ingest_inv:
  assumes "mon_inv m"
  shows "mon_inv (mon_IngestReport r m)"
proof -
  have wf: "gm_wf (ms_nodes (mon_store (mon_IngestReport r m)))"
    "gm_keys (ms_nodes (mon_store (mon_IngestReport r m))) = insert (hr_NodeID r) (gm_keys (ms_nodes (mon_store m)))"
    using assms by (auto simp: ingest_eq ms_GetOrCreate_def mon_inv_def Let_def split: option.splits)
  have "nm_NodeID (record_report (report_value m r) (hr_Timestamp r) nm) = nm_NodeID nm" for nm
    unfolding record_report_def using record_fold_keys by blast
  then have "nm_NodeID nm = k \<and> nm_wf nm"
    if "map_of (ms_nodes (mon_store (mon_IngestReport r m))) k = Some nm" for k nm
    using that assms wf_metrics_of [OF assms, of "hr_NodeID r"] unfolding ingest_nodes
    by (auto simp: wf_record_report mon_inv_def split: if_splits)
  moreover have "mon_lastErrorCount (mon_IngestReport r m) =
      AList.update (hr_NodeID r) (hr_ErrorCount r) (mon_lastErrorCount m)"
    by (simp add: ingest_eq split: prod.splits)
  ultimately show ?thesis using wf assms unfolding mon_inv_def by simp
qed

section \<open>A whole history of reports\<close>

text \<open>The points the reports of one node contribute to a metric; \<open>l\<close> is the last error count.\<close>

fun series :: "int option \<Rightarrow> MetricType \<Rightarrow> HealthReport list \<Rightarrow> MetricPoint list" where
  "series l mt [] = []"
| "series l mt (r # rs) =
     \<lparr>mp_Value = report_value \<lparr>mon_store = NewMetricStore,
          mon_lastErrorCount = (case l of None \<Rightarrow> [] | Some e \<Rightarrow> [(hr_NodeID r, e)])\<rparr> r mt,
      mp_Timestamp = hr_Timestamp r\<rparr> # series (Some (hr_ErrorCount r)) mt rs"

definition last_errors :: "int option \<Rightarrow> HealthReport list \<Rightarrow> int option" where
  "last_errors l rs = (if rs = [] then l else Some (hr_ErrorCount (last rs)))"

definition monitor_after :: "HealthReport list \<Rightarrow> Monitor" where
  "monitor_after rs = fold mon_IngestReport rs NewMonitor"

definition reports_of :: "string \<Rightarrow> HealthReport list \<Rightarrow> HealthReport list" where
  "reports_of n rs = filter (\<lambda>r. hr_NodeID r = n) rs"

lemma series_timestamps: "map mp_Timestamp (series l mt rs) = map hr_Timestamp rs"
  by (induction l mt rs rule: series.induct) auto

lemma report_value_cong:
  "map_of (mon_lastErrorCount m) (hr_NodeID r) = map_of (mon_lastErrorCount m') (hr_NodeID r) \<Longrightarrow>
   report_value m r mt = report_value m' r mt"
  by (simp add: report_value_def)

lemma series_snoc:
  assumes "map_of (mon_lastErrorCount m) (hr_NodeID r) = last_errors l rs"
  shows "series l mt (rs @ [r]) = series l mt rs @
    [\<lparr>mp_Value = report_value m r mt, mp_Timestamp = hr_Timestamp r\<rparr>]"
  using assms
proof (induction l mt rs rule: series.induct)
  case (1 l mt)
  then show ?case by (auto simp: last_errors_def intro!: report_value_cong split: option.splits)
next
  case (2 l mt r' rs)
  have "last_errors l (r' # rs) = last_errors (Some (hr_ErrorCount r')) rs" by (auto simp: last_errors_def)
  then show ?case using 2 by simp
qed

lemma monitor_after_errors:
  "map_of (mon_lastErrorCount (monitor_after rs)) n = last_errors None (reports_of n rs)"
proof (induction rs rule: rev_induct)
  case Nil
  then show ?case by (simp add: monitor_after_def NewMonitor_def last_errors_def reports_of_def)
next
  case (snoc r rs)
  have "monitor_after (rs @ [r]) = mon_IngestReport r (monitor_after rs)" by (simp add: monitor_after_def)
  then show ?case
    using snoc by (simp add: ingest_eq last_errors_def reports_of_def split: prod.splits)
qed

lemma monitor_after_inv: "mon_inv (monitor_after rs)"
proof (induction rs rule: rev_induct)
  case (snoc r rs)
  then show ?case using ingest_inv [of "monitor_after rs" r] by (simp add: monitor_after_def)
qed (simp add: monitor_after_def NewMonitor_def NewMetricStore_def mon_inv_def)

text \<open>Every window holds what adding the node's series to an empty window gives.\<close>

definition windows_of :: "MetricPoint list \<Rightarrow> MetricWindows" where
  "windows_of ps = \<lparr>mw_Short = add_all ps (NewSlidingWindow (5 * Minute)),
     mw_Medium = add_all ps (NewSlidingWindow (15 * Minute)), mw_Long = add_all ps (NewSlidingWindow (1 * Hour))\<rparr>"

lemma windows_snoc:
  "windows_of (ps @ [\<lparr>mp_Value = v, mp_Timestamp = ts\<rparr>]) = add_to_windows v ts (windows_of ps)"
  by (simp add: windows_of_def add_to_windows_def add_all_def)

lemma new_node_windows:
  assumes "mt \<in> set AllMetricTypes"
  shows "map_of (nm_Windows (NewNodeMetrics n)) mt = Some (windows_of [])"
proof -
  have w: "nm_Windows (NewNodeMetrics n) = map (\<lambda>mt. (mt, new_windows)) AllMetricTypes"
    by (simp add: NewNodeMetrics_def AllMetricTypes_def metric_names)
  show ?thesis
    using assms unfolding w by (simp add: map_of_map_restrict windows_of_def new_windows_def add_all_def)
qed

lemma monitor_after_windows:
  assumes "mt \<in> set AllMetricTypes"
  shows "map_of (nm_Windows (metrics_of (monitor_after rs) n)) mt = Some (windows_of (series None mt (reports_of n rs)))"
proof (induction rs rule: rev_induct)
  case Nil
  then show ?case
    using new_node_windows [OF assms] by (simp add: monitor_after_def NewMonitor_def NewMetricStore_def metrics_of_def reports_of_def)
next
  case (snoc r rs)
  let ?m = "monitor_after rs"
  have m: "monitor_after (rs @ [r]) = mon_IngestReport r ?m" by (simp add: monitor_after_def)
  show ?case
  proof (cases "hr_NodeID r = n")
    case False
    then show ?thesis
      using snoc.IH unfolding m metrics_of_def ingest_nodes by (simp add: reports_of_def)
  next
    case True
    have keys: "gm_keys (nm_Windows (metrics_of ?m n)) = set AllMetricTypes"
      using wf_metrics_of [OF monitor_after_inv, of rs n] by (simp add: nm_wf_def)
    have "map_of (nm_Windows (metrics_of (mon_IngestReport r ?m) n)) mt =
        map_option (add_to_windows (report_value ?m r mt) (hr_Timestamp r)) (map_of (nm_Windows (metrics_of ?m n)) mt)"
      using record_report_windows [OF keys, of "report_value ?m r" "hr_Timestamp r" mt] True
      unfolding metrics_of_def [of "mon_IngestReport r ?m"] ingest_nodes by simp
    moreover have "series None mt (reports_of n (rs @ [r])) = series None mt (reports_of n rs) @
        [\<lparr>mp_Value = report_value ?m r mt, mp_Timestamp = hr_Timestamp r\<rparr>]"
      using series_snoc [of ?m r None "reports_of n rs" mt] monitor_after_errors [of rs n] True
      by (simp add: reports_of_def)
    ultimately show ?thesis unfolding m by (simp add: snoc.IH windows_snoc)
  qed
qed

lemma monitor_after_tracked:
  "mon_GetNodeMetrics (monitor_after rs) n =
     (if reports_of n rs = [] then None else Some (metrics_of (monitor_after rs) n))"
proof -
  have "mon_inv (monitor_after rs)" by (rule monitor_after_inv)
  then have "n \<in> gm_keys (ms_nodes (mon_store (monitor_after rs))) \<longleftrightarrow> last_errors None (reports_of n rs) \<noteq> None"
    unfolding mon_inv_def by (metis monitor_after_errors key_map_of option.distinct(1) option.exhaust)
  then show ?thesis
    by (auto simp: mon_GetNodeMetrics_def ms_Get_def metrics_of_def last_errors_def key_map_of split: if_splits option.splits)
qed

section \<open>Properties\<close>

text \<open>
  C26: After any sequence of health reports, if the reports of a node carry non-decreasing
  timestamps, each of its windows holds exactly the points of the last 5 minutes, 15 minutes or
  hour before its latest report, in order: for every metric the value reported, and for the error
  rate the growth of the node's error counter since its previous report (0 at the first report and
  after a counter reset). Reports of other nodes do not disturb them.
\<close>

theorem windows_hold_recent_reports:
  assumes "sorted (map hr_Timestamp (reports_of n rs))" "reports_of n rs \<noteq> []" "mt \<in> set AllMetricTypes"
  shows "\<exists>nm s m l. mon_GetNodeMetrics (monitor_after rs) n = Some nm \<and>
    nm_GetWindow nm mt ''short'' = Some s \<and> sw_Points s = recent (5 * Minute) (series None mt (reports_of n rs)) \<and>
    nm_GetWindow nm mt ''medium'' = Some m \<and> sw_Points m = recent (15 * Minute) (series None mt (reports_of n rs)) \<and>
    nm_GetWindow nm mt ''long'' = Some l \<and> sw_Points l = recent (1 * Hour) (series None mt (reports_of n rs))"
proof -
  let ?ps = "series None mt (reports_of n rs)"
  have srt: "sorted (map mp_Timestamp ?ps)" using assms(1) by (simp add: series_timestamps)
  have "0 \<le> 5 * Minute" "0 \<le> 15 * Minute" "0 \<le> 1 * Hour" by (simp_all add: Hour_def Minute_def Second_def)
  note w = this [THEN add_all_window [OF srt]]
  show ?thesis
    using monitor_after_tracked [of rs n] monitor_after_windows [OF assms(3), of rs n] assms(2) w
    by (simp add: nm_GetWindow_def windows_of_def sw_Points_def)
qed

definition demo_report :: "string \<Rightarrow> real \<Rightarrow> int \<Rightarrow> time \<Rightarrow> HealthReport" where
  "demo_report n v e ts = \<lparr>hr_NodeID = n, hr_DiskIOLatency = v, hr_DiskUtil = 0, hr_ErrorCount = e,
     hr_ResponseTime = 0, hr_CPUUsage = 0, hr_MemoryUsage = 0, hr_Timestamp = ts\<rparr>"

theorem windows_hold_recent_reports_witness:
  "let rs = [demo_report ''node-1'' 10 2 0, demo_report ''node-2'' 7 0 1, demo_report ''node-1'' 20 7 (400 * Second)]
   in \<exists>nm s m l. mon_GetNodeMetrics (monitor_after rs) ''node-1'' = Some nm \<and>
      nm_GetWindow nm MetricErrorRate ''short'' = Some s \<and> sw_Values s = [5] \<and>
      nm_GetWindow nm MetricErrorRate ''medium'' = Some m \<and> sw_Values m = [0, 5] \<and>
      nm_GetWindow nm MetricErrorRate ''long'' = Some l \<and> sw_Values l = [0, 5]"
proof -
  let ?rs = "[demo_report ''node-1'' 10 2 0, demo_report ''node-2'' 7 0 1, demo_report ''node-1'' 20 7 (400 * Second)]"
  have of1: "reports_of ''node-1'' ?rs = [demo_report ''node-1'' 10 2 0, demo_report ''node-1'' 20 7 (400 * Second)]"
    by (simp add: reports_of_def demo_report_def)
  have ser: "map mp_Value (recent (5 * Minute) (series None MetricErrorRate (reports_of ''node-1'' ?rs))) = [5]"
    "map mp_Value (recent (15 * Minute) (series None MetricErrorRate (reports_of ''node-1'' ?rs))) = [0, 5]"
    "map mp_Value (recent (1 * Hour) (series None MetricErrorRate (reports_of ''node-1'' ?rs))) = [0, 5]"
    unfolding of1 by code_simp+
  have "sorted (map hr_Timestamp (reports_of ''node-1'' ?rs))" "reports_of ''node-1'' ?rs \<noteq> []"
    "MetricErrorRate \<in> set AllMetricTypes"
    by (simp_all only: of1) (simp_all add: demo_report_def AllMetricTypes_def Second_def)
  from windows_hold_recent_reports [OF this] ser show ?thesis
    unfolding Let_def by (fastforce simp: sw_Points_def sw_Values_def)
qed

text \<open>
  With a report every \<open>MetricsReportInterval\<close> (5 seconds) a one-hour window grows to 721
  points and never beyond: the point exactly one hour old is kept, because eviction drops only
  points strictly before the cutoff. (The design notes count 720.)
\<close>

theorem hour_window_size:
  "sw_Len (add_all (map (\<lambda>i. \<lparr>mp_Value = f i, mp_Timestamp = t0 + int i * MetricsReportInterval\<rparr>) [0..<n])
     (NewSlidingWindow WindowLong)) = min n 721"
proof (cases n)
  case 0
  then show ?thesis by (simp add: add_all_def NewSlidingWindow_def sw_Len_def)
next
  case (Suc k)
  let ?pt = "\<lambda>i. \<lparr>mp_Value = f i, mp_Timestamp = t0 + int i * MetricsReportInterval\<rparr>"
  have MI: "MetricsReportInterval = 5 * Second" "WindowLong = 720 * MetricsReportInterval" "0 < MetricsReportInterval"
    by (simp_all add: MetricsReportInterval_def WindowLong_def Hour_def Minute_def Second_def)
  have srt: "sorted (map mp_Timestamp (map ?pt [0..<n]))"
    using MI(3) by (auto simp: sorted_iff_nth_mono intro!: mult_right_mono)
  have "recent WindowLong (map ?pt [0..<n]) = map ?pt (filter (\<lambda>i. k - 720 \<le> i) [0..<n])"
  proof -
    have "mp_Timestamp (last (map ?pt [0..<n])) - WindowLong \<le> mp_Timestamp (?pt i) \<longleftrightarrow> k - 720 \<le> i" for i
    proof -
      have "mp_Timestamp (last (map ?pt [0..<n])) - WindowLong \<le> mp_Timestamp (?pt i) \<longleftrightarrow>
          (int k - 720) * MetricsReportInterval \<le> int i * MetricsReportInterval"
        using Suc MI(2) by (simp add: algebra_simps)
      also have "\<dots> \<longleftrightarrow> int k - 720 \<le> int i" using MI(3) by (simp add: mult_le_cancel_right)
      finally show ?thesis by linarith
    qed
    then show ?thesis using Suc unfolding recent_def by (simp add: filter_map comp_def del: upt_Suc)
  qed
  moreover have "length (filter (\<lambda>i. k - 720 \<le> i) [0..<n]) = min n 721"
  proof -
    have "filter (\<lambda>i. k - 720 \<le> i) [0..<n] = [k - 720..<n]"
    proof -
      have "[0..<n] = [0..<k - 720] @ [k - 720..<n]"
        using Suc by (metis le_add_diff_inverse upt_add_eq_append zero_le diff_le_self le_SucI)
      then show ?thesis by (simp add: filter_empty_conv del: upt_Suc)
    qed
    then show ?thesis using Suc by simp
  qed
  ultimately show ?thesis
    using add_all_window [OF srt, of WindowLong] by (simp add: sw_Len_def WindowLong_def Hour_def Minute_def Second_def)
qed

end
