(* ===== verification/Predictor.thy ===== *)
theory Predictor
  imports Metrics
begin

text \<open>
  \<^verbatim>\<open>internal/health/predictor.go\<close>: the risk score of a metric (current value, trend, volatility), the
  weighted score of a node and its status.

  A \<open>float64\<close> is a \<open>real\<close>: rounding, infinities and NaN are outside the model, so equalities hold of
  the code up to floating-point rounding. Logging is left out.
\<close>

section \<open>Data\<close>

definition MetricWeight :: "(MetricType, real) gomap" where
  "MetricWeight = [(MetricDiskIOLatency, 0.25), (MetricDiskUtil, 0.20), (MetricErrorRate, 0.25),
     (MetricResponseTime, 0.15), (MetricCPUUsage, 0.05), (MetricMemoryUsage, 0.10)]"

definition MetricThreshold :: "(MetricType, real) gomap" where
  "MetricThreshold = [(MetricDiskIOLatency, 50), (MetricDiskUtil, 0.90), (MetricErrorRate, 5),
     (MetricResponseTime, 30), (MetricCPUUsage, 0.90), (MetricMemoryUsage, 0.90)]"

text \<open>Reading a missing key of a \<open>map[MetricType]float64\<close> gives 0.\<close>

definition lookup0 :: "(MetricType, real) gomap \<Rightarrow> MetricType \<Rightarrow> real" where
  "lookup0 m mt = (case map_of m mt of None \<Rightarrow> 0 | Some v \<Rightarrow> v)"

record MetricRisk =
  mr_CurrentValue :: real
  mr_MeanValue :: real
  mr_TrendSlope :: real
  mr_RiskScore :: real
  mr_Window :: string

record PredictionResult =
  pr_NodeID :: string
  pr_OverallRisk :: real
  pr_Status :: NodeStatus
  pr_MetricRisks :: "(MetricType, MetricRisk) gomap"
  pr_Reasons :: "string list"
  pr_PredictedAt :: time

section \<open>Operations\<close>

definition clampRisk :: "real \<Rightarrow> real" where
  "clampRisk v = (if v < 0 then 0 else if 1 < v then 1 else v)"

text \<open>Seconds of a duration as a floating-point number.\<close>

definition Seconds :: "duration \<Rightarrow> real" where
  "Seconds d = real_of_int d / real_of_int Second"

text \<open>The sums of the regression loop: \<open>(sumX, sumY, sumXY, sumX2)\<close>.\<close>

definition regression_sums :: "time \<Rightarrow> MetricPoint list \<Rightarrow> real \<times> real \<times> real \<times> real" where
  "regression_sums baseTime points =
     fold (\<lambda>p (sumX, sumY, sumXY, sumX2).
         let x = Seconds (mp_Timestamp p - baseTime); y = mp_Value p
         in (sumX + x, sumY + y, sumXY + x * y, sumX2 + x * x))
       points (0, 0, 0, 0)"

definition linearRegressionSlope :: "MetricPoint list \<Rightarrow> real" where
  "linearRegressionSlope points =
     (if length points < 2 then 0
      else
        case regression_sums (mp_Timestamp (hd points)) points of
          (sumX, sumY, sumXY, sumX2) \<Rightarrow>
            let fn = real (length points); denominator = fn * sumX2 - sumX * sumX
            in if \<bar>denominator\<bar> < 1 / 10 ^ 10 then 0
               else (fn * sumXY - sumX * sumY) / denominator)"

definition computeVolatility :: "real list \<Rightarrow> real" where
  "computeVolatility values =
     (if length values < 2 then 0
      else
        let mean = fold (\<lambda>v s. s + v) values 0 / real (length values);
            variance = fold (\<lambda>v s. s + (v - mean) * (v - mean)) values 0 / real (length values - 1)
        in sqrt variance)"

definition analyzeMetric :: "NodeMetrics \<Rightarrow> MetricType \<Rightarrow> real \<Rightarrow> MetricRisk" where
  "analyzeMetric nm metricType threshold =
     (let risk = \<lparr>mr_CurrentValue = 0, mr_MeanValue = 0, mr_TrendSlope = 0, mr_RiskScore = 0, mr_Window = ''''\<rparr>
      in case nm_GetWindow nm metricType ''short'' of
           None \<Rightarrow> risk
         | Some shortWin \<Rightarrow>
             if sw_Len shortWin < 2 then risk
             else
               let current = sw_Latest shortWin;
                   valueRisk = current / threshold;
                   valueRisk = (if 1 < valueRisk then 1 else valueRisk);
                   (trendWin, window) =
                     (case nm_GetWindow nm metricType ''medium'' of
                        None \<Rightarrow> (shortWin, ''short'')
                      | Some mediumWin \<Rightarrow>
                          if 3 \<le> sw_Len mediumWin then (mediumWin, ''medium'') else (shortWin, ''short''));
                   slope = linearRegressionSlope (sw_Points trendWin);
                   trendRisk = (if 0 < slope
                                then let t = slope * 60 / threshold in if 1 < t then 1 else t
                                else 0);
                   volatility = computeVolatility (sw_Values shortWin);
                   volRisk = volatility / (threshold * 0.5);
                   volRisk = (if 1 < volRisk then 1 else volRisk);
                   combined = (if 0.7 < valueRisk
                               then 0.6 * valueRisk + 0.25 * trendRisk + 0.15 * volRisk
                               else 0.4 * valueRisk + 0.4 * trendRisk + 0.2 * volRisk)
               in \<lparr>mr_CurrentValue = current, mr_MeanValue = sw_Mean shortWin, mr_TrendSlope = slope,
                   mr_RiskScore = clampRisk combined, mr_Window = window\<rparr>)"

definition formatReason :: "MetricType \<Rightarrow> MetricRisk \<Rightarrow> string" where
  "formatReason mt risk =
     (if mt = MetricDiskIOLatency then
        ''Disk I/O latency elevated: '' @ fmt_f False 1 (mr_CurrentValue risk) @ ''ms (trend: '' @
        fmt_f True 2 (mr_TrendSlope risk) @ ''/s)''
      else if mt = MetricDiskUtil then
        ''Disk utilization high: '' @ fmt_f False 1 (mr_CurrentValue risk * 100) @ ''% (trend: '' @
        fmt_f True 4 (mr_TrendSlope risk) @ ''/s)''
      else if mt = MetricErrorRate then
        ''Error rate increasing: '' @ fmt_f False 1 (mr_CurrentValue risk) @ '' errors/interval (trend: '' @
        fmt_f True 2 (mr_TrendSlope risk) @ ''/s)''
      else if mt = MetricResponseTime then
        ''Response time degraded: '' @ fmt_f False 1 (mr_CurrentValue risk) @ ''ms (trend: '' @
        fmt_f True 2 (mr_TrendSlope risk) @ ''/s)''
      else if mt = MetricCPUUsage then
        ''CPU usage high: '' @ fmt_f False 1 (mr_CurrentValue risk * 100) @ ''% (trend: '' @
        fmt_f True 4 (mr_TrendSlope risk) @ ''/s)''
      else if mt = MetricMemoryUsage then
        ''Memory usage high: '' @ fmt_f False 1 (mr_CurrentValue risk * 100) @ ''% (trend: '' @
        fmt_f True 4 (mr_TrendSlope risk) @ ''/s)''
      else mt @ '' risk: '' @ fmt_f False 2 (mr_RiskScore risk))"

text \<open>The loop of \<open>PredictNode\<close>: \<open>(MetricRisks, Reasons, weightedRiskSum, totalWeight)\<close>.\<close>

definition predict_step ::
  "NodeMetrics \<Rightarrow> MetricType \<Rightarrow> (MetricType, MetricRisk) gomap \<times> string list \<times> real \<times> real \<Rightarrow>
   (MetricType, MetricRisk) gomap \<times> string list \<times> real \<times> real" where
  "predict_step nm metricType acc =
     (case acc of (risks, reasons, weightedRiskSum, totalWeight) \<Rightarrow>
        let weight = lookup0 MetricWeight metricType;
            threshold = lookup0 MetricThreshold metricType;
            risk = analyzeMetric nm metricType threshold
        in (AList.update metricType risk risks,
            (if 0.6 \<le> mr_RiskScore risk then reasons @ [formatReason metricType risk] else reasons),
            weightedRiskSum + mr_RiskScore risk * weight,
            totalWeight + weight))"

definition PredictNode :: "time \<Rightarrow> Monitor \<Rightarrow> string \<Rightarrow> PredictionResult option" where
  "PredictNode now monitor nodeID =
     (case mon_GetNodeMetrics monitor nodeID of
        None \<Rightarrow> None
      | Some nm \<Rightarrow>
          (case fold (predict_step nm) AllMetricTypes ([], [], 0, 0) of
             (risks, reasons, weightedRiskSum, totalWeight) \<Rightarrow>
               let overall = clampRisk (if 0 < totalWeight then weightedRiskSum / totalWeight else 0)
               in Some \<lparr>pr_NodeID = nodeID, pr_OverallRisk = overall, pr_Status = RiskToStatus overall,
                        pr_MetricRisks = risks, pr_Reasons = reasons, pr_PredictedAt = now\<rparr>))"

definition PredictAll :: "iter \<Rightarrow> time \<Rightarrow> Monitor \<Rightarrow> PredictionResult list" where
  "PredictAll it now monitor = List.map_filter (PredictNode now monitor) (mon_GetAllNodeIDs it monitor)"

section \<open>Scores\<close>

definition metric_risk :: "NodeMetrics \<Rightarrow> MetricType \<Rightarrow> real" where
  "metric_risk nm mt = mr_RiskScore (analyzeMetric nm mt (lookup0 MetricThreshold mt))"

lemma clamp_bounds: "0 \<le> clampRisk v" "clampRisk v \<le> 1"
  by (simp_all add: clampRisk_def)

lemma clamp_id: "0 \<le> v \<Longrightarrow> v \<le> 1 \<Longrightarrow> clampRisk v = v"
  by (simp add: clampRisk_def)

lemma metric_risk_bounds: "0 \<le> metric_risk nm mt" "metric_risk nm mt \<le> 1"
  by (auto simp: metric_risk_def analyzeMetric_def Let_def clamp_bounds split: option.splits prod.splits)

lemma fold_sum: "fold (\<lambda>x s. s + f x) xs (a::real) = a + (\<Sum>x\<leftarrow>xs. f x)"
  by (induction xs arbitrary: a) auto

lemma volatility_nonneg: "0 \<le> computeVolatility vs"
proof -
  have "0 \<le> (\<Sum>v\<leftarrow>vs. (v - m) * (v - m))" for m by (intro sum_list_nonneg) auto
  then show ?thesis by (simp add: computeVolatility_def Let_def fold_sum)
qed

lemma predict_fold:
  "fold (predict_step nm) mts (risks, reasons, s, w) =
     (fold (\<lambda>mt rs. AList.update mt (analyzeMetric nm mt (lookup0 MetricThreshold mt)) rs) mts risks,
      reasons @ map (\<lambda>mt. formatReason mt (analyzeMetric nm mt (lookup0 MetricThreshold mt)))
        (filter (\<lambda>mt. 0.6 \<le> metric_risk nm mt) mts),
      s + (\<Sum>mt\<leftarrow>mts. metric_risk nm mt * lookup0 MetricWeight mt),
      w + (\<Sum>mt\<leftarrow>mts. lookup0 MetricWeight mt))"
  by (induction mts arbitrary: risks reasons s w)
     (simp_all add: predict_step_def metric_risk_def Let_def)

lemma weights:
  "lookup0 MetricWeight MetricDiskIOLatency = 0.25" "lookup0 MetricWeight MetricDiskUtil = 0.20"
  "lookup0 MetricWeight MetricErrorRate = 0.25" "lookup0 MetricWeight MetricResponseTime = 0.15"
  "lookup0 MetricWeight MetricCPUUsage = 0.05" "lookup0 MetricWeight MetricMemoryUsage = 0.10"
  by (simp_all add: lookup0_def MetricWeight_def metric_names)

lemma thresholds_pos: "mt \<in> set AllMetricTypes \<Longrightarrow> 0 < lookup0 MetricThreshold mt"
  by (auto simp: lookup0_def MetricThreshold_def AllMetricTypes_def metric_names)

text \<open>The overall risk is the weighted sum of the metric risks; neither clamp nor division acts.\<close>

lemma PredictNode_Some:
  assumes "mon_GetNodeMetrics m n = Some nm"
  obtains r where "PredictNode now m n = Some r" "pr_NodeID r = n"
    "pr_OverallRisk r = (\<Sum>mt\<leftarrow>AllMetricTypes. metric_risk nm mt * lookup0 MetricWeight mt)"
    "pr_Status r = RiskToStatus (pr_OverallRisk r)"
    "pr_Reasons r = map (\<lambda>mt. formatReason mt (analyzeMetric nm mt (lookup0 MetricThreshold mt)))
        (filter (\<lambda>mt. 0.6 \<le> metric_risk nm mt) AllMetricTypes)"
proof -
  let ?s = "\<Sum>mt\<leftarrow>AllMetricTypes. metric_risk nm mt * lookup0 MetricWeight mt"
  have w: "(\<Sum>mt\<leftarrow>AllMetricTypes. lookup0 MetricWeight mt) = 1"
    by (simp add: AllMetricTypes_def weights)
  note risk_upper = metric_risk_bounds(2) [of nm MetricDiskIOLatency] metric_risk_bounds(2) [of nm MetricDiskUtil]
    metric_risk_bounds(2) [of nm MetricErrorRate] metric_risk_bounds(2) [of nm MetricResponseTime]
    metric_risk_bounds(2) [of nm MetricCPUUsage] metric_risk_bounds(2) [of nm MetricMemoryUsage]
  have "0 \<le> ?s" "?s \<le> 1"
    using metric_risk_bounds(1) [of nm] risk_upper by (simp_all add: AllMetricTypes_def weights)
  then have "clampRisk ?s = ?s" by (rule clamp_id)
  then show ?thesis
    using that assms by (auto simp: PredictNode_def predict_fold w Let_def)
qed

section \<open>The regression line\<close>

text \<open>Least squares: the sum of squared errors of the line \<open>y = a x + b\<close>.\<close>

definition sq_error :: "real \<Rightarrow> real \<Rightarrow> (real \<times> real) list \<Rightarrow> real" where
  "sq_error a b xys = (\<Sum>(x, y)\<leftarrow>xys. (y - (a * x + b))\<^sup>2)"

definition ls_slope :: "(real \<times> real) list \<Rightarrow> real" where
  "ls_slope xys =
     (let n = real (length xys); sx = (\<Sum>(x, y)\<leftarrow>xys. x); sy = (\<Sum>(x, y)\<leftarrow>xys. y);
          sxy = (\<Sum>(x, y)\<leftarrow>xys. x * y); sxx = (\<Sum>(x, y)\<leftarrow>xys. x * x)
      in (n * sxy - sx * sy) / (n * sxx - sx * sx))"

definition ls_denominator :: "(real \<times> real) list \<Rightarrow> real" where
  "ls_denominator xys = real (length xys) * (\<Sum>(x, y)\<leftarrow>xys. x * x) - (\<Sum>(x, y)\<leftarrow>xys. x) * (\<Sum>(x, y)\<leftarrow>xys. x)"

lemma sq_error_expand:
  "sq_error a b xys =
     (\<Sum>(x, y)\<leftarrow>xys. y * y) - 2 * a * (\<Sum>(x, y)\<leftarrow>xys. x * y) - 2 * b * (\<Sum>(x, y)\<leftarrow>xys. y) +
     a * a * (\<Sum>(x, y)\<leftarrow>xys. x * x) + 2 * a * b * (\<Sum>(x, y)\<leftarrow>xys. x) + b * b * real (length xys)"
  unfolding sq_error_def by (induction xys) (auto simp: power2_eq_square algebra_simps)

text \<open>With normal equations, another line's error exceeds by the squared distance of the lines.\<close>

lemma sq_error_normal:
  fixes xys :: "(real \<times> real) list"
  defines "n \<equiv> real (length xys)" and "sx \<equiv> (\<Sum>(x, y)\<leftarrow>xys. x)" and "sy \<equiv> (\<Sum>(x, y)\<leftarrow>xys. y)"
    and "sxy \<equiv> (\<Sum>(x, y)\<leftarrow>xys. x * y)" and "sxx \<equiv> (\<Sum>(x, y)\<leftarrow>xys. x * x)"
  assumes normal: "s * sx + c * n = sy" "s * sxx + c * sx = sxy"
  shows "sq_error a b xys = sq_error s c xys + (\<Sum>(x, y)\<leftarrow>xys. ((a - s) * x + (b - c))\<^sup>2)"
proof -
  have q: "(\<Sum>(x, y)\<leftarrow>xys. ((a - s) * x + (b - c))\<^sup>2) =
      (a - s) * (a - s) * sxx + 2 * (a - s) * (b - c) * sx + (b - c) * (b - c) * n"
    unfolding sxx_def sx_def n_def by (induction xys) (auto simp: power2_eq_square algebra_simps)
  show ?thesis
    unfolding q sq_error_expand n_def [symmetric] sx_def [symmetric] sy_def [symmetric]
      sxy_def [symmetric] sxx_def [symmetric] normal [symmetric]
    by (simp add: algebra_simps)
qed

lemma ls_slope_best:
  assumes "ls_denominator xys \<noteq> 0"
  shows "\<exists>c. \<forall>a b. sq_error (ls_slope xys) c xys \<le> sq_error a b xys"
proof -
  define n sx sy sxy sxx where "n = real (length xys)" and "sx = (\<Sum>(x, y)\<leftarrow>xys. x)"
    and "sy = (\<Sum>(x, y)\<leftarrow>xys. y)" and "sxy = (\<Sum>(x, y)\<leftarrow>xys. x * y)" and "sxx = (\<Sum>(x, y)\<leftarrow>xys. x * x)"
  define s where "s = ls_slope xys"
  define c where "c = (sy - s * sx) / n"
  have D: "n * sxx - sx * sx \<noteq> 0"
    using assms by (simp add: ls_denominator_def n_def sx_def sxx_def)
  have n: "n \<noteq> 0"
  proof
    assume "n = 0"
    then have "xys = []" by (simp add: n_def)
    then show False using D by (simp add: n_def sx_def)
  qed
  have s: "s * (n * sxx - sx * sx) = n * sxy - sx * sy"
    using D by (simp add: s_def ls_slope_def Let_def n_def sx_def sy_def sxy_def sxx_def)
  have 1: "s * sx + c * n = sy" using n by (simp add: c_def)
  have "n * (s * sxx + c * sx) = n * sxy"
    using s n by (simp add: c_def field_simps)
  then have 2: "s * sxx + c * sx = sxy" using n by simp
  have "0 \<le> (\<Sum>(x, y)\<leftarrow>xys. ((a - s) * x + (b - c))\<^sup>2)" for a b
    by (intro sum_list_nonneg) auto
  then have "sq_error s c xys \<le> sq_error a b xys" for a b
    using sq_error_normal [of s xys c a b, folded n_def sx_def sy_def sxy_def sxx_def, OF 1 2] by simp
  then show ?thesis unfolding s_def by blast
qed

definition regression_points :: "MetricPoint list \<Rightarrow> (real \<times> real) list" where
  "regression_points ps = map (\<lambda>p. (Seconds (mp_Timestamp p - mp_Timestamp (hd ps)), mp_Value p)) ps"

lemma regression_sums_eq:
  "regression_sums t ps =
     (\<Sum>p\<leftarrow>ps. Seconds (mp_Timestamp p - t), \<Sum>p\<leftarrow>ps. mp_Value p,
      \<Sum>p\<leftarrow>ps. Seconds (mp_Timestamp p - t) * mp_Value p,
      \<Sum>p\<leftarrow>ps. Seconds (mp_Timestamp p - t) * Seconds (mp_Timestamp p - t))"
proof -
  have "fold (\<lambda>p (sumX, sumY, sumXY, sumX2).
         let x = Seconds (mp_Timestamp p - t); y = mp_Value p
         in (sumX + x, sumY + y, sumXY + x * y, sumX2 + x * x)) ps (a, b, c, d) =
     (a + (\<Sum>p\<leftarrow>ps. Seconds (mp_Timestamp p - t)), b + (\<Sum>p\<leftarrow>ps. mp_Value p),
      c + (\<Sum>p\<leftarrow>ps. Seconds (mp_Timestamp p - t) * mp_Value p),
      d + (\<Sum>p\<leftarrow>ps. Seconds (mp_Timestamp p - t) * Seconds (mp_Timestamp p - t)))" for a b c d
    by (induction ps arbitrary: a b c d) (simp_all add: Let_def)
  from this [of 0 0 0 0] show ?thesis unfolding regression_sums_def by simp
qed

lemma slope_eq_ls:
  assumes "2 \<le> length ps"
  shows "linearRegressionSlope ps =
    (if \<bar>ls_denominator (regression_points ps)\<bar> < 1 / 10 ^ 10 then 0 else ls_slope (regression_points ps))"
  using assms
  by (simp add: linearRegressionSlope_def regression_sums_eq regression_points_def ls_slope_def
      ls_denominator_def Let_def comp_def)

section \<open>The parts of a metric's risk\<close>

text \<open>How near the latest value is to the threshold, how fast it rises, how much it varies.\<close>

definition value_part :: "real \<Rightarrow> SlidingWindow \<Rightarrow> real" where
  "value_part T w = min 1 (sw_Latest w / T)"

definition trend_window :: "NodeMetrics \<Rightarrow> MetricType \<Rightarrow> SlidingWindow \<Rightarrow> SlidingWindow" where
  "trend_window nm mt w =
     (case nm_GetWindow nm mt ''medium'' of None \<Rightarrow> w | Some mw \<Rightarrow> if 3 \<le> sw_Len mw then mw else w)"

definition trend_part :: "real \<Rightarrow> SlidingWindow \<Rightarrow> real" where
  "trend_part T tw = max 0 (min 1 (linearRegressionSlope (sw_Points tw) * 60 / T))"

definition volatility_part :: "real \<Rightarrow> SlidingWindow \<Rightarrow> real" where
  "volatility_part T w = min 1 (computeVolatility (sw_Values w) / (T * 0.5))"

lemma parts_bounds:
  assumes "0 < T"
  shows "value_part T w \<le> 1" "0 \<le> trend_part T tw" "trend_part T tw \<le> 1" "0 \<le> volatility_part T w" "volatility_part T w \<le> 1"
  using assms volatility_nonneg by (simp_all add: value_part_def trend_part_def volatility_part_def)

lemma metric_risk_parts:
  assumes "mt \<in> set AllMetricTypes" "nm_GetWindow nm mt ''short'' = Some w" "2 \<le> sw_Len w"
    and "T = lookup0 MetricThreshold mt" "v = value_part T w" "t = trend_part T (trend_window nm mt w)" "q = volatility_part T w"
  shows "metric_risk nm mt = clampRisk (if 0.7 < v then 0.6 * v + 0.25 * t + 0.15 * q else 0.4 * v + 0.4 * t + 0.2 * q)"
proof -
  have T: "0 < T" unfolding assms(4) by (rule thresholds_pos [OF assms(1)])
  have one: "(if 1 < x then 1 else x) = min 1 x" for x :: real by (simp add: min_def)
  have tr: "(if 0 < s then min 1 (s * 60 / T) else 0) = max 0 (min 1 (s * 60 / T))" for s :: real
    using T by (auto simp: min_def max_def zero_less_mult_iff divide_less_0_iff not_less field_simps)
  define pick where "pick = (case nm_GetWindow nm mt ''medium'' of None \<Rightarrow> (w, ''short'')
      | Some mw \<Rightarrow> if 3 \<le> sw_Len mw then (mw, ''medium'') else (w, ''short''))"
  have "fst pick = trend_window nm mt w" by (simp add: pick_def trend_window_def split: option.split)
  then obtain win where win: "pick = (trend_window nm mt w, win)" by (metis prod.collapse)
  have short: "\<not> sw_Len w < 2" using assms(3) by simp
  show ?thesis
    unfolding metric_risk_def analyzeMetric_def
    by (simp only: assms(4) [symmetric] assms(2,5-7) option.case short if_False Let_def one tr pick_def [symmetric] win prod.case
        MetricRisk.simps value_part_def trend_part_def volatility_part_def)
qed

lemma over_threshold_risk:
  assumes mt: "mt \<in> set AllMetricTypes"
    and w: "nm_GetWindow nm mt ''short'' = Some w" "2 \<le> sw_Len w" "lookup0 MetricThreshold mt \<le> sw_Latest w"
  shows "0.6 \<le> metric_risk nm mt"
proof -
  define T where "T = lookup0 MetricThreshold mt"
  have T: "0 < T" unfolding T_def by (rule thresholds_pos [OF mt])
  then have "value_part T w = 1" using w(3) by (simp add: T_def value_part_def min_def field_simps)
  then show ?thesis
    using metric_risk_parts [OF mt w(1,2) T_def refl refl refl] parts_bounds(2) [OF T, of "trend_window nm mt w"] parts_bounds(4) [OF T, of w]
    by (simp add: clampRisk_def)
qed

section \<open>Properties\<close>

text \<open>
  C27: \<open>linearRegressionSlope\<close> is the slope of the least-squares line through the points (seconds
  since the first point against value): for at least two points whose timestamps are not all (nearly)
  equal, some intercept makes the line with this slope at least as close to the points, in the sum of
  squared errors, as every other line.
\<close>

theorem slope_least_squares:
  assumes "2 \<le> length ps" "1 / 10 ^ 10 \<le> \<bar>ls_denominator (regression_points ps)\<bar>"
  shows "\<exists>c. \<forall>a b. sq_error (linearRegressionSlope ps) c (regression_points ps) \<le>
    sq_error a b (regression_points ps)"
proof -
  have ge: "\<not> \<bar>ls_denominator (regression_points ps)\<bar> < 1 / 10 ^ 10" using assms(2) by (simp only: not_less)
  have nz: "ls_denominator (regression_points ps) \<noteq> 0"
  proof
    assume "ls_denominator (regression_points ps) = 0"
    with assms(2) have "(1::real) / 10 ^ 10 \<le> 0" by simp
    then show False by simp
  qed
  show ?thesis
    unfolding slope_eq_ls [OF assms(1)] using ge ls_slope_best [OF nz] by (simp only: if_False)
qed

definition demo_points :: "MetricPoint list" where
  "demo_points = [\<lparr>mp_Value = 1, mp_Timestamp = 7\<rparr>, \<lparr>mp_Value = 5, mp_Timestamp = 7 + 2 * Second\<rparr>]"

theorem slope_least_squares_witness:
  "linearRegressionSlope demo_points = 2 \<and>
   (\<exists>c. \<forall>a b. sq_error (linearRegressionSlope demo_points) c (regression_points demo_points) \<le>
      sq_error a b (regression_points demo_points))"
proof (rule conjI)
  show "linearRegressionSlope demo_points = 2" by code_simp
  have d: "ls_denominator (regression_points demo_points) = 4" by code_simp
  show "\<exists>c. \<forall>a b. sq_error (linearRegressionSlope demo_points) c (regression_points demo_points) \<le>
      sq_error a b (regression_points demo_points)"
    by (rule slope_least_squares) (simp_all only: d, simp_all add: demo_points_def)
qed

text \<open>
  C28: For every monitored node \<open>PredictNode\<close> returns a result whose overall risk is the weighted
  sum of the six metric risks, each of them in \<open>[0, 1]\<close>; the weights add up to 1, so the risk is in
  \<open>[0, 1]\<close> without the final clamp ever acting; the status follows from the risk by the thresholds
  and the reasons are those of the metrics with risk at least 0.6. For an unknown node there is no
  result.
\<close>

theorem predict_weighted_sum:
  "case mon_GetNodeMetrics m n of
     None \<Rightarrow> PredictNode now m n = None
   | Some nm \<Rightarrow> \<exists>r. PredictNode now m n = Some r \<and> pr_NodeID r = n \<and>
       pr_OverallRisk r = 0.25 * metric_risk nm MetricDiskIOLatency + 0.20 * metric_risk nm MetricDiskUtil +
         0.25 * metric_risk nm MetricErrorRate + 0.15 * metric_risk nm MetricResponseTime +
         0.05 * metric_risk nm MetricCPUUsage + 0.10 * metric_risk nm MetricMemoryUsage \<and>
       (\<forall>mt. 0 \<le> metric_risk nm mt \<and> metric_risk nm mt \<le> 1) \<and>
       0 \<le> pr_OverallRisk r \<and> pr_OverallRisk r \<le> 1 \<and>
       pr_Status r = (if pr_OverallRisk r < 0.25 then StatusHealthy
                      else if pr_OverallRisk r < 0.45 then StatusWarning
                      else if pr_OverallRisk r < 0.55 then StatusAtRisk else StatusCritical) \<and>
       length (pr_Reasons r) = length (filter (\<lambda>mt. 0.6 \<le> metric_risk nm mt) AllMetricTypes)"
proof (cases "mon_GetNodeMetrics m n")
  case (Some nm)
  have exp: "(\<Sum>mt\<leftarrow>AllMetricTypes. metric_risk nm mt * lookup0 MetricWeight mt) =
      0.25 * metric_risk nm MetricDiskIOLatency + 0.20 * metric_risk nm MetricDiskUtil +
         0.25 * metric_risk nm MetricErrorRate + 0.15 * metric_risk nm MetricResponseTime +
         0.05 * metric_risk nm MetricCPUUsage + 0.10 * metric_risk nm MetricMemoryUsage"
    by (simp add: AllMetricTypes_def weights)
  show ?thesis
  proof (rule PredictNode_Some [OF Some, of now])
    fix r
    assume r: "PredictNode now m n = Some r" "pr_NodeID r = n"
      "pr_OverallRisk r = (\<Sum>mt\<leftarrow>AllMetricTypes. metric_risk nm mt * lookup0 MetricWeight mt)"
      "pr_Status r = RiskToStatus (pr_OverallRisk r)"
      "pr_Reasons r = map (\<lambda>mt. formatReason mt (analyzeMetric nm mt (lookup0 MetricThreshold mt)))
        (filter (\<lambda>mt. 0.6 \<le> metric_risk nm mt) AllMetricTypes)"
    have b: "0 \<le> pr_OverallRisk r \<and> pr_OverallRisk r \<le> 1"
      using r(1) Some by (auto simp: PredictNode_def Let_def clamp_bounds split: prod.splits)
    have st: "pr_Status r = (if pr_OverallRisk r < 0.25 then StatusHealthy
                      else if pr_OverallRisk r < 0.45 then StatusWarning
                      else if pr_OverallRisk r < 0.55 then StatusAtRisk else StatusCritical)"
      unfolding r(4) RiskToStatus_def RiskHealthy_def RiskWarning_def RiskAtRisk_def ..
    have len: "length (pr_Reasons r) = length (filter (\<lambda>mt. 0.6 \<le> metric_risk nm mt) AllMetricTypes)"
      unfolding r(5) by (rule length_map)
    show ?thesis
      unfolding Some option.case
      using r(1,2) r(3) [unfolded exp] b st len metric_risk_bounds by blast
  qed
qed (simp add: PredictNode_def)

lemma over_threshold_critical:
  assumes "mon_GetNodeMetrics m n = Some nm"
    and "\<forall>mt\<in>set AllMetricTypes. \<exists>w. nm_GetWindow nm mt ''short'' = Some w \<and> 2 \<le> sw_Len w \<and>
           lookup0 MetricThreshold mt \<le> sw_Latest w"
  shows "\<exists>r. PredictNode now m n = Some r \<and> pr_Status r = StatusCritical \<and> length (pr_Reasons r) = 6"
proof -
  have risk: "0.6 \<le> metric_risk nm mt" if "mt \<in> set AllMetricTypes" for mt
    using over_threshold_risk [of mt nm] assms(2) that by blast
  then have f: "filter (\<lambda>mt. 0.6 \<le> metric_risk nm mt) AllMetricTypes = AllMetricTypes" by (intro filter_True) blast
  have "0.6 \<le> (\<Sum>mt\<leftarrow>AllMetricTypes. metric_risk nm mt * lookup0 MetricWeight mt)"
    using risk [of MetricDiskIOLatency] risk [of MetricDiskUtil] risk [of MetricErrorRate]
      risk [of MetricResponseTime] risk [of MetricCPUUsage] risk [of MetricMemoryUsage]
    by (simp add: AllMetricTypes_def weights)
  moreover obtain r where r: "PredictNode now m n = Some r" "pr_NodeID r = n"
      "pr_OverallRisk r = (\<Sum>mt\<leftarrow>AllMetricTypes. metric_risk nm mt * lookup0 MetricWeight mt)"
      "pr_Status r = RiskToStatus (pr_OverallRisk r)"
      "pr_Reasons r = map (\<lambda>mt. formatReason mt (analyzeMetric nm mt (lookup0 MetricThreshold mt)))
        (filter (\<lambda>mt. 0.6 \<le> metric_risk nm mt) AllMetricTypes)"
    by (rule PredictNode_Some [OF assms(1)])
  ultimately have "pr_Status r = StatusCritical"
    by (simp add: RiskToStatus_def RiskAtRisk_def RiskHealthy_def RiskWarning_def)
  moreover have "length (pr_Reasons r) = 6" unfolding r(5) f by (simp add: AllMetricTypes_def)
  ultimately show ?thesis using r(1) by blast
qed

definition demo_hot :: "time \<Rightarrow> int \<Rightarrow> HealthReport" where
  "demo_hot ts e = \<lparr>hr_NodeID = ''node-1'', hr_DiskIOLatency = 80, hr_DiskUtil = 0.95, hr_ErrorCount = e,
     hr_ResponseTime = 40, hr_CPUUsage = 0.99, hr_MemoryUsage = 0.91, hr_Timestamp = ts\<rparr>"

lemma demo_hot_windows:
  "\<forall>mt\<in>set AllMetricTypes. \<exists>w. nm_GetWindow (metrics_of (monitor_after [demo_hot 0 3, demo_hot Second 9]) ''node-1'') mt ''short'' = Some w \<and>
     2 \<le> sw_Len w \<and> lookup0 MetricThreshold mt \<le> sw_Latest w"
proof
  fix mt assume mt: "mt \<in> set AllMetricTypes"
  let ?rs = "[demo_hot 0 3, demo_hot Second 9]" and ?d = "5 * Minute"
  have of1: "reports_of ''node-1'' ?rs = ?rs" by (simp add: reports_of_def demo_hot_def)
  define p q where "p = hd (series None mt ?rs)" and "q = last (series None mt ?rs)"
  have pq: "series None mt ?rs = [p, q]" "mp_Timestamp p = 0" "mp_Timestamp q = Second"
    "mp_Value q = report_value \<lparr>mon_store = NewMetricStore, mon_lastErrorCount = [(''node-1'', 3)]\<rparr> (demo_hot Second 9) mt"
    by (simp_all add: demo_hot_def p_def q_def)
  have pts: "sw_points (add_all [p, q] (NewSlidingWindow ?d)) = [p, q]"
    using add_all_window [of "[p, q]" ?d] pq(2,3) by (simp add: recent_def Minute_def Second_def)
  have delta: "error_delta (Some 3) 9 = 6" by (simp add: error_delta_def go_wrap)
  have "lookup0 MetricThreshold mt \<le> mp_Value q"
    using mt unfolding pq(4) AllMetricTypes_def
    by (auto simp: lookup0_def MetricThreshold_def metric_names report_value_def demo_hot_def delta)
  then have "2 \<le> sw_Len (add_all [p, q] (NewSlidingWindow ?d))"
    "lookup0 MetricThreshold mt \<le> sw_Latest (add_all [p, q] (NewSlidingWindow ?d))"
    by (simp_all add: sw_Len_def sw_Latest_def pts)
  then show "\<exists>w. nm_GetWindow (metrics_of (monitor_after ?rs) ''node-1'') mt ''short'' = Some w \<and>
     2 \<le> sw_Len w \<and> lookup0 MetricThreshold mt \<le> sw_Latest w"
    using monitor_after_windows [OF mt, of ?rs "''node-1''", unfolded of1 pq(1)]
    by (simp add: nm_GetWindow_def windows_of_def)
qed

lemma demo_hot_tracked:
  "mon_GetNodeMetrics (monitor_after [demo_hot 0 3, demo_hot Second 9]) ''node-1'' =
     Some (metrics_of (monitor_after [demo_hot 0 3, demo_hot Second 9]) ''node-1'')"
  by (simp add: monitor_after_tracked reports_of_def demo_hot_def)

lemma demo_hot_critical:
  "\<exists>r. PredictNode now (monitor_after [demo_hot 0 3, demo_hot Second 9]) ''node-1'' = Some r \<and>
     pr_Status r = StatusCritical \<and> length (pr_Reasons r) = 6"
  by (rule over_threshold_critical [OF demo_hot_tracked demo_hot_windows])

text \<open>
  A node is declared CRITICAL, and so its chunks are migrated, only if at least three of its six
  metrics have a positive risk: no single metric and no pair, however bad, gets there.
\<close>

theorem critical_needs_three_metrics:
  assumes "PredictNode now m n = Some r" "mon_GetNodeMetrics m n = Some nm" "pr_Status r = StatusCritical"
  shows "3 \<le> length (filter (\<lambda>mt. 0 < metric_risk nm mt) AllMetricTypes)"
proof -
  have "0.55 \<le> (\<Sum>mt\<leftarrow>AllMetricTypes. metric_risk nm mt * lookup0 MetricWeight mt)"
  proof (rule PredictNode_Some [OF assms(2), of now])
    fix r'
    assume r': "PredictNode now m n = Some r'" "pr_Status r' = RiskToStatus (pr_OverallRisk r')"
      and sum: "pr_OverallRisk r' = (\<Sum>mt\<leftarrow>AllMetricTypes. metric_risk nm mt * lookup0 MetricWeight mt)"
    have "RiskToStatus (pr_OverallRisk r') = StatusCritical" using r' assms(1,3) by simp
    then show ?thesis
      unfolding sum [symmetric] RiskToStatus_def RiskAtRisk_def by (simp split: if_splits)
  qed
  then have s: "0.55 \<le> 0.25 * metric_risk nm MetricDiskIOLatency + 0.20 * metric_risk nm MetricDiskUtil +
         0.25 * metric_risk nm MetricErrorRate + 0.15 * metric_risk nm MetricResponseTime +
         0.05 * metric_risk nm MetricCPUUsage + 0.10 * metric_risk nm MetricMemoryUsage"
    by (simp add: AllMetricTypes_def weights)
  have z: "\<not> 0 < metric_risk nm mt \<Longrightarrow> metric_risk nm mt = 0" for mt
    using metric_risk_bounds(1) [of nm mt] by linarith
  have u: "metric_risk nm mt \<le> 1" for mt by (rule metric_risk_bounds)
  note us = u [of MetricDiskIOLatency] u [of MetricDiskUtil] u [of MetricErrorRate] u [of MetricResponseTime]
    u [of MetricCPUUsage] u [of MetricMemoryUsage]
  show ?thesis
    using s us z unfolding AllMetricTypes_def
    by (auto split: if_splits)
qed

theorem critical_needs_three_metrics_witness:
  "\<exists>r. PredictNode 5 (monitor_after [demo_hot 0 3, demo_hot Second 9]) ''node-1'' = Some r \<and>
     pr_Status r = StatusCritical \<and>
     3 \<le> length (filter (\<lambda>mt. 0 < metric_risk (metrics_of (monitor_after [demo_hot 0 3, demo_hot Second 9]) ''node-1'') mt) AllMetricTypes)"
proof -
  obtain r where r: "PredictNode 5 (monitor_after [demo_hot 0 3, demo_hot Second 9]) ''node-1'' = Some r"
    "pr_Status r = StatusCritical"
    using demo_hot_critical by blast
  show ?thesis using critical_needs_three_metrics [OF r(1) demo_hot_tracked r(2)] r by blast
qed

text \<open>
  A node whose six metrics all are at or above their danger thresholds, with at least two
  reports in the last five minutes, is declared CRITICAL.
\<close>

theorem all_over_threshold_critical:
  assumes "mon_GetNodeMetrics m n = Some nm"
    and "\<forall>mt\<in>set AllMetricTypes. \<exists>w. nm_GetWindow nm mt ''short'' = Some w \<and> 2 \<le> sw_Len w \<and>
           lookup0 MetricThreshold mt \<le> sw_Latest w"
  shows "\<exists>r. PredictNode now m n = Some r \<and> pr_Status r = StatusCritical \<and> length (pr_Reasons r) = 6"
  using assms by (rule over_threshold_critical)

theorem all_over_threshold_critical_witness:
  "\<exists>r. PredictNode 5 (monitor_after [demo_hot 0 3, demo_hot Second 9]) ''node-1'' = Some r \<and>
     pr_Status r = StatusCritical \<and> length (pr_Reasons r) = 6"
  by (rule all_over_threshold_critical [OF demo_hot_tracked demo_hot_windows])

text \<open>
  The boost for values near the threshold can lower the risk. Above seven tenths of the threshold the weights of the parts
  change from 0.4, 0.4, 0.2 to 0.6, 0.25, 0.15; the source's comment calls this a boost, but for a metric that rises and varies it gives
  less than the plain weights, up to the threshold itself if trend and volatility are at their maximum. So the risk
  of a rising metric falls when its value passes this point.
\<close>

theorem boost_can_lower_risk:
  assumes "mt \<in> set AllMetricTypes" "nm_GetWindow nm mt ''short'' = Some w" "2 \<le> sw_Len w"
    and "T = lookup0 MetricThreshold mt" "v = value_part T w" "t = trend_part T (trend_window nm mt w)" "q = volatility_part T w"
    and "0.7 < v"
  shows "metric_risk nm mt < 0.4 * v + 0.4 * t + 0.2 * q \<longleftrightarrow> 4 * v < 3 * t + q"
proof -
  have "0 < T" unfolding assms(4) by (rule thresholds_pos [OF assms(1)])
  then have b: "v \<le> 1" "0 \<le> t" "t \<le> 1" "0 \<le> q" "q \<le> 1" unfolding assms(5-7) by (simp_all add: parts_bounds)
  have "metric_risk nm mt = 0.6 * v + 0.25 * t + 0.15 * q"
    using metric_risk_parts [OF assms(1-7)] assms(8) b clamp_id [of "0.6 * v + 0.25 * t + 0.15 * q"] by simp
  then show ?thesis by auto
qed

definition demo_rising :: SlidingWindow where
  "demo_rising = \<lparr>sw_points = [\<lparr>mp_Value = 0, mp_Timestamp = 0\<rparr>, \<lparr>mp_Value = 37.5, mp_Timestamp = Second\<rparr>], sw_duration = 5 * Minute\<rparr>"

definition demo_rising_node :: NodeMetrics where
  "demo_rising_node = \<lparr>nm_NodeID = ''node-1'', nm_Windows =
     [(MetricDiskIOLatency, \<lparr>mw_Short = demo_rising, mw_Medium = demo_rising, mw_Long = demo_rising\<rparr>)]\<rparr>"

theorem boost_can_lower_risk_witness:
  "value_part 50 demo_rising = 3 / 4 \<and> trend_part 50 demo_rising = 1 \<and>
   metric_risk demo_rising_node MetricDiskIOLatency < 0.4 * (3 / 4) + 0.4 + 0.2 * volatility_part 50 demo_rising"
proof -
  have v: "value_part 50 demo_rising = 3 / 4" by (simp add: value_part_def demo_rising_def sw_Latest_def min_def)
  have "linearRegressionSlope (sw_points demo_rising) = 37.5" by code_simp
  then have t: "trend_part 50 demo_rising = 1" by (simp add: trend_part_def sw_Points_def)
  have q: "0 < volatility_part 50 demo_rising"
    by (simp add: volatility_part_def computeVolatility_def Let_def demo_rising_def sw_Values_def)
  have w: "nm_GetWindow demo_rising_node MetricDiskIOLatency ''short'' = Some demo_rising"
    "trend_window demo_rising_node MetricDiskIOLatency demo_rising = demo_rising"
    by (simp_all add: nm_GetWindow_def demo_rising_node_def trend_window_def)
  have T: "50 = lookup0 MetricThreshold MetricDiskIOLatency" by (simp add: lookup0_def MetricThreshold_def)
  have l: "2 \<le> sw_Len demo_rising" by (simp add: sw_Len_def demo_rising_def)
  have m: "MetricDiskIOLatency \<in> set AllMetricTypes" by (simp add: AllMetricTypes_def)
  show ?thesis
    using boost_can_lower_risk [OF m w(1) l T refl refl refl] v t q unfolding w(2) by simp
qed

end
