(* ===== verification/Migrator.thy ===== *)
theory Migrator
  imports Predictor
begin

text \<open>
  \<^verbatim>\<open>internal/health/migrator.go\<close>: moving the chunks of a node that is predicted to fail.

  The Go interface \<open>ChunkLocator\<close> is the record of its six methods over a state type; its contract
  is the locale \<open>chunk_locator\<close>, in which migration is verified, and which the chunk manager's adapter
  fulfils (theory \<open>Locator_Adapter\<close>). The RPC to the source node is an argument: \<open>dial\<close> is the
  error of \<open>grpc.NewClient\<close>, \<open>rpc\<close> the \<open>TransferChunk\<close> call, which acts on the world \<open>'w\<close> of data
  nodes and returns an error or the fields \<open>(Success, Message)\<close> of the response. \<open>clock\<close> reads the
  time off the world.

  \<open>MigrateNode\<close> holds the migrator's mutex only at its beginning and its end, so it is split into
  \<open>mig_begin\<close>, the unlocked \<open>mig_body\<close> and \<open>mig_end\<close>; \<open>MigrateNode\<close> composes them.
\<close>

section \<open>Data\<close>

record NodeTarget =
  nt_NodeID :: string
  nt_Address :: string

record 's ChunkLocator =
  cl_GetChunksOnNode :: "'s \<Rightarrow> string \<Rightarrow> string list"
  cl_GetChunkMeta :: "'s \<Rightarrow> string \<Rightarrow> string list option"
  cl_GetHealthyNodeAddresses :: "'s \<Rightarrow> string list \<Rightarrow> NodeTarget list"
  cl_AddChunkToNode :: "string \<Rightarrow> string \<Rightarrow> 's \<Rightarrow> 's"
  cl_RemoveChunkFromNode :: "string \<Rightarrow> string \<Rightarrow> 's \<Rightarrow> 's"
  cl_GetNodeAddress :: "'s \<Rightarrow> string \<Rightarrow> string option"

record MigrationEvent =
  me_ChunkID :: string
  me_FromNodeID :: string
  me_ToNodeID :: string
  me_ToAddress :: string
  me_Reason :: string
  me_Success :: bool
  me_Error :: string
  me_StartedAt :: time
  me_Duration :: duration

record MigrationReport =
  rp_NodeID :: string
  rp_RiskScore :: real
  rp_Status :: NodeStatus
  rp_TotalChunks :: int
  rp_MigratedChunks :: int
  rp_FailedChunks :: int
  rp_Events :: "MigrationEvent list"
  rp_StartedAt :: time
  rp_CompletedAt :: time
  rp_Reasons :: "string list"

record Migrator =
  mig_migrating :: "(string, bool) gomap"
  mig_history :: "MigrationReport list"

type_synonym 'w transfer_rpc = "string \<Rightarrow> string \<Rightarrow> string \<Rightarrow> 'w \<Rightarrow> 'w \<times> (string + bool \<times> string)"

section \<open>Operations\<close>

definition NewMigrator :: Migrator where
  "NewMigrator = \<lparr>mig_migrating = [], mig_history = []\<rparr>"

definition transferChunk ::
  "(string \<Rightarrow> string option) \<Rightarrow> 'w transfer_rpc \<Rightarrow> string \<Rightarrow> string \<Rightarrow> string \<Rightarrow> 'w \<Rightarrow> 'w \<times> string option" where
  "transferChunk dial rpc sourceAddr chunkID targetAddr w =
     (case dial sourceAddr of
        Some e \<Rightarrow> (w, Some (''connect to source '' @ sourceAddr @ '': '' @ e))
      | None \<Rightarrow>
          (case rpc sourceAddr chunkID targetAddr w of
             (w', Inl e) \<Rightarrow> (w', Some (''TransferChunk RPC: '' @ e))
           | (w', Inr (success, message)) \<Rightarrow>
               (w', if success then None else Some (''transfer failed: '' @ message))))"

definition migrateChunk ::
  "'s ChunkLocator \<Rightarrow> (string \<Rightarrow> string option) \<Rightarrow> 'w transfer_rpc \<Rightarrow> ('w \<Rightarrow> time) \<Rightarrow>
   string \<Rightarrow> string \<Rightarrow> string \<Rightarrow> 's \<Rightarrow> 'w \<Rightarrow> 's \<times> 'w \<times> MigrationEvent" where
  "migrateChunk L dial rpc clock chunkID fromNodeID sourceAddr s w =
     (let event = \<lparr>me_ChunkID = chunkID, me_FromNodeID = fromNodeID, me_ToNodeID = '''', me_ToAddress = '''',
                   me_Reason = '''', me_Success = False, me_Error = '''', me_StartedAt = clock w, me_Duration = 0\<rparr>
      in case cl_GetChunkMeta L s chunkID of
           None \<Rightarrow> (s, w, event\<lparr>me_Error := ''chunk metadata not found'', me_Duration := clock w - me_StartedAt event\<rparr>)
         | Some existingNodeIDs \<Rightarrow>
             (case cl_GetHealthyNodeAddresses L s existingNodeIDs of
                [] \<Rightarrow> (s, w, event\<lparr>me_Error := ''no healthy target nodes available'',
                        me_Duration := clock w - me_StartedAt event\<rparr>)
              | target # _ \<Rightarrow>
                  let event = event\<lparr>me_ToNodeID := nt_NodeID target, me_ToAddress := nt_Address target,
                        me_Reason := ''proactive migration from at-risk node '' @ fromNodeID @
                          '' (risk: '' @ fmt_f False 2 0 @ '')''\<rparr>
                  in case transferChunk dial rpc sourceAddr chunkID (nt_Address target) w of
                       (w', Some err) \<Rightarrow>
                         (s, w', event\<lparr>me_Error := err, me_Duration := clock w' - me_StartedAt event\<rparr>)
                     | (w', None) \<Rightarrow>
                         (cl_RemoveChunkFromNode L chunkID fromNodeID
                            (cl_AddChunkToNode L chunkID (nt_NodeID target) s),
                          w', event\<lparr>me_Success := True, me_Duration := clock w' - me_StartedAt event\<rparr>)))"

text \<open>The loop of \<open>MigrateNode\<close> over the chunks of the node.\<close>

fun migrate_loop ::
  "'s ChunkLocator \<Rightarrow> (string \<Rightarrow> string option) \<Rightarrow> 'w transfer_rpc \<Rightarrow> ('w \<Rightarrow> time) \<Rightarrow>
   string \<Rightarrow> string \<Rightarrow> string list \<Rightarrow> 's \<Rightarrow> 'w \<Rightarrow> MigrationReport \<Rightarrow> 's \<times> 'w \<times> MigrationReport" where
  "migrate_loop L dial rpc clock nodeID sourceAddr [] s w report = (s, w, report)"
| "migrate_loop L dial rpc clock nodeID sourceAddr (chunkID # chunkIDs) s w report =
     (case migrateChunk L dial rpc clock chunkID nodeID sourceAddr s w of
        (s', w', event) \<Rightarrow>
          let report = report\<lparr>rp_Events := rp_Events report @ [event]\<rparr>;
              report = (if me_Success event
                        then report\<lparr>rp_MigratedChunks := rp_MigratedChunks report + 1\<rparr>
                        else report\<lparr>rp_FailedChunks := rp_FailedChunks report + 1\<rparr>)
          in migrate_loop L dial rpc clock nodeID sourceAddr chunkIDs s' w' report)"

definition mig_begin :: "string \<Rightarrow> Migrator \<Rightarrow> Migrator \<times> bool" where
  "mig_begin nodeID m =
     (if map_of (mig_migrating m) nodeID = Some True then (m, False)
      else (m\<lparr>mig_migrating := AList.update nodeID True (mig_migrating m)\<rparr>, True))"

text \<open>The body between the locks; the flag tells whether the report goes to the history.\<close>

definition mig_body ::
  "'s ChunkLocator \<Rightarrow> (string \<Rightarrow> string option) \<Rightarrow> 'w transfer_rpc \<Rightarrow> ('w \<Rightarrow> time) \<Rightarrow>
   PredictionResult \<Rightarrow> 's \<Rightarrow> 'w \<Rightarrow> 's \<times> 'w \<times> MigrationReport \<times> bool" where
  "mig_body L dial rpc clock prediction s w =
     (let report = \<lparr>rp_NodeID = pr_NodeID prediction, rp_RiskScore = pr_OverallRisk prediction,
                    rp_Status = pr_Status prediction, rp_TotalChunks = 0, rp_MigratedChunks = 0,
                    rp_FailedChunks = 0, rp_Events = [], rp_StartedAt = clock w, rp_CompletedAt = 0,
                    rp_Reasons = pr_Reasons prediction\<rparr>;
          chunkIDs = cl_GetChunksOnNode L s (pr_NodeID prediction);
          report = report\<lparr>rp_TotalChunks := int (length chunkIDs)\<rparr>
      in if chunkIDs = [] then (s, w, report\<lparr>rp_CompletedAt := clock w\<rparr>, True)
         else
           case cl_GetNodeAddress L s (pr_NodeID prediction) of
             None \<Rightarrow> (s, w, report\<lparr>rp_CompletedAt := clock w\<rparr>, False)
           | Some sourceAddr \<Rightarrow>
               (case migrate_loop L dial rpc clock (pr_NodeID prediction) sourceAddr chunkIDs s w report of
                  (s', w', report) \<Rightarrow> (s', w', report\<lparr>rp_CompletedAt := clock w'\<rparr>, True)))"

definition mig_end :: "string \<Rightarrow> MigrationReport \<Rightarrow> bool \<Rightarrow> Migrator \<Rightarrow> Migrator" where
  "mig_end nodeID report keep m =
     (let m = (if keep then m\<lparr>mig_history := mig_history m @ [report]\<rparr> else m)
      in m\<lparr>mig_migrating := AList.delete nodeID (mig_migrating m)\<rparr>)"

definition MigrateNode ::
  "'s ChunkLocator \<Rightarrow> (string \<Rightarrow> string option) \<Rightarrow> 'w transfer_rpc \<Rightarrow> ('w \<Rightarrow> time) \<Rightarrow>
   PredictionResult \<Rightarrow> Migrator \<Rightarrow> 's \<Rightarrow> 'w \<Rightarrow> Migrator \<times> 's \<times> 'w \<times> MigrationReport option" where
  "MigrateNode L dial rpc clock prediction m s w =
     (case mig_begin (pr_NodeID prediction) m of
        (m1, False) \<Rightarrow> (m1, s, w, None)
      | (m1, True) \<Rightarrow>
          (case mig_body L dial rpc clock prediction s w of
             (s', w', report, keep) \<Rightarrow>
               (mig_end (pr_NodeID prediction) report keep m1, s', w', Some report)))"

definition IsMigrating :: "Migrator \<Rightarrow> string \<Rightarrow> bool" where
  "IsMigrating m nodeID \<longleftrightarrow> map_of (mig_migrating m) nodeID = Some True"

definition GetHistory :: "Migrator \<Rightarrow> MigrationReport list" where
  "GetHistory m = mig_history m"

definition GetLastReport :: "Migrator \<Rightarrow> string \<Rightarrow> MigrationReport option" where
  "GetLastReport m nodeID = find (\<lambda>r. rp_NodeID r = nodeID) (rev (mig_history m))"

text \<open>What a single migration did: it failed and left the metadata alone, or the transfer to the first healthy target succeeded.\<close>

lemma transfer_cases:
  assumes "transferChunk dial rpc src c tgt w = (w', r)"
  shows "(w' = w \<and> r \<noteq> None) \<or> (\<exists>a. rpc src c tgt w = (w', a) \<and> (r = None \<longrightarrow> (\<exists>msg. a = Inr (True, msg))))"
  using assms by (auto simp: transferChunk_def split: option.splits prod.splits sum.splits if_splits)

lemma migrate_outcome:
  assumes "migrateChunk L dial rpc clock c n src s w = (s', w', ev)"
  shows "(\<not> me_Success ev \<and> s' = s \<and>
      (w' = w \<or> (\<exists>ex t ts a. cl_GetChunkMeta L s c = Some ex \<and> cl_GetHealthyNodeAddresses L s ex = t # ts \<and>
         rpc src c (nt_Address t) w = (w', a)))) \<or>
    (\<exists>ex t ts msg. me_Success ev \<and> cl_GetChunkMeta L s c = Some ex \<and> cl_GetHealthyNodeAddresses L s ex = t # ts \<and>
       rpc src c (nt_Address t) w = (w', Inr (True, msg)) \<and> me_ToNodeID ev = nt_NodeID t \<and> me_ToAddress ev = nt_Address t \<and>
       s' = cl_RemoveChunkFromNode L c n (cl_AddChunkToNode L c (nt_NodeID t) s))"
proof (cases "cl_GetChunkMeta L s c")
  case None
  then show ?thesis using assms by (auto simp: migrateChunk_def)
next
  case (Some ex)
  show ?thesis
  proof (cases "cl_GetHealthyNodeAddresses L s ex")
    case Nil
    then show ?thesis using assms Some by (auto simp: migrateChunk_def)
  next
    case (Cons t ts)
    obtain w1 r where tr: "transferChunk dial rpc src c (nt_Address t) w = (w1, r)" by (metis prod.exhaust)
    show ?thesis using assms Some Cons tr transfer_cases [OF tr]
      by (cases r) (auto simp: migrateChunk_def Let_def)
  qed
qed

section \<open>The contract of ChunkLocator\<close>

text \<open>
  \<open>reps s c\<close> is the list of nodes that the metadata of chunk \<open>c\<close> names, \<open>known s c\<close> that there is
  metadata, \<open>holds s n\<close> the chunks listed for node \<open>n\<close>, \<open>inv\<close> the invariant the provider keeps.
\<close>

locale chunk_locator =
  fixes L :: "'s ChunkLocator"
    and inv :: "'s \<Rightarrow> bool"
    and reps :: "'s \<Rightarrow> string \<Rightarrow> string list"
    and known :: "'s \<Rightarrow> string \<Rightarrow> bool"
    and holds :: "'s \<Rightarrow> string \<Rightarrow> string set"
    and registered :: "'s \<Rightarrow> string \<Rightarrow> bool"
  assumes on_node: "inv s \<Longrightarrow> distinct (cl_GetChunksOnNode L s n) \<and> set (cl_GetChunksOnNode L s n) = holds s n"
    and meta: "inv s \<Longrightarrow> cl_GetChunkMeta L s c = (if known s c then Some (reps s c) else None)"
    and reps_distinct: "inv s \<Longrightarrow> distinct (reps s c)"
    and targets: "inv s \<Longrightarrow> t \<in> set (cl_GetHealthyNodeAddresses L s ex) \<Longrightarrow>
           nt_NodeID t \<notin> set ex \<and> registered s (nt_NodeID t) \<and>
           cl_GetNodeAddress L s (nt_NodeID t) = Some (nt_Address t)"
    and add_inv: "inv s \<Longrightarrow> registered s n \<Longrightarrow> inv (cl_AddChunkToNode L c n s)"
    and add_reps: "inv s \<Longrightarrow> known s c \<Longrightarrow> reps (cl_AddChunkToNode L c n s) d =
           (if d = c then (if n \<in> set (reps s c) then reps s c else reps s c @ [n]) else reps s d)"
    and add_holds: "inv s \<Longrightarrow> registered s n \<Longrightarrow>
           holds (cl_AddChunkToNode L c n s) k = (if k = n then insert c (holds s n) else holds s k)"
    and add_known: "inv s \<Longrightarrow> known (cl_AddChunkToNode L c n s) = known s"
    and add_address: "inv s \<Longrightarrow> cl_GetNodeAddress L (cl_AddChunkToNode L c n s) = cl_GetNodeAddress L s"
    and remove_address: "inv s \<Longrightarrow> cl_GetNodeAddress L (cl_RemoveChunkFromNode L c n s) = cl_GetNodeAddress L s"
    and remove_inv: "inv s \<Longrightarrow> inv (cl_RemoveChunkFromNode L c n s)"
    and remove_reps: "inv s \<Longrightarrow> reps (cl_RemoveChunkFromNode L c n s) d =
           (if d = c then remove1 n (reps s c) else reps s d)"
    and remove_holds: "inv s \<Longrightarrow> holds (cl_RemoveChunkFromNode L c n s) k =
           (if k = n then holds s n - {c} else holds s k)"
    and remove_known: "inv s \<Longrightarrow> known (cl_RemoveChunkFromNode L c n s) = known s"
begin

text \<open>Nodes list only chunks that name them.\<close>

definition exact :: "'s \<Rightarrow> bool" where
  "exact s \<longleftrightarrow> (\<forall>n. \<forall>c\<in>holds s n. n \<in> set (reps s c))"

lemma migrateChunk_cases:
  assumes "inv s" "migrateChunk L dial rpc clock c n addr s w = (s', w', e)"
  obtains (failed) "\<not> me_Success e" "s' = s"
  | (moved) t where "me_Success e" "me_ToNodeID e = t" "known s c" "t \<notin> set (reps s c)" "registered s t"
      "s' = cl_RemoveChunkFromNode L c n (cl_AddChunkToNode L c t s)"
proof (cases "known s c")
  case False
  then show ?thesis using failed assms by (auto simp: migrateChunk_def meta Let_def)
next
  case True
  then have m: "cl_GetChunkMeta L s c = Some (reps s c)" using assms(1) by (simp add: meta)
  show ?thesis
  proof (cases "cl_GetHealthyNodeAddresses L s (reps s c)")
    case Nil
    then show ?thesis using failed assms(2) m by (auto simp: migrateChunk_def Let_def)
  next
    case (Cons t ts)
    have t: "nt_NodeID t \<notin> set (reps s c)" "registered s (nt_NodeID t)"
      using targets [OF assms(1), of t "reps s c"] Cons by auto
    obtain w1 r where tr: "transferChunk dial rpc addr c (nt_Address t) w = (w1, r)" by force
    show ?thesis
    proof (cases r)
      case None
      then show ?thesis
        using moved [of "nt_NodeID t"] assms(2) m Cons t tr True by (auto simp: migrateChunk_def Let_def)
    next
      case (Some err)
      then show ?thesis using failed assms(2) m Cons tr by (auto simp: migrateChunk_def Let_def)
    qed
  qed
qed

text \<open>A chunk's move: the target replaces the source in the chunk's list; nothing else changes.\<close>

lemma moved_facts:
  assumes "inv s" "known s c" "t \<notin> set (reps s c)" "registered s t" "t \<noteq> n"
    and "s' = cl_RemoveChunkFromNode L c n (cl_AddChunkToNode L c t s)"
  shows "inv s'" "known s' = known s"
    and "reps s' d = (if d = c then remove1 n (reps s c) @ [t] else reps s d)"
    and "holds s' k = (if k = n then holds s n - {c} else if k = t then insert c (holds s t) else holds s k)"
proof -
  let ?s1 = "cl_AddChunkToNode L c t s"
  have i1: "inv ?s1" using assms by (simp add: add_inv)
  show "inv s'" "known s' = known s" unfolding assms(6)
    by (simp_all add: remove_inv i1 remove_known add_known assms(1))
  show "reps s' d = (if d = c then remove1 n (reps s c) @ [t] else reps s d)"
    using assms i1 by (auto simp: remove_reps add_reps remove1_append remove1_idem)
  show "holds s' k = (if k = n then holds s n - {c} else if k = t then insert c (holds s t) else holds s k)"
    using assms i1 by (auto simp: remove_holds add_holds)
qed

lemma moved_exact:
  assumes "inv s" "exact s" "known s c" "t \<notin> set (reps s c)" "registered s t" "n \<in> set (reps s c)"
    and "s' = cl_RemoveChunkFromNode L c n (cl_AddChunkToNode L c t s)"
  shows "exact s'"
proof -
  have "t \<noteq> n" using assms(4,6) by auto
  note f = moved_facts [OF assms(1,3-5) this assms(7)]
  have "k \<in> set (reps s' d)" if "d \<in> holds s' k" for k d
  proof (cases "d = c")
    case False
    then show ?thesis using that assms(2) unfolding f(3,4) exact_def by (auto split: if_splits)
  next
    case True
    then have "k \<noteq> n" "k = t \<or> k \<in> set (reps s c)"
      using that assms(2) unfolding f(4) exact_def by (auto split: if_splits)
    then show ?thesis unfolding f(3) using True by auto
  qed
  then show ?thesis unfolding exact_def by blast
qed

lemma migrate_step:
  assumes "inv s" "exact s" "c \<in> holds s n" "migrateChunk L dial rpc clock c n addr s w = (s', w', e)"
  shows "inv s'" "exact s'" "\<And>d. length (reps s' d) = length (reps s d)" "me_ChunkID e = c"
    and "\<And>d. d \<noteq> c \<Longrightarrow> reps s' d = reps s d"
    and "holds s' n = (if me_Success e then holds s n - {c} else holds s n)"
    and "me_Success e \<Longrightarrow> n \<notin> set (reps s' c) \<and> me_ToNodeID e \<in> set (reps s' c) \<and>
           set (reps s' c) = insert (me_ToNodeID e) (set (reps s c) - {n})"
    and "\<not> me_Success e \<Longrightarrow> s' = s"
proof -
  show id: "me_ChunkID e = c"
    using assms(4) by (auto simp: migrateChunk_def Let_def split: option.splits list.splits prod.splits)
  have n: "n \<in> set (reps s c)" using assms(2,3) by (auto simp: exact_def)
  have "inv s' \<and> exact s' \<and> (\<forall>d. length (reps s' d) = length (reps s d)) \<and> (\<forall>d. d \<noteq> c \<longrightarrow> reps s' d = reps s d) \<and>
    holds s' n = (if me_Success e then holds s n - {c} else holds s n) \<and>
    (me_Success e \<longrightarrow> n \<notin> set (reps s' c) \<and> me_ToNodeID e \<in> set (reps s' c) \<and>
       set (reps s' c) = insert (me_ToNodeID e) (set (reps s c) - {n})) \<and> (\<not> me_Success e \<longrightarrow> s' = s)"
  proof (cases rule: migrateChunk_cases [OF assms(1,4)])
    case (2 t)
    have tn: "t \<noteq> n" using 2(4) n by auto
    note f = moved_facts [OF assms(1) 2(3-5) tn 2(6)]
    have d: "distinct (reps s c)" by (rule reps_distinct [OF assms(1)])
    have "length (remove1 n (reps s c) @ [t]) = length (reps s c)"
      using n by (simp add: length_remove1) (metis Suc_pred length_pos_if_in_set)
    then show ?thesis
      using f 2(1,2) moved_exact [OF assms(1,2) 2(3-5) n 2(6)] d tn by (auto simp: f(3,4))
  qed (use assms(1,2) in auto)
  then show "inv s'" "exact s'" "\<And>d. length (reps s' d) = length (reps s d)"
    and "\<And>d. d \<noteq> c \<Longrightarrow> reps s' d = reps s d"
    and "holds s' n = (if me_Success e then holds s n - {c} else holds s n)"
    and "me_Success e \<Longrightarrow> n \<notin> set (reps s' c) \<and> me_ToNodeID e \<in> set (reps s' c) \<and>
           set (reps s' c) = insert (me_ToNodeID e) (set (reps s c) - {n})"
    and "\<not> me_Success e \<Longrightarrow> s' = s" by auto
qed

text \<open>
  What the event of a chunk says of it: after a success the target replaces the source in the
  chunk's list, after a failure the list is as before.
\<close>

definition event_ok :: "string \<Rightarrow> 's \<Rightarrow> 's \<Rightarrow> MigrationEvent \<Rightarrow> bool" where
  "event_ok n s s' e \<longleftrightarrow>
     (if me_Success e
      then set (reps s' (me_ChunkID e)) = insert (me_ToNodeID e) (set (reps s (me_ChunkID e)) - {n}) \<and>
           n \<notin> set (reps s' (me_ChunkID e))
      else reps s' (me_ChunkID e) = reps s (me_ChunkID e))"

text \<open>The loop: the events record, chunk by chunk, what happened.\<close>

lemma migrate_loop_spec:
  assumes "inv s" "exact s" "distinct cs" "set cs \<subseteq> holds s n"
    and "migrate_loop L dial rpc clock n addr cs s w rep = (s', w', rep')"
  shows "\<exists>evs. rep' = rep\<lparr>rp_Events := rp_Events rep @ evs,
      rp_MigratedChunks := rp_MigratedChunks rep + int (length (filter me_Success evs)),
      rp_FailedChunks := rp_FailedChunks rep + int (length (filter (\<lambda>e. \<not> me_Success e) evs))\<rparr> \<and>
    map me_ChunkID evs = cs \<and> inv s' \<and> exact s' \<and> (\<forall>d. length (reps s' d) = length (reps s d)) \<and>
    (\<forall>d. d \<notin> set cs \<longrightarrow> reps s' d = reps s d) \<and>
    holds s' n = holds s n - me_ChunkID ` {e \<in> set evs. me_Success e} \<and>
    (\<forall>e\<in>set evs. event_ok n s s' e)"
  using assms
proof (induction cs arbitrary: s w rep)
  case (Cons c cs)
  obtain s1 w1 e where e: "migrateChunk L dial rpc clock c n addr s w = (s1, w1, e)" by (metis prod_cases3)
  define rep1 where "rep1 = (let r = rep\<lparr>rp_Events := rp_Events rep @ [e]\<rparr> in
      if me_Success e then r\<lparr>rp_MigratedChunks := rp_MigratedChunks r + 1\<rparr>
      else r\<lparr>rp_FailedChunks := rp_FailedChunks r + 1\<rparr>)"
  have loop: "migrate_loop L dial rpc clock n addr cs s1 w1 rep1 = (s', w', rep')"
    using Cons.prems(5) e by (simp add: rep1_def Let_def)
  have "c \<in> holds s n" using Cons.prems(4) by simp
  note st = migrate_step [OF Cons.prems(1,2) this e]
  have sub: "set cs \<subseteq> holds s1 n" using Cons.prems(3,4) unfolding st(6) by auto
  have dc: "distinct cs" "c \<notin> set cs" using Cons.prems(3) by auto
  from Cons.IH [OF st(1,2) dc(1) sub loop] obtain evs where IH:
    "rep' = rep1\<lparr>rp_Events := rp_Events rep1 @ evs,
      rp_MigratedChunks := rp_MigratedChunks rep1 + int (length (filter me_Success evs)),
      rp_FailedChunks := rp_FailedChunks rep1 + int (length (filter (\<lambda>e. \<not> me_Success e) evs))\<rparr>"
    "map me_ChunkID evs = cs" "inv s'" "exact s'" "\<forall>d. length (reps s' d) = length (reps s1 d)"
    "\<forall>d. d \<notin> set cs \<longrightarrow> reps s' d = reps s1 d"
    "holds s' n = holds s1 n - me_ChunkID ` {e \<in> set evs. me_Success e}"
    "\<forall>e\<in>set evs. event_ok n s1 s' e" by blast
  have ids: "me_ChunkID x \<noteq> c" if "x \<in> set evs" for x
    using that IH(2) dc(2) by (metis image_eqI list.set_map)
  have c': "reps s' c = reps s1 c" using IH(6) dc(2) by blast
  show ?case
  proof (intro exI [of _ "e # evs"] conjI)
    show "rep' = rep\<lparr>rp_Events := rp_Events rep @ (e # evs),
      rp_MigratedChunks := rp_MigratedChunks rep + int (length (filter me_Success (e # evs))),
      rp_FailedChunks := rp_FailedChunks rep + int (length (filter (\<lambda>e. \<not> me_Success e) (e # evs)))\<rparr>"
      unfolding IH(1) by (simp add: rep1_def Let_def)
    show "map me_ChunkID (e # evs) = c # cs" "inv s'" "exact s'" using IH(2-4) st(4) by simp_all
    show "\<forall>d. length (reps s' d) = length (reps s d)" using IH(5) st(3) by simp
    show "\<forall>d. d \<notin> set (c # cs) \<longrightarrow> reps s' d = reps s d" using IH(6) st(5) by auto
    show "holds s' n = holds s n - me_ChunkID ` {x \<in> set (e # evs). me_Success x}"
      unfolding IH(7) st(6) using st(4) by auto
    have "event_ok n s s' e"
      unfolding event_ok_def st(4) c' using st(7,8) by auto
    moreover have "\<forall>x\<in>set evs. event_ok n s s' x"
      using IH(8) st(5) ids unfolding event_ok_def by (metis (full_types))
    ultimately show "\<forall>x\<in>set (e # evs). event_ok n s s' x" by simp
  qed
qed (auto intro!: exI [of _ "[]"])

lemma MigrateNode_spec:
  assumes "inv s" "exact s" "\<not> IsMigrating m (pr_NodeID p)"
    and "MigrateNode L dial rpc clock p m s w = (m', s', w', res)"
  shows "\<exists>rep. res = Some rep \<and> rp_NodeID rep = pr_NodeID p \<and>
    rp_TotalChunks rep = int (card (holds s (pr_NodeID p))) \<and>
    inv s' \<and> exact s' \<and> (\<forall>d. length (reps s' d) = length (reps s d)) \<and>
    (\<forall>d. d \<notin> holds s (pr_NodeID p) \<longrightarrow> reps s' d = reps s d) \<and>
    holds s' (pr_NodeID p) = holds s (pr_NodeID p) - me_ChunkID ` {e \<in> set (rp_Events rep). me_Success e} \<and>
    (\<forall>e\<in>set (rp_Events rep). event_ok (pr_NodeID p) s s' e) \<and>
    (cl_GetNodeAddress L s (pr_NodeID p) \<noteq> None \<longrightarrow>
       rp_MigratedChunks rep + rp_FailedChunks rep = rp_TotalChunks rep \<and>
       rp_MigratedChunks rep = int (length (filter me_Success (rp_Events rep))) \<and>
       set (map me_ChunkID (rp_Events rep)) = holds s (pr_NodeID p))"
proof -
  let ?n = "pr_NodeID p" and ?cs = "cl_GetChunksOnNode L s (pr_NodeID p)"
  have cs: "distinct ?cs" "set ?cs = holds s ?n" using on_node [OF assms(1)] by auto
  have tot: "int (length ?cs) = int (card (holds s ?n))" using cs by (metis distinct_card)
  obtain rep keep where body: "mig_body L dial rpc clock p s w = (s', w', rep, keep)" and res: "res = Some rep"
    using assms(3,4) by (auto simp: MigrateNode_def mig_begin_def IsMigrating_def split: prod.splits)
  show ?thesis
  proof (cases "?cs = [] \<or> cl_GetNodeAddress L s ?n = None")
    case True
    then have "s' = s" "rp_Events rep = []" "rp_TotalChunks rep = int (length ?cs)" "rp_NodeID rep = ?n"
      "?cs = [] \<Longrightarrow> rp_MigratedChunks rep = 0 \<and> rp_FailedChunks rep = 0"
      using body by (auto simp: mig_body_def Let_def split: if_splits option.splits)
    then show ?thesis using assms(1,2) res cs tot True by auto
  next
    case False
    then obtain addr rep0 w0 where a: "cl_GetNodeAddress L s ?n = Some addr"
      and loop: "migrate_loop L dial rpc clock ?n addr ?cs s w
        \<lparr>rp_NodeID = ?n, rp_RiskScore = pr_OverallRisk p, rp_Status = pr_Status p,
         rp_TotalChunks = int (length ?cs), rp_MigratedChunks = 0, rp_FailedChunks = 0, rp_Events = [],
         rp_StartedAt = clock w, rp_CompletedAt = 0, rp_Reasons = pr_Reasons p\<rparr> = (s', w0, rep0)"
      and rep: "rep = rep0\<lparr>rp_CompletedAt := clock w0\<rparr>"
      using body by (auto simp: mig_body_def Let_def split: option.splits prod.splits)
    have len: "length (filter me_Success evs) + length (filter (\<lambda>e. \<not> me_Success e) evs) = length evs" for evs
      by (rule sum_length_filter_compl)
    from migrate_loop_spec [OF assms(1,2) cs(1) _ loop] cs(2) obtain evs where
      evs: "rp_Events rep = evs" "rp_MigratedChunks rep = int (length (filter me_Success evs))"
        "rp_FailedChunks rep = int (length (filter (\<lambda>e. \<not> me_Success e) evs))"
        "rp_TotalChunks rep = int (length ?cs)" "rp_NodeID rep = ?n" "map me_ChunkID evs = ?cs"
      and st: "inv s'" "exact s'" "\<forall>d. length (reps s' d) = length (reps s d)"
        "\<forall>d. d \<notin> set ?cs \<longrightarrow> reps s' d = reps s d"
        "holds s' ?n = holds s ?n - me_ChunkID ` {e \<in> set evs. me_Success e}"
        "\<forall>e\<in>set evs. event_ok ?n s s' e"
      unfolding rep by force
    have "length evs = length ?cs" by (metis evs(6) length_map)
    then have sum: "rp_MigratedChunks rep + rp_FailedChunks rep = rp_TotalChunks rep"
      using evs(2-4) len [of evs] by linarith
    have ids: "set (map me_ChunkID evs) = holds s ?n" unfolding evs(6) by (rule cs(2))
    have "rp_TotalChunks rep = int (card (holds s ?n))" using evs(4) tot by simp
    with res evs(5) show ?thesis
      using st(1-3) st(4) [unfolded cs(2)] st(5,6) [folded evs(1)] sum evs(2) [folded evs(1)] ids [folded evs(1)]
      by (intro exI [of _ rep] conjI impI)
  qed
qed

end

section \<open>One migration per node at a time\<close>

text \<open>
  Goroutines that call \<open>MigrateNode\<close> interleave: a call enters (\<open>mig_begin\<close>), and, if it was let in,
  leaves later (\<open>mig_end\<close>). \<open>running\<close> is the list of the calls between the two.
\<close>

inductive mig_step :: "Migrator \<times> string list \<Rightarrow> Migrator \<times> string list \<Rightarrow> bool" where
  enter: "mig_begin n m = (m', True) \<Longrightarrow> mig_step (m, running) (m', n # running)"
| refused: "mig_begin n m = (m', False) \<Longrightarrow> mig_step (m, running) (m', running)"
| leave: "n \<in> set running \<Longrightarrow> rp_NodeID report = n \<Longrightarrow>
    mig_step (m, running) (mig_end n report keep m, remove1 n running)"

inductive mig_reachable :: "Migrator \<times> string list \<Rightarrow> bool" where
  new: "mig_reachable (NewMigrator, [])"
| step: "mig_reachable c \<Longrightarrow> mig_step c c' \<Longrightarrow> mig_reachable c'"

inductive_cases mig_stepE: "mig_step c c'"

lemma mig_step_inv:
  assumes "mig_step (m, R) (m', R')" "distinct R" "\<forall>n. map_of (mig_migrating m) n = (if n \<in> set R then Some True else None)"
  shows "distinct R' \<and> (\<forall>n. map_of (mig_migrating m') n = (if n \<in> set R' then Some True else None))"
  using assms(1)
proof cases
  case (enter n)
  then show ?thesis using assms(2,3) by (auto simp: mig_begin_def split: if_splits)
next
  case (refused n)
  then show ?thesis using assms(2,3) by (auto simp: mig_begin_def split: if_splits)
next
  case (leave n report keep)
  then show ?thesis using assms(2,3) by (auto simp: mig_end_def Let_def)
qed

lemma mig_reachable_inv:
  "mig_reachable c \<Longrightarrow> distinct (snd c) \<and>
     (\<forall>n. map_of (mig_migrating (fst c)) n = (if n \<in> set (snd c) then Some True else None))"
proof (induction rule: mig_reachable.induct)
  case (step c c')
  then show ?case using mig_step_inv [of "fst c" "snd c" "fst c'" "snd c'"] by auto
qed (simp add: NewMigrator_def)

text \<open>
  C32: However calls of \<open>MigrateNode\<close> for various nodes interleave, at most one of them works on a
  given node at any time, and \<open>IsMigrating\<close> answers true exactly while one does; so a node can be
  migrated again after its migration ended.
\<close>

theorem one_migration_per_node:
  assumes "mig_reachable (m, running)"
  shows "distinct running \<and> (IsMigrating m n \<longleftrightarrow> n \<in> set running) \<and>
    (snd (mig_begin n m) \<longleftrightarrow> n \<notin> set running)"
  using mig_reachable_inv [OF assms] by (auto simp: IsMigrating_def mig_begin_def)

definition demo_mig :: Migrator where
  "demo_mig = fst (mig_begin ''node-2'' (fst (mig_begin ''node-1'' NewMigrator)))"

theorem one_migration_per_node_witness:
  "IsMigrating demo_mig ''node-1'' \<and> snd (mig_begin ''node-1'' demo_mig) = False \<and>
   snd (mig_begin ''node-3'' demo_mig)"
proof -
  let ?m1 = "fst (mig_begin ''node-1'' NewMigrator)"
  have "mig_reachable (?m1, [''node-1''])"
    by (rule mig_reachable.step [OF mig_reachable.new mig_step.enter]) (simp add: mig_begin_def NewMigrator_def)
  then have "mig_reachable (demo_mig, [''node-2'', ''node-1''])"
    unfolding demo_mig_def
    by (rule mig_reachable.step [OF _ mig_step.enter]) (simp add: mig_begin_def NewMigrator_def)
  from one_migration_per_node [OF this] show ?thesis by simp
qed

end
