(* ===== verification/Locator_Adapter.thy ===== *)
theory Locator_Adapter
  imports Chunk_Manager Migrator
begin

text \<open>
  \<^verbatim>\<open>internal/metaserver/locator_adapter.go\<close>: the chunk manager seen through the migrator's interface
  \<open>ChunkLocator\<close>. The interpretation \<open>cml\<close> discharges the interface's contract for the chunk manager's
  model, so migration is verified for the real provider.
\<close>

section \<open>Operations\<close>

definition ad_GetChunksOnNode :: "iter \<Rightarrow> ChunkManager \<Rightarrow> string \<Rightarrow> string list" where
  "ad_GetChunksOnNode it cm nodeID = cm_GetChunksOnNode it cm nodeID"

definition ad_GetChunkMeta :: "ChunkManager \<Rightarrow> string \<Rightarrow> string list option" where
  "ad_GetChunkMeta cm chunkID =
     (case cm_GetChunkMeta cm chunkID of None \<Rightarrow> None | Some meta \<Rightarrow> Some (ck_NodeIDs meta))"

definition ad_GetHealthyNodeAddresses :: "iter \<Rightarrow> ChunkManager \<Rightarrow> string list \<Rightarrow> NodeTarget list" where
  "ad_GetHealthyNodeAddresses it cm excludeNodeIDs =
     (let excludeSet = fold (\<lambda>i m. AList.update i True m) excludeNodeIDs []
      in map (\<lambda>n. \<lparr>nt_NodeID = dni_NodeID n, nt_Address = dni_Address n\<rparr>)
           (filter (\<lambda>n. map_of excludeSet (dni_NodeID n) \<noteq> Some True \<and>
                        (dni_Status n = StatusHealthy \<or> dni_Status n = StatusWarning))
              (cm_GetAllNodes it cm)))"

definition ad_AddChunkToNode :: "string \<Rightarrow> string \<Rightarrow> ChunkManager \<Rightarrow> ChunkManager" where
  "ad_AddChunkToNode chunkID nodeID cm = cm_AddChunkToNode chunkID nodeID cm"

definition ad_RemoveChunkFromNode :: "string \<Rightarrow> string \<Rightarrow> ChunkManager \<Rightarrow> ChunkManager" where
  "ad_RemoveChunkFromNode chunkID nodeID cm = cm_RemoveChunkFromNode chunkID nodeID cm"

definition ad_GetNodeAddress :: "ChunkManager \<Rightarrow> string \<Rightarrow> string option" where
  "ad_GetNodeAddress cm nodeID =
     (case cm_GetNode cm nodeID of None \<Rightarrow> None | Some node \<Rightarrow> Some (dni_Address node))"

definition ChunkManagerAdapter :: "iter \<Rightarrow> ChunkManager ChunkLocator" where
  "ChunkManagerAdapter it =
     \<lparr>cl_GetChunksOnNode = ad_GetChunksOnNode it, cl_GetChunkMeta = ad_GetChunkMeta,
      cl_GetHealthyNodeAddresses = ad_GetHealthyNodeAddresses it, cl_AddChunkToNode = ad_AddChunkToNode,
      cl_RemoveChunkFromNode = ad_RemoveChunkFromNode, cl_GetNodeAddress = ad_GetNodeAddress\<rparr>"

section \<open>The chunk manager fulfils the contract\<close>

definition cm_known :: "ChunkManager \<Rightarrow> string \<Rightarrow> bool" where
  "cm_known cm c \<longleftrightarrow> map_of (cm_chunks cm) c \<noteq> None"

definition cm_registered :: "ChunkManager \<Rightarrow> string \<Rightarrow> bool" where
  "cm_registered cm n \<longleftrightarrow> map_of (cm_nodes cm) n \<noteq> None"

lemma exclude_set: "map_of (fold (\<lambda>i m. AList.update i True m) xs m0) k =
    (if k \<in> set xs then Some True else map_of m0 k)"
  by (induction xs arbitrary: m0) auto

lemma adapter_targets:
  assumes "cm_inv cm" "perm_iter it" "t \<in> set (ad_GetHealthyNodeAddresses it cm ex)"
  shows "nt_NodeID t \<notin> set ex \<and> cm_registered cm (nt_NodeID t) \<and>
    ad_GetNodeAddress cm (nt_NodeID t) = Some (nt_Address t)"
proof -
  have wf: "gm_wf (cm_nodes cm)" by (rule inv_nodes_wf [OF assms(1)])
  from assms(3) obtain n where n: "n \<in> set (cm_GetAllNodes it cm)" "dni_NodeID n \<notin> set ex"
    "t = \<lparr>nt_NodeID = dni_NodeID n, nt_Address = dni_Address n\<rparr>"
    by (auto simp: ad_GetHealthyNodeAddresses_def Let_def exclude_set split: if_splits)
  then obtain k where "map_of (cm_nodes cm) k = Some n"
    using set_gm_range [OF assms(2) wf] wf by (auto simp: cm_GetAllNodes_def)
  then have "map_of (cm_nodes cm) (dni_NodeID n) = Some n" using inv_node_id [OF assms(1)] by blast
  then show ?thesis
    using n by (auto simp: cm_registered_def ad_GetNodeAddress_def cm_GetNode_def)
qed

lemma add_replicas:
  "map_of (cm_chunks cm) c \<noteq> None \<Longrightarrow> replicas (cm_AddChunkToNode c n cm) d =
     (if d = c then (if n \<in> set (replicas cm c) then replicas cm c else replicas cm c @ [n]) else replicas cm d)"
  unfolding AddChunkToNode_eq by (auto simp: replicas_def cm_simps)

lemma add_holdings:
  "map_of (cm_nodes cm) n \<noteq> None \<Longrightarrow> holdings (cm_AddChunkToNode c n cm) k =
     (if k = n then insert c (holdings cm n) else holdings cm k)"
  unfolding AddChunkToNode_eq by (auto simp: holdings_def cm_simps)

lemma remove_replicas:
  "replicas (cm_RemoveChunkFromNode c n cm) d = (if d = c then remove1 n (replicas cm c) else replicas cm d)"
  unfolding RemoveChunkFromNode_eq by (auto simp: replicas_def cm_simps split: option.splits)

lemma remove_holdings:
  "holdings (cm_RemoveChunkFromNode c n cm) k = (if k = n then holdings cm n - {c} else holdings cm k)"
  unfolding RemoveChunkFromNode_eq by (auto simp: holdings_def cm_simps split: option.splits)

lemma known_add_remove:
  "cm_known (cm_AddChunkToNode c n cm) = cm_known cm" "cm_known (cm_RemoveChunkFromNode c n cm) = cm_known cm"
  unfolding AddChunkToNode_eq RemoveChunkFromNode_eq
  by (auto simp: cm_known_def fun_eq_iff cm_simps)

lemma address_add_remove:
  "ad_GetNodeAddress (cm_AddChunkToNode c n cm) = ad_GetNodeAddress cm"
  "ad_GetNodeAddress (cm_RemoveChunkFromNode c n cm) = ad_GetNodeAddress cm"
  unfolding AddChunkToNode_eq RemoveChunkFromNode_eq
  by (auto simp: ad_GetNodeAddress_def cm_GetNode_def fun_eq_iff cm_simps split: option.splits)

lemma replicas_distinct: "cm_inv cm \<Longrightarrow> distinct (replicas cm c)"
  using inv_parts(5) by (auto simp: replicas_def split: option.splits)

lemma chunks_on_node:
  assumes "cm_inv cm" "perm_iter it"
  shows "distinct (cm_GetChunksOnNode it cm n) \<and> set (cm_GetChunksOnNode it cm n) = holdings cm n"
  using inv_parts(3) [OF assms(1), of n] assms(2)
  by (auto simp: cm_GetChunksOnNode_def holdings_def split: option.splits)

lemma adapter_contract:
  assumes "perm_iter it"
  shows "chunk_locator (ChunkManagerAdapter it) cm_inv replicas cm_known holdings cm_registered"
proof
  fix s :: ChunkManager and c d n k :: string and ex :: "string list" and t :: NodeTarget
  assume inv: "cm_inv s"
  show "distinct (cl_GetChunksOnNode (ChunkManagerAdapter it) s n) \<and>
      set (cl_GetChunksOnNode (ChunkManagerAdapter it) s n) = holdings s n"
    using chunks_on_node [OF inv assms] by (simp add: ChunkManagerAdapter_def ad_GetChunksOnNode_def)
  show "cl_GetChunkMeta (ChunkManagerAdapter it) s c = (if cm_known s c then Some (replicas s c) else None)"
    by (auto simp: ChunkManagerAdapter_def ad_GetChunkMeta_def cm_GetChunkMeta_def cm_known_def replicas_def
        split: option.splits)
  show "distinct (replicas s c)" by (rule replicas_distinct [OF inv])
  show "t \<in> set (cl_GetHealthyNodeAddresses (ChunkManagerAdapter it) s ex) \<Longrightarrow> nt_NodeID t \<notin> set ex \<and>
      cm_registered s (nt_NodeID t) \<and> cl_GetNodeAddress (ChunkManagerAdapter it) s (nt_NodeID t) = Some (nt_Address t)"
    using adapter_targets [OF inv assms] by (simp add: ChunkManagerAdapter_def)
  show "cm_registered s n \<Longrightarrow> cm_inv (cl_AddChunkToNode (ChunkManagerAdapter it) c n s)"
    using inv_AddChunkToNode [OF inv] by (simp add: ChunkManagerAdapter_def ad_AddChunkToNode_def cm_registered_def)
  show "cm_known s c \<Longrightarrow> replicas (cl_AddChunkToNode (ChunkManagerAdapter it) c n s) d =
      (if d = c then (if n \<in> set (replicas s c) then replicas s c else replicas s c @ [n]) else replicas s d)"
    by (simp add: ChunkManagerAdapter_def ad_AddChunkToNode_def add_replicas cm_known_def)
  show "cm_registered s n \<Longrightarrow> holdings (cl_AddChunkToNode (ChunkManagerAdapter it) c n s) k =
      (if k = n then insert c (holdings s n) else holdings s k)"
    by (simp add: ChunkManagerAdapter_def ad_AddChunkToNode_def add_holdings cm_registered_def)
  show "cm_inv (cl_RemoveChunkFromNode (ChunkManagerAdapter it) c n s)"
    using inv_RemoveChunkFromNode [OF inv] by (simp add: ChunkManagerAdapter_def ad_RemoveChunkFromNode_def)
qed (simp_all add: ChunkManagerAdapter_def ad_AddChunkToNode_def ad_RemoveChunkFromNode_def
      known_add_remove address_add_remove remove_replicas remove_holdings)

text \<open>The order in which Go visits a map is not fixed; any one order gives an instance.\<close>

interpretation cml: chunk_locator "ChunkManagerAdapter (\<lambda>ks. ks)" cm_inv replicas cm_known holdings cm_registered
  by (rule adapter_contract [OF perm_iter_id])

lemma length_remove1_in: "x \<in> set xs \<Longrightarrow> length (remove1 x xs) + 1 = length xs"
  by (simp add: length_remove1) (metis Suc_pred length_pos_if_in_set)

lemma exact_iff: "perm_iter it \<Longrightarrow> chunk_locator.exact replicas holdings cm \<longleftrightarrow> cm_exact cm"
  by (simp add: chunk_locator.exact_def [OF adapter_contract] cm_exact_def)

section \<open>Properties\<close>

text \<open>
  C21: A migration run on the chunk manager, whatever the transfers return, of a registered node that no other migration works on,
  in a state where every node lists only chunks that name it as a replica (\<open>cm_exact\<close>; so it is until a file is
  overwritten, and after that the number of replicas can grow, see \<open>stale_copy_becomes_replica\<close>). It yields a report,
  keeps the bookkeeping consistent, and no chunk has more or fewer replicas than before. For every
  chunk moved, the new node takes the place of the old one; a chunk whose transfer failed keeps its
  nodes; the node at risk lists exactly the chunks that did not move. The report counts every chunk
  of the node once, as migrated or as failed.
\<close>

theorem migration_keeps_replication:
  assumes "cm_inv cm" "cm_exact cm" "perm_iter it" "\<not> IsMigrating m (pr_NodeID p)"
    and "cm_registered cm (pr_NodeID p)"
    and "MigrateNode (ChunkManagerAdapter it) dial rpc clock p m cm w = (m', cm', w', res)"
  shows "\<exists>rep. res = Some rep \<and> cm_inv cm' \<and> cm_exact cm' \<and>
    (\<forall>c. length (replicas cm' c) = length (replicas cm c)) \<and>
    (\<forall>c. c \<notin> holdings cm (pr_NodeID p) \<longrightarrow> replicas cm' c = replicas cm c) \<and>
    (\<forall>e\<in>set (rp_Events rep).
       if me_Success e
       then set (replicas cm' (me_ChunkID e)) = insert (me_ToNodeID e) (set (replicas cm (me_ChunkID e)) - {pr_NodeID p})
       else replicas cm' (me_ChunkID e) = replicas cm (me_ChunkID e)) \<and>
    holdings cm' (pr_NodeID p) =
      holdings cm (pr_NodeID p) - {me_ChunkID e | e. e \<in> set (rp_Events rep) \<and> me_Success e} \<and>
    rp_TotalChunks rep = int (card (holdings cm (pr_NodeID p))) \<and>
    rp_MigratedChunks rep + rp_FailedChunks rep = rp_TotalChunks rep \<and>
    rp_MigratedChunks rep = int (length (filter me_Success (rp_Events rep)))"
proof -
  note spec = chunk_locator.MigrateNode_spec [OF adapter_contract [OF assms(3)] assms(1) _ assms(4,6)]
  have "ad_GetNodeAddress cm (pr_NodeID p) \<noteq> None"
    using assms(5) by (auto simp: cm_registered_def ad_GetNodeAddress_def cm_GetNode_def)
  then have addr: "cl_GetNodeAddress (ChunkManagerAdapter it) cm (pr_NodeID p) \<noteq> None"
    by (simp add: ChunkManagerAdapter_def)
  have img: "me_ChunkID ` {e \<in> set es. me_Success e} = {me_ChunkID e | e. e \<in> set es \<and> me_Success e}" for es
    by blast
  show ?thesis
    using spec assms(2) addr unfolding exact_iff [OF assms(3)] img
      chunk_locator.event_ok_def [OF adapter_contract [OF assms(3)]]
    by (metis (no_types, lifting))
qed

text \<open>A fourth node joins the cluster that holds a file; the first one is about to fail.\<close>

definition demo_four :: ChunkManager where
  "demo_four = demo_join ''d:1'' demo_stored"

definition demo_prediction :: PredictionResult where
  "demo_prediction = \<lparr>pr_NodeID = ''node-1'', pr_OverallRisk = 1, pr_Status = StatusCritical,
     pr_MetricRisks = [], pr_Reasons = [], pr_PredictedAt = 0\<rparr>"

definition demo_migrate :: "ChunkManager \<Rightarrow> Migrator \<times> ChunkManager \<times> unit \<times> MigrationReport option" where
  "demo_migrate cm = MigrateNode (ChunkManagerAdapter (\<lambda>ks. ks)) (\<lambda>_. None)
     (\<lambda>_ _ _ w. (w, Inr (True, ''ok''))) (\<lambda>_. 0) demo_prediction NewMigrator cm ()"

lemma exactI:
  assumes "\<forall>(k, n)\<in>set (cm_nodes cm). \<forall>c\<in>gm_keys (dni_Chunks n). k \<in> set (replicas cm c)"
  shows "cm_exact cm"
  using assms by (fastforce simp: cm_exact_def holdings_def split: option.splits dest: map_of_SomeD)

lemma demo_four_ok: "cm_inv demo_four" "cm_exact demo_four" "cm_registered demo_four ''node-1''"
proof -
  have "cm_inv demo_stored"
    unfolding demo_stored_def
    by (intro inv_allocate inv_reachable [OF demo_cm_reachable] perm_iter_id go_sort.sort_slice_axioms)
  then show "cm_inv demo_four" unfolding demo_four_def demo_join_def by (rule inv_register [OF _ perm_iter_id])
  show "cm_exact demo_four" by (rule exactI) code_simp
  show "cm_registered demo_four ''node-1''" unfolding cm_registered_def by code_simp
qed

theorem migration_keeps_replication_witness:
  "\<exists>m' cm' w' rep. demo_migrate demo_four = (m', cm', w', Some rep) \<and>
     rp_MigratedChunks rep + rp_FailedChunks rep = int (card (holdings demo_four ''node-1'')) \<and>
     (\<forall>c. length (replicas cm' c) = length (replicas demo_four c))"
proof -
  obtain m' cm' w' res where r: "demo_migrate demo_four = (m', cm', w', res)" by (metis prod_cases4)
  have n: "pr_NodeID demo_prediction = ''node-1''" by (simp add: demo_prediction_def)
  have nm: "\<not> IsMigrating NewMigrator (pr_NodeID demo_prediction)" by (simp add: IsMigrating_def NewMigrator_def)
  have reg: "cm_registered demo_four (pr_NodeID demo_prediction)" unfolding n by (rule demo_four_ok)
  from migration_keeps_replication [OF demo_four_ok(1,2) perm_iter_id nm reg r [unfolded demo_migrate_def]]
  show ?thesis using r unfolding n by auto
qed

end
