(* ===== verification/Messages.thy ===== *)
theory Messages
  imports Prelude
begin

text \<open>
  The gRPC messages of \<^verbatim>\<open>proto/sentinelfs.pb.go\<close>, as records of their fields. A pointer field that
  the code leaves nil is \<open>None\<close>; absent scalar fields have their zero values. The transport and the
  (un)marshalling are generated code and library code, and are not modelled.
\<close>

record ChunkInfo =
  ci_ChunkId :: string
  ci_ChunkIndex :: int
  ci_Size :: int
  ci_Checksum :: string
  ci_NodeIds :: "string list"

record FileInfo =
  fi_Path :: string
  fi_Size :: int
  fi_ChunkCount :: int
  fi_ReplicationFactor :: int
  fi_Chunks :: "ChunkInfo option list"
  fi_CreatedAt :: int

record NodeInfo =
  ni_NodeId :: string
  ni_Address :: string
  ni_CapacityBytes :: int
  ni_UsedBytes :: int
  ni_ChunkCount :: int
  ni_Status :: string
  ni_RiskScore :: real

record HealthMetrics =
  hm_NodeId :: string
  hm_DiskIoLatencyMs :: real
  hm_DiskUtilization :: real
  hm_ErrorCount :: int
  hm_ResponseTimeMs :: real
  hm_CpuUsage :: real
  hm_MemoryUsage :: real
  hm_Timestamp :: int

section \<open>Files\<close>

record PutFileRequest =
  pf_Path :: string
  pf_FileSize :: int
  pf_ChunkCount :: int
  pf_Checksum :: string

record ChunkPlacement =
  cp_ChunkId :: string
  cp_ChunkIndex :: int
  cp_NodeAddresses :: "string list"
  cp_NodeIds :: "string list"

record PutFileResponse =
  pfr_Success :: bool
  pfr_Message :: string
  pfr_Placements :: "ChunkPlacement list"

record ChunkLocation =
  cl_ChunkId :: string
  cl_ChunkIndex :: int
  cl_NodeAddresses :: "string list"
  cl_NodeIds :: "string list"

record GetFileResponse =
  gfr_Success :: bool
  gfr_Message :: string
  gfr_FileInfo :: "FileInfo option"
  gfr_ChunkLocations :: "ChunkLocation list"

record DeleteFileResponse =
  dfr_Success :: bool
  dfr_Message :: string

record ListFilesResponse =
  lfr_Success :: bool
  lfr_Files :: "FileInfo list"

record GetFileInfoResponse =
  gir_Success :: bool
  gir_FileInfo :: "FileInfo option"

section \<open>Nodes and the cluster\<close>

record RegisterNodeResponse =
  rnr_Success :: bool
  rnr_NodeId :: string
  rnr_Message :: string

record HeartbeatRequest =
  hb_NodeId :: string
  hb_UsedBytes :: int
  hb_ChunkCount :: int

record ReportHealthResponse =
  rhr_Success :: bool
  rhr_Status :: string

record GetClusterInfoResponse =
  gcr_TotalNodes :: int
  gcr_HealthyNodes :: int
  gcr_WarningNodes :: int
  gcr_AtRiskNodes :: int
  gcr_DeadNodes :: int
  gcr_TotalCapacity :: int
  gcr_TotalUsed :: int
  gcr_TotalFiles :: int
  gcr_TotalChunks :: int
  gcr_Nodes :: "NodeInfo list"

section \<open>Chunks\<close>

record StoreChunkRequest =
  sc_ChunkId :: string
  sc_Data :: bytes
  sc_Checksum :: string

record StoreChunkResponse =
  scr_Success :: bool
  scr_Message :: string

record GetChunkResponse =
  gkr_Success :: bool
  gkr_Data :: bytes
  gkr_Checksum :: string

record DeleteChunkResponse =
  dcr_Success :: bool
  dcr_Message :: string

record TransferChunkRequest =
  tc_ChunkId :: string
  tc_TargetAddress :: string

record TransferChunkResponse =
  tcr_Success :: bool
  tcr_Message :: string

end
