(* ===== verification/Meta_Server.thy ===== *)
theory Meta_Server
  imports Namespace Locator_Adapter Messages
begin

text \<open>
  \<^verbatim>\<open>internal/metaserver/server.go\<close>: the metadata server, its gRPC handlers and its background
  routines, over the namespace, the chunk manager, the health monitor and the migrator.

  A handler is a function of the request and the state; the components lock their own mutexes, and
  one handler runs at a time here (interleavings of handlers are sequences of steps; what can happen
  between the component calls of one handler is not modelled). \<open>None\<close> as the result of a handler is
  a panic, which ends the server. Listening, the tickers and logging are left out: the body of each
  ticker loop is a function.
\<close>

section \<open>State\<close>

record Server =
  sv_namespace :: DirEntry
  sv_chunkMgr :: ChunkManager
  sv_monitor :: Monitor
  sv_migrator :: Migrator

definition NewServer :: Server where
  "NewServer = \<lparr>sv_namespace = NewNamespace, sv_chunkMgr = NewChunkManager, sv_monitor = NewMonitor,
     sv_migrator = NewMigrator\<rparr>"

section \<open>File operations\<close>

text \<open>\<open>time.Time.Unix\<close> and \<open>time.UnixMilli\<close>.\<close>

definition Unix :: "time \<Rightarrow> int" where
  "Unix t = t div Second"

definition UnixMilli :: "int \<Rightarrow> time" where
  "UnixMilli ms = ms * 1000000"

definition sv_PutFile ::
  "iter \<Rightarrow> sorter \<Rightarrow> (bytes \<Rightarrow> bytes) \<Rightarrow> time \<Rightarrow> PutFileRequest \<Rightarrow> Server \<Rightarrow> Server \<times> PutFileResponse option" where
  "sv_PutFile it srt sha now req s =
     (case cm_AllocateChunks it srt sha now (pf_Path req) (pf_ChunkCount req) (pf_FileSize req) (sv_chunkMgr s) of
        (cm, Panic) \<Rightarrow> (s\<lparr>sv_chunkMgr := cm\<rparr>, None)
      | (cm, Err e) \<Rightarrow>
          (s\<lparr>sv_chunkMgr := cm\<rparr>, Some \<lparr>pfr_Success = False, pfr_Message = cm_Error e, pfr_Placements = []\<rparr>)
      | (cm, Ok placements) \<Rightarrow>
          let s = s\<lparr>sv_chunkMgr := cm\<rparr>;
              meta = \<lparr>fm_Path = pf_Path req, fm_Size = pf_FileSize req, fm_ChunkCount = pf_ChunkCount req,
                      fm_ReplicationFactor = DefaultReplicationFactor, fm_Checksum = pf_Checksum req,
                      fm_ChunkIDs = map pl_ChunkID placements, fm_CreatedAt = now\<rparr>
          in case ns_CreateFile (sv_namespace s) (pf_Path req) meta of
               (ns, Inl e) \<Rightarrow>
                 (s\<lparr>sv_namespace := ns\<rparr>,
                  Some \<lparr>pfr_Success = False, pfr_Message = ns_Error e, pfr_Placements = []\<rparr>)
             | (ns, Inr _) \<Rightarrow>
                 (s\<lparr>sv_namespace := ns\<rparr>,
                  Some \<lparr>pfr_Success = True, pfr_Message = ''file registered'',
                    pfr_Placements = map (\<lambda>p. \<lparr>cp_ChunkId = pl_ChunkID p, cp_ChunkIndex = int32 (pl_ChunkIndex p),
                      cp_NodeAddresses = pl_NodeAddresses p, cp_NodeIds = pl_NodeIDs p\<rparr>) placements\<rparr>))"

definition chunk_info :: "ChunkMeta \<Rightarrow> ChunkInfo" where
  "chunk_info cm = \<lparr>ci_ChunkId = ck_ChunkID cm, ci_ChunkIndex = int32 (ck_ChunkIndex cm), ci_Size = ck_Size cm,
     ci_Checksum = ck_Checksum cm, ci_NodeIds = ck_NodeIDs cm\<rparr>"

definition file_info :: "FileMeta \<Rightarrow> ChunkInfo option list \<Rightarrow> FileInfo" where
  "file_info meta chunks = \<lparr>fi_Path = fm_Path meta, fi_Size = fm_Size meta, fi_ChunkCount = int32 (fm_ChunkCount meta),
     fi_ReplicationFactor = int32 (fm_ReplicationFactor meta), fi_Chunks = chunks, fi_CreatedAt = Unix (fm_CreatedAt meta)\<rparr>"

text \<open>
  \<open>GetFile\<close>. The metadata of each located chunk is dereferenced unchecked, and so is the file's:
  a missing one is a panic.
\<close>

definition sv_GetFile :: "string \<Rightarrow> Server \<Rightarrow> GetFileResponse option" where
  "sv_GetFile path s =
     (let failed = (\<lambda>msg. Some \<lparr>gfr_Success = False, gfr_Message = msg, gfr_FileInfo = None, gfr_ChunkLocations = []\<rparr>)
      in case ns_GetFile (sv_namespace s) path of
           Inl e \<Rightarrow> failed (ns_Error e)
         | Inr None \<Rightarrow> None
         | Inr (Some meta) \<Rightarrow>
             (case cm_GetChunkLocations (sv_chunkMgr s) (fm_ChunkIDs meta) of
                Inl e \<Rightarrow> failed (cm_Error e)
              | Inr locs \<Rightarrow>
                  let cms = map (\<lambda>loc. cm_GetChunkMeta (sv_chunkMgr s) (lo_ChunkID loc)) locs
                  in if None \<in> set cms then None
                     else Some \<lparr>gfr_Success = True, gfr_Message = '''',
                       gfr_FileInfo = Some (file_info meta (map (map_option chunk_info) cms)),
                       gfr_ChunkLocations = map (\<lambda>loc. \<lparr>cl_ChunkId = lo_ChunkID loc,
                         cl_ChunkIndex = int32 (lo_ChunkIndex loc), cl_NodeAddresses = lo_NodeAddresses loc,
                         cl_NodeIds = lo_NodeIDs loc\<rparr>) locs\<rparr>))"

definition sv_DeleteFile :: "iter \<Rightarrow> string \<Rightarrow> Server \<Rightarrow> Server \<times> DeleteFileResponse option" where
  "sv_DeleteFile it path s =
     (case ns_DeleteFile (sv_namespace s) path of
        (ns, Inl e) \<Rightarrow> (s\<lparr>sv_namespace := ns\<rparr>, Some \<lparr>dfr_Success = False, dfr_Message = ns_Error e\<rparr>)
      | (ns, Inr None) \<Rightarrow> (s\<lparr>sv_namespace := ns\<rparr>, None)
      | (ns, Inr (Some meta)) \<Rightarrow>
          (s\<lparr>sv_namespace := ns, sv_chunkMgr := fst (cm_RemoveChunks it (fm_ChunkIDs meta) (sv_chunkMgr s))\<rparr>,
           Some \<lparr>dfr_Success = True, dfr_Message = ''file deleted''\<rparr>))"

definition list_entry :: "string \<Rightarrow> DirEntry \<Rightarrow> FileInfo list" where
  "list_entry path e =
     (if deIsDir e then
        [\<lparr>fi_Path = path @ ''/'' @ deName e, fi_Size = 0, fi_ChunkCount = 0, fi_ReplicationFactor = 0,
          fi_Chunks = [], fi_CreatedAt = 0\<rparr>]
      else case deFile e of None \<Rightarrow> [] | Some f \<Rightarrow> [file_info f []])"

definition sv_ListFiles :: "iter \<Rightarrow> string \<Rightarrow> Server \<Rightarrow> ListFilesResponse" where
  "sv_ListFiles it reqPath s =
     (let path = (if reqPath = '''' then ''/'' else reqPath)
      in case ns_ListDir it (sv_namespace s) path of
           Inl e \<Rightarrow> \<lparr>lfr_Success = False, lfr_Files = []\<rparr>
         | Inr entries \<Rightarrow> \<lparr>lfr_Success = True, lfr_Files = concat (map (list_entry path) entries)\<rparr>)"

definition sv_GetFileInfo :: "string \<Rightarrow> Server \<Rightarrow> GetFileInfoResponse option" where
  "sv_GetFileInfo path s =
     (case ns_GetFile (sv_namespace s) path of
        Inl e \<Rightarrow> Some \<lparr>gir_Success = False, gir_FileInfo = None\<rparr>
      | Inr None \<Rightarrow> None
      | Inr (Some meta) \<Rightarrow>
          Some \<lparr>gir_Success = True,
            gir_FileInfo = Some (file_info meta
              (map (\<lambda>cid. map_option chunk_info (cm_GetChunkMeta (sv_chunkMgr s) cid)) (fm_ChunkIDs meta)))\<rparr>)"

section \<open>Node management\<close>

definition sv_RegisterNode :: "iter \<Rightarrow> time \<Rightarrow> string \<Rightarrow> int \<Rightarrow> Server \<Rightarrow> Server \<times> RegisterNodeResponse" where
  "sv_RegisterNode it now address capacity s =
     (case cm_RegisterNode it now address capacity (sv_chunkMgr s) of
        (cm, Inl e) \<Rightarrow> (s\<lparr>sv_chunkMgr := cm\<rparr>, \<lparr>rnr_Success = False, rnr_NodeId = '''', rnr_Message = cm_Error e\<rparr>)
      | (cm, Inr nodeID) \<Rightarrow>
          (s\<lparr>sv_chunkMgr := cm\<rparr>, \<lparr>rnr_Success = True, rnr_NodeId = nodeID, rnr_Message = ''node registered''\<rparr>))"

text \<open>The response of \<open>Heartbeat\<close> has the field \<open>Success\<close> only.\<close>

definition sv_Heartbeat :: "time \<Rightarrow> HeartbeatRequest \<Rightarrow> Server \<Rightarrow> Server \<times> bool" where
  "sv_Heartbeat now req s =
     (case cm_UpdateHeartbeat now (hb_NodeId req) (hb_UsedBytes req) (hb_ChunkCount req) (sv_chunkMgr s) of
        (cm, Inl e) \<Rightarrow> (s\<lparr>sv_chunkMgr := cm\<rparr>, False)
      | (cm, Inr _) \<Rightarrow> (s\<lparr>sv_chunkMgr := cm\<rparr>, True))"

definition sv_ReportHealth :: "HealthMetrics option \<Rightarrow> Server \<Rightarrow> Server \<times> ReportHealthResponse" where
  "sv_ReportHealth metrics s =
     (case metrics of
        None \<Rightarrow> (s, \<lparr>rhr_Success = False, rhr_Status = ''no metrics''\<rparr>)
      | Some m \<Rightarrow>
          let s = s\<lparr>sv_monitor := mon_IngestReport
                \<lparr>hr_NodeID = hm_NodeId m, hr_DiskIOLatency = hm_DiskIoLatencyMs m, hr_DiskUtil = hm_DiskUtilization m,
                 hr_ErrorCount = hm_ErrorCount m, hr_ResponseTime = hm_ResponseTimeMs m, hr_CPUUsage = hm_CpuUsage m,
                 hr_MemoryUsage = hm_MemoryUsage m, hr_Timestamp = UnixMilli (hm_Timestamp m)\<rparr> (sv_monitor s)\<rparr>
          in case cm_GetNode (sv_chunkMgr s) (hm_NodeId m) of
               None \<Rightarrow> (s, \<lparr>rhr_Success = False, rhr_Status = ''unknown node''\<rparr>)
             | Some node \<Rightarrow> (s, \<lparr>rhr_Success = True, rhr_Status = status_string (dni_Status node)\<rparr>))"

section \<open>Cluster information\<close>

definition node_info :: "DataNodeInfo \<Rightarrow> NodeInfo" where
  "node_info n = \<lparr>ni_NodeId = dni_NodeID n, ni_Address = dni_Address n, ni_CapacityBytes = dni_CapacityBytes n,
     ni_UsedBytes = dni_UsedBytes n, ni_ChunkCount = dni_ChunkCount n, ni_Status = status_string (dni_Status n),
     ni_RiskScore = dni_RiskScore n\<rparr>"

definition sv_GetClusterInfo :: "iter \<Rightarrow> Server \<Rightarrow> GetClusterInfoResponse" where
  "sv_GetClusterInfo it s =
     (let stats = cm_GetClusterStats it (sv_chunkMgr s);
          allFiles = ns_GetAllFiles it (sv_namespace s);
          nodes = cm_GetAllNodes it (sv_chunkMgr s)
      in \<lparr>gcr_TotalNodes = int32 (st_TotalNodes stats), gcr_HealthyNodes = int32 (st_HealthyNodes stats),
          gcr_WarningNodes = int32 (st_WarningNodes stats), gcr_AtRiskNodes = int32 (st_AtRiskNodes stats),
          gcr_DeadNodes = int32 (st_DeadNodes stats), gcr_TotalCapacity = st_TotalCap stats,
          gcr_TotalUsed = st_TotalUsed stats, gcr_TotalFiles = int32 (int (length allFiles)),
          gcr_TotalChunks = int32 (st_TotalChunks stats), gcr_Nodes = map node_info nodes\<rparr>)"

definition sv_GetNodeInfo :: "iter \<Rightarrow> string \<Rightarrow> Server \<Rightarrow> NodeInfo list" where
  "sv_GetNodeInfo it nodeId s =
     (if nodeId \<noteq> '''' then
        (case cm_GetNode (sv_chunkMgr s) nodeId of None \<Rightarrow> [] | Some n \<Rightarrow> [node_info n])
      else map node_info (cm_GetAllNodes it (sv_chunkMgr s)))"

section \<open>Background routines\<close>

definition deadNodeChecker_tick :: "iter \<Rightarrow> time \<Rightarrow> Server \<Rightarrow> Server" where
  "deadNodeChecker_tick it now s = s\<lparr>sv_chunkMgr := fst (cm_CheckDeadNodes it now (sv_chunkMgr s))\<rparr>"

text \<open>
  One round of the prediction loop: the statuses are written and the predictions whose migration
  is started in a goroutine are returned.
\<close>

definition predictionLoop_tick :: "iter \<Rightarrow> time \<Rightarrow> Server \<Rightarrow> Server \<times> PredictionResult list" where
  "predictionLoop_tick it now s =
     (let results = PredictAll it now (sv_monitor s)
      in (s\<lparr>sv_chunkMgr := fold (\<lambda>r. cm_UpdateNodeHealth (pr_NodeID r) (pr_Status r) (pr_OverallRisk r))
                              results (sv_chunkMgr s)\<rparr>,
          filter (\<lambda>r. pr_Status r = StatusCritical) results))"

text \<open>The body of such a goroutine.\<close>

definition sv_migrate ::
  "iter \<Rightarrow> (string \<Rightarrow> string option) \<Rightarrow> 'w transfer_rpc \<Rightarrow> ('w \<Rightarrow> time) \<Rightarrow> PredictionResult \<Rightarrow>
   Server \<Rightarrow> 'w \<Rightarrow> Server \<times> 'w" where
  "sv_migrate it dial rpc clock r s w =
     (case MigrateNode (ChunkManagerAdapter it) dial rpc clock r (sv_migrator s) (sv_chunkMgr s) w of
        (m, cm, w', report) \<Rightarrow> (s\<lparr>sv_migrator := m, sv_chunkMgr := cm\<rparr>, w'))"

section \<open>The server as a shared object\<close>

text \<open>
  Every way the server's state changes: the handlers, the background routines and the metadata
  updates of running migrations, in any order. \<open>K\<close> is the set of strings hashed for chunk IDs.
\<close>

inductive sv_step :: "(bytes \<Rightarrow> bytes) \<Rightarrow> bytes set \<Rightarrow> Server \<Rightarrow> Server \<Rightarrow> bool" for sha K where
  put: "perm_iter it \<Longrightarrow> sort_slice srt \<Longrightarrow>
    \<forall>i<nat (pf_ChunkCount req). chunk_key (pf_Path req) (int i) \<in> K \<Longrightarrow>
    sv_PutFile it srt sha now req s = (s', Some resp) \<Longrightarrow> sv_step sha K s s'"
| delete: "sv_DeleteFile it path s = (s', Some resp) \<Longrightarrow> sv_step sha K s s'"
| register: "perm_iter it \<Longrightarrow> sv_step sha K s (fst (sv_RegisterNode it now address capacity s))"
| heartbeat: "sv_step sha K s (fst (sv_Heartbeat now hb s))"
| report: "sv_step sha K s (fst (sv_ReportHealth metrics s))"
| dead_check: "sv_step sha K s (deadNodeChecker_tick it now s)"
| predict: "sv_step sha K s (fst (predictionLoop_tick it now s))"
| migrated_to: "cm_registered (sv_chunkMgr s) n \<Longrightarrow>
    sv_step sha K s (s\<lparr>sv_chunkMgr := cm_AddChunkToNode c n (sv_chunkMgr s)\<rparr>)"
| migrated_from: "sv_step sha K s (s\<lparr>sv_chunkMgr := cm_RemoveChunkFromNode c n (sv_chunkMgr s)\<rparr>)"
| migrator: "sv_step sha K s (s\<lparr>sv_migrator := m\<rparr>)"

inductive sv_reachable :: "(bytes \<Rightarrow> bytes) \<Rightarrow> bytes set \<Rightarrow> Server \<Rightarrow> bool" for sha K where
  new: "sv_reachable sha K NewServer"
| step: "sv_reachable sha K s \<Longrightarrow> sv_step sha K s s' \<Longrightarrow> sv_reachable sha K s'"

text \<open>The parts of the server that a handler or round touches, for proofs over its steps.\<close>

named_theorems server_views \<open>the server's state after a handler or background round\<close>

lemma RegisterNode_view [server_views]:
  "fst (sv_RegisterNode it now address capacity s) =
     s\<lparr>sv_chunkMgr := fst (cm_RegisterNode it now address capacity (sv_chunkMgr s))\<rparr>"
  by (simp add: sv_RegisterNode_def split: prod.splits sum.splits)

lemma Heartbeat_view [server_views]:
  "fst (sv_Heartbeat now hb s) =
     s\<lparr>sv_chunkMgr := fst (cm_UpdateHeartbeat now (hb_NodeId hb) (hb_UsedBytes hb) (hb_ChunkCount hb) (sv_chunkMgr s))\<rparr>"
  by (simp add: sv_Heartbeat_def split: prod.splits sum.splits)

lemma ReportHealth_view [server_views]:
  "fst (sv_ReportHealth metrics s) = s\<lparr>sv_monitor := (case metrics of None \<Rightarrow> sv_monitor s | Some m \<Rightarrow> mon_IngestReport
     \<lparr>hr_NodeID = hm_NodeId m, hr_DiskIOLatency = hm_DiskIoLatencyMs m, hr_DiskUtil = hm_DiskUtilization m,
      hr_ErrorCount = hm_ErrorCount m, hr_ResponseTime = hm_ResponseTimeMs m, hr_CPUUsage = hm_CpuUsage m,
      hr_MemoryUsage = hm_MemoryUsage m, hr_Timestamp = UnixMilli (hm_Timestamp m)\<rparr> (sv_monitor s))\<rparr>"
  by (simp add: sv_ReportHealth_def Let_def split: option.split)

lemma prediction_view [server_views]:
  "fst (predictionLoop_tick it now s) =
     s\<lparr>sv_chunkMgr := fold (\<lambda>r. cm_UpdateNodeHealth (pr_NodeID r) (pr_Status r) (pr_OverallRisk r))
        (PredictAll it now (sv_monitor s)) (sv_chunkMgr s)\<rparr>"
  by (simp add: predictionLoop_tick_def Let_def)

lemmas [server_views] = deadNodeChecker_tick_def

text \<open>
  The invariant that ties the namespace to the chunk map: a stored file lists the chunk IDs of its
  path, in order, and each of them has metadata that names this path.
\<close>

definition chunk_ids :: "(bytes \<Rightarrow> bytes) \<Rightarrow> string \<Rightarrow> int \<Rightarrow> string list" where
  "chunk_ids sha path cnt = map (\<lambda>i. GenerateChunkID sha path (int i)) [0..<nat cnt]"

definition chunk_path :: "ChunkManager \<Rightarrow> string \<Rightarrow> string option" where
  "chunk_path cm c = map_option ck_FilePath (map_of (cm_chunks cm) c)"

definition file_ok :: "(bytes \<Rightarrow> bytes) \<Rightarrow> bytes set \<Rightarrow> ChunkManager \<Rightarrow> string list \<Rightarrow> FileMeta \<Rightarrow> bool" where
  "file_ok sha K cm ps f \<longleftrightarrow> ns_target (fm_Path f) = ps \<and>
     fm_ChunkIDs f = chunk_ids sha (fm_Path f) (fm_ChunkCount f) \<and>
     (\<forall>i<nat (fm_ChunkCount f). chunk_key (fm_Path f) (int i) \<in> K) \<and>
     (\<forall>c\<in>set (fm_ChunkIDs f). chunk_path cm c = Some (fm_Path f))"

definition sv_inv :: "(bytes \<Rightarrow> bytes) \<Rightarrow> bytes set \<Rightarrow> Server \<Rightarrow> bool" where
  "sv_inv sha K s \<longleftrightarrow> ns_inv (sv_namespace s) \<and> cm_inv (sv_chunkMgr s) \<and>
     (\<forall>ps f. ns_files (sv_namespace s) ps = Some f \<longrightarrow> file_ok sha K (sv_chunkMgr s) ps f)"

subsection \<open>Which operations touch which chunk\<close>

lemma path_upd_node [simp]: "chunk_path (upd_node p f cm) = chunk_path cm"
  by (simp add: chunk_path_def fun_eq_iff cm_simps)

lemma path_upd_chunk [simp]: "(\<And>m. ck_FilePath (f m) = ck_FilePath m) \<Longrightarrow> chunk_path (upd_chunk c f cm) = chunk_path cm"
  by (auto simp: chunk_path_def fun_eq_iff cm_simps option.map_comp comp_def)

lemma path_register [simp]: "chunk_path (fst (cm_RegisterNode it now a cap cm)) = chunk_path cm"
  by (auto simp: cm_RegisterNode_def Let_def chunk_path_def fun_eq_iff cm_simps split: option.splits)

lemma path_heartbeat [simp]: "chunk_path (fst (cm_UpdateHeartbeat now n u k cm)) = chunk_path cm"
  by (auto simp: cm_UpdateHeartbeat_def split: option.splits)

lemma path_health [simp]: "chunk_path (cm_UpdateNodeHealth n st r cm) = chunk_path cm"
  by (auto simp: cm_UpdateNodeHealth_def split: option.splits)

lemma path_dead [simp]: "chunk_path (fst (cm_CheckDeadNodes it now cm)) = chunk_path cm"
proof -
  have "chunk_path (fst (dead_loop now ks cm)) = chunk_path cm" for ks
    by (induction now ks cm rule: dead_loop.induct) (auto split: option.splits prod.splits if_splits)
  then show ?thesis by (simp add: cm_CheckDeadNodes_def)
qed

lemma path_add_remove [simp]:
  "chunk_path (cm_AddChunkToNode c n cm) = chunk_path cm" "chunk_path (cm_RemoveChunkFromNode c n cm) = chunk_path cm"
  by (simp_all add: AddChunkToNode_eq RemoveChunkFromNode_eq)

lemma path_predict:
  "chunk_path (fold (\<lambda>r. cm_UpdateNodeHealth (pr_NodeID r) (pr_Status r) (pr_OverallRisk r)) rs cm) = chunk_path cm"
  by (induction rs arbitrary: cm) simp_all

lemma inv_predict:
  "cm_inv cm \<Longrightarrow> cm_inv (fold (\<lambda>r. cm_UpdateNodeHealth (pr_NodeID r) (pr_Status r) (pr_OverallRisk r)) rs cm)"
  by (induction rs arbitrary: cm) (simp_all add: inv_health)

lemma path_remove: "chunk_path (fst (cm_RemoveChunks it cs cm)) c = (if c \<in> set cs then None else chunk_path cm c)"
proof -
  have "chunk_path (fold forget_chunk cs cm) c = (if c \<in> set cs then None else chunk_path cm c)"
    by (induction cs arbitrary: cm) (auto simp: chunk_path_def chunks_forget)
  then show ?thesis by (simp add: RemoveChunks_fst)
qed

lemma allocate_paths:
  assumes "cm_inv cm" "perm_iter it" "sort_slice srt"
    and "cm_AllocateChunks it srt sha now path cnt sz cm = (cm', Ok ps)"
  shows "cm_inv cm'" "map pl_ChunkID ps = chunk_ids sha path cnt"
    and "chunk_path cm' c = (if c \<in> set (chunk_ids sha path cnt) then Some path else chunk_path cm c)"
proof -
  let ?H = "cm_healthyNodes it now cm"
  have H: "?H \<noteq> []" "0 \<le> cnt"
    using assms(4) by (auto simp: cm_AllocateChunks_def Let_def split: if_splits)
  from allocate_ok [OF assms(1-3) refl H, where sha = sha and path = path and fileSize = sz] assms(4)
  have inv: "cm_inv cm'" and pl: "list_all2 (placement_ok cm ?H (alloc_repl ?H) sha path) [0..<nat cnt] ps"
    and M: "map_of (cm_chunks cm') = map_of (cm_chunks cm) ++
      map_of (rev (map (\<lambda>p. (pl_ChunkID p, placement_meta path sz p)) ps))" by auto
  show "cm_inv cm'" by (rule inv)
  show ids: "map pl_ChunkID ps = chunk_ids sha path cnt" using placed_ids [OF pl] by (simp add: chunk_ids_def)
  let ?xs = "rev (map (\<lambda>p. (pl_ChunkID p, placement_meta path sz p)) ps)"
  have dom: "dom (map_of ?xs) = set (chunk_ids sha path cnt)"
    by (simp add: dom_map_of_conv_image_fst image_image flip: ids)
  have val: "map_of ?xs c = Some m \<Longrightarrow> ck_FilePath m = path" for m
    by (auto dest!: map_of_SomeD simp: placement_meta_def)
  show "chunk_path cm' c = (if c \<in> set (chunk_ids sha path cnt) then Some path else chunk_path cm c)"
    using val unfolding chunk_path_def M dom [symmetric] by (auto simp: map_add_def dom_def split: option.splits)
qed

lemma allocate_failed:
  assumes "cm_AllocateChunks it srt sha now path cnt sz cm = (cm', Err e)"
  shows "cm' = cm"
  using assms by (auto simp: cm_AllocateChunks_def Let_def split: if_splits prod.splits)

text \<open>Files with different paths have different chunks.\<close>

lemma chunk_ids_path:
  assumes "inj_on (\<lambda>s. take 8 (sha s)) K" "c \<in> set (chunk_ids sha p m)" "c \<in> set (chunk_ids sha q n)"
    and "\<forall>i<nat m. chunk_key p (int i) \<in> K" "\<forall>i<nat n. chunk_key q (int i) \<in> K"
  shows "p = q"
proof -
  obtain i j where "i < nat m" "j < nat n" "GenerateChunkID sha p (int i) = GenerateChunkID sha q (int j)"
    using assms(2,3) by (auto simp: chunk_ids_def)
  then show ?thesis using GenerateChunkID_inj [OF assms(1), of p "int i" q "int j"] assms(4,5) by simp
qed

subsection \<open>The invariant is kept\<close>

lemma inv_check_dead: "cm_inv cm \<Longrightarrow> cm_inv (fst (cm_CheckDeadNodes it now cm))"
  by (simp add: cm_CheckDeadNodes_def inv_dead_loop)

lemma sv_inv_chunkMgr:
  "sv_inv sha K s \<Longrightarrow> cm_inv cm \<Longrightarrow> chunk_path cm = chunk_path (sv_chunkMgr s) \<Longrightarrow> sv_inv sha K (s\<lparr>sv_chunkMgr := cm\<rparr>)"
  by (simp add: sv_inv_def file_ok_def)

lemma sv_inv_others:
  "sv_inv sha K s \<Longrightarrow> sv_inv sha K (s\<lparr>sv_monitor := m\<rparr>)" "sv_inv sha K s \<Longrightarrow> sv_inv sha K (s\<lparr>sv_migrator := g\<rparr>)"
  unfolding sv_inv_def by auto

lemma file_ok_allocate:
  assumes "inj_on (\<lambda>s. take 8 (sha s)) K" "file_ok sha K cm ps f" "\<forall>i<nat cnt. chunk_key path (int i) \<in> K"
    and "\<And>c. chunk_path cm' c = (if c \<in> set (chunk_ids sha path cnt) then Some path else chunk_path cm c)"
  shows "file_ok sha K cm' ps f"
proof -
  have "chunk_path cm' c = Some (fm_Path f)" if c: "c \<in> set (fm_ChunkIDs f)" for c
  proof (cases "c \<in> set (chunk_ids sha path cnt)")
    case True
    have "path = fm_Path f"
      using chunk_ids_path [OF assms(1) True, of "fm_Path f" "fm_ChunkCount f"] c assms(2,3)
      by (simp add: file_ok_def)
    then show ?thesis using True assms(4) by simp
  next
    case False
    then show ?thesis using assms(2,4) c by (simp add: file_ok_def)
  qed
  then show ?thesis using assms(2) by (simp add: file_ok_def)
qed

lemma sv_inv_put:
  assumes inj: "inj_on (\<lambda>s. take 8 (sha s)) K" and inv: "sv_inv sha K s" and it: "perm_iter it" and srt: "sort_slice srt"
    and K: "\<forall>i<nat (pf_ChunkCount req). chunk_key (pf_Path req) (int i) \<in> K"
    and put: "sv_PutFile it srt sha now req s = (s', Some resp)"
  shows "sv_inv sha K s'"
proof -
  let ?p = "pf_Path req" and ?n = "pf_ChunkCount req"
  obtain cm' r where a: "cm_AllocateChunks it srt sha now ?p ?n (pf_FileSize req) (sv_chunkMgr s) = (cm', r)" by force
  have cmi: "cm_inv (sv_chunkMgr s)" using inv by (simp add: sv_inv_def)
  show ?thesis
  proof (cases r)
    case (Err e)
    then show ?thesis using put a inv allocate_failed [of it srt sha now ?p ?n "pf_FileSize req" "sv_chunkMgr s" cm' e]
      by (auto simp: sv_PutFile_def)
  next
    case Panic
    then show ?thesis using put a by (simp add: sv_PutFile_def)
  next
    case (Ok ps)
    note al = allocate_paths [OF cmi it srt a [unfolded Ok]]
    define meta where "meta = \<lparr>fm_Path = ?p, fm_Size = pf_FileSize req, fm_ChunkCount = ?n,
        fm_ReplicationFactor = DefaultReplicationFactor, fm_Checksum = pf_Checksum req,
        fm_ChunkIDs = map pl_ChunkID ps, fm_CreatedAt = now\<rparr>"
    obtain ns rc where c: "ns_CreateFile (sv_namespace s) ?p meta = (ns, rc)" by force
    have s': "s' = s\<lparr>sv_chunkMgr := cm', sv_namespace := ns\<rparr>"
      using put a Ok c by (auto simp: sv_PutFile_def meta_def [symmetric] Let_def split: sum.splits)
    have old: "file_ok sha K cm' qs f" if "ns_files (sv_namespace s) qs = Some f" for qs f
      using file_ok_allocate [OF inj _ K, of "sv_chunkMgr s" qs f cm'] al(3) that inv by (simp add: sv_inv_def)
    have nsi: "ns_inv (sv_namespace s)" using inv by (simp add: sv_inv_def)
    show ?thesis
    proof (cases rc)
      case (Inl e)
      then have "ns = sv_namespace s" using ns.create_err [OF c [unfolded Inl]] nsi by blast
      then show ?thesis using old nsi al(1) unfolding s' sv_inv_def by simp
    next
      case (Inr u)
      note cr = ns.create_ok [OF c [unfolded Inr] nsi]
      have "file_ok sha K cm' (ns_target ?p) meta"
        using al(2,3) K by (simp add: file_ok_def meta_def)
      then show ?thesis using old cr al(1) unfolding s' sv_inv_def by auto
    qed
  qed
qed

lemma sv_inv_delete:
  assumes inj: "inj_on (\<lambda>s. take 8 (sha s)) K" and inv: "sv_inv sha K s"
    and del: "sv_DeleteFile it path s = (s', Some resp)"
  shows "sv_inv sha K s'"
proof -
  have nsi: "ns_inv (sv_namespace s)" using inv by (simp add: sv_inv_def)
  obtain ns r where d: "ns_DeleteFile (sv_namespace s) path = (ns, r)" by force
  show ?thesis
  proof (cases r)
    case (Inl e)
    then have "ns = sv_namespace s" using ns.remove_err [OF d [unfolded Inl]] nsi by blast
    then show ?thesis using inv del d Inl by (auto simp: sv_DeleteFile_def)
  next
    case (Inr fo)
    note rm = ns.remove_ok [OF d [unfolded Inr] nsi]
    then obtain f where f: "fo = Some f" "ns_files (sv_namespace s) (ns_target path) = Some f" by auto
    let ?cm = "fst (cm_RemoveChunks it (fm_ChunkIDs f) (sv_chunkMgr s))"
    have s': "s' = s\<lparr>sv_namespace := ns, sv_chunkMgr := ?cm\<rparr>"
      using del d Inr f by (auto simp: sv_DeleteFile_def)
    have fok: "file_ok sha K (sv_chunkMgr s) (ns_target path) f" using inv f(2) by (simp add: sv_inv_def)
    have "file_ok sha K ?cm ps g" if g: "ns_files ns ps = Some g" for ps g
    proof -
      have ps: "ps \<noteq> ns_target path" "ns_files (sv_namespace s) ps = Some g"
        using g rm by (auto split: if_splits)
      then have gok: "file_ok sha K (sv_chunkMgr s) ps g" using inv by (simp add: sv_inv_def)
      have "c \<notin> set (fm_ChunkIDs f)" if "c \<in> set (fm_ChunkIDs g)" for c
        using chunk_ids_path [OF inj, of c "fm_Path f" "fm_ChunkCount f" "fm_Path g" "fm_ChunkCount g"] fok gok ps(1) that
        by (auto simp: file_ok_def)
      then show ?thesis using gok by (simp add: file_ok_def path_remove)
    qed
    then show ?thesis
      using rm inv inv_remove [of "sv_chunkMgr s" it "fm_ChunkIDs f"] unfolding s' sv_inv_def by simp
  qed
qed

inductive_cases sv_stepE: "sv_step sha K s s'"

lemma sv_inv_step:
  assumes "inj_on (\<lambda>s. take 8 (sha s)) K" "sv_step sha K s s'" "sv_inv sha K s"
  shows "sv_inv sha K s'"
proof -
  have cmi: "cm_inv (sv_chunkMgr s)" using assms(3) by (simp add: sv_inv_def)
  show ?thesis
    using assms(2)
  proof cases
    case (put it srt req now resp)
    then show ?thesis using sv_inv_put [OF assms(1,3)] by blast
  next
    case (delete it path resp)
    then show ?thesis using sv_inv_delete [OF assms(1,3)] by blast
  next
    case (register it now address capacity)
    then show ?thesis using sv_inv_chunkMgr [OF assms(3)] inv_register [OF cmi] by (simp add: server_views)
  next
    case (heartbeat now hb)
    then show ?thesis using sv_inv_chunkMgr [OF assms(3)] inv_heartbeat [OF cmi] by (simp add: server_views)
  next
    case (report metrics)
    then show ?thesis using sv_inv_others(1) [OF assms(3)] by (simp add: server_views)
  next
    case (dead_check it now)
    then show ?thesis using sv_inv_chunkMgr [OF assms(3)] inv_check_dead [OF cmi] by (simp add: server_views)
  next
    case (predict it now)
    then show ?thesis using sv_inv_chunkMgr [OF assms(3) inv_predict [OF cmi] path_predict] by (simp add: server_views)
  next
    case (migrated_to n c)
    then show ?thesis
      using sv_inv_chunkMgr [OF assms(3)] inv_AddChunkToNode [OF cmi] by (simp add: cm_registered_def)
  next
    case (migrated_from c n)
    then show ?thesis using sv_inv_chunkMgr [OF assms(3)] inv_RemoveChunkFromNode [OF cmi] by simp
  next
    case (migrator m)
    then show ?thesis using sv_inv_others(2) [OF assms(3)] by simp
  qed
qed

lemma sv_inv_new: "sv_inv sha K NewServer"
  using inv_new by (simp add: sv_inv_def NewServer_def NewNamespace_def ns_files_def)
    (auto split: list.splits option.splits elim!: walk.elims)

lemma sv_inv_reachable:
  assumes "inj_on (\<lambda>s. take 8 (sha s)) K" "sv_reachable sha K s"
  shows "sv_inv sha K s"
  using assms(2) by induction (auto intro: sv_inv_new sv_inv_step [OF assms(1)])

subsection \<open>Handlers on stored files\<close>

lemma locate_ok:
  assumes "map_of (cm_chunks cm) c = Some m" "ck_ChunkID m = c"
  shows "(\<exists>l. locate_chunk cm c = Inr l) \<longleftrightarrow>
      (\<exists>nid\<in>set (replicas cm c). \<exists>n. map_of (cm_nodes cm) nid = Some n \<and> dni_Status n \<noteq> StatusDead)"
    and "locate_chunk cm c = Inr l \<Longrightarrow> lo_ChunkID l = c"
proof -
  have "live_replicas cm m \<noteq> [] \<longleftrightarrow> set (live_replicas cm m) \<noteq> {}" by simp
  then show "(\<exists>l. locate_chunk cm c = Inr l) \<longleftrightarrow>
      (\<exists>nid\<in>set (replicas cm c). \<exists>n. map_of (cm_nodes cm) nid = Some n \<and> dni_Status n \<noteq> StatusDead)"
    unfolding live_replicas_set using assms by (auto simp: locate_chunk_def replicas_def Let_def)
  show "locate_chunk cm c = Inr l \<Longrightarrow> lo_ChunkID l = c"
    using assms by (auto simp: locate_chunk_def Let_def split: if_splits)
qed

lemma GetFile_live:
  assumes "ns_GetFile (sv_namespace s) path = Inr (Some f)"
    and "\<And>c. c \<in> set (fm_ChunkIDs f) \<Longrightarrow> \<exists>m. map_of (cm_chunks (sv_chunkMgr s)) c = Some m \<and> ck_ChunkID m = c"
  shows "\<exists>resp. sv_GetFile path s = Some resp \<and>
     (gfr_Success resp \<longleftrightarrow> (\<forall>c\<in>set (fm_ChunkIDs f). \<exists>nid\<in>set (replicas (sv_chunkMgr s) c). \<exists>n.
        map_of (cm_nodes (sv_chunkMgr s)) nid = Some n \<and> dni_Status n \<noteq> StatusDead))"
proof -
  let ?cm = "sv_chunkMgr s"
  have live: "(\<forall>c\<in>set (fm_ChunkIDs f). \<exists>nid\<in>set (replicas ?cm c). \<exists>n. map_of (cm_nodes ?cm) nid = Some n \<and>
        dni_Status n \<noteq> StatusDead) \<longleftrightarrow> (\<exists>locs. cm_GetChunkLocations ?cm (fm_ChunkIDs f) = Inr locs)"
    unfolding GetChunkLocations_succeeds using locate_ok(1) assms(2) by (metis (no_types, lifting))
  show ?thesis
  proof (cases "cm_GetChunkLocations ?cm (fm_ChunkIDs f)")
    case (Inl e)
    then show ?thesis using assms(1) unfolding live by (simp add: sv_GetFile_def Let_def)
  next
    case (Inr locs)
    then have m: "map (locate_chunk ?cm) (fm_ChunkIDs f) = map Inr locs" by (simp add: GetChunkLocations_all)
    have "cm_GetChunkMeta ?cm (lo_ChunkID l) \<noteq> None" if "l \<in> set locs" for l
    proof -
      have "Inr l \<in> set (map (locate_chunk ?cm) (fm_ChunkIDs f))" unfolding m using that by simp
      then obtain c where c: "c \<in> set (fm_ChunkIDs f)" "locate_chunk ?cm c = Inr l" by auto
      obtain cmeta where cm: "map_of (cm_chunks ?cm) c = Some cmeta" "ck_ChunkID cmeta = c" using assms(2) [OF c(1)] by blast
      show ?thesis using locate_ok(2) [OF cm c(2)] cm by (simp add: cm_GetChunkMeta_def)
    qed
    then have "None \<notin> set (map (\<lambda>l. cm_GetChunkMeta ?cm (lo_ChunkID l)) locs)" by force
    then show ?thesis using assms(1) Inr unfolding live by (simp add: sv_GetFile_def Let_def)
  qed
qed

section \<open>Properties\<close>

text \<open>A server with three nodes that stored a file of two chunks.\<close>

definition demo_reg :: "string \<Rightarrow> Server \<Rightarrow> Server" where
  "demo_reg a s = fst (sv_RegisterNode (\<lambda>ks. ks) 0 a 1000 s)"

definition demo_put :: PutFileRequest where
  "demo_put = \<lparr>pf_Path = ''/f'', pf_FileSize = 5000000, pf_ChunkCount = 2, pf_Checksum = ''x''\<rparr>"

definition demo_sv0 :: Server where
  "demo_sv0 = demo_reg ''c:1'' (demo_reg ''b:1'' (demo_reg ''a:1'' NewServer))"

definition demo_sv :: Server where
  "demo_sv = fst (sv_PutFile (\<lambda>ks. ks) insertion_sort rev 0 demo_put demo_sv0)"

definition demo_K :: "bytes set" where
  "demo_K = {chunk_key ''/f'' 0, chunk_key ''/f'' 1}"

lemma demo_K_inj: "inj_on (\<lambda>s. take 8 (rev s)) demo_K"
proof -
  have "take 8 (rev (chunk_key ''/f'' 0)) \<noteq> take 8 (rev (chunk_key ''/f'' 1))" by code_simp
  then show ?thesis by (auto simp: demo_K_def inj_on_def)
qed

lemma demo_sv0_reachable: "sv_reachable sha K demo_sv0"
  unfolding demo_sv0_def demo_reg_def
  by (intro sv_reachable.new sv_reachable.step [OF _ sv_step.register] perm_iter_id)

lemma demo_put_ok:
  "\<exists>resp. sv_PutFile (\<lambda>ks. ks) insertion_sort rev 0 demo_put demo_sv0 = (demo_sv, Some resp) \<and> pfr_Success resp"
proof -
  have "case snd (sv_PutFile (\<lambda>ks. ks) insertion_sort rev 0 demo_put demo_sv0) of None \<Rightarrow> False | Some r \<Rightarrow> pfr_Success r"
    by code_simp
  then show ?thesis
    unfolding demo_sv_def by (cases "sv_PutFile (\<lambda>ks. ks) insertion_sort rev 0 demo_put demo_sv0") (auto split: option.splits)
qed

lemma demo_put_keys: "\<forall>i<nat (pf_ChunkCount demo_put). chunk_key (pf_Path demo_put) (int i) \<in> demo_K"
  by (auto simp: demo_put_def demo_K_def less_Suc_eq numeral_2_eq_2)

lemma demo_sv_reachable: "sv_reachable rev demo_K demo_sv"
proof -
  obtain resp where "sv_PutFile (\<lambda>ks. ks) insertion_sort rev 0 demo_put demo_sv0 = (demo_sv, Some resp)"
    using demo_put_ok by blast
  from sv_step.put [OF perm_iter_id go_sort.sort_slice_axioms demo_put_keys this]
  show ?thesis by (rule sv_reachable.step [OF demo_sv0_reachable])
qed

text \<open>
  C12: In every state the metadata server can reach, by any sequence of requests, background ticks
  and migration updates, every file the namespace knows is fully described by the chunk map: its
  chunk IDs are those of its path in order, \<open>GetFileInfo\<close> returns metadata for all of them, and
  \<open>GetFile\<close> does not panic and succeeds exactly if every chunk has a registered node that is not
  dead. (For this, no two strings hashed for chunk IDs collide in the first eight digest bytes.)
\<close>

theorem stored_files_have_chunks:
  assumes "inj_on (\<lambda>s. take 8 (sha s)) K" "sv_reachable sha K s"
    and "ns_GetFile (sv_namespace s) path = Inr (Some f)"
  shows "fm_ChunkIDs f = chunk_ids sha (fm_Path f) (fm_ChunkCount f) \<and>
    (\<exists>info. sv_GetFileInfo path s = Some \<lparr>gir_Success = True, gir_FileInfo = Some info\<rparr> \<and>
       map (map_option ci_ChunkId) (fi_Chunks info) = map Some (fm_ChunkIDs f)) \<and>
    (\<exists>resp. sv_GetFile path s = Some resp \<and>
       (gfr_Success resp \<longleftrightarrow> (\<forall>c\<in>set (fm_ChunkIDs f). \<exists>nid\<in>set (replicas (sv_chunkMgr s) c). \<exists>n.
          map_of (cm_nodes (sv_chunkMgr s)) nid = Some n \<and> dni_Status n \<noteq> StatusDead)))"
proof -
  note inv = sv_inv_reachable [OF assms(1,2)]
  have nsi: "ns_inv (sv_namespace s)" and cmi: "cm_inv (sv_chunkMgr s)" using inv by (simp_all add: sv_inv_def)
  have "ns_files (sv_namespace s) (ns_cleanPath path) = Some f" using ns.get_iff [OF nsi] assms(3) by blast
  then have ok: "file_ok sha K (sv_chunkMgr s) (ns_cleanPath path) f" using inv by (simp add: sv_inv_def)
  have meta: "\<exists>m. map_of (cm_chunks (sv_chunkMgr s)) c = Some m \<and> ck_ChunkID m = c" if "c \<in> set (fm_ChunkIDs f)" for c
  proof -
    have "chunk_path (sv_chunkMgr s) c = Some (fm_Path f)" using ok that by (simp add: file_ok_def)
    then show ?thesis using inv_parts(4) [OF cmi, of c] by (auto simp: chunk_path_def)
  qed
  have infos: "map (map_option ci_ChunkId \<circ> (\<lambda>c. map_option chunk_info (cm_GetChunkMeta (sv_chunkMgr s) c))) (fm_ChunkIDs f)
      = map Some (fm_ChunkIDs f)"
    using meta by (intro map_cong refl) (force simp: cm_GetChunkMeta_def chunk_info_def)
  have "\<exists>info. sv_GetFileInfo path s = Some \<lparr>gir_Success = True, gir_FileInfo = Some info\<rparr> \<and>
       map (map_option ci_ChunkId) (fi_Chunks info) = map Some (fm_ChunkIDs f)"
    using assms(3) infos by (simp add: sv_GetFileInfo_def file_info_def)
  moreover have "\<exists>resp. sv_GetFile path s = Some resp \<and>
       (gfr_Success resp \<longleftrightarrow> (\<forall>c\<in>set (fm_ChunkIDs f). \<exists>nid\<in>set (replicas (sv_chunkMgr s) c). \<exists>n.
          map_of (cm_nodes (sv_chunkMgr s)) nid = Some n \<and> dni_Status n \<noteq> StatusDead))"
    by (rule GetFile_live [OF assms(3) meta])
  ultimately show ?thesis using ok by (simp add: file_ok_def)
qed

theorem stored_files_have_chunks_witness:
  "\<exists>f resp. ns_GetFile (sv_namespace demo_sv) ''/f'' = Inr (Some f) \<and>
     fm_ChunkIDs f = chunk_ids rev ''/f'' 2 \<and> sv_GetFile ''/f'' demo_sv = Some resp"
proof -
  have "case ns_GetFile (sv_namespace demo_sv) ''/f'' of Inr (Some f) \<Rightarrow> fm_Path f = ''/f'' \<and> fm_ChunkCount f = 2 | _ \<Rightarrow> False"
    by code_simp
  then obtain f where f: "ns_GetFile (sv_namespace demo_sv) ''/f'' = Inr (Some f)" "fm_Path f = ''/f''" "fm_ChunkCount f = 2"
    by (auto split: sum.splits option.splits)
  from stored_files_have_chunks [OF demo_K_inj demo_sv_reachable f(1)] f show ?thesis by auto
qed

text \<open>A successful put, on the components.\<close>

lemma put_success:
  assumes "ns_inv (sv_namespace s)" "sv_PutFile it srt sha now req s = (s', Some resp)" "pfr_Success resp"
  obtains ps where
    "cm_AllocateChunks it srt sha now (pf_Path req) (pf_ChunkCount req) (pf_FileSize req) (sv_chunkMgr s) = (sv_chunkMgr s', Ok ps)"
    "ns_CreateFile (sv_namespace s) (pf_Path req) \<lparr>fm_Path = pf_Path req, fm_Size = pf_FileSize req,
        fm_ChunkCount = pf_ChunkCount req, fm_ReplicationFactor = DefaultReplicationFactor,
        fm_Checksum = pf_Checksum req, fm_ChunkIDs = map pl_ChunkID ps, fm_CreatedAt = now\<rparr> = (sv_namespace s', Inr ())"
    "ns_files (sv_namespace s') = (ns_files (sv_namespace s))(ns_target (pf_Path req) \<mapsto>
      \<lparr>fm_Path = pf_Path req, fm_Size = pf_FileSize req, fm_ChunkCount = pf_ChunkCount req,
        fm_ReplicationFactor = DefaultReplicationFactor, fm_Checksum = pf_Checksum req,
        fm_ChunkIDs = map pl_ChunkID ps, fm_CreatedAt = now\<rparr>)"
    "pfr_Placements resp = map (\<lambda>p. \<lparr>cp_ChunkId = pl_ChunkID p, cp_ChunkIndex = int32 (pl_ChunkIndex p),
        cp_NodeAddresses = pl_NodeAddresses p, cp_NodeIds = pl_NodeIDs p\<rparr>) ps"
proof -
  let ?p = "pf_Path req" and ?n = "pf_ChunkCount req"
  obtain cm' r where a: "cm_AllocateChunks it srt sha now ?p ?n (pf_FileSize req) (sv_chunkMgr s) = (cm', r)" by force
  then obtain ps where Ok: "r = Ok ps"
    using assms(2,3) by (cases r) (auto simp: sv_PutFile_def)
  define meta where "meta = \<lparr>fm_Path = ?p, fm_Size = pf_FileSize req, fm_ChunkCount = ?n,
        fm_ReplicationFactor = DefaultReplicationFactor, fm_Checksum = pf_Checksum req,
        fm_ChunkIDs = map pl_ChunkID ps, fm_CreatedAt = now\<rparr>"
  obtain ns rc where c: "ns_CreateFile (sv_namespace s) ?p meta = (ns, rc)" by force
  then have Inr: "rc = Inr ()"
    using assms(2,3) a Ok by (cases rc) (auto simp: sv_PutFile_def meta_def [symmetric] Let_def)
  have s': "s' = s\<lparr>sv_chunkMgr := cm', sv_namespace := ns\<rparr>"
    and pl: "pfr_Placements resp = map (\<lambda>p. \<lparr>cp_ChunkId = pl_ChunkID p, cp_ChunkIndex = int32 (pl_ChunkIndex p),
                      cp_NodeAddresses = pl_NodeAddresses p, cp_NodeIds = pl_NodeIDs p\<rparr>) ps"
    using assms(2) a Ok c Inr by (auto simp: sv_PutFile_def meta_def [symmetric] Let_def)
  have "ns_files ns = (ns_files (sv_namespace s))(ns_target ?p \<mapsto> meta)"
    using ns.create_ok [OF c [unfolded Inr] assms(1)] by blast
  then show thesis
    using that [of ps] a Ok c Inr s' pl by (simp add: meta_def)
qed

text \<open>What a round of predictions does to one node.\<close>

text \<open>A put, refused or not, touches no other file.\<close>

lemma put_other_files:
  assumes "ns_inv (sv_namespace s)" "sv_PutFile it srt sha now req s = (s', Some resp)" "ps \<noteq> ns_target (pf_Path req)"
  shows "ns_files (sv_namespace s') ps = ns_files (sv_namespace s) ps"
proof (cases "pfr_Success resp")
  case True
  show ?thesis by (rule put_success [OF assms(1,2) True]) (use assms(3) in auto)
next
  case False
  have "sv_namespace s' = sv_namespace s"
    using assms(2) False ns.create_err [OF _ assms(1)]
    by (auto simp: sv_PutFile_def Let_def split: prod.splits outcome.splits sum.splits)
  then show ?thesis by simp
qed

lemma PredictAll_sound: "\<forall>r\<in>set (PredictAll it now m). PredictNode now m (pr_NodeID r) = Some r"
proof -
  have id: "PredictNode now m k = Some r \<Longrightarrow> pr_NodeID r = k" for k r
    by (auto simp: PredictNode_def Let_def split: option.splits prod.splits)
  have "set (List.map_filter (PredictNode now m) ks) \<subseteq> {r. PredictNode now m (pr_NodeID r) = Some r}" for ks
    using id by (induction ks) (auto simp: List.map_filter_def)
  then show ?thesis unfolding PredictAll_def by blast
qed

lemma PredictAll_complete:
  assumes "perm_iter it" "mon_GetNodeMetrics m n = Some nm"
  shows "\<exists>r. PredictNode now m n = Some r \<and> pr_NodeID r = n \<and> r \<in> set (PredictAll it now m)"
proof -
  have n: "n \<in> set (mon_GetAllNodeIDs it m)"
    using assms by (auto simp: mon_GetAllNodeIDs_def ms_AllNodeIDs_def mon_GetNodeMetrics_def ms_Get_def dest: map_of_Some_key)
  have mem: "k \<in> set ks \<Longrightarrow> PredictNode now m k = Some r \<Longrightarrow> r \<in> set (List.map_filter (PredictNode now m) ks)" for k ks r
    by (induction ks) (auto simp: List.map_filter_def)
  obtain r where "PredictNode now m n = Some r" "pr_NodeID r = n" by (rule PredictNode_Some [OF assms(2)])
  then show ?thesis using mem [OF n] unfolding PredictAll_def by auto
qed

lemma health_node:
  "map_of (cm_nodes (cm_UpdateNodeHealth k st risk cm)) n =
     (if k = n then map_option (\<lambda>n. n\<lparr>dni_Status := st, dni_RiskScore := risk\<rparr>) (map_of (cm_nodes cm) n)
      else map_of (cm_nodes cm) n)"
  by (auto simp: cm_UpdateNodeHealth_def cm_simps split: option.splits)

lemma predict_fold_node:
  assumes "\<forall>q\<in>set rs. pr_NodeID q = n \<longrightarrow> q = r" "r \<in> set rs" "pr_NodeID r = n"
    and "map_of (cm_nodes cm) n = Some node"
  shows "map_of (cm_nodes (fold (\<lambda>r. cm_UpdateNodeHealth (pr_NodeID r) (pr_Status r) (pr_OverallRisk r)) rs cm)) n =
    Some (node\<lparr>dni_Status := pr_Status r, dni_RiskScore := pr_OverallRisk r\<rparr>)"
  using assms
proof (induction rs arbitrary: cm node)
  case (Cons q rs)
  let ?cm = "cm_UpdateNodeHealth (pr_NodeID q) (pr_Status q) (pr_OverallRisk q) cm"
  show ?case
  proof (cases "r \<in> set rs")
    case True
    obtain node2 where n2: "map_of (cm_nodes ?cm) n = Some node2"
      "node2\<lparr>dni_Status := pr_Status r, dni_RiskScore := pr_OverallRisk r\<rparr> =
       node\<lparr>dni_Status := pr_Status r, dni_RiskScore := pr_OverallRisk r\<rparr>"
      using Cons.prems(4) by (cases "pr_NodeID q = n") (simp_all add: health_node)
    have u: "\<forall>x\<in>set rs. pr_NodeID x = n \<longrightarrow> x = r" using Cons.prems(1) by simp
    show ?thesis using Cons.IH [OF u True Cons.prems(3) n2(1)] n2(2) by simp
  next
    case False
    then have q: "q = r" using Cons.prems(2) by simp
    have "\<forall>x\<in>set rs. pr_NodeID x \<noteq> n" using Cons.prems(1) False by auto
    then have "map_of (cm_nodes (fold (\<lambda>r. cm_UpdateNodeHealth (pr_NodeID r) (pr_Status r) (pr_OverallRisk r)) rs c)) n =
        map_of (cm_nodes c) n" for c
      by (induction rs arbitrary: c) (auto simp: health_node)
    then show ?thesis using Cons.prems(3,4) q by (simp add: health_node)
  qed
qed simp

text \<open>Locating a file just put.\<close>

lemma put_get_locations:
  assumes "ns_inv (sv_namespace s)" "cm_inv (sv_chunkMgr s)" "perm_iter it" "sort_slice srt"
    and "inj_on (\<lambda>i. GenerateChunkID sha (pf_Path req) (int i)) {..<nat (pf_ChunkCount req)}"
    and "plain (pf_Path req)" "sv_PutFile it srt sha now req s = (s', Some resp)" "pfr_Success resp"
  shows "\<exists>g info. sv_GetFile (pf_Path req) s' = Some g \<and> gfr_Success g \<and>
    gfr_FileInfo g = Some info \<and> fi_Path info = pf_Path req \<and> fi_Size info = pf_FileSize req \<and>
    gfr_ChunkLocations g = map (\<lambda>p. \<lparr>cl_ChunkId = cp_ChunkId p, cl_ChunkIndex = cp_ChunkIndex p,
      cl_NodeAddresses = cp_NodeAddresses p, cl_NodeIds = cp_NodeIds p\<rparr>) (pfr_Placements resp)"
proof -
  let ?p = "pf_Path req" and ?n = "pf_ChunkCount req"
  let ?cm = "sv_chunkMgr s'"
  obtain ps where a: "cm_AllocateChunks it srt sha now ?p ?n (pf_FileSize req) (sv_chunkMgr s) = (?cm, Ok ps)"
    and c: "ns_CreateFile (sv_namespace s) ?p \<lparr>fm_Path = ?p, fm_Size = pf_FileSize req, fm_ChunkCount = ?n,
        fm_ReplicationFactor = DefaultReplicationFactor, fm_Checksum = pf_Checksum req,
        fm_ChunkIDs = map pl_ChunkID ps, fm_CreatedAt = now\<rparr> = (sv_namespace s', Inr ())"
    and pl: "pfr_Placements resp = map (\<lambda>p. \<lparr>cp_ChunkId = pl_ChunkID p, cp_ChunkIndex = int32 (pl_ChunkIndex p),
                      cp_NodeAddresses = pl_NodeAddresses p, cp_NodeIds = pl_NodeIDs p\<rparr>) ps"
    by (rule put_success [OF assms(1,7,8)]) blast
  note get = ns.get_create(1) [OF c assms(1), of ?p, OF sym, OF plain_target(1) [OF assms(6)]]
  note loc = locate_after_allocate [OF assms(2-4) a assms(5)]
  have "cm_GetChunkMeta ?cm (pl_ChunkID p) \<noteq> None" if "p \<in> set ps" for p
  proof -
    have "chunk_path ?cm (pl_ChunkID p) = Some ?p"
      using allocate_paths(3) [OF assms(2-4) a, of "pl_ChunkID p"] that
        allocate_paths(2) [OF assms(2-4) a] by (metis image_eqI list.set_map)
    then show ?thesis by (auto simp: chunk_path_def cm_GetChunkMeta_def)
  qed
  then have "None \<notin> set (map (\<lambda>p. cm_GetChunkMeta ?cm (pl_ChunkID p)) ps)" by force
  then show ?thesis
    using get loc by (simp add: sv_GetFile_def pl file_info_def comp_def Let_def)
qed

text \<open>
  A file just put can be located: after a successful \<open>PutFile\<close> at a plain path, \<open>GetFile\<close> at
  that path succeeds and returns the path and size stored, and for every chunk
  exactly the nodes and addresses that the put handed to the client.
\<close>

theorem put_then_get:
  assumes "ns_inv (sv_namespace s)" "cm_inv (sv_chunkMgr s)" "perm_iter it" "sort_slice srt"
    and "inj_on (\<lambda>i. GenerateChunkID sha (pf_Path req) (int i)) {..<nat (pf_ChunkCount req)}"
    and "plain (pf_Path req)" "sv_PutFile it srt sha now req s = (s', Some resp)" "pfr_Success resp"
  shows "\<exists>g info. sv_GetFile (pf_Path req) s' = Some g \<and> gfr_Success g \<and>
    gfr_FileInfo g = Some info \<and> fi_Path info = pf_Path req \<and> fi_Size info = pf_FileSize req \<and>
    gfr_ChunkLocations g = map (\<lambda>p. \<lparr>cl_ChunkId = cp_ChunkId p, cl_ChunkIndex = cp_ChunkIndex p,
      cl_NodeAddresses = cp_NodeAddresses p, cl_NodeIds = cp_NodeIds p\<rparr>) (pfr_Placements resp)"
  using assms by (rule put_get_locations)

theorem put_then_get_witness:
  "\<exists>g. sv_GetFile ''/f'' demo_sv = Some g \<and> gfr_Success g \<and> length (gfr_ChunkLocations g) = 2"
proof -
  obtain resp where r: "sv_PutFile (\<lambda>ks. ks) insertion_sort rev 0 demo_put demo_sv0 = (demo_sv, Some resp)" "pfr_Success resp"
    using demo_put_ok by blast
  have inv: "sv_inv rev {} demo_sv0" by (rule sv_inv_reachable [OF _ demo_sv0_reachable]) simp
  have ids: "inj_on (\<lambda>i. GenerateChunkID rev (pf_Path demo_put) (int i)) {..<nat (pf_ChunkCount demo_put)}"
    using demo_ids by (simp add: demo_put_def)
  have pp: "plain (pf_Path demo_put)" by code_simp
  have "case snd (sv_PutFile (\<lambda>ks. ks) insertion_sort rev 0 demo_put demo_sv0) of None \<Rightarrow> False
      | Some r \<Rightarrow> length (pfr_Placements r) = 2" by code_simp
  then have "length (pfr_Placements resp) = 2" by (simp add: r)
  then show ?thesis
    using put_then_get [OF _ _ perm_iter_id go_sort.sort_slice_axioms ids pp r] inv
    by (auto simp: sv_inv_def demo_put_def)
qed

text \<open>
  A deleted file is gone: after a successful \<open>DeleteFile\<close> at a plain path, \<open>GetFile\<close> at that path
  reports an error, the file's chunks have no metadata left, and every other file keeps its entry.
\<close>

theorem delete_then_get:
  assumes "ns_inv (sv_namespace s)" "plain path"
    and "sv_DeleteFile it path s = (s', Some resp)" "dfr_Success resp"
  shows "\<exists>f g. ns_files (sv_namespace s) (ns_target path) = Some f \<and>
    sv_GetFile path s' = Some g \<and> \<not> gfr_Success g \<and>
    (\<forall>c\<in>set (fm_ChunkIDs f). cm_GetChunkMeta (sv_chunkMgr s') c = None) \<and>
    (\<forall>c. c \<notin> set (fm_ChunkIDs f) \<longrightarrow>
       chunk_path (sv_chunkMgr s') c = chunk_path (sv_chunkMgr s) c) \<and>
    (\<forall>ps. ps \<noteq> ns_target path \<longrightarrow> ns_files (sv_namespace s') ps = ns_files (sv_namespace s) ps)"
proof -
  obtain ns r where d: "ns_DeleteFile (sv_namespace s) path = (ns, r)" by force
  then obtain fo where Inr: "r = Inr fo"
    using assms(3,4) by (cases r) (auto simp: sv_DeleteFile_def)
  note rm = ns.remove_ok [OF d [unfolded Inr] assms(1)]
  then obtain f where f: "fo = Some f" "ns_files (sv_namespace s) (ns_target path) = Some f" by auto
  have s': "s' = s\<lparr>sv_namespace := ns, sv_chunkMgr := fst (cm_RemoveChunks it (fm_ChunkIDs f) (sv_chunkMgr s))\<rparr>"
    using assms(3) d Inr f by (auto simp: sv_DeleteFile_def)
  obtain e where "ns_GetFile ns path = Inl e"
    using ns.get_remove(1) [OF d [unfolded Inr] assms(1), of path] plain_target [OF assms(2)] by auto
  then have g: "sv_GetFile path s' = Some \<lparr>gfr_Success = False, gfr_Message = ns_Error e, gfr_FileInfo = None, gfr_ChunkLocations = []\<rparr>"
    by (simp add: sv_GetFile_def s')
  have "\<forall>c\<in>set (fm_ChunkIDs f). cm_GetChunkMeta (sv_chunkMgr s') c = None"
  proof
    fix c assume "c \<in> set (fm_ChunkIDs f)"
    then have "chunk_path (sv_chunkMgr s') c = None" by (simp add: s' path_remove)
    then show "cm_GetChunkMeta (sv_chunkMgr s') c = None" by (simp add: chunk_path_def cm_GetChunkMeta_def)
  qed
  then show ?thesis using f(2) g rm by (simp add: s' path_remove)
qed

theorem delete_then_get_witness:
  "\<exists>s' resp g. sv_DeleteFile (\<lambda>ks. ks) ''/f'' demo_sv = (s', Some resp) \<and> dfr_Success resp \<and>
     sv_GetFile ''/f'' s' = Some g \<and> \<not> gfr_Success g"
proof -
  have "case snd (sv_DeleteFile (\<lambda>ks. ks) ''/f'' demo_sv) of None \<Rightarrow> False | Some r \<Rightarrow> dfr_Success r" by code_simp
  then obtain s' resp where d: "sv_DeleteFile (\<lambda>ks. ks) ''/f'' demo_sv = (s', Some resp)" "dfr_Success resp"
    by (cases "sv_DeleteFile (\<lambda>ks. ks) ''/f'' demo_sv") (auto split: option.splits)
  have "ns_inv (sv_namespace demo_sv)"
    using sv_inv_reachable [OF demo_K_inj demo_sv_reachable] by (simp add: sv_inv_def)
  moreover have "plain ''/f''" by code_simp
  ultimately show ?thesis using delete_then_get [OF _ _ d] d by blast
qed

text \<open>
  C34: The prediction loop overrides the dead-node check. It writes a status for every node that ever
  reported metrics, computed from the (possibly old) windows, and that status is never DEAD: after
  a round no such node is marked dead, however long it has been silent, so its chunks are offered
  to clients again until the next dead-node check.
\<close>

theorem prediction_revives_dead_nodes:
  assumes "perm_iter it" "mon_GetNodeMetrics (sv_monitor s) n = Some nm" "map_of (cm_nodes (sv_chunkMgr s)) n = Some node"
    and "predictionLoop_tick it now s = (s', started)"
  shows "\<exists>node' r. PredictNode now (sv_monitor s) n = Some r \<and>
    map_of (cm_nodes (sv_chunkMgr s')) n = Some node' \<and>
    dni_Status node' = RiskToStatus (pr_OverallRisk r) \<and> dni_Status node' \<noteq> StatusDead \<and>
    dni_LastHeartbeat node' = dni_LastHeartbeat node"
proof -
  let ?rs = "PredictAll it now (sv_monitor s)"
  have member: "\<forall>r\<in>set ?rs. PredictNode now (sv_monitor s) (pr_NodeID r) = Some r"
    by (rule PredictAll_sound)
  obtain r where r: "PredictNode now (sv_monitor s) n = Some r" "pr_NodeID r = n" "r \<in> set ?rs"
    using PredictAll_complete [OF assms(1,2)] by blast
  have st: "pr_Status r = RiskToStatus (pr_OverallRisk r)"
    by (rule PredictNode_Some [OF assms(2), of now]) (use r in auto)
  have uniq: "\<forall>q\<in>set ?rs. pr_NodeID q = n \<longrightarrow> q = r" using member r(1) by auto
  have "map_of (cm_nodes (sv_chunkMgr s')) n =
      Some (node\<lparr>dni_Status := pr_Status r, dni_RiskScore := pr_OverallRisk r\<rparr>)"
    using predict_fold_node [OF uniq r(3,2) assms(3)] assms(4) by (auto simp: predictionLoop_tick_def Let_def)
  then show ?thesis using r st by (simp add: RiskToStatus_def)
qed

definition demo_dead :: Server where
  "demo_dead = deadNodeChecker_tick (\<lambda>ks. ks) (60 * Second)
     (fst (sv_ReportHealth (Some \<lparr>hm_NodeId = ''node-1'', hm_DiskIoLatencyMs = 1, hm_DiskUtilization = 0,
       hm_ErrorCount = 0, hm_ResponseTimeMs = 1, hm_CpuUsage = 0, hm_MemoryUsage = 0, hm_Timestamp = 0\<rparr>) demo_sv))"

theorem prediction_revives_dead_nodes_witness:
  "map_option dni_Status (map_of (cm_nodes (sv_chunkMgr demo_dead)) ''node-1'') = Some StatusDead \<and>
   map_option (\<lambda>n. dni_Status n = StatusDead) (map_of (cm_nodes (sv_chunkMgr
     (fst (predictionLoop_tick (\<lambda>ks. ks) (61 * Second) demo_dead)))) ''node-1'') = Some False"
proof -
  have d: "map_option dni_Status (map_of (cm_nodes (sv_chunkMgr demo_dead)) ''node-1'') = Some StatusDead" by code_simp
  then obtain node where node: "map_of (cm_nodes (sv_chunkMgr demo_dead)) ''node-1'' = Some node" by auto
  have "map_option (\<lambda>_. ()) (mon_GetNodeMetrics (sv_monitor demo_dead) ''node-1'') = Some ()" by code_simp
  then obtain nm where nm: "mon_GetNodeMetrics (sv_monitor demo_dead) ''node-1'' = Some nm" by auto
  obtain s' st where t: "predictionLoop_tick (\<lambda>ks. ks) (61 * Second) demo_dead = (s', st)" by force
  from prediction_revives_dead_nodes [OF perm_iter_id nm node t] show ?thesis using d t by auto
qed

text \<open>
  A client can stop the metadata server: with a healthy node present, a \<open>PutFile\<close> request with a
  negative chunk count makes the allocation panic in \<open>make\<close>, and the handler does not return.
\<close>

theorem negative_chunk_count_panics:
  assumes "cm_healthyNodes it now (sv_chunkMgr s) \<noteq> []"
  shows "snd (sv_PutFile it srt sha now req s) = None \<longleftrightarrow> pf_ChunkCount req < 0"
  using assms by (auto simp: sv_PutFile_def cm_AllocateChunks_def Let_def split: prod.splits sum.splits)

theorem negative_chunk_count_panics_witness:
  "cm_healthyNodes (\<lambda>ks. ks) 0 (sv_chunkMgr demo_sv0) \<noteq> [] \<and>
   snd (sv_PutFile (\<lambda>ks. ks) insertion_sort rev 0 (demo_put\<lparr>pf_ChunkCount := -1\<rparr>) demo_sv0) = None"
proof -
  have h: "cm_healthyNodes (\<lambda>ks. ks) 0 (sv_chunkMgr demo_sv0) \<noteq> []" by code_simp
  from negative_chunk_count_panics [OF h, of insertion_sort rev "demo_put\<lparr>pf_ChunkCount := -1\<rparr>"] h show ?thesis by simp
qed

text \<open>
  C37: Overwriting a file leaks chunks. When a put replaces a file, a chunk of the old version whose
  ID the new version does not use again (because the file shrank, or the path is spelled
  differently) keeps its metadata and its replicas, although no file of the namespace lists it any
  more; only the deletion of a file removes chunks, so it stays for good.
\<close>

theorem overwrite_leaks_chunks:
  assumes "inj_on (\<lambda>s. take 8 (sha s)) K" "sv_inv sha K s" "perm_iter it" "sort_slice srt"
    and "\<forall>i<nat (pf_ChunkCount req). chunk_key (pf_Path req) (int i) \<in> K"
    and "ns_files (sv_namespace s) (ns_target (pf_Path req)) = Some old" "c \<in> set (fm_ChunkIDs old)"
    and "c \<notin> set (chunk_ids sha (pf_Path req) (pf_ChunkCount req))"
    and "sv_PutFile it srt sha now req s = (s', Some resp)" "pfr_Success resp"
  shows "cm_GetChunkMeta (sv_chunkMgr s') c \<noteq> None \<and>
    (\<forall>ps f. ns_files (sv_namespace s') ps = Some f \<longrightarrow> c \<notin> set (fm_ChunkIDs f))"
proof -
  have nsi: "ns_inv (sv_namespace s)" and cmi: "cm_inv (sv_chunkMgr s)" using assms(2) by (simp_all add: sv_inv_def)
  obtain ps where p: "cm_AllocateChunks it srt sha now (pf_Path req) (pf_ChunkCount req) (pf_FileSize req) (sv_chunkMgr s) =
      (sv_chunkMgr s', Ok ps)"
    and f: "ns_files (sv_namespace s') = (ns_files (sv_namespace s))(ns_target (pf_Path req) \<mapsto>
      \<lparr>fm_Path = pf_Path req, fm_Size = pf_FileSize req, fm_ChunkCount = pf_ChunkCount req,
        fm_ReplicationFactor = DefaultReplicationFactor, fm_Checksum = pf_Checksum req,
        fm_ChunkIDs = map pl_ChunkID ps, fm_CreatedAt = now\<rparr>)"
    by (rule put_success [OF nsi assms(9,10)]) blast
  note al = allocate_paths [OF cmi assms(3,4) p]
  have ook: "file_ok sha K (sv_chunkMgr s) (ns_target (pf_Path req)) old" using assms(2,6) by (simp add: sv_inv_def)
  have "chunk_path (sv_chunkMgr s') c = Some (fm_Path old)"
    using ook assms(7,8) al(3) by (simp add: file_ok_def)
  then have "cm_GetChunkMeta (sv_chunkMgr s') c \<noteq> None" by (auto simp: chunk_path_def cm_GetChunkMeta_def)
  moreover have "c \<notin> set (fm_ChunkIDs g)" if g: "ns_files (sv_namespace s') ps = Some g" for ps g
  proof (cases "ps = ns_target (pf_Path req)")
    case True
    then show ?thesis using g f al(2) assms(8) by auto
  next
    case False
    then have "ns_files (sv_namespace s) ps = Some g" using g f by simp
    then have gok: "file_ok sha K (sv_chunkMgr s) ps g" using assms(2) by (simp add: sv_inv_def)
    then show ?thesis
      using chunk_ids_path [OF assms(1), of c "fm_Path old" "fm_ChunkCount old" "fm_Path g" "fm_ChunkCount g"]
        ook False assms(7) by (auto simp: file_ok_def)
  qed
  ultimately show ?thesis by blast
qed

theorem overwrite_leaks_chunks_witness:
  "\<exists>s' resp. sv_PutFile (\<lambda>ks. ks) insertion_sort rev 0 (demo_put\<lparr>pf_FileSize := 5, pf_ChunkCount := 1\<rparr>) demo_sv = (s', Some resp) \<and>
     pfr_Success resp \<and> cm_GetChunkMeta (sv_chunkMgr s') (GenerateChunkID rev ''/f'' 1) \<noteq> None \<and>
     (\<forall>ps f. ns_files (sv_namespace s') ps = Some f \<longrightarrow> GenerateChunkID rev ''/f'' 1 \<notin> set (fm_ChunkIDs f))"
proof -
  let ?req = "demo_put\<lparr>pf_FileSize := 5, pf_ChunkCount := 1\<rparr>" and ?c = "GenerateChunkID rev ''/f'' 1"
  have "case snd (sv_PutFile (\<lambda>ks. ks) insertion_sort rev 0 ?req demo_sv) of None \<Rightarrow> False | Some r \<Rightarrow> pfr_Success r"
    by code_simp
  then obtain s' resp where p: "sv_PutFile (\<lambda>ks. ks) insertion_sort rev 0 ?req demo_sv = (s', Some resp)" "pfr_Success resp"
    by (cases "sv_PutFile (\<lambda>ks. ks) insertion_sort rev 0 ?req demo_sv") (auto split: option.splits)
  have "case ns_files (sv_namespace demo_sv) (ns_target (pf_Path ?req)) of None \<Rightarrow> False | Some f \<Rightarrow> ?c \<in> set (fm_ChunkIDs f)"
    by code_simp
  then obtain f where f: "ns_files (sv_namespace demo_sv) (ns_target (pf_Path ?req)) = Some f" "?c \<in> set (fm_ChunkIDs f)"
    by (auto split: option.splits)
  have nc: "?c \<notin> set (chunk_ids rev (pf_Path ?req) (pf_ChunkCount ?req))" by code_simp
  have keys: "\<forall>i<nat (pf_ChunkCount ?req). chunk_key (pf_Path ?req) (int i) \<in> demo_K" by (simp add: demo_put_def demo_K_def)
  from overwrite_leaks_chunks [OF demo_K_inj sv_inv_reachable [OF demo_K_inj demo_sv_reachable] perm_iter_id
      go_sort.sort_slice_axioms keys f nc p] p
  show ?thesis by blast
qed

end
