(* ===== verification/Chunk_Store.thy ===== *)
theory Chunk_Store
  imports Common
begin

text \<open>
  \<^verbatim>\<open>internal/datanode/store.go\<close>: the chunks on a data node's disk.

  The disk is a map from paths to file contents; \<open>os.WriteFile\<close>, \<open>os.ReadFile\<close> and \<open>os.Remove\<close> act on
  it, and each call takes the fault it meets, if any, as an argument: a write can fail to open the
  file or fail after some bytes. The store's fields are the record \<open>ChunkStore\<close>; operations map the
  pair of store and disk to the new pair and the result.
\<close>

section \<open>Files\<close>

type_synonym disk = "(string, bytes) gomap"

datatype write_fault = NoFault | OpenFault string | WriteFault nat string

fun os_WriteFile :: "write_fault \<Rightarrow> string \<Rightarrow> bytes \<Rightarrow> disk \<Rightarrow> disk \<times> string option" where
  "os_WriteFile NoFault path data d = (AList.update path data d, None)"
| "os_WriteFile (OpenFault e) path data d = (d, Some e)"
| "os_WriteFile (WriteFault n e) path data d = (AList.update path (take n data) d, Some e)"

definition os_ReadFile :: "string option \<Rightarrow> string \<Rightarrow> disk \<Rightarrow> string + bytes" where
  "os_ReadFile fault path d =
     (case map_of d path of
        None \<Rightarrow> Inl (''open '' @ path @ '': no such file or directory'')
      | Some data \<Rightarrow> (case fault of Some e \<Rightarrow> Inl e | None \<Rightarrow> Inr data))"

datatype remove_result = Removed | NotExist | RemoveFailed string

definition os_Remove :: "string option \<Rightarrow> string \<Rightarrow> disk \<Rightarrow> disk \<times> remove_result" where
  "os_Remove fault path d =
     (case map_of d path of
        None \<Rightarrow> (d, NotExist)
      | Some _ \<Rightarrow> (case fault of Some e \<Rightarrow> (d, RemoveFailed e) | None \<Rightarrow> (AList.delete path d, Removed)))"

section \<open>store.go\<close>

record StoredChunk =
  stc_ChunkID :: string
  stc_Size :: int
  stc_Checksum :: string
  stc_FilePath :: string

record ChunkStore =
  cs_dataDir :: string
  cs_chunks :: "(string, StoredChunk) gomap"
  cs_usedBytes :: int

definition cs_chunkPath :: "ChunkStore \<Rightarrow> string \<Rightarrow> string" where
  "cs_chunkPath cs chunkID = filepath_Join (cs_dataDir cs) (chunkID @ ''.chunk'')"

definition cs_StoreChunk ::
  "write_fault \<Rightarrow> (bytes \<Rightarrow> bytes) \<Rightarrow> string \<Rightarrow> bytes \<Rightarrow> string \<Rightarrow> ChunkStore \<times> disk \<Rightarrow>
   (ChunkStore \<times> disk) \<times> string option" where
  "cs_StoreChunk fault sha chunkID data expectedChecksum st =
     (case st of (cs, d) \<Rightarrow>
        let actualChecksum = DataChecksum sha data
        in if expectedChecksum \<noteq> '''' \<and> actualChecksum \<noteq> expectedChecksum then
             (st, Some (''checksum mismatch for chunk '' @ chunkID @ '': expected '' @ expectedChecksum @
                        '', got '' @ actualChecksum))
           else
             let chunkPath = cs_chunkPath cs chunkID
             in case os_WriteFile fault chunkPath data d of
                  (d', Some err) \<Rightarrow> ((cs, d'), Some (''write chunk '' @ chunkID @ '': '' @ err))
                | (d', None) \<Rightarrow>
                    let size = int64 (int (length data))
                    in ((cs\<lparr>cs_chunks := AList.update chunkID
                            \<lparr>stc_ChunkID = chunkID, stc_Size = size, stc_Checksum = actualChecksum,
                             stc_FilePath = chunkPath\<rparr> (cs_chunks cs),
                           cs_usedBytes := int64 (cs_usedBytes cs + size)\<rparr>, d'), None))"

text \<open>\<open>GetChunk\<close> holds the lock only while it looks the chunk up; it reads the file after that.\<close>

definition cs_lookup :: "ChunkStore \<Rightarrow> string \<Rightarrow> string + StoredChunk" where
  "cs_lookup cs chunkID =
     (case map_of (cs_chunks cs) chunkID of
        None \<Rightarrow> Inl (''chunk not found: '' @ chunkID)
      | Some meta \<Rightarrow> Inr meta)"

definition cs_read ::
  "string option \<Rightarrow> (bytes \<Rightarrow> bytes) \<Rightarrow> string \<Rightarrow> StoredChunk \<Rightarrow> disk \<Rightarrow> string + bytes \<times> string" where
  "cs_read fault sha chunkID meta d =
     (case os_ReadFile fault (stc_FilePath meta) d of
        Inl err \<Rightarrow> Inl (''read chunk '' @ chunkID @ '': '' @ err)
      | Inr data \<Rightarrow>
          let checksum = DataChecksum sha data
          in if checksum \<noteq> stc_Checksum meta then Inl (''chunk '' @ chunkID @ '' corrupted on disk'')
             else Inr (data, checksum))"

definition cs_GetChunk ::
  "string option \<Rightarrow> (bytes \<Rightarrow> bytes) \<Rightarrow> ChunkStore \<times> disk \<Rightarrow> string \<Rightarrow> string + bytes \<times> string" where
  "cs_GetChunk fault sha st chunkID =
     (case st of (cs, d) \<Rightarrow>
        (case cs_lookup cs chunkID of
           Inl err \<Rightarrow> Inl err
         | Inr meta \<Rightarrow> cs_read fault sha chunkID meta d))"

definition cs_DeleteChunk ::
  "string option \<Rightarrow> string \<Rightarrow> ChunkStore \<times> disk \<Rightarrow> (ChunkStore \<times> disk) \<times> string option" where
  "cs_DeleteChunk fault chunkID st =
     (case st of (cs, d) \<Rightarrow>
        (case map_of (cs_chunks cs) chunkID of
           None \<Rightarrow> (st, Some (''chunk not found: '' @ chunkID))
         | Some meta \<Rightarrow>
             (case os_Remove fault (stc_FilePath meta) d of
                (d', RemoveFailed err) \<Rightarrow> ((cs, d'), Some (''delete chunk '' @ chunkID @ '': '' @ err))
              | (d', _) \<Rightarrow>
                  ((cs\<lparr>cs_chunks := AList.delete chunkID (cs_chunks cs),
                       cs_usedBytes := int64 (cs_usedBytes cs + - stc_Size meta)\<rparr>, d'), None))))"

definition cs_HasChunk :: "ChunkStore \<Rightarrow> string \<Rightarrow> bool" where
  "cs_HasChunk cs chunkID \<longleftrightarrow> map_of (cs_chunks cs) chunkID \<noteq> None"

definition cs_ChunkCount :: "ChunkStore \<Rightarrow> int" where
  "cs_ChunkCount cs = int32 (int (length (cs_chunks cs)))"

definition cs_UsedBytes :: "ChunkStore \<Rightarrow> int" where
  "cs_UsedBytes cs = cs_usedBytes cs"

definition cs_GetAllChunkIDs :: "iter \<Rightarrow> ChunkStore \<Rightarrow> string list" where
  "cs_GetAllChunkIDs it cs = it (map fst (cs_chunks cs))"

text \<open>
  One directory entry in \<open>loadExisting\<close>, then the function: \<open>entries\<close> is what \<open>os.ReadDir\<close> returns,
  names with a flag for directories, and \<open>rf\<close> the fault that reading a file meets.
\<close>

definition load_entry ::
  "(string \<Rightarrow> string option) \<Rightarrow> (bytes \<Rightarrow> bytes) \<Rightarrow> disk \<Rightarrow> string \<times> bool \<Rightarrow> ChunkStore \<Rightarrow> ChunkStore" where
  "load_entry rf sha d e cs =
     (case e of (name, isDir) \<Rightarrow>
        if isDir \<or> filepath_Ext name \<noteq> ''.chunk'' then cs
        else
          let chunkID = take (length name - 6) name;
              chunkPath = filepath_Join (cs_dataDir cs) name
          in case os_ReadFile (rf chunkPath) chunkPath d of
               Inl err \<Rightarrow> cs
             | Inr data \<Rightarrow>
                 let size = int64 (int (length data))
                 in cs\<lparr>cs_chunks := AList.update chunkID
                         \<lparr>stc_ChunkID = chunkID, stc_Size = size, stc_Checksum = DataChecksum sha data,
                          stc_FilePath = chunkPath\<rparr> (cs_chunks cs),
                       cs_usedBytes := int64 (cs_usedBytes cs + size)\<rparr>)"

definition cs_loadExisting ::
  "(string \<Rightarrow> string option) \<Rightarrow> (bytes \<Rightarrow> bytes) \<Rightarrow> string + (string \<times> bool) list \<Rightarrow> disk \<Rightarrow> ChunkStore \<Rightarrow>
   ChunkStore \<times> string option" where
  "cs_loadExisting rf sha entries d cs =
     (case entries of
        Inl err \<Rightarrow> (cs, Some err)
      | Inr es \<Rightarrow> (fold (load_entry rf sha d) es cs, None))"

text \<open>A failure of \<open>loadExisting\<close> is only logged.\<close>

definition NewChunkStore ::
  "string option \<Rightarrow> (string \<Rightarrow> string option) \<Rightarrow> (bytes \<Rightarrow> bytes) \<Rightarrow> string + (string \<times> bool) list \<Rightarrow>
   string \<Rightarrow> disk \<Rightarrow> string + ChunkStore" where
  "NewChunkStore mkdir_err rf sha entries dataDir d =
     (case mkdir_err of
        Some err \<Rightarrow> Inl (''create data dir: '' @ err)
      | None \<Rightarrow> Inr (fst (cs_loadExisting rf sha entries d
                  \<lparr>cs_dataDir = dataDir, cs_chunks = [], cs_usedBytes = 0\<rparr>)))"

section \<open>Chunk paths\<close>

definition dir_prefix :: "string \<Rightarrow> string" where
  "dir_prefix dir =
     (if dir = '''' then ''''
      else
        let rooted = prefix ''/'' dir; out = foldl (clean_step rooted) [] (Split dir (CHR ''/''))
        in (if rooted then ''/'' else '''') @ (if out = [] then '''' else Join out ''/'' @ ''/''))"

lemma join_name:
  assumes "CHR ''/'' \<notin> set name" "name \<noteq> ''''" "name \<noteq> ''.''" "name \<noteq> ''..''"
  shows "filepath_Join dir name = dir_prefix dir @ name"
proof (cases "dir = ''''")
  case True
  have "\<not> prefix ''/'' name" using assms(1) by (auto simp: prefix_def)
  then show ?thesis
    using True assms by (simp add: filepath_Join_def filepath_Clean_def dir_prefix_def Split_no_occ clean_step_def Let_def)
next
  case False
  have j: "Join [dir, name] ''/'' = dir @ CHR ''/'' # name" by simp
  have p: "prefix ''/'' (dir @ CHR ''/'' # name) = prefix ''/'' dir" using False by (cases dir) auto
  define r where "r = prefix ''/'' dir"
  let ?out = "foldl (clean_step r) [] (Split dir (CHR ''/''))"
  have step: "clean_step r out name = out @ [name]" for r out using assms by (simp add: clean_step_def)
  have out: "foldl (clean_step r) [] (Split (dir @ CHR ''/'' # name) (CHR ''/'')) = ?out @ [name]"
    using Split_snoc_part [OF assms(1), of dir] by (simp add: step)
  have "Join (?out @ [name]) ''/'' = (if ?out = [] then '''' else Join ?out ''/'' @ ''/'') @ name"
    by (simp add: Join_snoc)
  then have "filepath_Clean (dir @ CHR ''/'' # name) = dir_prefix dir @ name"
    using False unfolding filepath_Clean_def dir_prefix_def Let_def p r_def [symmetric] out by (cases r) simp_all
  then show ?thesis using False assms(2) j by (simp add: filepath_Join_def)
qed

text \<open>IDs without a slash (those the metadata server makes are hexadecimal) have their own files.\<close>

lemma chunk_path_simple:
  assumes "CHR ''/'' \<notin> set i"
  shows "cs_chunkPath cs i = dir_prefix (cs_dataDir cs) @ i @ ''.chunk''"
  unfolding cs_chunkPath_def using assms
  by (subst join_name) (auto simp: append_eq_Cons_conv)

lemma chunk_path_inj:
  "CHR ''/'' \<notin> set i \<Longrightarrow> CHR ''/'' \<notin> set j \<Longrightarrow> cs_chunkPath cs i = cs_chunkPath cs j \<longleftrightarrow> i = j"
  by (simp add: chunk_path_simple)

lemma GenerateChunkID_no_slash: "CHR ''/'' \<notin> set (GenerateChunkID sha p i)"
  using fmt_x_digits [of "take 8 (sha (chunk_key p i))"] by (auto simp: GenerateChunkID_def)

lemma chunk_ext: "filepath_Ext (i @ ''.chunk'') = ''.chunk''" if "CHR ''/'' \<notin> set i"
proof -
  have n: "CHR ''/'' \<notin> set (i @ ''.chunk'')" using that by simp
  have "last (Split (i @ CHR ''.'' # ''chunk'') (CHR ''.'')) = ''chunk''" by (subst Split_snoc_part) auto
  then show ?thesis using Split_no_occ [OF n] by (simp add: filepath_Ext_def)
qed

section \<open>Specification\<close>

text \<open>
  The store's life: chunks are stored and deleted, successfully or not, and files on the disk
  change or vanish arbitrarily (disk corruption). The ghost map remembers what was last stored.
\<close>

type_synonym ghost = "string \<Rightarrow> bytes option"

inductive store_step ::
  "(bytes \<Rightarrow> bytes) \<Rightarrow> (ChunkStore \<times> disk) \<times> ghost \<Rightarrow> (ChunkStore \<times> disk) \<times> ghost \<Rightarrow> bool" for sha where
  stored: "cs_StoreChunk fault sha i data c st = (st', None) \<Longrightarrow> store_step sha (st, g) (st', g(i \<mapsto> data))"
| not_stored: "cs_StoreChunk fault sha i data c st = (st', Some e) \<Longrightarrow> store_step sha (st, g) (st', g)"
| deleted: "cs_DeleteChunk rfault i st = (st', None) \<Longrightarrow> store_step sha (st, g) (st', g(i := None))"
| not_deleted: "cs_DeleteChunk rfault i st = (st', Some e) \<Longrightarrow> store_step sha (st, g) (st', g)"
| disk_changes: "store_step sha ((cs, d), g) ((cs, d'), g)"

inductive store_reachable :: "(bytes \<Rightarrow> bytes) \<Rightarrow> string \<Rightarrow> (ChunkStore \<times> disk) \<times> ghost \<Rightarrow> bool" for sha dir where
  new: "store_reachable sha dir ((\<lparr>cs_dataDir = dir, cs_chunks = [], cs_usedBytes = 0\<rparr>, d), Map.empty)"
| step: "store_reachable sha dir x \<Longrightarrow> store_step sha x y \<Longrightarrow> store_reachable sha dir y"

definition recorded :: "(bytes \<Rightarrow> bytes) \<Rightarrow> ChunkStore \<Rightarrow> ghost \<Rightarrow> bool" where
  "recorded sha cs g \<longleftrightarrow>
     (\<forall>i. map_option stc_Checksum (map_of (cs_chunks cs) i) = map_option (DataChecksum sha) (g i))"

inductive_cases store_stepE: "store_step sha x y"

lemma store_failed_chunks:
  "cs_StoreChunk fault sha i data c st = (st', Some e) \<Longrightarrow> fst st' = fst st"
  by (auto simp: cs_StoreChunk_def Let_def split: if_splits prod.splits option.splits)

lemma store_ok:
  assumes "cs_StoreChunk fault sha i data c (cs, d) = (st', None)"
  shows "st' = (cs\<lparr>cs_chunks := AList.update i \<lparr>stc_ChunkID = i, stc_Size = int64 (int (length data)),
      stc_Checksum = DataChecksum sha data, stc_FilePath = cs_chunkPath cs i\<rparr> (cs_chunks cs),
      cs_usedBytes := int64 (cs_usedBytes cs + int64 (int (length data)))\<rparr>,
      AList.update (cs_chunkPath cs i) data d)"
    and "c = '''' \<or> c = DataChecksum sha data" "fault = NoFault"
  using assms by (cases fault; auto simp: cs_StoreChunk_def Let_def split: if_splits)+

lemma delete_ok:
  assumes "cs_DeleteChunk f i (cs, d) = (st', None)"
  shows "\<exists>m. map_of (cs_chunks cs) i = Some m \<and>
    fst st' = cs\<lparr>cs_chunks := AList.delete i (cs_chunks cs), cs_usedBytes := int64 (cs_usedBytes cs + - stc_Size m)\<rparr>"
  using assms by (auto simp: cs_DeleteChunk_def split: option.splits prod.splits remove_result.splits)

lemma delete_failed:
  "cs_DeleteChunk f i st = (st', Some e) \<Longrightarrow> fst st' = fst st"
  by (auto simp: cs_DeleteChunk_def split: option.splits prod.splits remove_result.splits)

lemma recorded_step:
  assumes "store_step sha (st, g) (st', g')" "recorded sha (fst st) g"
  shows "recorded sha (fst st') g'"
  using assms(1)
proof cases
  case (stored fault i data c)
  obtain cs d where st: "st = (cs, d)" by force
  show ?thesis using store_ok(1) [OF stored(2) [unfolded st]] assms(2) stored(1) by (auto simp: recorded_def st)
next
  case (deleted rfault i)
  obtain cs d where st: "st = (cs, d)" by force
  show ?thesis using delete_ok [OF deleted(2) [unfolded st]] assms(2) deleted(1) by (auto simp: recorded_def st)
qed (use assms(2) in \<open>auto dest: store_failed_chunks delete_failed\<close>)

lemma recorded_reachable: "store_reachable sha dir x \<Longrightarrow> recorded sha (fst (fst x)) (snd x)"
proof (induction rule: store_reachable.induct)
  case (step x y)
  then show ?case using recorded_step [of sha "fst x" "snd x" "fst y" "snd y"] by simp
qed (simp add: recorded_def)

lemma GetChunk_ok:
  assumes "cs_GetChunk f sha (cs, d) i = Inr (data, ck)"
  shows "\<exists>m. map_of (cs_chunks cs) i = Some m \<and> map_of d (stc_FilePath m) = Some data \<and>
    ck = DataChecksum sha data \<and> ck = stc_Checksum m"
  using assms by (auto simp: cs_GetChunk_def cs_lookup_def cs_read_def os_ReadFile_def Let_def split: option.splits sum.splits if_splits)

section \<open>Restart\<close>

lemma ext_chunk:
  assumes "CHR ''/'' \<notin> set name" "filepath_Ext name = ''.chunk''"
  shows "take (length name - 6) name @ ''.chunk'' = name"
proof -
  let ?ps = "Split name (CHR ''.'')"
  have l: "last ?ps = ''chunk''" "CHR ''.'' \<in> set name"
    using assms Split_no_occ [OF assms(1)] by (auto simp: filepath_Ext_def split: if_splits)
  have "butlast ?ps \<noteq> []"
  proof
    assume "butlast ?ps = []"
    then have "?ps = [last ?ps]" by (metis append_butlast_last_id append_Nil Split_nonempty)
    then have "Join ?ps ''.'' = last ?ps" by (metis Join.simps(2))
    then show False using l by (simp add: Join_Split)
  qed
  then have "Join (butlast ?ps @ [last ?ps]) ''.'' = Join (butlast ?ps) ''.'' @ ''.'' @ ''chunk''"
    using l(1) by (simp add: Join_snoc)
  then have "name = Join (butlast ?ps) ''.'' @ ''.chunk''"
    by (simp add: Join_Split)
  then obtain x where "name = x @ ''.chunk''" by blast
  then show ?thesis by simp
qed

definition loaded :: "(bytes \<Rightarrow> bytes) \<Rightarrow> string \<Rightarrow> string \<Rightarrow> bytes \<Rightarrow> StoredChunk" where
  "loaded sha dir i data = \<lparr>stc_ChunkID = i, stc_Size = int64 (int (length data)),
     stc_Checksum = DataChecksum sha data, stc_FilePath = filepath_Join dir (i @ ''.chunk'')\<rparr>"

lemma load_entry_dir: "cs_dataDir (load_entry rf sha d e cs) = cs_dataDir cs"
  by (auto simp: load_entry_def Let_def split: prod.splits sum.splits)

lemma load_fold_dir: "cs_dataDir (fold (load_entry rf sha d) es cs) = cs_dataDir cs"
  by (induction es arbitrary: cs) (simp_all add: load_entry_dir)

lemma load_entry_chunks:
  assumes "CHR ''/'' \<notin> set (fst e)" "CHR ''/'' \<notin> set i"
  shows "map_of (cs_chunks (load_entry (\<lambda>_. None) sha d e cs)) i =
    (if e = (i @ ''.chunk'', False) \<and> map_of d (filepath_Join (cs_dataDir cs) (i @ ''.chunk'')) \<noteq> None
     then map_option (loaded sha (cs_dataDir cs) i) (map_of d (filepath_Join (cs_dataDir cs) (i @ ''.chunk'')))
     else map_of (cs_chunks cs) i)"
proof (cases "snd e \<or> filepath_Ext (fst e) \<noteq> ''.chunk''")
  case True
  then show ?thesis using chunk_ext [OF assms(2)] by (cases e) (auto simp: load_entry_def)
next
  case False
  then have n: "fst e = take (length (fst e) - 6) (fst e) @ ''.chunk''" using ext_chunk [OF assms(1)] by simp
  define j where "j = take (length (fst e) - 6) (fst e)"
  have e: "e = (j @ ''.chunk'', False)" "take (length (j @ ''.chunk'') - 6) (j @ ''.chunk'') = j"
    using n False by (auto simp: j_def prod_eq_iff)
  have x: "filepath_Ext (j @ ''.chunk'') = ''.chunk''" using False e(1) by simp
  show ?thesis
    unfolding e(1) load_entry_def prod.case e(2) x
    by (auto simp: os_ReadFile_def loaded_def Let_def split: option.splits)
qed

lemma load_fold_chunks:
  assumes "\<forall>e\<in>set es. CHR ''/'' \<notin> set (fst e)" "CHR ''/'' \<notin> set i"
  shows "map_of (cs_chunks (fold (load_entry (\<lambda>_. None) sha d) es cs)) i =
    (if (i @ ''.chunk'', False) \<in> set es \<and> map_of d (filepath_Join (cs_dataDir cs) (i @ ''.chunk'')) \<noteq> None
     then map_option (loaded sha (cs_dataDir cs) i) (map_of d (filepath_Join (cs_dataDir cs) (i @ ''.chunk'')))
     else map_of (cs_chunks cs) i)"
  using assms
  by (induction es arbitrary: cs) (auto simp: load_entry_chunks load_entry_dir)

section \<open>Properties\<close>

text \<open>The chunks of a node that only ever stored IDs without a slash.\<close>

definition cs_inv :: "ChunkStore \<Rightarrow> bool" where
  "cs_inv cs \<longleftrightarrow> gm_wf (cs_chunks cs) \<and>
     (\<forall>i m. map_of (cs_chunks cs) i = Some m \<longrightarrow>
        CHR ''/'' \<notin> set i \<and> stc_ChunkID m = i \<and> stc_FilePath m = cs_chunkPath cs i)"

lemma cs_inv_path: "cs_inv cs \<Longrightarrow> map_of (cs_chunks cs) i = Some m \<Longrightarrow> stc_FilePath m = cs_chunkPath cs i"
  by (simp add: cs_inv_def)

lemma cs_inv_slash: "cs_inv cs \<Longrightarrow> map_of (cs_chunks cs) i = Some m \<Longrightarrow> CHR ''/'' \<notin> set i"
  by (simp add: cs_inv_def)

lemma chunkPath_same: "cs_dataDir cs' = cs_dataDir cs \<Longrightarrow> cs_chunkPath cs' i = cs_chunkPath cs i"
  by (simp add: cs_chunkPath_def)

lemma cs_inv_new: "cs_inv \<lparr>cs_dataDir = dir, cs_chunks = [], cs_usedBytes = u\<rparr>"
  by (simp add: cs_inv_def)

lemma cs_inv_store:
  assumes "cs_inv cs" "CHR ''/'' \<notin> set i" "cs_StoreChunk fault sha i data c (cs, d) = ((cs', d'), r)"
  shows "cs_inv cs'"
proof (cases r)
  case None
  show ?thesis
    using store_ok(1) [OF assms(3) [unfolded None]] assms(1,2)
    by (auto simp: cs_inv_def cs_chunkPath_def split: if_splits)
next
  case (Some e)
  then show ?thesis using store_failed_chunks [OF assms(3) [unfolded Some]] assms(1) by simp
qed

lemma cs_inv_delete:
  assumes "cs_inv cs" "cs_DeleteChunk f i (cs, d) = ((cs', d'), r)"
  shows "cs_inv cs'"
proof (cases r)
  case None
  show ?thesis
    using delete_ok [OF assms(2) [unfolded None]] assms(1)
    by (auto simp: cs_inv_def cs_chunkPath_def split: if_splits)
next
  case (Some e)
  then show ?thesis using delete_failed [OF assms(2) [unfolded Some]] assms(1) by simp
qed

text \<open>What a node serves for a chunk when its disk reads without error.\<close>

definition cs_holds :: "(bytes \<Rightarrow> bytes) \<Rightarrow> ChunkStore \<times> disk \<Rightarrow> string \<Rightarrow> bytes option" where
  "cs_holds sha st i = (case cs_GetChunk None sha st i of Inl _ \<Rightarrow> None | Inr (data, _) \<Rightarrow> Some data)"

lemma holds_iff:
  "cs_holds sha (cs, d) i = Some data \<longleftrightarrow>
   (\<exists>m. map_of (cs_chunks cs) i = Some m \<and> map_of d (stc_FilePath m) = Some data \<and>
        stc_Checksum m = DataChecksum sha data)"
  by (auto simp: cs_holds_def cs_GetChunk_def cs_lookup_def cs_read_def os_ReadFile_def Let_def split: option.splits sum.splits prod.splits if_splits)

lemma GetChunk_None: "cs_GetChunk None sha st i = Inr (data, ck) \<longleftrightarrow>
    cs_holds sha st i = Some data \<and> ck = DataChecksum sha data"
  by (cases st) (auto simp: cs_holds_def cs_GetChunk_def cs_lookup_def cs_read_def os_ReadFile_def Let_def
      split: option.splits sum.splits prod.splits if_splits)

lemma GetChunk_holds: "cs_GetChunk f sha st i = Inr (data, ck) \<Longrightarrow>
    cs_holds sha st i = Some data \<and> ck = DataChecksum sha data"
  by (cases st) (auto simp: holds_iff dest!: GetChunk_ok)

lemma store_holds:
  assumes "cs_inv cs" "CHR ''/'' \<notin> set i" "cs_StoreChunk fault sha i data c (cs, d) = (st', None)"
  shows "cs_holds sha st' = (cs_holds sha (cs, d))(i \<mapsto> data)"
proof (rule ext)
  fix j
  note s = store_ok(1) [OF assms(3)]
  have "cs_holds sha st' j = Some x \<longleftrightarrow> ((cs_holds sha (cs, d))(i \<mapsto> data)) j = Some x" for x
  proof (cases "j = i")
    case True
    then show ?thesis by (auto simp: s holds_iff)
  next
    case False
    have "stc_FilePath m \<noteq> cs_chunkPath cs i" if "map_of (cs_chunks cs) j = Some m" for m
      using cs_inv_path [OF assms(1) that] cs_inv_slash [OF assms(1) that] assms(2) False
      by (simp add: chunk_path_inj)
    then show ?thesis using False by (auto simp: s holds_iff)
  qed
  then show "cs_holds sha st' j = ((cs_holds sha (cs, d))(i \<mapsto> data)) j" by (metis not_None_eq)
qed

lemma delete_holds:
  assumes "cs_inv cs" "cs_DeleteChunk f i (cs, d) = (st', None)"
  shows "cs_holds sha st' = (cs_holds sha (cs, d))(i := None)"
proof (rule ext)
  fix j
  obtain m where m: "map_of (cs_chunks cs) i = Some m" using delete_ok [OF assms(2)] by blast
  have s: "fst st' = cs\<lparr>cs_chunks := AList.delete i (cs_chunks cs), cs_usedBytes := int64 (cs_usedBytes cs + - stc_Size m)\<rparr>"
    using delete_ok [OF assms(2)] m by auto
  have d: "snd st' = d \<or> snd st' = AList.delete (cs_chunkPath cs i) d"
    using assms(2) m cs_inv_path [OF assms(1) m]
    by (auto simp: cs_DeleteChunk_def os_Remove_def split: option.splits prod.splits remove_result.splits)
  obtain cs' d' where st': "st' = (cs', d')" by force
  have "cs_holds sha st' j = Some x \<longleftrightarrow> ((cs_holds sha (cs, d))(i := None)) j = Some x" for x
  proof (cases "j = i")
    case True
    then show ?thesis using s by (auto simp: st' holds_iff)
  next
    case False
    have "stc_FilePath m' \<noteq> cs_chunkPath cs i" if "map_of (cs_chunks cs) j = Some m'" for m'
      using cs_inv_path [OF assms(1) that] cs_inv_slash [OF assms(1) that] cs_inv_slash [OF assms(1) m] False
      by (simp add: chunk_path_inj)
    then show ?thesis using False s d by (auto simp: st' holds_iff)
  qed
  then show "cs_holds sha st' j = ((cs_holds sha (cs, d))(i := None)) j" by (metis not_None_eq)
qed

text \<open>
  C23: on a node whose chunk IDs contain no slash, \<open>StoreChunk\<close> (with a working disk) succeeds
  exactly when no checksum is given or the given one is the data's; a refused store changes
  nothing; after a successful one \<open>GetChunk\<close> returns the data and its checksum, and every other
  chunk is read as before.
\<close>

theorem store_get_roundtrip:
  assumes "cs_inv cs" "CHR ''/'' \<notin> set i"
  shows "case cs_StoreChunk NoFault sha i data c (cs, d) of ((cs', d'), r) \<Rightarrow>
      (r = None \<longleftrightarrow> c = '''' \<or> c = DataChecksum sha data) \<and>
      (if r = None then
         cs_inv cs' \<and> cs_GetChunk None sha (cs', d') i = Inr (data, DataChecksum sha data) \<and>
         (\<forall>j\<in>- {i}. \<forall>x ck. cs_GetChunk None sha (cs', d') j = Inr (x, ck) \<longleftrightarrow>
            cs_GetChunk None sha (cs, d) j = Inr (x, ck))
       else (cs', d') = (cs, d))"
proof -
  obtain cs' d' r where s: "cs_StoreChunk NoFault sha i data c (cs, d) = ((cs', d'), r)" by (metis prod.exhaust)
  have ok: "r = None \<longleftrightarrow> c = '''' \<or> c = DataChecksum sha data" "r \<noteq> None \<Longrightarrow> (cs', d') = (cs, d)"
    using s by (auto simp: cs_StoreChunk_def Let_def split: if_splits)
  show ?thesis
    using ok store_holds [OF assms, of NoFault sha data c d "(cs', d')"] cs_inv_store [OF assms s] s
    by (simp add: GetChunk_None)
qed

definition one_chunk :: ChunkStore where
  "one_chunk = \<lparr>cs_dataDir = ''/data'', cs_chunks = [(''a1'', \<lparr>stc_ChunkID = ''a1'', stc_Size = 1,
     stc_Checksum = ''78'', stc_FilePath = ''/data/a1.chunk''\<rparr>)], cs_usedBytes = 1\<rparr>"

lemma one_chunk_inv: "cs_inv one_chunk"
proof -
  have "cs_chunkPath one_chunk ''a1'' = ''/data/a1.chunk''" by code_simp
  then show ?thesis by (simp add: cs_inv_def one_chunk_def)
qed


text \<open>Data with the checksum of a chunk's metadata is the data stored last.\<close>

lemma served_original:
  assumes "recorded sha cs g" "map_of (cs_chunks cs) i = Some m \<and> ck = DataChecksum sha data \<and> ck = stc_Checksum m"
  shows "\<exists>orig. g i = Some orig \<and> ck = DataChecksum sha orig \<and> sha data = sha orig \<and>
    (inj_on sha {data, orig} \<longrightarrow> data = orig)"
proof -
  have "map_option stc_Checksum (map_of (cs_chunks cs) i) = map_option (DataChecksum sha) (g i)"
    using assms(1) by (simp add: recorded_def)
  then obtain orig where o: "g i = Some orig" "ck = DataChecksum sha orig" using assms(2) by (cases "g i") auto
  then have "sha data = sha orig" using assms(2) by (auto simp: DataChecksum_def dest: fmt_x_inj)
  then show ?thesis using o by (auto dest: inj_onD)
qed

text \<open>
  whatever happens to the files under a running node, a successful \<open>GetChunk\<close> returns data with
  the checksum of the data last stored under that ID (the same data, unless SHA-256 collides), and
  an ID that was never stored or was deleted is not served.
\<close>

theorem never_serves_corrupt:
  assumes "store_reachable sha dir ((cs, d), g)" "cs_GetChunk f sha (cs, d) i = Inr (data, ck)"
  shows "\<exists>orig. g i = Some orig \<and> ck = DataChecksum sha orig \<and> sha data = sha orig \<and>
    (inj_on sha {data, orig} \<longrightarrow> data = orig)"
  using served_original [OF recorded_reachable [OF assms(1), simplified]] GetChunk_ok [OF assms(2)] by blast

theorem never_serves_corrupt_witness:
  "\<exists>st g orig. store_reachable id ''/data'' (st, g) \<and> cs_GetChunk None id st ''a1'' = Inr (''x'', ''78'') \<and>
     g ''a1'' = Some orig \<and> ''x'' = orig"
proof -
  define cs0 where "cs0 = \<lparr>cs_dataDir = ''/data'', cs_chunks = [], cs_usedBytes = 0\<rparr>"
  define st where "st = fst (cs_StoreChunk NoFault id ''a1'' ''x'' ''78'' (cs0, []))"
  have s: "cs_StoreChunk NoFault id ''a1'' ''x'' ''78'' (cs0, []) = (st, None)"
    unfolding st_def cs0_def by code_simp
  have g: "cs_GetChunk None id st ''a1'' = Inr (''x'', ''78'')" unfolding st_def cs0_def by code_simp
  have r: "store_reachable id ''/data'' (st, Map.empty(''a1'' \<mapsto> ''x''))"
    using store_reachable.step [OF store_reachable.new store_step.stored [OF s [unfolded cs0_def]]] .
  obtain cs d where st: "st = (cs, d)" by force
  from never_serves_corrupt [OF r [unfolded st] g [unfolded st]]
  show ?thesis using r g st by (metis id_apply)
qed

text \<open>
  C19: a read never mixes versions. \<open>GetChunk\<close> looks the chunk up under the lock and reads the file without it; in
  between other requests may store or delete chunks and the files may change in any way, a half-written new
  version included. If it still succeeds, it returns data with the checksum of the data that was stored under the ID
  when it looked it up (the same data, unless SHA-256 collides).
\<close>

theorem reads_never_mix:
  assumes "store_reachable sha dir ((cs, d), g)" "cs_lookup cs i = Inr m"
    and "cs_read f sha i m d' = Inr (data, ck)"
  shows "\<exists>orig. g i = Some orig \<and> ck = DataChecksum sha orig \<and> sha data = sha orig \<and>
    (inj_on sha {data, orig} \<longrightarrow> data = orig)"
proof -
  have "map_of (cs_chunks cs) i = Some m \<and> ck = DataChecksum sha data \<and> ck = stc_Checksum m"
    using assms(2,3) by (auto simp: cs_lookup_def cs_read_def Let_def split: option.splits sum.splits if_splits)
  then show ?thesis by (rule served_original [OF recorded_reachable [OF assms(1), simplified]])
qed

theorem reads_never_mix_witness:
  "\<exists>cs d g m orig. store_reachable id ''/data'' ((cs, d), g) \<and> cs_lookup cs ''a1'' = Inr m \<and>
     cs_read None id ''a1'' m [(''/data/a1.chunk'', ''x'')] = Inr (''x'', ''78'') \<and> g ''a1'' = Some orig \<and> ''x'' = orig"
proof -
  define cs0 where "cs0 = \<lparr>cs_dataDir = ''/data'', cs_chunks = [], cs_usedBytes = 0\<rparr>"
  define st where "st = fst (cs_StoreChunk NoFault id ''a1'' ''x'' ''78'' (cs0, []))"
  have s: "cs_StoreChunk NoFault id ''a1'' ''x'' ''78'' (cs0, []) = (st, None)"
    unfolding st_def cs0_def by code_simp
  have "case cs_lookup (fst st) ''a1'' of Inl e \<Rightarrow> False
      | Inr m \<Rightarrow> cs_read None id ''a1'' m [(''/data/a1.chunk'', ''x'')] = Inr (''x'', ''78'')"
    unfolding st_def cs0_def by code_simp
  then obtain m where m: "cs_lookup (fst st) ''a1'' = Inr m" "cs_read None id ''a1'' m [(''/data/a1.chunk'', ''x'')] = Inr (''x'', ''78'')"
    by (auto split: sum.splits)
  have r: "store_reachable id ''/data'' ((fst st, snd st), Map.empty(''a1'' \<mapsto> ''x''))"
    using store_reachable.step [OF store_reachable.new store_step.stored [OF s [unfolded cs0_def]]] by simp
  from reads_never_mix [OF r m] show ?thesis using r m by (metis id_apply)
qed

text \<open>The bytes the metadata of the stored chunks adds up to.\<close>

definition stored_bytes :: "ChunkStore \<Rightarrow> int" where
  "stored_bytes cs = (\<Sum>p\<leftarrow>cs_chunks cs. stc_Size (snd p))"

lemma sum_update_new: "i \<notin> gm_keys xs \<Longrightarrow>
    (\<Sum>p\<leftarrow>AList.update i m xs. stc_Size (snd p)) = (\<Sum>p\<leftarrow>xs. stc_Size (snd p)) + stc_Size m"
  by (simp add: update_new_append)

lemma sum_delete: "gm_wf xs \<Longrightarrow> map_of xs i = Some m \<Longrightarrow>
    (\<Sum>p\<leftarrow>AList.delete i xs. stc_Size (snd p)) = (\<Sum>p\<leftarrow>xs. stc_Size (snd p)) - stc_Size m"
proof (induction xs)
  case (Cons x xs)
  then show ?case by (cases "fst x = i") (auto simp: delete_absent split: if_splits)
qed simp

lemma sum_update_old: "gm_wf xs \<Longrightarrow> map_of xs i = Some m \<Longrightarrow>
    (\<Sum>p\<leftarrow>AList.update i m' xs. stc_Size (snd p)) = (\<Sum>p\<leftarrow>xs. stc_Size (snd p)) - stc_Size m + stc_Size m'"
  by (induction xs) (auto split: if_splits)

text \<open>
  the used-bytes counter. When it equals the total size of the stored chunks, storing a new
  chunk ID and deleting a chunk keep it equal to the total. Storing an ID that is already there
  overwrites its file and its metadata but still adds the new size: the counter ends up too high by
  the old size, and deleting the chunk does not take that back.
\<close>

theorem used_bytes_accounting:
  assumes "gm_wf (cs_chunks cs)" "cs_usedBytes cs = int64 (stored_bytes cs)"
  shows "(cs_StoreChunk fault sha i data c (cs, d) = ((cs1, d1), None) \<longrightarrow>
      cs_UsedBytes cs1 = int64 (stored_bytes cs1 + (case map_of (cs_chunks cs) i of None \<Rightarrow> 0 | Some m \<Rightarrow> stc_Size m)) \<and>
      (cs_DeleteChunk f i (cs1, d1) = ((cs2, d2), None) \<longrightarrow>
         cs_UsedBytes cs2 = int64 (stored_bytes cs2 + (case map_of (cs_chunks cs) i of None \<Rightarrow> 0 | Some m \<Rightarrow> stc_Size m)))) \<and>
    (cs_DeleteChunk f i (cs, d) = ((cs3, d3), None) \<longrightarrow> cs_UsedBytes cs3 = int64 (stored_bytes cs3))"
proof -
  let ?old = "case map_of (cs_chunks cs) i of None \<Rightarrow> 0 | Some m \<Rightarrow> stc_Size m"
  have del: "cs_UsedBytes x = int64 (stored_bytes x + k)"
    if "cs_DeleteChunk f i (y, e) = ((x, e'), None)" "gm_wf (cs_chunks y)" "cs_usedBytes y = int64 (stored_bytes y + k)"
    for x y e e' k
  proof -
    have "\<exists>m. map_of (cs_chunks y) i = Some m \<and>
        x = y\<lparr>cs_chunks := AList.delete i (cs_chunks y), cs_usedBytes := int64 (cs_usedBytes y + - stc_Size m)\<rparr>"
      using delete_ok [OF that(1)] by auto
    then obtain m where m: "map_of (cs_chunks y) i = Some m"
      "x = y\<lparr>cs_chunks := AList.delete i (cs_chunks y), cs_usedBytes := int64 (cs_usedBytes y + - stc_Size m)\<rparr>"
      by blast
    have "cs_UsedBytes x = int64 (stored_bytes y + k - stc_Size m)"
      using m(2) that(3) int64_diff_left [of "stored_bytes y + k" "stc_Size m"] by (simp add: cs_UsedBytes_def)
    also have "stored_bytes y + k - stc_Size m = stored_bytes x + k"
      using sum_delete [OF that(2) m(1)] m(2) by (simp add: stored_bytes_def)
    finally show ?thesis .
  qed
  have st: "cs_UsedBytes cs1 = int64 (stored_bytes cs1 + ?old) \<and> gm_wf (cs_chunks cs1)"
    if s: "cs_StoreChunk fault sha i data c (cs, d) = ((cs1, d1), None)"
  proof -
    have c1: "cs1 = cs\<lparr>cs_chunks := AList.update i \<lparr>stc_ChunkID = i, stc_Size = int64 (int (length data)),
      stc_Checksum = DataChecksum sha data, stc_FilePath = cs_chunkPath cs i\<rparr> (cs_chunks cs),
      cs_usedBytes := int64 (cs_usedBytes cs + int64 (int (length data)))\<rparr>"
      using store_ok(1) [OF s] by simp
    have "stored_bytes cs1 + ?old = stored_bytes cs + int64 (int (length data))"
    proof (cases "map_of (cs_chunks cs) i")
      case None
      then have "i \<notin> gm_keys (cs_chunks cs)" by (simp add: key_map_of)
      then show ?thesis using None by (simp add: c1 stored_bytes_def sum_update_new)
    next
      case (Some m)
      then show ?thesis using sum_update_old [OF assms(1) Some] by (simp add: c1 stored_bytes_def)
    qed
    then show ?thesis using assms by (simp add: c1 cs_UsedBytes_def int64_add_left)
  qed
  show ?thesis
    using st del [of cs1 d1 cs2 d2 ?old] del [of cs d cs3 d3 0] assms by (auto simp: cs_UsedBytes_def)
qed

text \<open>A restart: the store that \<open>NewChunkStore\<close> builds from a readable directory.\<close>

definition dir_listing :: "string \<Rightarrow> disk \<Rightarrow> (string \<times> bool) list \<Rightarrow> bool" where
  "dir_listing dir d es \<longleftrightarrow> (\<forall>e\<in>set es. CHR ''/'' \<notin> set (fst e)) \<and>
     (\<forall>i. CHR ''/'' \<notin> set i \<longrightarrow> (i @ ''.chunk'', False) \<in> set es \<longleftrightarrow> map_of d (filepath_Join dir (i @ ''.chunk'')) \<noteq> None)"

lemma load_entry_inv:
  assumes "cs_inv cs" "CHR ''/'' \<notin> set (fst e)"
  shows "cs_inv (load_entry rf sha d e cs)"
proof (cases "snd e \<or> filepath_Ext (fst e) \<noteq> ''.chunk''")
  case True
  then show ?thesis using assms(1) by (cases e) (auto simp: load_entry_def)
next
  case False
  define i where "i = take (length (fst e) - 6) (fst e)"
  have n: "i @ ''.chunk'' = fst e" using ext_chunk [OF assms(2)] False by (simp add: i_def)
  have s: "CHR ''/'' \<notin> set i" using assms(2) by (auto simp: i_def dest: in_set_takeD)
  have p: "filepath_Join (cs_dataDir cs) (fst e) = cs_chunkPath cs i" by (simp add: cs_chunkPath_def n)
  show ?thesis
  proof (cases "os_ReadFile (rf (filepath_Join (cs_dataDir cs) (fst e))) (filepath_Join (cs_dataDir cs) (fst e)) d")
    case (Inr data)
    then show ?thesis using False assms(1) s p
      by (cases e) (auto simp: load_entry_def Let_def cs_inv_def i_def cs_chunkPath_def distinct_update)
  qed (use False assms(1) in \<open>cases e, auto simp: load_entry_def\<close>)
qed

lemma restart_store:
  assumes "dir_listing (cs_dataDir cs) d es" "cs_inv cs"
    and "NewChunkStore None (\<lambda>_. None) sha (Inr es) (cs_dataDir cs) d = Inr cs'"
  shows "cs_inv cs'" "CHR ''/'' \<notin> set i \<Longrightarrow> cs_holds sha (cs', d) i = map_of d (cs_chunkPath cs i)"
    and "cs_holds sha (cs, d) i = Some data \<Longrightarrow> cs_holds sha (cs', d) i = Some data"
proof -
  define cs0 where "cs0 = \<lparr>cs_dataDir = cs_dataDir cs, cs_chunks = [], cs_usedBytes = 0\<rparr>"
  have cs': "cs' = fold (load_entry (\<lambda>_. None) sha d) es cs0"
    using assms(3) by (simp add: NewChunkStore_def cs_loadExisting_def cs0_def)
  have es: "\<forall>e\<in>set es. CHR ''/'' \<notin> set (fst e)" using assms(1) by (simp add: dir_listing_def)
  then have "cs_inv (fold (load_entry (\<lambda>_. None) sha d) es cs0)"
  proof -
    have "cs_inv cs1 \<Longrightarrow> \<forall>e\<in>set xs. CHR ''/'' \<notin> set (fst e) \<Longrightarrow> cs_inv (fold (load_entry (\<lambda>_. None) sha d) xs cs1)" for xs cs1
      by (induction xs arbitrary: cs1) (simp_all add: load_entry_inv)
    then show ?thesis using es cs_inv_new by (simp add: cs0_def)
  qed
  then show "cs_inv cs'" by (simp add: cs')
  have h: "cs_holds sha (cs', d) j = map_of d (cs_chunkPath cs j)" if j: "CHR ''/'' \<notin> set j" for j
  proof -
    let ?p = "filepath_Join (cs_dataDir cs) (j @ ''.chunk'')"
    have "map_of (cs_chunks cs') j = (if map_of d ?p \<noteq> None then map_option (loaded sha (cs_dataDir cs) j) (map_of d ?p) else None)"
      using load_fold_chunks [OF es j, of sha d cs0] assms(1) j by (simp add: cs' cs0_def dir_listing_def)
    then show ?thesis
      by (cases "map_of d ?p") (auto simp: cs_holds_def cs_GetChunk_def cs_lookup_def cs_read_def os_ReadFile_def loaded_def cs_chunkPath_def)
  qed
  then show "CHR ''/'' \<notin> set i \<Longrightarrow> cs_holds sha (cs', d) i = map_of d (cs_chunkPath cs i)" .
  assume held: "cs_holds sha (cs, d) i = Some data"
  then obtain m where m: "map_of (cs_chunks cs) i = Some m" "map_of d (stc_FilePath m) = Some data"
    by (auto simp: holds_iff)
  have "map_of d (cs_chunkPath cs i) = Some data" using m cs_inv_path [OF assms(2) m(1)] by simp
  then show "cs_holds sha (cs', d) i = Some data" using h [OF cs_inv_slash [OF assms(2) m(1)]] by simp
qed

text \<open>
  C38: a restart. \<open>NewChunkStore\<close> over a readable data directory serves, for every ID without a
  slash, exactly the content of its file. So every chunk served before the restart is served after
  it; but since the checksums are recomputed from the files, a file that was corrupted and refused
  before the restart is served as good afterwards.
\<close>

theorem restart_serves_files:
  assumes "\<forall>e\<in>set es. CHR ''/'' \<notin> set (fst e)"
    and "\<forall>i. CHR ''/'' \<notin> set i \<longrightarrow> (i @ ''.chunk'', False) \<in> set es \<longleftrightarrow> map_of d (filepath_Join dir (i @ ''.chunk'')) \<noteq> None"
    and "cs_inv cs" "cs_dataDir cs = dir" "CHR ''/'' \<notin> set i"
  shows "\<exists>cs'. NewChunkStore None (\<lambda>_. None) sha (Inr es) dir d = Inr cs' \<and>
    (case map_of d (cs_chunkPath cs i) of
       None \<Rightarrow> \<forall>r. cs_GetChunk None sha (cs', d) i \<noteq> Inr r
     | Some file \<Rightarrow> cs_GetChunk None sha (cs', d) i = Inr (file, DataChecksum sha file)) \<and>
    (\<forall>data ck. cs_GetChunk None sha (cs, d) i = Inr (data, ck) \<longrightarrow> cs_GetChunk None sha (cs', d) i = Inr (data, ck))"
proof -
  have l: "dir_listing (cs_dataDir cs) d es" using assms(1,2,4) by (simp add: dir_listing_def)
  obtain cs' where n: "NewChunkStore None (\<lambda>_. None) sha (Inr es) dir d = Inr cs'" by (simp add: NewChunkStore_def)
  note r = restart_store [OF l assms(3) n [folded assms(4)]]
  show ?thesis
    using n r(2) [OF assms(5)] r(3) [of i] by (auto simp: GetChunk_None split: option.split)
qed

theorem store_get_roundtrip_witness:
  "case cs_StoreChunk NoFault id ''b2'' ''y'' ''79'' (one_chunk, [(''/data/a1.chunk'', ''x'')]) of ((cs', d'), r) \<Rightarrow>
     r = None \<and> cs_GetChunk None id (cs', d') ''b2'' = Inr (''y'', ''79'') \<and>
     cs_GetChunk None id (cs', d') ''a1'' = Inr (''x'', ''78'')"
proof -
  have c: "DataChecksum id ''y'' = ''79''" by code_simp
  have x: "cs_GetChunk None id (one_chunk, [(''/data/a1.chunk'', ''x'')]) ''a1'' = Inr (''x'', ''78'')" by code_simp
  show ?thesis
    using store_get_roundtrip [OF one_chunk_inv, where i = "''b2''" and sha = id and data = "''y''" and c = "''79''" and
        d = "[(''/data/a1.chunk'', ''x'')]"] c x
    by (auto split: prod.splits)
qed

theorem used_bytes_accounting_witness:
  "case cs_StoreChunk NoFault id ''a1'' ''yz'' ''797a'' (one_chunk, [(''/data/a1.chunk'', ''x'')]) of ((cs1, d1), r) \<Rightarrow>
     r = None \<and> cs_UsedBytes cs1 = 3 \<and> stored_bytes cs1 = 2"
proof -
  let ?s = "cs_StoreChunk NoFault id ''a1'' ''yz'' ''797a'' (one_chunk, [(''/data/a1.chunk'', ''x'')])"
  obtain cs1 d1 where s: "?s = ((cs1, d1), None)" "stored_bytes cs1 = 2"
  proof -
    have "snd ?s = None" "stored_bytes (fst (fst ?s)) = 2" by code_simp+
    then show ?thesis by (intro that [of "fst (fst ?s)" "snd (fst ?s)"]) (auto simp: prod_eq_iff)
  qed
  have m: "map_of (cs_chunks one_chunk) ''a1'' = Some \<lparr>stc_ChunkID = ''a1'', stc_Size = 1,
     stc_Checksum = ''78'', stc_FilePath = ''/data/a1.chunk''\<rparr>" by (simp add: one_chunk_def)
  have a: "gm_wf (cs_chunks one_chunk)" "cs_usedBytes one_chunk = int64 (stored_bytes one_chunk)"
    by (simp add: one_chunk_def) code_simp
  have "cs_UsedBytes cs1 = int64 3"
    using used_bytes_accounting [OF a, where fault = NoFault and sha = id and i = "''a1''" and data = "''yz''" and c = "''797a''" and d = "[(''/data/a1.chunk'', ''x'')]"] s
    by (simp add: m)
  moreover have "int64 3 = 3" by code_simp
  ultimately show ?thesis using s by simp
qed

text \<open>A store whose only file was overwritten on disk.\<close>

definition bad_disk :: disk where
  "bad_disk = [(''/data/a1.chunk'', ''?'')]"

theorem restart_serves_files_witness:
  "(\<forall>r. cs_GetChunk None id (one_chunk, bad_disk) ''a1'' \<noteq> Inr r) \<and>
   (\<exists>cs'. NewChunkStore None (\<lambda>_. None) id (Inr [(''a1.chunk'', False)]) ''/data'' bad_disk = Inr cs' \<and>
      cs_GetChunk None id (cs', bad_disk) ''a1'' = Inr (''?'', ''3f''))"
proof -
  have e: "\<forall>e\<in>set [(''a1.chunk'', False)]. CHR ''/'' \<notin> set (fst e)" by simp
  have p: "filepath_Join ''/data'' (i @ ''.chunk'') = ''/data/'' @ i @ ''.chunk''" if "CHR ''/'' \<notin> set i" for i
  proof -
    have "dir_prefix ''/data'' = ''/data/''" by code_simp
    then show ?thesis using chunk_path_simple [OF that, of one_chunk] by (simp add: cs_chunkPath_def one_chunk_def)
  qed
  have dir: "\<forall>i. CHR ''/'' \<notin> set i \<longrightarrow> (i @ ''.chunk'', False) \<in> set [(''a1.chunk'', False)] \<longleftrightarrow>
      map_of bad_disk (filepath_Join ''/data'' (i @ ''.chunk'')) \<noteq> None"
  proof (intro allI impI)
    fix i :: string assume i: "CHR ''/'' \<notin> set i"
    have "''/data/a1.chunk'' = ''/data/'' @ i @ ''.chunk'' \<longleftrightarrow> ''a1.chunk'' = i @ ''.chunk''" by simp
    then show "(i @ ''.chunk'', False) \<in> set [(''a1.chunk'', False)] \<longleftrightarrow>
      map_of bad_disk (filepath_Join ''/data'' (i @ ''.chunk'')) \<noteq> None"
      unfolding p [OF i] bad_disk_def by auto
  qed
  have cp: "cs_chunkPath one_chunk ''a1'' = ''/data/a1.chunk''" "DataChecksum id ''?'' = ''3f''" by code_simp+
  have g: "\<forall>r. cs_GetChunk None id (one_chunk, bad_disk) ''a1'' \<noteq> Inr r"
  proof -
    have "cs_GetChunk None id (one_chunk, bad_disk) ''a1'' = Inl ''chunk a1 corrupted on disk''" by code_simp
    then show ?thesis by simp
  qed
  have "cs_dataDir one_chunk = ''/data''" "CHR ''/'' \<notin> set ''a1''" by (simp_all add: one_chunk_def)
  from restart_serves_files [OF e dir one_chunk_inv this, where sha = id]
  show ?thesis using g by (auto simp: cp bad_disk_def)
qed

end
