(* ===== verification/Health_Collector.thy ===== *)
theory Health_Collector
  imports Predictor
begin

text \<open>
  \<^verbatim>\<open>internal/datanode/health.go\<close> and \<^verbatim>\<open>internal/datanode/admin.go\<close>: the (partly simulated) health
  metrics of a data node, and the HTTP handlers that start and stop the simulated degradation.

  \<open>rnd i\<close> is the \<open>i\<close>-th value \<open>rand.Float64\<close> returns within one call. \<open>alloc\<close> and \<open>sys\<close> are the two
  \<open>runtime.MemStats\<close> fields read. A \<open>float64\<close> is a \<open>real\<close>.
\<close>

section \<open>health.go\<close>

record HealthCollector =
  hc_diskIOLatency :: real
  hc_diskUtil :: real
  hc_errorCount :: int
  hc_responseTime :: real
  hc_cpuUsage :: real
  hc_memoryUsage :: real
  hc_degrading :: bool
  hc_degradeSpeed :: real
  hc_degradeStarted :: time

record HealthSnapshot =
  hs_DiskIOLatency :: real
  hs_DiskUtil :: real
  hs_ErrorCount :: int
  hs_ResponseTime :: real
  hs_CPUUsage :: real
  hs_MemoryUsage :: real
  hs_Timestamp :: time

definition NewHealthCollector :: "(nat \<Rightarrow> real) \<Rightarrow> HealthCollector" where
  "NewHealthCollector rnd =
     \<lparr>hc_diskIOLatency = 1.0 + rnd 0 * 2.0, hc_diskUtil = 0.1 + rnd 1 * 0.2, hc_errorCount = 0,
      hc_responseTime = 0.5 + rnd 2 * 1.0, hc_cpuUsage = 0.05 + rnd 3 * 0.15, hc_memoryUsage = 0.2 + rnd 4 * 0.1,
      hc_degrading = False, hc_degradeSpeed = 0, hc_degradeStarted = 0\<rparr>"

definition jitter :: "real \<Rightarrow> real \<Rightarrow> real \<Rightarrow> real" where
  "jitter r base amount = (let v = base + (r - 0.5) * amount in if v < 0 then 0 else v)"

definition hc_clamp :: "real \<Rightarrow> real \<Rightarrow> real \<Rightarrow> real" where
  "hc_clamp v mn mx = (if v < mn then mn else if v > mx then mx else v)"

text \<open>
  \<open>int64(x)\<close> of a floating-point value: truncated towards zero; a value out of range becomes the
  least integer (what amd64 does, Go leaves it open).
\<close>

definition int64_of_float :: "real \<Rightarrow> int" where
  "int64_of_float x =
     (let t = (if x < 0 then \<lceil>x\<rceil> else \<lfloor>x\<rfloor>) in if is_int64 t then t else - (2 ^ 63))"

definition cap99 :: "real \<Rightarrow> real" where
  "cap99 v = (if v > 0.99 then 0.99 else v)"

text \<open>The degradation step of \<open>Collect\<close>.\<close>

definition degrade :: "time \<Rightarrow> HealthCollector \<Rightarrow> HealthCollector" where
  "degrade now hc =
     (if hc_degrading hc then
        let elapsed = Seconds (now - hc_degradeStarted hc);
            factor = elapsed * hc_degradeSpeed hc
        in hc\<lparr>hc_diskIOLatency := hc_diskIOLatency hc + factor * 0.8,
              hc_diskUtil := cap99 (hc_diskUtil hc + factor * 0.005),
              hc_responseTime := hc_responseTime hc + factor * 0.5,
              hc_cpuUsage := cap99 (hc_cpuUsage hc + factor * 0.005),
              hc_memoryUsage := cap99 (hc_memoryUsage hc + factor * 0.003),
              hc_errorCount := int64 (hc_errorCount hc + int64_of_float (factor * 1.0))\<rparr>
      else hc)"

definition hc_Collect ::
  "(nat \<Rightarrow> real) \<Rightarrow> nat \<Rightarrow> nat \<Rightarrow> time \<Rightarrow> HealthCollector \<Rightarrow> HealthCollector \<times> HealthSnapshot" where
  "hc_Collect rnd alloc sys now hc0 =
     (let hc = degrade now hc0;
          mem = real alloc / real sys;
          realMemUsage = (if mem > 1.0 then 1.0 else mem)
      in (hc,
          \<lparr>hs_DiskIOLatency = jitter (rnd 0) (hc_diskIOLatency hc) 1.0,
           hs_DiskUtil = hc_clamp (jitter (rnd 1) (hc_diskUtil hc) 0.05) 0 1,
           hs_ErrorCount = hc_errorCount hc,
           hs_ResponseTime = jitter (rnd 2) (hc_responseTime hc) 0.5,
           hs_CPUUsage = hc_clamp (jitter (rnd 3) (hc_cpuUsage hc) 0.05) 0 1,
           hs_MemoryUsage = hc_clamp (jitter (rnd 4) (hc_memoryUsage hc) 0.03 + realMemUsage * 0.1) 0 1,
           hs_Timestamp = now\<rparr>))"

definition hc_StartDegradation :: "time \<Rightarrow> real \<Rightarrow> HealthCollector \<Rightarrow> HealthCollector" where
  "hc_StartDegradation now speed hc =
     hc\<lparr>hc_degrading := True, hc_degradeSpeed := speed, hc_degradeStarted := now\<rparr>"

definition hc_StopDegradation :: "HealthCollector \<Rightarrow> HealthCollector" where
  "hc_StopDegradation hc = hc\<lparr>hc_degrading := False\<rparr>"

definition hc_IsDegrading :: "HealthCollector \<Rightarrow> bool" where
  "hc_IsDegrading hc = hc_degrading hc"

section \<open>admin.go\<close>

text \<open>What a handler writes: an error text with its code, or a JSON object as its fields.\<close>

datatype json_value = JString string | JFloat real | JInt int | JBool bool

datatype http_reply = HttpError string int | HttpJSON "(string \<times> json_value) list"

text \<open>\<open>parse\<close> is \<open>strconv.ParseFloat\<close> at 64 bits, \<open>None\<close> for its error.\<close>

definition ad_handleDegrade ::
  "(string \<Rightarrow> real option) \<Rightarrow> time \<Rightarrow> string \<Rightarrow> string \<Rightarrow> string \<Rightarrow> HealthCollector \<Rightarrow> HealthCollector \<times> http_reply" where
  "ad_handleDegrade parse now nodeID httpMethod speedStr hc =
     (if httpMethod \<noteq> ''POST'' then (hc, HttpError ''POST only'' 405)
      else
        case (if speedStr \<noteq> '''' then parse speedStr else Some 0.1) of
          None \<Rightarrow> (hc, HttpError ''invalid speed parameter'' 400)
        | Some speed \<Rightarrow>
            (hc_StartDegradation now speed hc,
             HttpJSON [(''status'', JString ''degrading''), (''node_id'', JString nodeID), (''speed'', JFloat speed),
               (''message'', JString ''Disk degradation simulation started'')]))"

definition ad_handleRecover :: "string \<Rightarrow> string \<Rightarrow> HealthCollector \<Rightarrow> HealthCollector \<times> http_reply" where
  "ad_handleRecover nodeID httpMethod hc =
     (if httpMethod \<noteq> ''POST'' then (hc, HttpError ''POST only'' 405)
      else (hc_StopDegradation hc,
            HttpJSON [(''status'', JString ''recovered''), (''node_id'', JString nodeID),
              (''message'', JString ''Degradation simulation stopped'')]))"

definition ad_handleStatus ::
  "(nat \<Rightarrow> real) \<Rightarrow> nat \<Rightarrow> nat \<Rightarrow> time \<Rightarrow> string \<Rightarrow> HealthCollector \<Rightarrow> HealthCollector \<times> http_reply" where
  "ad_handleStatus rnd alloc sys now nodeID hc =
     (case hc_Collect rnd alloc sys now hc of
        (hc', m) \<Rightarrow>
          (hc', HttpJSON [(''node_id'', JString nodeID), (''degrading'', JBool (hc_IsDegrading hc')),
             (''disk_io_latency'', JString (fmt_f False 2 (hs_DiskIOLatency m) @ '' ms'')),
             (''disk_utilization'', JString (fmt_f False 1 (hs_DiskUtil m * 100) @ ''%'')),
             (''error_count'', JInt (hs_ErrorCount m)),
             (''response_time'', JString (fmt_f False 2 (hs_ResponseTime m) @ '' ms'')),
             (''cpu_usage'', JString (fmt_f False 1 (hs_CPUUsage m * 100) @ ''%'')),
             (''memory_usage'', JString (fmt_f False 1 (hs_MemoryUsage m * 100) @ ''%''))]))"

section \<open>Ranges\<close>

lemma jitter_ge: "0 \<le> jitter r b a"
  by (simp add: jitter_def Let_def)

lemma clamp01: "0 \<le> hc_clamp v 0 1" "hc_clamp v 0 1 \<le> 1"
  by (simp_all add: hc_clamp_def)

lemma jitter_near:
  assumes "0 \<le> r" "r < 1" "0 \<le> a" "0 \<le> b"
  shows "\<bar>jitter r b a - b\<bar> \<le> a / 2"
proof -
  have "r * a \<le> 1 * a" "0 \<le> r * a" using assms by (intro mult_right_mono mult_nonneg_nonneg; simp)+
  then have "r * a \<le> a" "0 \<le> r * a" by simp_all
  then have "\<bar>(r - 0.5) * a\<bar> \<le> a / 2" by (intro abs_leI) (simp_all add: algebra_simps)
  moreover obtain x where "x = (r - 0.5) * a" by simp
  ultimately show ?thesis using assms(4) unfolding jitter_def Let_def by auto
qed

text \<open>The base values a collector can have.\<close>

definition hc_inv :: "HealthCollector \<Rightarrow> bool" where
  "hc_inv hc \<longleftrightarrow> 0 \<le> hc_diskIOLatency hc \<and> 0 \<le> hc_responseTime hc \<and>
     0 \<le> hc_diskUtil hc \<and> hc_diskUtil hc \<le> 0.99 \<and> 0 \<le> hc_cpuUsage hc \<and> hc_cpuUsage hc \<le> 0.99 \<and>
     0 \<le> hc_memoryUsage hc \<and> hc_memoryUsage hc \<le> 0.99 \<and> (hc_degrading hc \<longrightarrow> 0 \<le> hc_degradeSpeed hc)"

lemma hc_inv_new:
  assumes "\<And>i. 0 \<le> rnd i \<and> rnd i < 1"
  shows "hc_inv (NewHealthCollector rnd)"
  using assms [of 0] assms [of "Suc 0"] assms [of 2] assms [of 3] assms [of 4]
  by (auto simp: hc_inv_def NewHealthCollector_def)

lemma factor_nonneg: "started \<le> now \<Longrightarrow> 0 \<le> speed \<Longrightarrow> 0 \<le> Seconds (now - started) * speed"
  by (simp add: Seconds_def Second_def)

lemma degrade_monotone:
  assumes "hc_inv hc" "hc_degradeStarted hc \<le> now"
  shows "hc_inv (degrade now hc)"
    and "hc_diskIOLatency hc \<le> hc_diskIOLatency (degrade now hc)"
    and "hc_responseTime hc \<le> hc_responseTime (degrade now hc)"
    and "hc_diskUtil hc \<le> hc_diskUtil (degrade now hc)"
    and "hc_cpuUsage hc \<le> hc_cpuUsage (degrade now hc)"
    and "hc_memoryUsage hc \<le> hc_memoryUsage (degrade now hc)"
proof -
  obtain f where f: "f = Seconds (now - hc_degradeStarted hc) * hc_degradeSpeed hc" by simp
  have "0 \<le> f" if "hc_degrading hc"
    using factor_nonneg [OF assms(2), of "hc_degradeSpeed hc"] assms(1) that by (simp add: f hc_inv_def)
  then show "hc_inv (degrade now hc)"
    and "hc_diskIOLatency hc \<le> hc_diskIOLatency (degrade now hc)"
    and "hc_responseTime hc \<le> hc_responseTime (degrade now hc)"
    and "hc_diskUtil hc \<le> hc_diskUtil (degrade now hc)"
    and "hc_cpuUsage hc \<le> hc_cpuUsage (degrade now hc)"
    and "hc_memoryUsage hc \<le> hc_memoryUsage (degrade now hc)"
    using assms by (auto simp: hc_inv_def degrade_def Let_def cap99_def f [symmetric])
qed

lemma degrade_keeps:
  "hc_degrading (degrade t hc) = hc_degrading hc" "hc_degradeSpeed (degrade t hc) = hc_degradeSpeed hc"
  "hc_degradeStarted (degrade t hc) = hc_degradeStarted hc"
  by (simp_all add: degrade_def Let_def)

lemma degrade_off: "\<not> hc_degrading hc \<Longrightarrow> degrade t hc = hc"
  by (simp add: degrade_def)

text \<open>A series of calls of \<open>Collect\<close> at the times \<open>ts\<close>, in this order.\<close>

definition collect_all :: "time list \<Rightarrow> HealthCollector \<Rightarrow> HealthCollector" where
  "collect_all ts hc = fold (\<lambda>t hc. fst (hc_Collect (\<lambda>_. 0.5) 0 1 t hc)) ts hc"

lemma Collect_fst: "fst (hc_Collect rnd alloc sys t hc) = degrade t hc"
  by (simp add: hc_Collect_def Let_def)

lemma collect_all_off: "\<not> hc_degrading hc \<Longrightarrow> collect_all ts hc = hc"
  by (induction ts) (simp_all add: collect_all_def Collect_fst degrade_off)

lemma collect_all_latency:
  "hc_degrading hc \<Longrightarrow> hc_diskIOLatency (collect_all ts hc) =
    hc_diskIOLatency hc + 0.8 * hc_degradeSpeed hc * (\<Sum>t\<leftarrow>ts. Seconds (t - hc_degradeStarted hc)) \<and>
   hc_responseTime (collect_all ts hc) =
    hc_responseTime hc + 0.5 * hc_degradeSpeed hc * (\<Sum>t\<leftarrow>ts. Seconds (t - hc_degradeStarted hc))"
proof (induction ts arbitrary: hc)
  case (Cons t ts)
  then show ?case
    using Cons.IH [of "degrade t hc"] degrade_keeps [of t hc]
    by (simp add: collect_all_def Collect_fst) (simp add: degrade_def Let_def algebra_simps)
qed (simp add: collect_all_def)

lemma collect_all_inv:
  "hc_inv hc \<Longrightarrow> \<forall>t\<in>set ts. hc_degradeStarted hc \<le> t \<Longrightarrow> hc_inv (collect_all ts hc)"
  by (induction ts arbitrary: hc) (simp_all add: collect_all_def Collect_fst degrade_monotone(1) degrade_keeps)

section \<open>Properties\<close>

text \<open>
  what \<open>Collect\<close> reports: utilizations within 0 and 1, whatever the state; and for a collector in
  its normal range the disk latency and the response time within half a millisecond, and a quarter,
  of the stored values, the error count exactly, and the stored values still in range.
\<close>

theorem collect_ranges:
  assumes "hc_Collect rnd alloc sys now hc = (hc', m)"
  shows "0 \<le> hs_DiskUtil m \<and> hs_DiskUtil m \<le> 1 \<and> 0 \<le> hs_CPUUsage m \<and> hs_CPUUsage m \<le> 1 \<and>
    0 \<le> hs_MemoryUsage m \<and> hs_MemoryUsage m \<le> 1 \<and> 0 \<le> hs_DiskIOLatency m \<and> 0 \<le> hs_ResponseTime m \<and>
    hs_ErrorCount m = hc_errorCount hc' \<and>
    (hc_inv hc \<and> hc_degradeStarted hc \<le> now \<and> (\<forall>i. 0 \<le> rnd i \<and> rnd i < 1) \<longrightarrow>
       hc_inv hc' \<and> \<bar>hs_DiskIOLatency m - hc_diskIOLatency hc'\<bar> \<le> 1 / 2 \<and>
       \<bar>hs_ResponseTime m - hc_responseTime hc'\<bar> \<le> 1 / 4)"
proof -
  have hc': "hc' = degrade now hc" using assms Collect_fst [of rnd alloc sys now hc] by simp
  have m: "hs_DiskIOLatency m = jitter (rnd 0) (hc_diskIOLatency hc') 1"
    "hs_ResponseTime m = jitter (rnd 2) (hc_responseTime hc') (1 / 2)"
    using assms by (auto simp: hc_Collect_def Let_def)
  have r: "0 \<le> hs_DiskUtil m \<and> hs_DiskUtil m \<le> 1 \<and> 0 \<le> hs_CPUUsage m \<and> hs_CPUUsage m \<le> 1 \<and>
    0 \<le> hs_MemoryUsage m \<and> hs_MemoryUsage m \<le> 1 \<and> hs_ErrorCount m = hc_errorCount hc'"
    using assms by (auto simp: hc_Collect_def Let_def clamp01)
  have "hc_inv hc' \<and> \<bar>hs_DiskIOLatency m - hc_diskIOLatency hc'\<bar> \<le> 1 / 2 \<and>
       \<bar>hs_ResponseTime m - hc_responseTime hc'\<bar> \<le> 1 / 4"
    if "hc_inv hc" "hc_degradeStarted hc \<le> now" "\<forall>i. 0 \<le> rnd i \<and> rnd i < 1"
  proof -
    have i: "hc_inv hc'" using degrade_monotone(1) [OF that(1,2)] hc' by simp
    then have "0 \<le> hc_diskIOLatency hc'" "0 \<le> hc_responseTime hc'" by (simp_all add: hc_inv_def)
    then show ?thesis
      using i m that(3) jitter_near [of "rnd 0" 1 "hc_diskIOLatency hc'"]
        jitter_near [of "rnd 2" "1 / 2" "hc_responseTime hc'"] by simp
  qed
  then show ?thesis using r m jitter_ge by simp
qed

definition demo_hc :: HealthCollector where
  "demo_hc = hc_StartDegradation 0 2 (NewHealthCollector (\<lambda>_. 0))"

lemma demo_hc_inv: "hc_inv demo_hc"
  by (simp add: demo_hc_def hc_StartDegradation_def NewHealthCollector_def hc_inv_def)

theorem collect_ranges_witness:
  "case hc_Collect (\<lambda>_. 0) 1 2 (5 * Second) demo_hc of (hc', m) \<Rightarrow>
     hs_DiskUtil m \<le> 1 \<and> hc_inv hc' \<and> \<bar>hs_DiskIOLatency m - hc_diskIOLatency hc'\<bar> \<le> 1 / 2"
proof -
  obtain hc' m where c: "hc_Collect (\<lambda>_. 0) 1 2 (5 * Second) demo_hc = (hc', m)" by force
  have "hc_degradeStarted demo_hc \<le> 5 * Second"
    by (simp add: demo_hc_def hc_StartDegradation_def Second_def)
  then show ?thesis using collect_ranges [OF c] demo_hc_inv c by simp
qed

text \<open>
  observing a degrading node worsens it. Every \<open>Collect\<close> adds the time elapsed since the
  degradation began, times the speed, to the stored latencies; so the damage depends on how often
  the metrics are read (by the report loop, by \<open>GetHealth\<close>, or by the status page), and \<open>n\<close>
  reads at one instant do \<open>n\<close> times the damage. Without degradation reads change nothing, and
  \<open>/recover\<close> stops the worsening but gives back no healthy value.
\<close>

theorem reading_worsens_metrics:
  assumes "hc_degrading hc"
  shows "hc_diskIOLatency (collect_all (replicate n t) hc) =
      hc_diskIOLatency hc + real n * (0.8 * hc_degradeSpeed hc * Seconds (t - hc_degradeStarted hc)) \<and>
    hc_responseTime (collect_all (replicate n t) hc) =
      hc_responseTime hc + real n * (0.5 * hc_degradeSpeed hc * Seconds (t - hc_degradeStarted hc)) \<and>
    (\<forall>ts rnd alloc sys now nodeID. collect_all ts (fst (ad_handleRecover nodeID ''POST'' hc)) = hc\<lparr>hc_degrading := False\<rparr> \<and>
       fst (ad_handleStatus rnd alloc sys now nodeID hc) = fst (hc_Collect rnd alloc sys now hc))"
proof -
  have sm: "(\<Sum>t\<leftarrow>replicate n t. Seconds (t - hc_degradeStarted hc)) = real n * Seconds (t - hc_degradeStarted hc)"
    by (simp add: sum_list_replicate)
  have "collect_all ts (fst (ad_handleRecover nodeID ''POST'' hc)) = hc\<lparr>hc_degrading := False\<rparr>" for ts nodeID
    using collect_all_off [of "hc\<lparr>hc_degrading := False\<rparr>"] by (simp add: ad_handleRecover_def hc_StopDegradation_def)
  then show ?thesis
    using collect_all_latency [OF assms, of "replicate n t"] sm by (simp add: ad_handleStatus_def split: prod.split)
qed

theorem reading_worsens_metrics_witness:
  "hc_diskIOLatency (collect_all [10 * Second, 10 * Second] demo_hc) = 33 \<and>
   hc_diskIOLatency (collect_all [10 * Second] demo_hc) = 17"
proof -
  have d: "hc_degrading demo_hc" "hc_diskIOLatency demo_hc = 1" "hc_degradeSpeed demo_hc = 2" "hc_degradeStarted demo_hc = 0"
    by (simp_all add: demo_hc_def hc_StartDegradation_def NewHealthCollector_def)
  have s: "Seconds (10 * Second) = 10" by (simp add: Seconds_def Second_def)
  have r: "replicate 2 (10 * Second) = [10 * Second, 10 * Second]" "replicate 1 (10 * Second) = [10 * Second]"
    by (simp_all add: numeral_2_eq_2)
  show ?thesis
    using reading_worsens_metrics [OF d(1), of 2 "10 * Second"] reading_worsens_metrics [OF d(1), of 1 "10 * Second"]
    unfolding r by (simp add: d s)
qed

lemma sum_intervals: "(\<Sum>i\<leftarrow>[1..<Suc n]. Seconds (int i * MetricsReportInterval)) = 5 * (real n * (real n + 1) / 2)"
  by (induction n) (simp_all add: Seconds_def MetricsReportInterval_def Second_def field_simps)

text \<open>
  degradation is noticed: with a positive speed and one report per reporting interval, from the
  \<open>n\<close>-th report on (\<open>4 * speed * n \<ge> 51\<close>) the reported disk latency is over the predictor's
  threshold for it.
\<close>

theorem degradation_reaches_threshold:
  assumes "hc_inv hc" "hc_degrading hc" "0 < hc_degradeSpeed hc" "51 \<le> 4 * hc_degradeSpeed hc * real n"
    and "\<forall>i. 0 \<le> rnd i \<and> rnd i < 1"
    and "reported = map (\<lambda>i. hc_degradeStarted hc + int i * MetricsReportInterval) [1..<Suc n]"
  shows "hs_DiskIOLatency (snd (hc_Collect rnd alloc sys (last reported) (collect_all (butlast reported) hc)))
    > lookup0 MetricThreshold MetricDiskIOLatency"
proof -
  define started where "started = hc_degradeStarted hc"
  have n: "0 < n" using assms(4) by (cases n) auto
  then have ne: "reported \<noteq> []" using assms(6) by simp
  then have split: "reported = butlast reported @ [last reported]" by simp
  let ?b = "collect_all (butlast reported) hc"
  obtain hc' m where c: "hc_Collect rnd alloc sys (last reported) ?b = (hc', m)" by force
  have late: "\<forall>t\<in>set reported. started \<le> t"
    using assms(6) by (auto simp: started_def MetricsReportInterval_def Second_def)
  have keeps: "hc_degradeStarted (collect_all ts hc) = started" for ts
    by (induction ts rule: rev_induct) (simp_all add: collect_all_def Collect_fst degrade_keeps started_def)
  have inv: "hc_inv ?b"
    using late by (intro collect_all_inv [OF assms(1)]) (metis in_set_butlastD started_def)
  have l: "started \<le> last reported" using late ne by simp
  have near: "\<bar>hs_DiskIOLatency m - hc_diskIOLatency hc'\<bar> \<le> 1 / 2"
    using collect_ranges [OF c] inv l keeps assms(5) by simp
  have "hc' = collect_all reported hc"
    using c split by (metis (no_types, lifting) Collect_fst collect_all_def fold_simps(1,2) fold_append comp_apply fst_conv)
  moreover have "(\<Sum>t\<leftarrow>reported. Seconds (t - started)) = 5 * (real n * (real n + 1) / 2)"
    using sum_intervals [of n] by (simp add: assms(6) started_def comp_def)
  ultimately have lat: "hc_diskIOLatency hc' = hc_diskIOLatency hc + 2 * hc_degradeSpeed hc * (real n * (real n + 1))"
    using collect_all_latency [OF assms(2), of reported] by (simp add: started_def)
  have "2 * real n \<le> real n * (real n + 1)" using n by (cases n) (auto simp: algebra_simps)
  then have "4 * hc_degradeSpeed hc * real n \<le> 2 * hc_degradeSpeed hc * (real n * (real n + 1))"
    using mult_left_mono [of "2 * real n" "real n * (real n + 1)" "2 * hc_degradeSpeed hc"] assms(3) by simp
  then have "51 \<le> hc_diskIOLatency hc'" using lat assms(1,4) by (simp add: hc_inv_def)
  then have "50 < hs_DiskIOLatency m" using near by linarith
  then show ?thesis using c by (simp add: lookup0_def MetricThreshold_def)
qed

theorem degradation_reaches_threshold_witness:
  "hs_DiskIOLatency (snd (hc_Collect (\<lambda>_. 0) 1 2 (last (map (\<lambda>i. int i * MetricsReportInterval) [1..<Suc 7]))
     (collect_all (butlast (map (\<lambda>i. int i * MetricsReportInterval) [1..<Suc 7])) demo_hc)))
   > lookup0 MetricThreshold MetricDiskIOLatency"
proof -
  have d: "hc_degrading demo_hc" "0 < hc_degradeSpeed demo_hc" "51 \<le> 4 * hc_degradeSpeed demo_hc * real 7"
    "hc_degradeStarted demo_hc = 0" "\<forall>i::nat. 0 \<le> (0::real) \<and> (0::real) < 1"
    by (simp_all add: demo_hc_def hc_StartDegradation_def NewHealthCollector_def)
  show ?thesis using degradation_reaches_threshold [OF demo_hc_inv d(1-3,5) refl] unfolding d(4) by simp
qed

end
