(* ===== verification/Chunk_Service.thy ===== *)
theory Chunk_Service
  imports Common Messages
begin

text \<open>
  The contract between the data nodes and those who call them (clients, other data nodes, the
  migrator): what a \<open>StoreChunk\<close> or \<open>GetChunk\<close> RPC does to the chunks the nodes hold.

  An RPC acts on the world \<open>'w\<close> of data nodes; it returns an error of the transport (\<open>Inl\<close>) or a
  response. \<open>holds w a i\<close> is the content the node at address \<open>a\<close> would serve for chunk \<open>i\<close>. An address
  is \<open>alive\<close> if no call to it fails in the transport and its disk works; \<open>fits n\<close> says that a message
  with \<open>n\<close> bytes of data is within the transport's limits.
\<close>

type_synonym 'w store_rpc = "string \<Rightarrow> StoreChunkRequest \<Rightarrow> 'w \<Rightarrow> 'w \<times> (string + StoreChunkResponse)"
type_synonym 'w get_rpc = "string \<Rightarrow> string \<Rightarrow> 'w \<Rightarrow> 'w \<times> (string + GetChunkResponse)"

abbreviation no_slash :: "string \<Rightarrow> bool" where
  "no_slash i \<equiv> CHR ''/'' \<notin> set i"

locale chunk_service =
  fixes sha :: "bytes \<Rightarrow> bytes"
    and store :: "'w store_rpc"
    and get :: "'w get_rpc"
    and inv :: "'w \<Rightarrow> bool"
    and holds :: "'w \<Rightarrow> string \<Rightarrow> string \<Rightarrow> bytes option"
    and present :: "'w \<Rightarrow> string \<Rightarrow> bool"
    and alive :: "string \<Rightarrow> bool"
    and fits :: "nat \<Rightarrow> bool"
  assumes store_inv: "inv w \<Longrightarrow> no_slash (sc_ChunkId req) \<Longrightarrow> store a req w = (w', r) \<Longrightarrow>
        inv w' \<and> present w' = present w"
    and store_frame: "inv w \<Longrightarrow> no_slash (sc_ChunkId req) \<Longrightarrow> store a req w = (w', r) \<Longrightarrow>
        (b, i) \<noteq> (a, sc_ChunkId req) \<Longrightarrow> holds w' b i = holds w b i"
    and store_done: "inv w \<Longrightarrow> no_slash (sc_ChunkId req) \<Longrightarrow> store a req w = (w', Inr resp) \<Longrightarrow>
        scr_Success resp \<Longrightarrow> holds w' a (sc_ChunkId req) = Some (sc_Data req)"
    and store_alive: "inv w \<Longrightarrow> alive a \<Longrightarrow> present w a \<Longrightarrow> fits (length (sc_Data req)) \<Longrightarrow>
        sc_Checksum req = DataChecksum sha (sc_Data req) \<Longrightarrow> store a req w = (w', r) \<Longrightarrow>
        \<exists>resp. r = Inr resp \<and> scr_Success resp"
    and get_keeps: "inv w \<Longrightarrow> get a i w = (w', g) \<Longrightarrow> inv w' \<and> holds w' = holds w \<and> present w' = present w"
    and get_sound: "inv w \<Longrightarrow> get a i w = (w', Inr ans) \<Longrightarrow> gkr_Success ans \<Longrightarrow>
        holds w a i = Some (gkr_Data ans) \<and> gkr_Checksum ans = DataChecksum sha (gkr_Data ans)"
    and get_alive: "inv w \<Longrightarrow> alive a \<Longrightarrow> holds w a i = Some data \<Longrightarrow> fits (length data) \<Longrightarrow> get a i w = (w', g) \<Longrightarrow>
        \<exists>ans. g = Inr ans \<and> gkr_Success ans"

end
