(* ===== verification/Data_Node.thy ===== *)
theory Data_Node
  imports Chunk_Store Health_Collector Chunk_Service Migrator
begin

text \<open>
  \<^verbatim>\<open>internal/datanode/server.go\<close>: a data node, its gRPC handlers and its calls to the metadata
  server; then the world of data nodes that the RPCs of the rest of the system act on.

  The state of a node is its \<open>Server\<close> and its disk. Handlers never return a gRPC error of their own.
  A call out to another process is an argument: \<open>dial\<close> the error of \<open>grpc.NewClient\<close>, \<open>rpc\<close> the call
  itself, which acts on the rest of the world. Starting and stopping the listener, the tickers and
  logging are left out.
\<close>

section \<open>State\<close>

record DataServer =
  ds_store :: ChunkStore
  ds_health :: HealthCollector
  ds_nodeID :: string
  ds_address :: string
  ds_port :: int
  ds_adminPort :: int
  ds_metaAddr :: string
  ds_capacity :: int

type_synonym node = "DataServer \<times> disk"

definition ds_NewServer ::
  "string option \<Rightarrow> (string \<Rightarrow> string option) \<Rightarrow> (bytes \<Rightarrow> bytes) \<Rightarrow> string + (string \<times> bool) list \<Rightarrow>
   (nat \<Rightarrow> real) \<Rightarrow> int \<Rightarrow> int \<Rightarrow> string \<Rightarrow> string \<Rightarrow> int \<Rightarrow> string \<Rightarrow> disk \<Rightarrow> string + DataServer" where
  "ds_NewServer mkdir_err rf sha entries rnd port adminPort metaAddr dataDir capacity advertiseAddr d =
     (case NewChunkStore mkdir_err rf sha entries dataDir d of
        Inl err \<Rightarrow> Inl (''create chunk store: '' @ err)
      | Inr store \<Rightarrow>
          let addr = (if advertiseAddr = '''' then ''localhost:'' @ fmt_d port else advertiseAddr)
          in Inr \<lparr>ds_store = store, ds_health = NewHealthCollector rnd, ds_nodeID = '''', ds_address = addr,
                ds_port = port, ds_adminPort = adminPort, ds_metaAddr = metaAddr, ds_capacity = capacity\<rparr>)"

section \<open>Calls to the metadata server\<close>

definition ds_register ::
  "string option \<Rightarrow> (string \<Rightarrow> int \<Rightarrow> 'w \<Rightarrow> 'w \<times> (string + RegisterNodeResponse)) \<Rightarrow>
   DataServer \<Rightarrow> 'w \<Rightarrow> DataServer \<times> 'w \<times> string option" where
  "ds_register dial rpc s w =
     (case dial of
        Some e \<Rightarrow> (s, w, Some (''connect to metadata server: '' @ e))
      | None \<Rightarrow>
          (case rpc (ds_address s) (ds_capacity s) w of
             (w', Inl e) \<Rightarrow> (s, w', Some (''register RPC: '' @ e))
           | (w', Inr resp) \<Rightarrow>
               if \<not> rnr_Success resp then (s, w', Some (''registration failed: '' @ rnr_Message resp))
               else (s\<lparr>ds_nodeID := rnr_NodeId resp\<rparr>, w', None)))"

definition heartbeat_request :: "DataServer \<Rightarrow> HeartbeatRequest" where
  "heartbeat_request s = \<lparr>hb_NodeId = ds_nodeID s, hb_UsedBytes = cs_UsedBytes (ds_store s),
     hb_ChunkCount = cs_ChunkCount (ds_store s)\<rparr>"

definition ds_sendHeartbeat ::
  "string option \<Rightarrow> (HeartbeatRequest \<Rightarrow> 'w \<Rightarrow> 'w \<times> string option) \<Rightarrow> DataServer \<Rightarrow> 'w \<Rightarrow> 'w \<times> string option" where
  "ds_sendHeartbeat dial rpc s w =
     (case dial of Some e \<Rightarrow> (w, Some e) | None \<Rightarrow> rpc (heartbeat_request s) w)"

text \<open>\<open>time.Time.UnixMilli\<close>.\<close>

definition to_UnixMilli :: "time \<Rightarrow> int" where
  "to_UnixMilli t = t div 1000000"

definition health_metrics :: "string \<Rightarrow> HealthSnapshot \<Rightarrow> HealthMetrics" where
  "health_metrics nodeID m = \<lparr>hm_NodeId = nodeID, hm_DiskIoLatencyMs = hs_DiskIOLatency m,
     hm_DiskUtilization = hs_DiskUtil m, hm_ErrorCount = hs_ErrorCount m, hm_ResponseTimeMs = hs_ResponseTime m,
     hm_CpuUsage = hs_CPUUsage m, hm_MemoryUsage = hs_MemoryUsage m, hm_Timestamp = to_UnixMilli (hs_Timestamp m)\<rparr>"

definition ds_sendHealthReport ::
  "(nat \<Rightarrow> real) \<Rightarrow> nat \<Rightarrow> nat \<Rightarrow> time \<Rightarrow> string option \<Rightarrow> (HealthMetrics \<Rightarrow> 'w \<Rightarrow> 'w \<times> string option) \<Rightarrow>
   DataServer \<Rightarrow> 'w \<Rightarrow> DataServer \<times> 'w \<times> string option" where
  "ds_sendHealthReport rnd alloc sys now dial rpc s w =
     (case hc_Collect rnd alloc sys now (ds_health s) of
        (hc, m) \<Rightarrow>
          let s' = s\<lparr>ds_health := hc\<rparr>
          in case dial of
               Some e \<Rightarrow> (s', w, Some e)
             | None \<Rightarrow> (case rpc (health_metrics (ds_nodeID s) m) w of (w', err) \<Rightarrow> (s', w', err)))"

section \<open>Handlers\<close>

definition ds_StoreChunk ::
  "write_fault \<Rightarrow> (bytes \<Rightarrow> bytes) \<Rightarrow> StoreChunkRequest \<Rightarrow> node \<Rightarrow> node \<times> StoreChunkResponse" where
  "ds_StoreChunk fault sha req n =
     (case n of (s, d) \<Rightarrow>
        (case cs_StoreChunk fault sha (sc_ChunkId req) (sc_Data req) (sc_Checksum req) (ds_store s, d) of
           ((cs, d'), Some err) \<Rightarrow> ((s\<lparr>ds_store := cs\<rparr>, d'), \<lparr>scr_Success = False, scr_Message = err\<rparr>)
         | ((cs, d'), None) \<Rightarrow> ((s\<lparr>ds_store := cs\<rparr>, d'), \<lparr>scr_Success = True, scr_Message = ''chunk stored''\<rparr>)))"

definition ds_GetChunk :: "string option \<Rightarrow> (bytes \<Rightarrow> bytes) \<Rightarrow> string \<Rightarrow> node \<Rightarrow> GetChunkResponse" where
  "ds_GetChunk fault sha chunkId n =
     (case n of (s, d) \<Rightarrow>
        (case cs_GetChunk fault sha (ds_store s, d) chunkId of
           Inl err \<Rightarrow> \<lparr>gkr_Success = False, gkr_Data = [], gkr_Checksum = ''''\<rparr>
         | Inr (data, checksum) \<Rightarrow> \<lparr>gkr_Success = True, gkr_Data = data, gkr_Checksum = checksum\<rparr>))"

definition ds_DeleteChunk :: "string option \<Rightarrow> string \<Rightarrow> node \<Rightarrow> node \<times> DeleteChunkResponse" where
  "ds_DeleteChunk fault chunkId n =
     (case n of (s, d) \<Rightarrow>
        (case cs_DeleteChunk fault chunkId (ds_store s, d) of
           ((cs, d'), Some err) \<Rightarrow> ((s\<lparr>ds_store := cs\<rparr>, d'), \<lparr>dcr_Success = False, dcr_Message = err\<rparr>)
         | ((cs, d'), None) \<Rightarrow> ((s\<lparr>ds_store := cs\<rparr>, d'), \<lparr>dcr_Success = True, dcr_Message = ''chunk deleted''\<rparr>)))"

text \<open>The transfer reads the local chunk and stores it on the target with an RPC.\<close>

definition ds_TransferChunk ::
  "string option \<Rightarrow> (bytes \<Rightarrow> bytes) \<Rightarrow> (string \<Rightarrow> string option) \<Rightarrow> 'w store_rpc \<Rightarrow>
   TransferChunkRequest \<Rightarrow> node \<Rightarrow> 'w \<Rightarrow> 'w \<times> TransferChunkResponse" where
  "ds_TransferChunk fault sha dial rpc req n w =
     (case n of (s, d) \<Rightarrow>
        (case cs_GetChunk fault sha (ds_store s, d) (tc_ChunkId req) of
           Inl err \<Rightarrow> (w, \<lparr>tcr_Success = False, tcr_Message = err\<rparr>)
         | Inr (data, checksum) \<Rightarrow>
             (case dial (tc_TargetAddress req) of
                Some err \<Rightarrow> (w, \<lparr>tcr_Success = False, tcr_Message = err\<rparr>)
              | None \<Rightarrow>
                  (case rpc (tc_TargetAddress req)
                          \<lparr>sc_ChunkId = tc_ChunkId req, sc_Data = data, sc_Checksum = checksum\<rparr> w of
                     (w', Inl err) \<Rightarrow> (w', \<lparr>tcr_Success = False, tcr_Message = err\<rparr>)
                   | (w', Inr resp) \<Rightarrow>
                       if \<not> scr_Success resp then (w', \<lparr>tcr_Success = False, tcr_Message = scr_Message resp\<rparr>)
                       else (w', \<lparr>tcr_Success = True, tcr_Message = ''chunk transferred''\<rparr>)))))"

definition ds_GetHealth ::
  "(nat \<Rightarrow> real) \<Rightarrow> nat \<Rightarrow> nat \<Rightarrow> time \<Rightarrow> DataServer \<Rightarrow> DataServer \<times> HealthMetrics" where
  "ds_GetHealth rnd alloc sys now s =
     (case hc_Collect rnd alloc sys now (ds_health s) of
        (hc, m) \<Rightarrow> (s\<lparr>ds_health := hc\<rparr>, health_metrics (ds_nodeID s) m))"

section \<open>The world of data nodes\<close>

text \<open>
  The nodes by address, and a count of the calls made. The environment decides about each call:
  whether its request and its reply arrive, what the disk does, and which data sizes fit into a
  gRPC message. A call to an address without a node fails.
\<close>

record World =
  w_nodes :: "(string, node) gomap"
  w_calls :: nat

datatype rpc_fault = Delivered | NotDelivered string | ReplyLost string

record env =
  en_rpc :: "nat \<Rightarrow> string \<Rightarrow> rpc_fault"
  en_write :: "nat \<Rightarrow> string \<Rightarrow> write_fault"
  en_read :: "nat \<Rightarrow> string \<Rightarrow> string option"
  en_fits :: "nat \<Rightarrow> bool"

definition net_StoreChunk :: "env \<Rightarrow> (bytes \<Rightarrow> bytes) \<Rightarrow> World store_rpc" where
  "net_StoreChunk env sha addr req w0 =
     (let t = w_calls w0; w = w0\<lparr>w_calls := t + 1\<rparr>
      in case map_of (w_nodes w) addr of
           None \<Rightarrow> (w, Inl ''unavailable'')
         | Some n \<Rightarrow>
             if \<not> en_fits env (length (sc_Data req)) then (w, Inl ''received message larger than max'')
             else
               case en_rpc env t addr of
                 NotDelivered e \<Rightarrow> (w, Inl e)
               | fault \<Rightarrow>
                   (case ds_StoreChunk (en_write env t addr) sha req n of
                      (n', resp) \<Rightarrow>
                        (w\<lparr>w_nodes := AList.update addr n' (w_nodes w)\<rparr>,
                         case fault of ReplyLost e \<Rightarrow> Inl e | _ \<Rightarrow> Inr resp)))"

definition net_GetChunk :: "env \<Rightarrow> (bytes \<Rightarrow> bytes) \<Rightarrow> World get_rpc" where
  "net_GetChunk env sha addr chunkId w0 =
     (let t = w_calls w0; w = w0\<lparr>w_calls := t + 1\<rparr>
      in case map_of (w_nodes w) addr of
           None \<Rightarrow> (w, Inl ''unavailable'')
         | Some n \<Rightarrow>
             (case en_rpc env t addr of
                NotDelivered e \<Rightarrow> (w, Inl e)
              | ReplyLost e \<Rightarrow> (w, Inl e)
              | Delivered \<Rightarrow>
                  let resp = ds_GetChunk (en_read env t addr) sha chunkId n
                  in if \<not> en_fits env (length (gkr_Data resp)) then (w, Inl ''received message larger than max'')
                     else (w, Inr resp)))"

text \<open>The \<open>TransferChunk\<close> RPC, as the migrator uses it.\<close>

definition net_TransferChunk :: "env \<Rightarrow> (bytes \<Rightarrow> bytes) \<Rightarrow> World transfer_rpc" where
  "net_TransferChunk env sha sourceAddr chunkID targetAddr w0 =
     (let t = w_calls w0; w = w0\<lparr>w_calls := t + 1\<rparr>
      in case map_of (w_nodes w) sourceAddr of
           None \<Rightarrow> (w, Inl ''unavailable'')
         | Some n \<Rightarrow>
             (case en_rpc env t sourceAddr of
                NotDelivered e \<Rightarrow> (w, Inl e)
              | fault \<Rightarrow>
                  (case ds_TransferChunk (en_read env t sourceAddr) sha (\<lambda>_. None) (net_StoreChunk env sha)
                          \<lparr>tc_ChunkId = chunkID, tc_TargetAddress = targetAddr\<rparr> n w of
                     (w', resp) \<Rightarrow>
                       (w', case fault of ReplyLost e \<Rightarrow> Inl e | _ \<Rightarrow> Inr (tcr_Success resp, tcr_Message resp)))))"

text \<open>What the node at an address would serve, and the world's invariant.\<close>

definition net_holds :: "(bytes \<Rightarrow> bytes) \<Rightarrow> World \<Rightarrow> string \<Rightarrow> string \<Rightarrow> bytes option" where
  "net_holds sha w a i =
     (case map_of (w_nodes w) a of None \<Rightarrow> None | Some (s, d) \<Rightarrow> cs_holds sha (ds_store s, d) i)"

definition net_inv :: "World \<Rightarrow> bool" where
  "net_inv w \<longleftrightarrow> (\<forall>a n. map_of (w_nodes w) a = Some n \<longrightarrow> cs_inv (ds_store (fst n)))"

definition net_present :: "World \<Rightarrow> string \<Rightarrow> bool" where
  "net_present w a \<longleftrightarrow> map_of (w_nodes w) a \<noteq> None"

definition net_alive :: "env \<Rightarrow> string \<Rightarrow> bool" where
  "net_alive env a \<longleftrightarrow>
     (\<forall>t. en_rpc env t a = Delivered \<and> en_write env t a = NoFault \<and> en_read env t a = None)"

subsection \<open>Handlers\<close>

lemma ds_store_cases:
  assumes "ds_StoreChunk fault sha req (s, d) = (n', resp)"
  obtains cs d' r where "cs_StoreChunk fault sha (sc_ChunkId req) (sc_Data req) (sc_Checksum req) (ds_store s, d) = ((cs, d'), r)"
    "n' = (s\<lparr>ds_store := cs\<rparr>, d')" "scr_Success resp \<longleftrightarrow> r = None"
  using assms by (auto simp: ds_StoreChunk_def split: prod.splits option.splits)

lemma store_failed_file:
  assumes "cs_StoreChunk fault sha i data c (cs, d) = ((cs', d'), Some e)"
  shows "d' = d \<or> (\<exists>x. d' = AList.update (cs_chunkPath cs i) x d)"
  using assms by (cases fault) (auto simp: cs_StoreChunk_def Let_def split: if_splits)

lemma store_frame_holds:
  assumes "cs_inv cs" "no_slash i" "cs_StoreChunk fault sha i data c (cs, d) = ((cs', d'), r)" "j \<noteq> i"
  shows "cs_holds sha (cs', d') j = cs_holds sha (cs, d) j"
proof (cases r)
  case None
  then show ?thesis using store_holds [OF assms(1,2)] assms(3,4) by simp
next
  case (Some e)
  have cs: "cs' = cs" using store_failed_chunks [OF assms(3) [unfolded Some]] by simp
  have "cs_holds sha (cs', d') j = Some x \<longleftrightarrow> cs_holds sha (cs, d) j = Some x" for x
  proof -
    have "stc_FilePath m \<noteq> cs_chunkPath cs i" if "map_of (cs_chunks cs) j = Some m" for m
      using cs_inv_path [OF assms(1) that] cs_inv_slash [OF assms(1) that] assms(2,4) by (simp add: chunk_path_inj)
    then show ?thesis using store_failed_file [OF assms(3) [unfolded Some]] by (auto simp: cs holds_iff)
  qed
  then show ?thesis by (metis not_None_eq)
qed

lemma ds_GetChunk_ok:
  assumes "gkr_Success (ds_GetChunk f sha i (s, d))"
  shows "cs_holds sha (ds_store s, d) i = Some (gkr_Data (ds_GetChunk f sha i (s, d))) \<and>
    gkr_Checksum (ds_GetChunk f sha i (s, d)) = DataChecksum sha (gkr_Data (ds_GetChunk f sha i (s, d)))"
  using assms by (auto simp: ds_GetChunk_def split: sum.splits dest!: GetChunk_holds)

lemma ds_GetChunk_live:
  assumes "cs_holds sha (ds_store s, d) i = Some data"
  shows "ds_GetChunk None sha i (s, d) = \<lparr>gkr_Success = True, gkr_Data = data, gkr_Checksum = DataChecksum sha data\<rparr>"
proof -
  have "cs_GetChunk None sha (ds_store s, d) i = Inr (data, DataChecksum sha data)"
    using assms by (simp add: GetChunk_None)
  then show ?thesis by (simp add: ds_GetChunk_def)
qed

subsection \<open>The contract holds\<close>

text \<open>What one \<open>StoreChunk\<close> call can do to the world.\<close>

lemma net_store_cases:
  assumes "net_StoreChunk env sha a req w = (w', r)"
  obtains (untouched) "w_nodes w' = w_nodes w" "\<exists>e. r = Inl e"
    | (ran) s d cs d' res fault where "map_of (w_nodes w) a = Some (s, d)"
      "cs_StoreChunk fault sha (sc_ChunkId req) (sc_Data req) (sc_Checksum req) (ds_store s, d) = ((cs, d'), res)"
      "w_nodes w' = AList.update a (s\<lparr>ds_store := cs\<rparr>, d') (w_nodes w)"
      "\<And>resp. r = Inr resp \<Longrightarrow> scr_Success resp \<longleftrightarrow> res = None"
proof (cases "map_of (w_nodes w) a")
  case None
  then show ?thesis using assms untouched by (auto simp: net_StoreChunk_def Let_def)
next
  case (Some n)
  obtain s d where n: "n = (s, d)" by force
  let ?f = "en_write env (w_calls w) a"
  obtain n' resp where st: "ds_StoreChunk ?f sha req n = (n', resp)" by (metis prod.exhaust)
  show ?thesis
  proof (cases "\<exists>e. r = Inl e \<and> w_nodes w' = w_nodes w")
    case True
    then show ?thesis using untouched by blast
  next
    case False
    then have w': "w_nodes w' = AList.update a n' (w_nodes w)" and r: "\<And>x. r = Inr x \<Longrightarrow> x = resp"
      using assms Some st by (auto simp: net_StoreChunk_def Let_def split: if_splits rpc_fault.splits)
    show ?thesis
      by (rule ds_store_cases [OF st [unfolded n]]) (use ran Some n w' r in blast)
  qed
qed

lemma net_holds_at: "map_of (w_nodes w) a = Some (s, d) \<Longrightarrow> net_holds sha w a i = cs_holds sha (ds_store s, d) i"
  by (simp add: net_holds_def)

lemma net_get_keeps: "net_GetChunk env sha a i w = (w', r) \<Longrightarrow> w_nodes w' = w_nodes w"
  by (auto simp: net_GetChunk_def Let_def split: option.splits rpc_fault.splits if_splits)

lemma net_get_cases:
  assumes "net_GetChunk env sha a i w = (w', Inr ans)"
  obtains s d f where "map_of (w_nodes w) a = Some (s, d)" "ans = ds_GetChunk f sha i (s, d)"
  using assms by (auto simp: net_GetChunk_def Let_def split: option.splits rpc_fault.splits if_splits)

interpretation dn: chunk_service sha "net_StoreChunk env sha" "net_GetChunk env sha" net_inv "net_holds sha"
  net_present "net_alive env" "en_fits env"
  for sha env
proof unfold_locales
  fix w w' :: World and req a r
  assume inv: "net_inv w" and ns: "no_slash (sc_ChunkId req)" and st: "net_StoreChunk env sha a req w = (w', r)"
  show "net_inv w' \<and> net_present w' = net_present w"
    using st
  proof (cases rule: net_store_cases)
    case untouched
    then show ?thesis using inv by (auto simp: net_inv_def net_present_def)
  next
    case (ran s d cs d' res fault)
    have "cs_inv (ds_store s)" using inv ran(1) unfolding net_inv_def by fastforce
    then have "cs_inv cs" using cs_inv_store ns ran(2) by blast
    then show ?thesis using inv ran(1,3) by (auto simp: net_inv_def net_present_def fun_eq_iff)
  qed
  fix b i assume ne: "(b, i) \<noteq> (a, sc_ChunkId req)"
  show "net_holds sha w' b i = net_holds sha w b i"
    using st
  proof (cases rule: net_store_cases)
    case untouched
    then show ?thesis by (simp add: net_holds_def)
  next
    case (ran s d cs d' res fault)
    have "cs_inv (ds_store s)" using inv ran(1) unfolding net_inv_def by fastforce
    then have "b = a \<Longrightarrow> cs_holds sha (cs, d') i = cs_holds sha (ds_store s, d) i"
      using store_frame_holds [OF _ ns ran(2)] ne by simp
    then show ?thesis using ran(1,3) by (simp add: net_holds_def)
  qed
next
  fix w w' :: World and req a resp
  assume inv: "net_inv w" and ns: "no_slash (sc_ChunkId req)" and st: "net_StoreChunk env sha a req w = (w', Inr resp)"
    and ok: "scr_Success resp"
  show "net_holds sha w' a (sc_ChunkId req) = Some (sc_Data req)"
    using st
  proof (cases rule: net_store_cases)
    case (ran s d cs d' res fault)
    have "cs_inv (ds_store s)" using inv ran(1) unfolding net_inv_def by fastforce
    then show ?thesis using store_holds [OF _ ns] ran ok by (simp add: net_holds_def)
  qed auto
next
  fix w w' :: World and req a r
  assume "net_alive env a" "net_present w a" "en_fits env (length (sc_Data req))"
    "sc_Checksum req = DataChecksum sha (sc_Data req)" "net_StoreChunk env sha a req w = (w', r)"
  then show "\<exists>resp. r = Inr resp \<and> scr_Success resp"
    by (auto simp: net_alive_def net_present_def net_StoreChunk_def ds_StoreChunk_def cs_StoreChunk_def Let_def
        split: prod.splits)
next
  fix w w' :: World and a i g
  assume inv: "net_inv w" and gt: "net_GetChunk env sha a i w = (w', g)"
  show "net_inv w' \<and> net_holds sha w' = net_holds sha w \<and> net_present w' = net_present w"
    using inv net_get_keeps [OF gt] by (simp add: net_inv_def net_holds_def net_present_def fun_eq_iff)
next
  fix w w' :: World and a i ans
  assume gt: "net_GetChunk env sha a i w = (w', Inr ans)" and ok: "gkr_Success ans"
  show "net_holds sha w a i = Some (gkr_Data ans) \<and> gkr_Checksum ans = DataChecksum sha (gkr_Data ans)"
    by (rule net_get_cases [OF gt]) (use ok in \<open>auto dest!: ds_GetChunk_ok simp: net_holds_def\<close>)
next
  fix w w' :: World and a i data g
  assume al: "net_alive env a" and h: "net_holds sha w a i = Some data" and fit: "en_fits env (length data)"
    and gt: "net_GetChunk env sha a i w = (w', g)"
  obtain s d where n: "map_of (w_nodes w) a = Some (s, d)" "cs_holds sha (ds_store s, d) i = Some data"
    using h by (auto simp: net_holds_def split: option.splits)
  then show "\<exists>ans. g = Inr ans \<and> gkr_Success ans"
    using al fit gt ds_GetChunk_live [OF n(2)] by (auto simp: net_GetChunk_def net_alive_def Let_def)
qed

subsection \<open>Restarting a node\<close>

text \<open>
  The process of a node ends and a new one starts on the same data directory: \<open>ds_NewServer\<close> replaces
  the server, the disk stays.
\<close>

definition restarted :: "(bytes \<Rightarrow> bytes) \<Rightarrow> string \<Rightarrow> World \<Rightarrow> World \<Rightarrow> bool" where
  "restarted sha a w w' \<longleftrightarrow>
     (\<exists>s d es rnd port adminPort metaAddr capacity adv s'.
        map_of (w_nodes w) a = Some (s, d) \<and> dir_listing (cs_dataDir (ds_store s)) d es \<and>
        ds_NewServer None (\<lambda>_. None) sha (Inr es) rnd port adminPort metaAddr (cs_dataDir (ds_store s)) capacity adv d = Inr s' \<and>
        w' = w\<lparr>w_nodes := AList.update a (s', d) (w_nodes w)\<rparr>)"

lemma restart_keeps:
  assumes "net_inv w" "restarted sha a w w'"
  shows "net_inv w'" "net_holds sha w b i = Some data \<Longrightarrow> net_holds sha w' b i = Some data"
proof -
  obtain s d es rnd port adminPort metaAddr capacity adv s' where
    n: "map_of (w_nodes w) a = Some (s, d)" and l: "dir_listing (cs_dataDir (ds_store s)) d es"
    and new: "ds_NewServer None (\<lambda>_. None) sha (Inr es) rnd port adminPort metaAddr (cs_dataDir (ds_store s)) capacity adv d = Inr s'"
    and w': "w' = w\<lparr>w_nodes := AList.update a (s', d) (w_nodes w)\<rparr>"
    using assms(2) unfolding restarted_def by blast
  have inv: "cs_inv (ds_store s)" using assms(1) n unfolding net_inv_def by fastforce
  have cs: "NewChunkStore None (\<lambda>_. None) sha (Inr es) (cs_dataDir (ds_store s)) d = Inr (ds_store s')"
    using new by (auto simp: ds_NewServer_def Let_def split: sum.splits)
  note r = restart_store [OF l inv cs]
  show "net_inv w'" using assms(1) r(1) by (auto simp: net_inv_def w')
  show "net_holds sha w' b i = Some data" if "net_holds sha w b i = Some data"
    using that r(3) n by (auto simp: net_holds_def w')
qed

subsection \<open>Transfers\<close>

lemma net_transfer:
  assumes "net_inv w" "no_slash c" "net_TransferChunk env sha src c tgt w = (w', r)"
  shows "net_inv w' \<and> (\<forall>b j. (b, j) \<noteq> (tgt, c) \<longrightarrow> net_holds sha w' b j = net_holds sha w b j) \<and>
    (\<forall>msg. r = Inr (True, msg) \<longrightarrow>
       (\<exists>data. net_holds sha w src c = Some data \<and> net_holds sha w' tgt c = Some data))"
proof -
  define w1 where "w1 = w\<lparr>w_calls := w_calls w + 1\<rparr>"
  have same: "net_holds sha w1 = net_holds sha w" "net_inv w1" using assms(1)
    by (simp_all add: w1_def net_holds_def net_inv_def fun_eq_iff)
  show ?thesis
  proof (cases "w' = w1 \<and> (\<forall>msg. r \<noteq> Inr (True, msg))")
    case True
    then show ?thesis using same by simp
  next
    case False
    obtain s d where n: "map_of (w_nodes w) src = Some (s, d)"
      using assms(3) False by (cases "map_of (w_nodes w) src") (auto simp: net_TransferChunk_def Let_def w1_def)
    define f where "f = en_read env (w_calls w) src"
    obtain resp where t: "ds_TransferChunk f sha (\<lambda>_. None) (net_StoreChunk env sha) \<lparr>tc_ChunkId = c, tc_TargetAddress = tgt\<rparr> (s, d) w1 =
        (w', resp)" and r: "\<And>msg. r = Inr (True, msg) \<Longrightarrow> tcr_Success resp"
      using assms(3) False n
      by (auto simp: net_TransferChunk_def Let_def w1_def f_def split: rpc_fault.splits prod.splits)
    obtain data ck where g: "cs_GetChunk f sha (ds_store s, d) c = Inr (data, ck)"
      using t r False by (cases "cs_GetChunk f sha (ds_store s, d) c") (auto simp: ds_TransferChunk_def)
    obtain v where st: "net_StoreChunk env sha tgt \<lparr>sc_ChunkId = c, sc_Data = data, sc_Checksum = ck\<rparr> w1 = (w', v)"
      and v: "tcr_Success resp \<Longrightarrow> \<exists>x. v = Inr x \<and> scr_Success x"
      using t g by (auto simp: ds_TransferChunk_def split: prod.splits sum.splits if_splits)
    have h: "net_holds sha w src c = Some data" using GetChunk_holds [OF g] n by (simp add: net_holds_def)
    have ns: "no_slash (sc_ChunkId \<lparr>sc_ChunkId = c, sc_Data = data, sc_Checksum = ck\<rparr>)" using assms(2) by simp
    have "net_inv w'" using dn.store_inv [OF same(2) ns st] by blast
    moreover have "net_holds sha w' b j = net_holds sha w b j" if "(b, j) \<noteq> (tgt, c)" for b j
      using dn.store_frame [OF same(2) ns st, of b j] that same(1) by simp
    moreover have "net_holds sha w' tgt c = Some data" if "r = Inr (True, msg)" for msg
      using r [OF that] v dn.store_done [OF same(2) ns, where a = tgt and w' = w' and env = env and sha = sha] st by auto
    ultimately show ?thesis using h by blast
  qed
qed

end
