(* ===== verification/Client.thy ===== *)
theory Client
  imports Data_Node
begin

text \<open>
  \<^verbatim>\<open>internal/client/transfer.go\<close> and the file operations of \<^verbatim>\<open>internal/client/client.go\<close>.

  Uploads and downloads run one goroutine per chunk. A goroutine is a record of what it has still to
  do; one step of it is one RPC (or its end), and a schedule, a list of goroutine numbers, says in
  which order the steps of all goroutines happen. The results hold for every schedule; a schedule
  under which some goroutine has not ended is one where \<open>wg.Wait\<close> has not returned yet, and the
  result is then \<open>None\<close>. \<open>errCh\<close> is the list of errors in the order they were sent. The progress
  lines slice \<open>ChunkId[:12]\<close>, which panics (and ends the program) on a shorter ID.

  \<open>dial\<close> is the error of \<open>grpc.NewClient\<close>; \<open>store\<close> and \<open>get\<close> are the RPCs. Printing is left out.
\<close>

section \<open>One RPC\<close>

definition sendChunkToNode ::
  "(string \<Rightarrow> string option) \<Rightarrow> 'w store_rpc \<Rightarrow> string \<Rightarrow> string \<Rightarrow> bytes \<Rightarrow> string \<Rightarrow> 'w \<Rightarrow> 'w \<times> string option" where
  "sendChunkToNode dial store addr chunkID data checksum w =
     (case dial addr of
        Some e \<Rightarrow> (w, Some (''connect to '' @ addr @ '': '' @ e))
      | None \<Rightarrow>
          (case store addr \<lparr>sc_ChunkId = chunkID, sc_Data = data, sc_Checksum = checksum\<rparr> w of
             (w', Inl e) \<Rightarrow> (w', Some (''StoreChunk RPC: '' @ e))
           | (w', Inr resp) \<Rightarrow>
               (w', if scr_Success resp then None else Some (''store failed: '' @ scr_Message resp))))"

definition fetchChunkFromNode ::
  "(string \<Rightarrow> string option) \<Rightarrow> (bytes \<Rightarrow> bytes) \<Rightarrow> 'w get_rpc \<Rightarrow> string \<Rightarrow> string \<Rightarrow> 'w \<Rightarrow> 'w \<times> (string + bytes)" where
  "fetchChunkFromNode dial sha get addr chunkID w =
     (case dial addr of
        Some e \<Rightarrow> (w, Inl e)
      | None \<Rightarrow>
          (case get addr chunkID w of
             (w', Inl e) \<Rightarrow> (w', Inl e)
           | (w', Inr resp) \<Rightarrow>
               (w', if \<not> gkr_Success resp then Inl ''GetChunk failed''
                    else
                      let actual = DataChecksum sha (gkr_Data resp)
                      in if gkr_Checksum resp \<noteq> '''' \<and> actual \<noteq> gkr_Checksum resp
                         then Inl (''checksum mismatch: expected '' @ gkr_Checksum resp @ '', got '' @ actual)
                         else Inr (gkr_Data resp))))"

section \<open>Uploading\<close>

record sender =
  sn_ChunkId :: string
  sn_Data :: bytes
  sn_Todo :: "string list"
  sn_Ended :: bool

record 'w upload =
  up_Senders :: "sender list"
  up_Errors :: "string list"
  up_Panic :: bool
  up_World :: 'w

definition start_senders :: "bytes list \<Rightarrow> ChunkPlacement list \<Rightarrow> sender list" where
  "start_senders chunks placements =
     map (\<lambda>(p, data). \<lparr>sn_ChunkId = cp_ChunkId p, sn_Data = data, sn_Todo = cp_NodeAddresses p, sn_Ended = False\<rparr>)
       (zip placements chunks)"

text \<open>One step of goroutine \<open>i\<close>: the next replica, or the progress line and the end.\<close>

definition upload_step ::
  "(string \<Rightarrow> string option) \<Rightarrow> (bytes \<Rightarrow> bytes) \<Rightarrow> 'w store_rpc \<Rightarrow> nat \<Rightarrow> 'w upload \<Rightarrow> 'w upload" where
  "upload_step dial sha store i u =
     (if up_Panic u \<or> length (up_Senders u) \<le> i \<or> sn_Ended (up_Senders u ! i) then u
      else
        let t = up_Senders u ! i
        in case sn_Todo t of
             [] \<Rightarrow>
               if length (sn_ChunkId t) < 12 then u\<lparr>up_Panic := True\<rparr>
               else u\<lparr>up_Senders := (up_Senders u)[i := t\<lparr>sn_Ended := True\<rparr>]\<rparr>
           | addr # rest \<Rightarrow>
               (case sendChunkToNode dial store addr (sn_ChunkId t) (sn_Data t) (DataChecksum sha (sn_Data t)) (up_World u) of
                  (w', Some err) \<Rightarrow>
                    u\<lparr>up_World := w', up_Senders := (up_Senders u)[i := t\<lparr>sn_Ended := True\<rparr>],
                      up_Errors := up_Errors u @ [''chunk '' @ sn_ChunkId t @ '' to '' @ addr @ '': '' @ err]\<rparr>
                | (w', None) \<Rightarrow>
                    u\<lparr>up_World := w', up_Senders := (up_Senders u)[i := t\<lparr>sn_Todo := rest\<rparr>]\<rparr>))"

definition run_upload ::
  "(string \<Rightarrow> string option) \<Rightarrow> (bytes \<Rightarrow> bytes) \<Rightarrow> 'w store_rpc \<Rightarrow> nat list \<Rightarrow> 'w upload \<Rightarrow> 'w upload" where
  "run_upload dial sha store sched u = fold (upload_step dial sha store) sched u"

definition upload_result :: "'w upload \<Rightarrow> (string, unit) outcome option" where
  "upload_result u =
     (if up_Panic u then Some Panic
      else if \<not> (\<forall>t\<in>set (up_Senders u). sn_Ended t) then None
      else case up_Errors u of [] \<Rightarrow> Some (Ok ()) | err # _ \<Rightarrow> Some (Err err))"

definition uploadChunks ::
  "(string \<Rightarrow> string option) \<Rightarrow> (bytes \<Rightarrow> bytes) \<Rightarrow> 'w store_rpc \<Rightarrow> nat list \<Rightarrow> bytes list \<Rightarrow> ChunkPlacement list \<Rightarrow>
   'w \<Rightarrow> 'w \<times> (string, unit) outcome option" where
  "uploadChunks dial sha store sched chunks placements w =
     (let u = run_upload dial sha store sched
                \<lparr>up_Senders = start_senders chunks placements, up_Errors = [], up_Panic = False, up_World = w\<rparr>
      in (up_World u, upload_result u))"

section \<open>Downloading\<close>

record chunkResult =
  cr_Index :: int
  cr_Data :: bytes

record fetcher =
  ft_ChunkId :: string
  ft_Index :: int
  ft_Todo :: "string list"
  ft_LastErr :: string
  ft_Ended :: bool

record 'w download =
  dl_Fetchers :: "fetcher list"
  dl_Results :: "chunkResult list"
  dl_Errors :: "string list"
  dl_Panic :: bool
  dl_World :: 'w

text \<open>A nil error is formatted by \<open>%w\<close> as \<open>%!w(<nil>)\<close>.\<close>

definition start_fetchers :: "ChunkLocation list \<Rightarrow> fetcher list" where
  "start_fetchers locations =
     map (\<lambda>l. \<lparr>ft_ChunkId = cl_ChunkId l, ft_Index = cl_ChunkIndex l, ft_Todo = cl_NodeAddresses l,
               ft_LastErr = ''%!w(<nil>)'', ft_Ended = False\<rparr>) locations"

text \<open>One step of goroutine \<open>i\<close>: one address of the loop in \<open>fetchChunkFromNodes\<close>, or its failure.\<close>

definition download_step ::
  "(string \<Rightarrow> string option) \<Rightarrow> (bytes \<Rightarrow> bytes) \<Rightarrow> 'w get_rpc \<Rightarrow> nat \<Rightarrow> 'w download \<Rightarrow> 'w download" where
  "download_step dial sha get i u =
     (if dl_Panic u \<or> length (dl_Fetchers u) \<le> i \<or> ft_Ended (dl_Fetchers u ! i) then u
      else
        let t = dl_Fetchers u ! i; ended = (dl_Fetchers u)[i := t\<lparr>ft_Ended := True\<rparr>]
        in case ft_Todo t of
             [] \<Rightarrow>
               u\<lparr>dl_Fetchers := ended,
                 dl_Errors := dl_Errors u @ [''chunk '' @ ft_ChunkId t @ '': all nodes failed for chunk '' @
                   ft_ChunkId t @ '': '' @ ft_LastErr t]\<rparr>
           | addr # rest \<Rightarrow>
               (case fetchChunkFromNode dial sha get addr (ft_ChunkId t) (dl_World u) of
                  (w', Inl err) \<Rightarrow>
                    u\<lparr>dl_World := w', dl_Fetchers := (dl_Fetchers u)[i := t\<lparr>ft_Todo := rest, ft_LastErr := err\<rparr>]\<rparr>
                | (w', Inr data) \<Rightarrow>
                    u\<lparr>dl_World := w', dl_Results := dl_Results u @ [\<lparr>cr_Index = ft_Index t, cr_Data = data\<rparr>],
                      dl_Fetchers := ended, dl_Panic := length (ft_ChunkId t) < 12\<rparr>))"

definition run_download ::
  "(string \<Rightarrow> string option) \<Rightarrow> (bytes \<Rightarrow> bytes) \<Rightarrow> 'w get_rpc \<Rightarrow> nat list \<Rightarrow> 'w download \<Rightarrow> 'w download" where
  "run_download dial sha get sched u = fold (download_step dial sha get) sched u"

type_synonym result_sorter = "(chunkResult \<Rightarrow> chunkResult \<Rightarrow> bool) \<Rightarrow> chunkResult list \<Rightarrow> chunkResult list"

definition download_result :: "result_sorter \<Rightarrow> 'w download \<Rightarrow> (string, bytes) outcome option" where
  "download_result srt u =
     (if dl_Panic u then Some Panic
      else if \<not> (\<forall>t\<in>set (dl_Fetchers u). ft_Ended t) then None
      else case dl_Errors u of
             err # _ \<Rightarrow> Some (Err err)
           | [] \<Rightarrow> Some (Ok (concat (map cr_Data (srt (\<lambda>a b. cr_Index a < cr_Index b) (dl_Results u))))))"

definition downloadChunks ::
  "(string \<Rightarrow> string option) \<Rightarrow> (bytes \<Rightarrow> bytes) \<Rightarrow> 'w get_rpc \<Rightarrow> result_sorter \<Rightarrow> nat list \<Rightarrow> ChunkLocation list \<Rightarrow>
   'w \<Rightarrow> 'w \<times> (string, bytes) outcome option" where
  "downloadChunks dial sha get srt sched locations w =
     (let u = run_download dial sha get sched
                \<lparr>dl_Fetchers = start_fetchers locations, dl_Results = [], dl_Errors = [], dl_Panic = False, dl_World = w\<rparr>
      in (dl_World u, download_result srt u))"

section \<open>client.go: PutFile and GetFile\<close>

text \<open>The local file to upload: what opening finds, and the errors of \<open>Stat\<close>, \<open>io.Copy\<close> and \<open>Read\<close>.\<close>

record local_files =
  lf_Open :: "string \<Rightarrow> string + bytes"
  lf_StatErr :: "string option"
  lf_CopyErr :: "string option"
  lf_Read :: "nat \<Rightarrow> string + nat"

definition readAndChunkFile ::
  "(bytes \<Rightarrow> bytes) \<Rightarrow> local_files \<Rightarrow> string \<Rightarrow> string + bytes list \<times> int \<times> string" where
  "readAndChunkFile sha lf path =
     (case lf_Open lf path of
        Inl e \<Rightarrow> Inl (''open file: '' @ e)
      | Inr data \<Rightarrow>
          (case lf_StatErr lf of
             Some e \<Rightarrow> Inl (''stat file: '' @ e)
           | None \<Rightarrow>
               (case lf_CopyErr lf of
                  Some e \<Rightarrow> Inl (''checksum: '' @ e)
                | None \<Rightarrow>
                    (case read_loop (nat ChunkSize) (lf_Read lf) data 0 [] of
                       Inl e \<Rightarrow> Inl (''read: '' @ e)
                     | Inr chunks \<Rightarrow> Inr (chunks, int64 (int (length data)), fmt_x (sha data))))))"

definition wrap_err :: "string \<Rightarrow> (string, 'a) outcome option \<Rightarrow> (string, 'a) outcome option" where
  "wrap_err msg r = (case r of Some (Err e) \<Rightarrow> Some (Err (msg @ e)) | _ \<Rightarrow> r)"

definition cl_PutFile ::
  "local_files \<Rightarrow> (string \<Rightarrow> string option) \<Rightarrow> (bytes \<Rightarrow> bytes) \<Rightarrow>
   (PutFileRequest \<Rightarrow> 'w \<Rightarrow> 'w \<times> (string + PutFileResponse)) \<Rightarrow> 'w store_rpc \<Rightarrow> nat list \<Rightarrow>
   string \<Rightarrow> string \<Rightarrow> 'w \<Rightarrow> 'w \<times> (string, unit) outcome option" where
  "cl_PutFile lf dial sha meta store sched localPath remotePath w =
     (case readAndChunkFile sha lf localPath of
        Inl e \<Rightarrow> (w, Some (Err (''read file: '' @ e)))
      | Inr (chunks, fileSize, checksum) \<Rightarrow>
          (case meta \<lparr>pf_Path = remotePath, pf_FileSize = fileSize, pf_ChunkCount = int32 (int (length chunks)),
                      pf_Checksum = checksum\<rparr> w of
             (w', Inl e) \<Rightarrow> (w', Some (Err (''PutFile RPC: '' @ e)))
           | (w', Inr resp) \<Rightarrow>
               if \<not> pfr_Success resp then (w', Some (Err (''PutFile failed: '' @ pfr_Message resp)))
               else
                 case uploadChunks dial sha store sched chunks (pfr_Placements resp) w' of
                   (w'', r) \<Rightarrow> (w'', wrap_err ''upload chunks: '' r)))"

definition writeFile :: "write_fault \<Rightarrow> string \<Rightarrow> bytes \<Rightarrow> disk \<Rightarrow> disk \<times> string option" where
  "writeFile fault path data d = os_WriteFile fault path data d"

text \<open>The progress line reads \<open>resp.FileInfo\<close> unchecked. \<open>d\<close> is the local disk.\<close>

definition cl_GetFile ::
  "write_fault \<Rightarrow> (string \<Rightarrow> string option) \<Rightarrow> (bytes \<Rightarrow> bytes) \<Rightarrow>
   (string \<Rightarrow> 'w \<Rightarrow> 'w \<times> (string + GetFileResponse)) \<Rightarrow> 'w get_rpc \<Rightarrow> result_sorter \<Rightarrow> nat list \<Rightarrow>
   string \<Rightarrow> string \<Rightarrow> 'w \<times> disk \<Rightarrow> ('w \<times> disk) \<times> (string, unit) outcome option" where
  "cl_GetFile fault dial sha meta get srt sched remotePath localPath wd =
     (case wd of (w, d) \<Rightarrow>
        (case meta remotePath w of
           (w', Inl e) \<Rightarrow> ((w', d), Some (Err (''GetFile RPC: '' @ e)))
         | (w', Inr resp) \<Rightarrow>
             if \<not> gfr_Success resp then ((w', d), Some (Err (''GetFile failed: '' @ gfr_Message resp)))
             else if gfr_FileInfo resp = None then ((w', d), Some Panic)
             else
               case downloadChunks dial sha get srt sched (gfr_ChunkLocations resp) w' of
                 (w'', Some (Ok data)) \<Rightarrow>
                   (case writeFile fault localPath data d of
                      (d', Some e) \<Rightarrow> ((w'', d'), Some (Err (''write file: '' @ e)))
                    | (d', None) \<Rightarrow> ((w'', d'), Some (Ok ())))
               | (w'', Some (Err e)) \<Rightarrow> ((w'', d), Some (Err (''download chunks: '' @ e)))
               | (w'', Some Panic) \<Rightarrow> ((w'', d), Some Panic)
               | (w'', None) \<Rightarrow> ((w'', d), None)))"

text \<open>\<open>DeleteFile\<close>: the RPC, and its answer.\<close>

definition cl_DeleteFile ::
  "(string \<Rightarrow> 'w \<Rightarrow> 'w \<times> (string + DeleteFileResponse)) \<Rightarrow> string \<Rightarrow> 'w \<Rightarrow> 'w \<times> string option" where
  "cl_DeleteFile meta remotePath w =
     (case meta remotePath w of
        (w', Inl e) \<Rightarrow> (w', Some (''DeleteFile RPC: '' @ e))
      | (w', Inr resp) \<Rightarrow>
          (w', if dfr_Success resp then None else Some (''DeleteFile failed: '' @ dfr_Message resp)))"

section \<open>Schedules\<close>

text \<open>A goroutine has ended after at most one step per address and one more.\<close>

definition sender_work :: "sender \<Rightarrow> nat" where
  "sender_work t = (if sn_Ended t then 0 else Suc (length (sn_Todo t)))"

definition fetcher_work :: "fetcher \<Rightarrow> nat" where
  "fetcher_work t = (if ft_Ended t then 0 else Suc (length (ft_Todo t)))"

definition fair_upload :: "nat list \<Rightarrow> ChunkPlacement list \<Rightarrow> bool" where
  "fair_upload sched ps \<longleftrightarrow> (\<forall>i<length ps. length (cp_NodeAddresses (ps ! i)) < count_list sched i)"

definition fair_download :: "nat list \<Rightarrow> ChunkLocation list \<Rightarrow> bool" where
  "fair_download sched ls \<longleftrightarrow> (\<forall>i<length ls. length (cl_NodeAddresses (ls ! i)) < count_list sched i)"

lemma upload_step_work:
  "length (up_Senders (upload_step dial sha store i u)) = length (up_Senders u)"
  "k < length (up_Senders u) \<Longrightarrow> \<not> up_Panic (upload_step dial sha store i u) \<Longrightarrow>
     sender_work (up_Senders (upload_step dial sha store i u) ! k) \<le>
     sender_work (up_Senders u ! k) - (if k = i then 1 else 0)"
  by (auto simp: upload_step_def sender_work_def Let_def nth_list_update split: list.splits prod.splits option.splits)

lemma upload_step_panic: "up_Panic u \<Longrightarrow> upload_step dial sha store i u = u"
  by (simp add: upload_step_def)

lemma run_upload_panic: "up_Panic u \<Longrightarrow> run_upload dial sha store sched u = u"
  by (induction sched) (simp_all add: run_upload_def upload_step_panic)

lemma run_upload_work:
  "length (up_Senders (run_upload dial sha store sched u)) = length (up_Senders u) \<and>
   (k < length (up_Senders u) \<longrightarrow> \<not> up_Panic (run_upload dial sha store sched u) \<longrightarrow>
     sender_work (up_Senders (run_upload dial sha store sched u) ! k) \<le> sender_work (up_Senders u ! k) - count_list sched k)"
proof (induction sched arbitrary: u)
  case (Cons i sched)
  let ?v = "upload_step dial sha store i u"
  have r: "run_upload dial sha store (i # sched) u = run_upload dial sha store sched ?v" by (simp add: run_upload_def)
  have "\<not> up_Panic ?v" if "\<not> up_Panic (run_upload dial sha store sched ?v)" using that run_upload_panic by metis
  then show ?case using Cons.IH [of ?v] upload_step_work [where i = i and u = u and dial = dial and sha = sha and store = store] unfolding r by fastforce
qed (simp add: run_upload_def)

lemma download_step_work:
  "length (dl_Fetchers (download_step dial sha get i u)) = length (dl_Fetchers u)"
  "k < length (dl_Fetchers u) \<Longrightarrow> \<not> dl_Panic (download_step dial sha get i u) \<Longrightarrow>
     fetcher_work (dl_Fetchers (download_step dial sha get i u) ! k) \<le>
     fetcher_work (dl_Fetchers u ! k) - (if k = i then 1 else 0)"
  by (auto simp: download_step_def fetcher_work_def Let_def nth_list_update split: list.splits prod.splits sum.splits)

lemma run_download_panic: "dl_Panic u \<Longrightarrow> run_download dial sha get sched u = u"
  by (induction sched) (simp_all add: run_download_def download_step_def)

lemma run_download_work:
  "length (dl_Fetchers (run_download dial sha get sched u)) = length (dl_Fetchers u) \<and>
   (k < length (dl_Fetchers u) \<longrightarrow> \<not> dl_Panic (run_download dial sha get sched u) \<longrightarrow>
     fetcher_work (dl_Fetchers (run_download dial sha get sched u) ! k) \<le> fetcher_work (dl_Fetchers u ! k) - count_list sched k)"
proof (induction sched arbitrary: u)
  case (Cons i sched)
  let ?v = "download_step dial sha get i u"
  have r: "run_download dial sha get (i # sched) u = run_download dial sha get sched ?v" by (simp add: run_download_def)
  have "\<not> dl_Panic ?v" if "\<not> dl_Panic (run_download dial sha get sched ?v)" using that run_download_panic by metis
  then show ?case using Cons.IH [of ?v] download_step_work [where i = i and u = u and dial = dial and sha = sha and get = get] unfolding r by fastforce
qed (simp add: run_download_def)

text \<open>Both loops end: a fair schedule leaves no goroutine running.\<close>

lemma upload_returns:
  assumes "fair_upload sched placements" "uploadChunks dial sha store sched chunks placements w = (w', r)"
  shows "r \<noteq> None"
proof -
  define u where "u = run_upload dial sha store sched
    \<lparr>up_Senders = start_senders chunks placements, up_Errors = [], up_Panic = False, up_World = w\<rparr>"
  have ended: "sn_Ended (up_Senders u ! k)" if "k < length (up_Senders u)" "\<not> up_Panic u" for k
  proof -
    have k: "k < length (start_senders chunks placements)"
      using that(1) run_upload_work unfolding u_def by (metis upload.select_convs(1))
    then have "k < length placements" "sender_work (start_senders chunks placements ! k) = Suc (length (cp_NodeAddresses (placements ! k)))"
      by (simp_all add: start_senders_def sender_work_def)
    then have "sender_work (start_senders chunks placements ! k) \<le> count_list sched k"
      using assms(1) by (simp add: fair_upload_def Suc_le_eq)
    moreover have "sender_work (up_Senders u ! k) \<le> sender_work (start_senders chunks placements ! k) - count_list sched k"
      using that(2) k run_upload_work unfolding u_def by (metis upload.select_convs(1))
    ultimately have "sender_work (up_Senders u ! k) = 0" by simp
    then show ?thesis by (simp add: sender_work_def split: if_splits)
  qed
  have "r = upload_result u" using assms(2) by (simp add: uploadChunks_def u_def Let_def)
  moreover have "\<forall>t\<in>set (up_Senders u). sn_Ended t" if "\<not> up_Panic u"
    using ended that by (simp add: all_set_conv_all_nth)
  ultimately show ?thesis by (cases "up_Panic u") (simp_all add: upload_result_def split: list.split)
qed

lemma download_returns:
  assumes "fair_download sched locations" "downloadChunks dial sha get srt sched locations w = (w', r)"
  shows "r \<noteq> None"
proof -
  define u where "u = run_download dial sha get sched
    \<lparr>dl_Fetchers = start_fetchers locations, dl_Results = [], dl_Errors = [], dl_Panic = False, dl_World = w\<rparr>"
  have ended: "ft_Ended (dl_Fetchers u ! k)" if "k < length (dl_Fetchers u)" "\<not> dl_Panic u" for k
  proof -
    have k: "k < length (start_fetchers locations)"
      using that(1) run_download_work unfolding u_def by (metis download.select_convs(1))
    then have "k < length locations" "fetcher_work (start_fetchers locations ! k) = Suc (length (cl_NodeAddresses (locations ! k)))"
      by (simp_all add: start_fetchers_def fetcher_work_def)
    then have "fetcher_work (start_fetchers locations ! k) \<le> count_list sched k"
      using assms(1) by (simp add: fair_download_def Suc_le_eq)
    moreover have "fetcher_work (dl_Fetchers u ! k) \<le> fetcher_work (start_fetchers locations ! k) - count_list sched k"
      using that(2) k run_download_work unfolding u_def by (metis download.select_convs(1))
    ultimately have "fetcher_work (dl_Fetchers u ! k) = 0" by simp
    then show ?thesis by (simp add: fetcher_work_def split: if_splits)
  qed
  have "r = download_result srt u" using assms(2) by (simp add: downloadChunks_def u_def Let_def)
  moreover have "\<forall>t\<in>set (dl_Fetchers u). ft_Ended t" if "\<not> dl_Panic u"
    using ended that by (simp add: all_set_conv_all_nth)
  ultimately show ?thesis by (cases "dl_Panic u") (simp_all add: download_result_def split: list.split)
qed

section \<open>Uploads and downloads over the contract of the data nodes\<close>

context chunk_service
begin

lemma send_cases:
  assumes "inv w" "no_slash i" "sendChunkToNode dial store a i data ck w = (w', r)"
  shows "inv w' \<and> present w' = present w \<and> (\<forall>b j. (b, j) \<noteq> (a, i) \<longrightarrow> holds w' b j = holds w b j) \<and>
    (r = None \<longrightarrow> holds w' a i = Some data)"
proof (cases "dial a")
  case None
  let ?req = "\<lparr>sc_ChunkId = i, sc_Data = data, sc_Checksum = ck\<rparr>"
  obtain v where s: "store a ?req w = (w', v)" and r: "r = None \<Longrightarrow> \<exists>resp. v = Inr resp \<and> scr_Success resp"
    using assms(3) None by (auto simp: sendChunkToNode_def split: prod.splits sum.splits if_splits)
  have ns: "no_slash (sc_ChunkId ?req)" using assms(2) by simp
  show ?thesis
    using store_inv [OF assms(1) ns s] store_frame [OF assms(1) ns s] r store_done [OF assms(1) ns, of a w'] s by auto
qed (use assms in \<open>auto simp: sendChunkToNode_def\<close>)

lemma send_alive:
  assumes "inv w" "dial a = None" "alive a" "present w a" "fits (length data)"
  shows "\<exists>w'. sendChunkToNode dial store a i data (DataChecksum sha data) w = (w', None)"
proof -
  let ?req = "\<lparr>sc_ChunkId = i, sc_Data = data, sc_Checksum = DataChecksum sha data\<rparr>"
  obtain w' v where s: "store a ?req w = (w', v)" by force
  show ?thesis using store_alive [OF assms(1,3,4) _ _ s] assms(2,5) s by (auto simp: sendChunkToNode_def)
qed

lemma fetch_cases:
  assumes "inv w" "fetchChunkFromNode dial sha get a i w = (w', r)"
  shows "inv w' \<and> holds w' = holds w \<and> present w' = present w \<and> (\<forall>data. r = Inr data \<longrightarrow> holds w a i = Some data)"
proof (cases "dial a")
  case None
  obtain v where g: "get a i w = (w', v)"
    and r: "\<And>data. r = Inr data \<Longrightarrow> \<exists>ans. v = Inr ans \<and> gkr_Success ans \<and> gkr_Data ans = data"
    using assms(2) None by (auto simp: fetchChunkFromNode_def Let_def split: prod.splits sum.splits if_splits)
  have "holds w a i = Some data" if "r = Inr data" for data
    using r [OF that] get_sound [OF assms(1), of a i w'] g by auto
  then show ?thesis using get_keeps [OF assms(1) g] by blast
qed (use assms in \<open>auto simp: fetchChunkFromNode_def\<close>)

lemma fetch_alive:
  assumes "inv w" "dial a = None" "alive a" "holds w a i = Some data" "fits (length data)"
  shows "\<exists>w'. fetchChunkFromNode dial sha get a i w = (w', Inr data)"
proof -
  obtain w' v where g: "get a i w = (w', v)" by force
  obtain ans where a: "v = Inr ans" "gkr_Success ans" using get_alive [OF assms(1,3,4,5) g] by blast
  then have "gkr_Data ans = data" "gkr_Checksum ans = DataChecksum sha data"
    using get_sound [OF assms(1), of a i w' ans] g assms(4) by auto
  then show ?thesis using a g assms(2) by (simp add: fetchChunkFromNode_def)
qed

subsection \<open>Uploads\<close>

text \<open>What holds of an upload of the work \<open>ps\<close> (placements with their data) begun in world \<open>w0\<close>.\<close>

definition sender_ok :: "'w \<Rightarrow> string list \<Rightarrow> ChunkPlacement \<times> bytes \<Rightarrow> sender \<Rightarrow> bool" where
  "sender_ok w errs pd t \<longleftrightarrow>
     sn_ChunkId t = cp_ChunkId (fst pd) \<and> sn_Data t = snd pd \<and> set (sn_Todo t) \<subseteq> set (cp_NodeAddresses (fst pd)) \<and>
     (errs = [] \<longrightarrow> (sn_Ended t \<longrightarrow> sn_Todo t = []) \<and>
        (\<forall>a\<in>set (cp_NodeAddresses (fst pd)). a \<in> set (sn_Todo t) \<or> holds w a (cp_ChunkId (fst pd)) = Some (snd pd)))"

definition up_inv :: "'w \<Rightarrow> (ChunkPlacement \<times> bytes) list \<Rightarrow> 'w upload \<Rightarrow> bool" where
  "up_inv w0 ps u \<longleftrightarrow> inv (up_World u) \<and> present (up_World u) = present w0 \<and> length (up_Senders u) = length ps \<and>
     (\<forall>b j. j \<notin> (\<lambda>(p, _). cp_ChunkId p) ` set ps \<longrightarrow> holds (up_World u) b j = holds w0 b j) \<and>
     (\<forall>k<length ps. sender_ok (up_World u) (up_Errors u) (ps ! k) (up_Senders u ! k))"

lemma up_inv_length: "up_inv w0 ps u \<Longrightarrow> length (up_Senders u) = length ps"
  by (simp add: up_inv_def)

lemma up_inv_sender: "up_inv w0 ps u \<Longrightarrow> k < length ps \<Longrightarrow> sender_ok (up_World u) (up_Errors u) (ps ! k) (up_Senders u ! k)"
  by (simp add: up_inv_def)

lemma sender_ok_mono:
  "sender_ok w errs pd t \<Longrightarrow> (\<And>b. holds w' b (cp_ChunkId (fst pd)) = holds w b (cp_ChunkId (fst pd))) \<Longrightarrow>
   (errs' = [] \<Longrightarrow> errs = []) \<Longrightarrow> sender_ok w' errs' pd t"
  by (auto simp: sender_ok_def)

text \<open>Goroutine \<open>i\<close> did something to its own chunk in the world.\<close>

lemma up_inv_update:
  assumes ids: "distinct (map (\<lambda>(p, _). cp_ChunkId p) ps)" and I: "up_inv w0 ps u" and i: "i < length ps"
    and w': "inv w'" "present w' = present (up_World u)"
      "\<And>b j. j \<noteq> cp_ChunkId (fst (ps ! i)) \<Longrightarrow> holds w' b j = holds (up_World u) b j"
    and t': "sender_ok w' errs' (ps ! i) t'" "errs' = [] \<Longrightarrow> up_Errors u = []"
  shows "up_inv w0 ps (u\<lparr>up_World := w', up_Senders := (up_Senders u)[i := t'], up_Errors := errs', up_Panic := pn\<rparr>)"
proof -
  have mem: "cp_ChunkId (fst (ps ! i)) \<in> (\<lambda>(p, _). cp_ChunkId p) ` set ps"
    using nth_mem [OF i] by (force simp: case_prod_beta)
  have fr: "holds w' b j = holds w0 b j" if "j \<notin> (\<lambda>(p, _). cp_ChunkId p) ` set ps" for b j
  proof -
    have "j \<noteq> cp_ChunkId (fst (ps ! i))" using that mem by blast
    then show ?thesis using w'(3) I that by (simp add: up_inv_def)
  qed
  have "sender_ok w' errs' (ps ! k) ((up_Senders u)[i := t'] ! k)" if k: "k < length ps" for k
  proof (cases "k = i")
    case True
    then show ?thesis using t'(1) i up_inv_length [OF I] by simp
  next
    case False
    then have "cp_ChunkId (fst (ps ! k)) \<noteq> cp_ChunkId (fst (ps ! i))"
      using ids i k by (auto simp: distinct_conv_nth case_prod_beta)
    then have "sender_ok w' errs' (ps ! k) (up_Senders u ! k)"
      by (intro sender_ok_mono [OF up_inv_sender [OF I k]] w'(3) t'(2))
    then show ?thesis using False by simp
  qed
  then show ?thesis using w'(1,2) fr I by (simp add: up_inv_def)
qed

lemma up_inv_step:
  assumes ids: "distinct (map (\<lambda>(p, _). cp_ChunkId p) ps)" "\<forall>(p, _)\<in>set ps. no_slash (cp_ChunkId p)"
    and I: "up_inv w0 ps u"
  shows "up_inv w0 ps (upload_step dial sha store i u)"
proof (cases "up_Panic u \<or> length (up_Senders u) \<le> i \<or> sn_Ended (up_Senders u ! i)")
  case False
  let ?t = "up_Senders u ! i" and ?id = "cp_ChunkId (fst (ps ! i))"
  have i: "i < length ps" using False up_inv_length [OF I] by linarith
  have t: "sender_ok (up_World u) (up_Errors u) (ps ! i) ?t" by (rule up_inv_sender [OF I i])
  then have td: "sn_ChunkId ?t = ?id" "sn_Data ?t = snd (ps ! i)" by (simp_all add: sender_ok_def)
  have ns: "no_slash ?id" using ids(2) nth_mem [OF i] by (auto simp: case_prod_beta)
  have iw: "inv (up_World u)" using I by (simp add: up_inv_def)
  note upd = up_inv_update [OF ids(1) I i]
  show ?thesis
  proof (cases "sn_Todo ?t")
    case Nil
    then have s: "sender_ok (up_World u) (up_Errors u) (ps ! i) (?t\<lparr>sn_Ended := True\<rparr>)" using t by (simp add: sender_ok_def)
    have same: "(up_Senders u)[i := ?t] = up_Senders u" by simp
    show ?thesis
      using upd [OF iw refl refl s, of "up_Panic u"] upd [OF iw refl refl t, of True] False Nil
      by (simp add: upload_step_def Let_def same)
  next
    case (Cons addr rest)
    obtain w' r where s: "sendChunkToNode dial store addr ?id (snd (ps ! i)) (DataChecksum sha (snd (ps ! i))) (up_World u) = (w', r)"
      by force
    note sc = send_cases [OF iw ns s]
    have keep: "holds w' b j = holds (up_World u) b j" if "j \<noteq> ?id" for b j using sc that by auto
    show ?thesis
    proof (cases r)
      case None
      have "sender_ok w' (up_Errors u) (ps ! i) (?t\<lparr>sn_Todo := rest\<rparr>)"
      proof -
        have h: "holds w' addr ?id = Some (snd (ps ! i))" using sc None by blast
        have "holds w' a ?id = Some (snd (ps ! i))" if "holds (up_World u) a ?id = Some (snd (ps ! i))" for a
          using h sc that by (cases "a = addr") auto
        then show ?thesis using t h Cons False by (auto simp: sender_ok_def)
      qed
      from upd [OF _ _ keep this, of "up_Panic u"] show ?thesis
        using sc None Cons False s td by (simp add: upload_step_def Let_def)
    next
      case (Some e)
      let ?errs = "up_Errors u @ [''chunk '' @ ?id @ '' to '' @ addr @ '': '' @ e]"
      have "sender_ok w' ?errs (ps ! i) (?t\<lparr>sn_Ended := True\<rparr>)"
        using t by (simp add: sender_ok_def)
      from upd [OF _ _ keep this, of "up_Panic u"] show ?thesis
        using sc Some Cons False s td by (simp add: upload_step_def Let_def)
    qed
  qed
qed (use I in \<open>auto simp: upload_step_def\<close>)

lemma up_inv_run:
  assumes "distinct (map (\<lambda>(p, _). cp_ChunkId p) ps)" "\<forall>(p, _)\<in>set ps. no_slash (cp_ChunkId p)" "up_inv w0 ps u"
  shows "up_inv w0 ps (run_upload dial sha store sched u)"
  using assms(3) up_inv_step [OF assms(1,2)] by (induction sched arbitrary: u) (simp_all add: run_upload_def)

lemma up_inv_start:
  "inv w \<Longrightarrow> up_inv w (zip placements chunks)
     \<lparr>up_Senders = start_senders chunks placements, up_Errors = [], up_Panic = False, up_World = w\<rparr>"
  by (simp add: up_inv_def sender_ok_def start_senders_def case_prod_beta)

text \<open>An upload that reports success has stored every chunk on every node of its placement.\<close>

lemma upload_sound:
  assumes "distinct (map (\<lambda>(p, _). cp_ChunkId p) (zip placements chunks))"
    and "\<forall>(p, _)\<in>set (zip placements chunks). no_slash (cp_ChunkId p)" "inv w"
    and "uploadChunks dial sha store sched chunks placements w = (w', r)"
  shows "inv w' \<and> present w' = present w \<and>
    (\<forall>b j. j \<notin> cp_ChunkId ` set placements \<longrightarrow> holds w' b j = holds w b j) \<and>
    (r = Some (Ok ()) \<longrightarrow> (\<forall>(p, data)\<in>set (zip placements chunks). \<forall>a\<in>set (cp_NodeAddresses p).
       holds w' a (cp_ChunkId p) = Some data))"
proof -
  let ?ps = "zip placements chunks"
  define u where "u = run_upload dial sha store sched
    \<lparr>up_Senders = start_senders chunks placements, up_Errors = [], up_Panic = False, up_World = w\<rparr>"
  have I: "up_inv w ?ps u" unfolding u_def by (intro up_inv_run up_inv_start assms)
  have w': "w' = up_World u" "r = upload_result u" using assms(4) by (simp_all add: uploadChunks_def u_def Let_def)
  have sub: "(\<lambda>(p, _). cp_ChunkId p) ` set ?ps \<subseteq> cp_ChunkId ` set placements" by (auto dest: set_zip_leftD)
  have "holds w' a (cp_ChunkId p) = Some data"
    if r: "r = Some (Ok ())" and pd: "(p, data) \<in> set ?ps" and a: "a \<in> set (cp_NodeAddresses p)" for p data a
  proof -
    have e: "up_Errors u = []" "\<forall>t\<in>set (up_Senders u). sn_Ended t"
      using r w'(2) by (auto simp: upload_result_def split: if_splits list.splits)
    obtain k where k: "k < length ?ps" "?ps ! k = (p, data)" using pd by (meson in_set_conv_nth)
    have "sn_Ended (up_Senders u ! k)" using e(2) k(1) up_inv_length [OF I] by simp
    then have "sn_Todo (up_Senders u ! k) = []" using up_inv_sender [OF I k(1)] e(1) by (simp add: sender_ok_def)
    then show ?thesis using up_inv_sender [OF I k(1)] e(1) k(2) a w'(1) by (force simp: sender_ok_def)
  qed
  then show ?thesis using I w'(1) sub unfolding up_inv_def by blast
qed

text \<open>If every node of the placements is alive, no step fails.\<close>

lemma upload_live:
  assumes ids: "distinct (map (\<lambda>(p, _). cp_ChunkId p) (zip placements chunks))"
    "\<forall>(p, _)\<in>set (zip placements chunks). no_slash (cp_ChunkId p)" and w: "inv w"
    and up: "\<forall>(p, data)\<in>set (zip placements chunks). 12 \<le> length (cp_ChunkId p) \<and> fits (length data) \<and>
      (\<forall>a\<in>set (cp_NodeAddresses p). dial a = None \<and> alive a \<and> present w a)"
    and "fair_upload sched placements" "uploadChunks dial sha store sched chunks placements w = (w', r)"
  shows "r = Some (Ok ())"
proof -
  let ?ps = "zip placements chunks"
  have step: "up_Errors (upload_step dial sha store i u) = [] \<and> \<not> up_Panic (upload_step dial sha store i u)"
    if I: "up_inv w ?ps u" and e: "up_Errors u = []" "\<not> up_Panic u" for i u
  proof (cases "length (up_Senders u) \<le> i \<or> sn_Ended (up_Senders u ! i)")
    case False
    let ?t = "up_Senders u ! i"
    have i: "i < length ?ps" using False up_inv_length [OF I] by linarith
    obtain p data where pd: "?ps ! i = (p, data)" by force
    have t: "sn_ChunkId ?t = cp_ChunkId p" "sn_Data ?t = data" "set (sn_Todo ?t) \<subseteq> set (cp_NodeAddresses p)"
      using up_inv_sender [OF I i] pd by (simp_all add: sender_ok_def)
    have u: "12 \<le> length (cp_ChunkId p)" "fits (length data)"
      "\<forall>a\<in>set (cp_NodeAddresses p). dial a = None \<and> alive a \<and> present w a"
      using up nth_mem [OF i] pd by auto
    have iw: "inv (up_World u)" "present (up_World u) = present w" using I by (auto simp: up_inv_def)
    show ?thesis
    proof (cases "sn_Todo ?t")
      case (Cons addr rest)
      then have a: "dial addr = None" "alive addr" "present (up_World u) addr" using t(3) u(3) iw(2) by auto
      obtain v where "sendChunkToNode dial store addr (cp_ChunkId p) data (DataChecksum sha data) (up_World u) = (v, None)"
        using send_alive [where w = "up_World u" and dial = dial and a = addr and data = data and i = "cp_ChunkId p"] iw(1) a u(2)
        by blast
      then show ?thesis using e Cons t by (simp add: upload_step_def Let_def)
    qed (use e t u in \<open>simp add: upload_step_def Let_def\<close>)
  qed (use e in \<open>simp add: upload_step_def\<close>)
  have run: "up_Errors (run_upload dial sha store sched u) = [] \<and> \<not> up_Panic (run_upload dial sha store sched u)"
    if "up_inv w ?ps u" "up_Errors u = []" "\<not> up_Panic u" for u sched
    using that step up_inv_step [OF ids] by (induction sched arbitrary: u) (simp_all add: run_upload_def)
  have "r \<noteq> None" by (rule upload_returns [OF assms(5,6)])
  then show ?thesis
    using assms(6) run [OF up_inv_start [OF w], of sched]
    by (auto simp: uploadChunks_def Let_def upload_result_def split: if_splits list.splits)
qed

end

subsection \<open>Downloads\<close>

definition by_index :: "chunkResult \<Rightarrow> chunkResult \<Rightarrow> bool" where
  "by_index a b \<longleftrightarrow> cr_Index a < cr_Index b"

lemma by_index_weak: "strict_weak by_index"
  unfolding strict_weak_def by_index_def by auto

text \<open>The goroutine \<open>i\<close> that delivers its chunk joins the ended ones.\<close>

lemma ended_nth:
  assumes "length fs = n" "i < n" "k < n"
  shows "ft_Ended (fs[i := (fs ! i)\<lparr>ft_Ended := True\<rparr>] ! k) \<longleftrightarrow> k = i \<or> ft_Ended (fs ! k)"
  using assms by (simp add: nth_list_update)

lemma ended_mset:
  assumes n: "length fs = n" and i: "i < n" and ft: "\<not> ft_Ended (fs ! i)"
  shows "mset_set {k. k < n \<and> ft_Ended (fs[i := (fs ! i)\<lparr>ft_Ended := True\<rparr>] ! k)} =
    add_mset i (mset_set {k. k < n \<and> ft_Ended (fs ! k)})"
proof -
  have "{k. k < n \<and> ft_Ended (fs[i := (fs ! i)\<lparr>ft_Ended := True\<rparr>] ! k)} = insert i {k. k < n \<and> ft_Ended (fs ! k)}"
    using ended_nth [OF n i] i by auto
  moreover have "finite {k. k < n \<and> ft_Ended (fs ! k)}" "i \<notin> {k. k < n \<and> ft_Ended (fs ! k)}" using ft by simp_all
  ultimately show ?thesis by (metis mset_set.insert)
qed

context chunk_service
begin

text \<open>
  What holds of a download of \<open>ls\<close> in world \<open>w0\<close>: the data \<open>d k\<close> fetched by an ended goroutine is what
  one of its nodes holds.
\<close>

definition dl_inv :: "'w \<Rightarrow> ChunkLocation list \<Rightarrow> 'w download \<Rightarrow> bool" where
  "dl_inv w0 ls u \<longleftrightarrow> inv (dl_World u) \<and> holds (dl_World u) = holds w0 \<and> present (dl_World u) = present w0 \<and>
     length (dl_Fetchers u) = length ls \<and>
     (\<forall>k<length ls. ft_ChunkId (dl_Fetchers u ! k) = cl_ChunkId (ls ! k) \<and> ft_Index (dl_Fetchers u ! k) = cl_ChunkIndex (ls ! k) \<and>
        set (ft_Todo (dl_Fetchers u ! k)) \<subseteq> set (cl_NodeAddresses (ls ! k))) \<and>
     (dl_Errors u = [] \<longrightarrow> (\<exists>d.
        (\<forall>k<length ls. ft_Ended (dl_Fetchers u ! k) \<longrightarrow>
           (\<exists>a\<in>set (cl_NodeAddresses (ls ! k)). holds w0 a (cl_ChunkId (ls ! k)) = Some (d k))) \<and>
        mset (dl_Results u) = image_mset (\<lambda>k. \<lparr>cr_Index = cl_ChunkIndex (ls ! k), cr_Data = d k\<rparr>)
          (mset_set {k. k < length ls \<and> ft_Ended (dl_Fetchers u ! k)})))"

lemma dl_inv_start:
  "inv w \<Longrightarrow> dl_inv w ls
     \<lparr>dl_Fetchers = start_fetchers ls, dl_Results = [], dl_Errors = [], dl_Panic = False, dl_World = w\<rparr>"
proof -
  have "{k. k < length ls \<and> ft_Ended (start_fetchers ls ! k)} = {}" by (auto simp: start_fetchers_def)
  then have "mset_set {k. k < length ls \<and> ft_Ended (start_fetchers ls ! k)} = {#}" by (simp only: mset_set.empty)
  moreover have "length (start_fetchers ls) = length ls" "\<forall>k<length ls. \<not> ft_Ended (start_fetchers ls ! k) \<and>
      ft_ChunkId (start_fetchers ls ! k) = cl_ChunkId (ls ! k) \<and> ft_Index (start_fetchers ls ! k) = cl_ChunkIndex (ls ! k) \<and>
      ft_Todo (start_fetchers ls ! k) = cl_NodeAddresses (ls ! k)"
    by (simp_all add: start_fetchers_def)
  ultimately show "inv w \<Longrightarrow> ?thesis" by (simp add: dl_inv_def)
qed

lemma delivered:
  assumes n: "length fs = length ls" and i: "i < length ls" and ft: "\<not> ft_Ended (fs ! i)"
    and ix: "ft_Index (fs ! i) = cl_ChunkIndex (ls ! i)"
    and a: "a \<in> set (cl_NodeAddresses (ls ! i))" "holds w0 a (cl_ChunkId (ls ! i)) = Some data"
    and d: "\<exists>d. (\<forall>k<length ls. ft_Ended (fs ! k) \<longrightarrow>
        (\<exists>a\<in>set (cl_NodeAddresses (ls ! k)). holds w0 a (cl_ChunkId (ls ! k)) = Some (d k))) \<and>
      mset rs = image_mset (\<lambda>k. \<lparr>cr_Index = cl_ChunkIndex (ls ! k), cr_Data = d k\<rparr>) (mset_set {k. k < length ls \<and> ft_Ended (fs ! k)})"
  defines "fs' \<equiv> fs[i := (fs ! i)\<lparr>ft_Ended := True\<rparr>]"
  shows "\<exists>d. (\<forall>k<length ls. ft_Ended (fs' ! k) \<longrightarrow>
        (\<exists>a\<in>set (cl_NodeAddresses (ls ! k)). holds w0 a (cl_ChunkId (ls ! k)) = Some (d k))) \<and>
      mset (rs @ [\<lparr>cr_Index = ft_Index (fs ! i), cr_Data = data\<rparr>]) =
        image_mset (\<lambda>k. \<lparr>cr_Index = cl_ChunkIndex (ls ! k), cr_Data = d k\<rparr>) (mset_set {k. k < length ls \<and> ft_Ended (fs' ! k)})"
proof -
  obtain d where d: "\<forall>k<length ls. ft_Ended (fs ! k) \<longrightarrow>
      (\<exists>a\<in>set (cl_NodeAddresses (ls ! k)). holds w0 a (cl_ChunkId (ls ! k)) = Some (d k))"
    "mset rs = image_mset (\<lambda>k. \<lparr>cr_Index = cl_ChunkIndex (ls ! k), cr_Data = d k\<rparr>) (mset_set {k. k < length ls \<and> ft_Ended (fs ! k)})"
    using d by blast
  let ?d = "d(i := data)"
  have "\<forall>k<length ls. ft_Ended (fs' ! k) \<longrightarrow>
      (\<exists>a\<in>set (cl_NodeAddresses (ls ! k)). holds w0 a (cl_ChunkId (ls ! k)) = Some (?d k))"
    using d(1) a ended_nth [OF n i] by (auto simp: fs'_def)
  moreover have "image_mset (\<lambda>k. \<lparr>cr_Index = cl_ChunkIndex (ls ! k), cr_Data = ?d k\<rparr>)
      (mset_set {k. k < length ls \<and> ft_Ended (fs ! k)}) = mset rs"
    unfolding d(2) using ft by (intro image_mset_cong) auto
  ultimately show ?thesis
    unfolding fs'_def ended_mset [OF n i ft] by (intro exI [of _ ?d]) (simp add: ix)
qed

lemma dl_inv_step:
  assumes I: "dl_inv w0 ls u"
  shows "dl_inv w0 ls (download_step dial sha get i u)"
proof (cases "dl_Panic u \<or> length (dl_Fetchers u) \<le> i \<or> ft_Ended (dl_Fetchers u ! i)")
  case False
  let ?t = "dl_Fetchers u ! i"
  have n: "length (dl_Fetchers u) = length ls" using I by (simp add: dl_inv_def)
  then have i: "i < length ls" using False by linarith
  have t: "ft_ChunkId ?t = cl_ChunkId (ls ! i)" "ft_Index ?t = cl_ChunkIndex (ls ! i)"
    "set (ft_Todo ?t) \<subseteq> set (cl_NodeAddresses (ls ! i))" using I i by (simp_all add: dl_inv_def)
  show ?thesis
  proof (cases "ft_Todo ?t")
    case Nil
    then show ?thesis using False I n by (auto simp: download_step_def Let_def dl_inv_def nth_list_update)
  next
    case (Cons addr rest)
    obtain w' r where f: "fetchChunkFromNode dial sha get addr (cl_ChunkId (ls ! i)) (dl_World u) = (w', r)" by force
    have "inv (dl_World u)" "holds (dl_World u) = holds w0" using I by (auto simp: dl_inv_def)
    note fc = fetch_cases [OF this(1) f, unfolded this(2)]
    show ?thesis
    proof (cases r)
      case (Inl e)
      have "ft_Ended ((dl_Fetchers u)[i := ?t\<lparr>ft_Todo := rest, ft_LastErr := e\<rparr>] ! k) = ft_Ended (dl_Fetchers u ! k)" for k
        by (cases "i < length (dl_Fetchers u)") (simp_all add: nth_list_update list_update_beyond)
      moreover have "set rest \<subseteq> set (cl_NodeAddresses (ls ! i))" using t(3) Cons by auto
      ultimately show ?thesis
        using False I n fc Inl f Cons t by (simp add: download_step_def Let_def dl_inv_def) (simp add: nth_list_update)
    next
      case (Inr data)
      let ?F = "(dl_Fetchers u)[i := ?t\<lparr>ft_Ended := True\<rparr>]"
      have new: "\<exists>d. (\<forall>k<length ls. ft_Ended (?F ! k) \<longrightarrow>
            (\<exists>a\<in>set (cl_NodeAddresses (ls ! k)). holds w0 a (cl_ChunkId (ls ! k)) = Some (d k))) \<and>
          mset (dl_Results u @ [\<lparr>cr_Index = ft_Index ?t, cr_Data = data\<rparr>]) =
            image_mset (\<lambda>k. \<lparr>cr_Index = cl_ChunkIndex (ls ! k), cr_Data = d k\<rparr>)
              (mset_set {k. k < length ls \<and> ft_Ended (?F ! k)})" if no_err: "dl_Errors u = []"
      proof -
        have "addr \<in> set (cl_NodeAddresses (ls ! i))" "holds w0 addr (cl_ChunkId (ls ! i)) = Some data"
          using t(3) Cons fc Inr by auto
        then show ?thesis using delivered [OF n i _ t(2)] False I no_err by (simp add: dl_inv_def)
      qed
      have fields: "ft_ChunkId (?F ! k) = cl_ChunkId (ls ! k) \<and> ft_Index (?F ! k) = cl_ChunkIndex (ls ! k) \<and>
        set (ft_Todo (?F ! k)) \<subseteq> set (cl_NodeAddresses (ls ! k))" if "k < length ls" for k
      proof -
        have "ft_ChunkId (dl_Fetchers u ! k) = cl_ChunkId (ls ! k)" "ft_Index (dl_Fetchers u ! k) = cl_ChunkIndex (ls ! k)"
          "set (ft_Todo (dl_Fetchers u ! k)) \<subseteq> set (cl_NodeAddresses (ls ! k))" using I that by (simp_all add: dl_inv_def)
        then show ?thesis using that n by (cases "k = i") simp_all
      qed
      have "download_step dial sha get i u = u\<lparr>dl_World := w', dl_Results := dl_Results u @ [\<lparr>cr_Index = ft_Index ?t, cr_Data = data\<rparr>],
          dl_Fetchers := ?F, dl_Panic := length (ft_ChunkId ?t) < 12\<rparr>"
        using False Cons f t(1) Inr by (simp add: download_step_def Let_def)
      then show ?thesis using I n fc fields new by (simp add: dl_inv_def)
    qed
  qed
qed (use I in \<open>auto simp: download_step_def\<close>)

lemma dl_inv_run: "dl_inv w0 ls u \<Longrightarrow> dl_inv w0 ls (run_download dial sha get sched u)"
  by (induction sched arbitrary: u) (simp_all add: run_download_def dl_inv_step)

lemma download_keeps:
  assumes "inv w" "downloadChunks dial sha get srt sched ls w = (w', r)"
  shows "inv w' \<and> holds w' = holds w \<and> present w' = present w"
proof -
  define u where "u = run_download dial sha get sched
    \<lparr>dl_Fetchers = start_fetchers ls, dl_Results = [], dl_Errors = [], dl_Panic = False, dl_World = w\<rparr>"
  have "dl_inv w ls u" unfolding u_def by (intro dl_inv_run dl_inv_start assms)
  then show ?thesis using assms(2) by (simp add: downloadChunks_def u_def Let_def dl_inv_def)
qed

text \<open>Whatever fails: a download that reports success returns data that its nodes hold, in order.\<close>

lemma download_sound:
  assumes "inv w" "sort_slice srt" "sorted_wrt (<) (map cl_ChunkIndex ls)"
    and "downloadChunks dial sha get srt sched ls w = (w', r)"
  shows "inv w' \<and> holds w' = holds w \<and> present w' = present w \<and>
    (\<forall>out. r = Some (Ok out) \<longrightarrow> (\<exists>ds. out = concat ds \<and>
       list_all2 (\<lambda>l d. \<exists>a\<in>set (cl_NodeAddresses l). holds w a (cl_ChunkId l) = Some d) ls ds))"
proof -
  define u where "u = run_download dial sha get sched
    \<lparr>dl_Fetchers = start_fetchers ls, dl_Results = [], dl_Errors = [], dl_Panic = False, dl_World = w\<rparr>"
  have I: "dl_inv w ls u" unfolding u_def by (intro dl_inv_run dl_inv_start assms)
  have w': "w' = dl_World u" "r = download_result srt u" using assms(4) by (simp_all add: downloadChunks_def u_def Let_def)
  have "\<exists>ds. out = concat ds \<and>
       list_all2 (\<lambda>l d. \<exists>a\<in>set (cl_NodeAddresses l). holds w a (cl_ChunkId l) = Some d) ls ds" if r: "r = Some (Ok out)" for out
  proof -
    have e: "dl_Errors u = []" "\<forall>t\<in>set (dl_Fetchers u). ft_Ended t"
      and out: "out = concat (map cr_Data (srt by_index (dl_Results u)))"
      using r w'(2) by (auto simp: download_result_def by_index_def [abs_def] split: if_splits list.splits)
    have ended: "ft_Ended (dl_Fetchers u ! k)" if "k < length ls" for k using e(2) that I by (simp add: dl_inv_def)
    then have "{k. k < length ls \<and> ft_Ended (dl_Fetchers u ! k)} = {0..<length ls}" by auto
    then obtain d where d: "\<forall>k<length ls. \<exists>a\<in>set (cl_NodeAddresses (ls ! k)). holds w a (cl_ChunkId (ls ! k)) = Some (d k)"
      "mset (dl_Results u) = mset (map (\<lambda>k. \<lparr>cr_Index = cl_ChunkIndex (ls ! k), cr_Data = d k\<rparr>) [0..<length ls])"
      using I e(1) ended by (auto simp: dl_inv_def)
    let ?rs = "map (\<lambda>k. \<lparr>cr_Index = cl_ChunkIndex (ls ! k), cr_Data = d k\<rparr>) [0..<length ls]"
    have "sorted_wrt by_index ?rs"
      using assms(3) by (auto simp: sorted_wrt_iff_nth_less by_index_def)
    then have "srt by_index (dl_Results u) = ?rs"
      by (rule sort_slice.sort_unique [OF assms(2) by_index_weak d(2) [symmetric]])
    then have "out = concat (map d [0..<length ls])" by (simp add: out comp_def)
    moreover have "list_all2 (\<lambda>l x. \<exists>a\<in>set (cl_NodeAddresses l). holds w a (cl_ChunkId l) = Some x) ls (map d [0..<length ls])"
      using d(1) by (simp add: list_all2_conv_all_nth)
    ultimately show ?thesis by blast
  qed
  then show ?thesis using I w'(1) by (simp add: dl_inv_def)
qed

text \<open>A download cannot fail while each chunk has an alive node that holds it.\<close>

definition servable :: "(string \<Rightarrow> string option) \<Rightarrow> 'w \<Rightarrow> string \<Rightarrow> string \<Rightarrow> bool" where
  "servable dial w i a \<longleftrightarrow> dial a = None \<and> alive a \<and> (\<exists>data. holds w a i = Some data \<and> fits (length data))"

lemma download_live:
  assumes w: "inv w" and live: "\<forall>l\<in>set ls. 12 \<le> length (cl_ChunkId l) \<and> (\<exists>a\<in>set (cl_NodeAddresses l). servable dial w (cl_ChunkId l) a)"
    and fair: "fair_download sched ls" and run: "downloadChunks dial sha get srt sched ls w = (w', r)"
  shows "\<exists>out. r = Some (Ok out)"
proof -
  define good where "good u \<longleftrightarrow> dl_inv w ls u \<and> dl_Errors u = [] \<and> \<not> dl_Panic u \<and>
    (\<forall>k<length ls. ft_Ended (dl_Fetchers u ! k) \<or> (\<exists>a\<in>set (ft_Todo (dl_Fetchers u ! k)). servable dial w (cl_ChunkId (ls ! k)) a))"
    for u
  have step: "good (download_step dial sha get i u)" if G: "good u" for i u
  proof (cases "length (dl_Fetchers u) \<le> i \<or> ft_Ended (dl_Fetchers u ! i)")
    case False
    let ?t = "dl_Fetchers u ! i"
    have I: "dl_inv w ls u" using G by (simp add: good_def)
    then have n: "length (dl_Fetchers u) = length ls" by (simp add: dl_inv_def)
    then have i: "i < length ls" using False by linarith
    have id: "ft_ChunkId ?t = cl_ChunkId (ls ! i)" using I i by (simp add: dl_inv_def)
    have len: "12 \<le> length (cl_ChunkId (ls ! i))" using live i by simp
    obtain a where a: "a \<in> set (ft_Todo ?t)" "servable dial w (cl_ChunkId (ls ! i)) a" using G i False by (auto simp: good_def)
    then obtain addr rest where todo: "ft_Todo ?t = addr # rest" by (cases "ft_Todo ?t") auto
    obtain v r where f: "fetchChunkFromNode dial sha get addr (cl_ChunkId (ls ! i)) (dl_World u) = (v, r)" by force
    have iw: "inv (dl_World u)" "holds (dl_World u) = holds w" using I by (auto simp: dl_inv_def)
    have "r = Inl e \<Longrightarrow> a \<noteq> addr" for e
      using a(2) f iw fetch_alive [OF iw(1), of dial addr "cl_ChunkId (ls ! i)"] by (auto simp: servable_def)
    then have "r = Inl e \<Longrightarrow> \<exists>b\<in>set rest. servable dial w (cl_ChunkId (ls ! i)) b" for e using a todo by auto
    moreover have "dl_inv w ls (download_step dial sha get i u)" by (rule dl_inv_step [OF I])
    ultimately show ?thesis
      using G False todo f id len i n unfolding good_def download_step_def Let_def
      by (cases r) (auto simp: nth_list_update)
  qed (use that in \<open>auto simp: download_step_def\<close>)
  define u0 where "u0 = \<lparr>dl_Fetchers = start_fetchers ls, dl_Results = [], dl_Errors = [], dl_Panic = False, dl_World = w\<rparr>"
  have "good u0" using live dl_inv_start [OF w, of ls] by (simp add: good_def u0_def start_fetchers_def)
  then have "good (run_download dial sha get sched u0)"
    using step by (induction sched arbitrary: u0) (simp_all add: run_download_def)
  then have "dl_Errors (run_download dial sha get sched u0) = []" "\<not> dl_Panic (run_download dial sha get sched u0)"
    by (simp_all add: good_def)
  moreover have "r \<noteq> None" by (rule download_returns [OF fair run])
  ultimately show ?thesis
    using run by (auto simp: downloadChunks_def Let_def u0_def [symmetric] download_result_def split: if_splits)
qed

end

text \<open>A chunk that no node accepts makes the upload fail.\<close>

lemma upload_refused:
  assumes k: "k < length placements" "k < length chunks" "cp_NodeAddresses (placements ! k) \<noteq> []"
    and refused: "\<And>a v. snd (sendChunkToNode dial store a (cp_ChunkId (placements ! k)) (chunks ! k)
        (DataChecksum sha (chunks ! k)) v) \<noteq> None"
    and "uploadChunks dial sha store sched chunks placements w = (w', r)"
  shows "r \<noteq> Some (Ok ())"
proof -
  let ?t = "\<lparr>sn_ChunkId = cp_ChunkId (placements ! k), sn_Data = chunks ! k,
      sn_Todo = cp_NodeAddresses (placements ! k), sn_Ended = False\<rparr>"
  define bad :: "'a upload \<Rightarrow> bool" where
    "bad u \<longleftrightarrow> k < length (up_Senders u) \<and> (up_Errors u = [] \<longrightarrow> up_Senders u ! k = ?t)" for u
  have step: "bad (upload_step dial sha store i u)" if B: "bad u" for i u
  proof (cases "up_Errors u = [] \<and> i = k \<and> \<not> up_Panic u")
    case True
    obtain addr rest where ad: "cp_NodeAddresses (placements ! k) = addr # rest"
      using k(3) by (cases "cp_NodeAddresses (placements ! k)") auto
    obtain v e where "sendChunkToNode dial store addr (cp_ChunkId (placements ! k)) (chunks ! k)
        (DataChecksum sha (chunks ! k)) (up_World u) = (v, Some e)"
      using refused [of addr "up_World u"] by (metis option.exhaust prod.collapse)
    then show ?thesis using B True ad by (simp add: bad_def upload_step_def Let_def)
  next
    case False
    have "up_Errors (upload_step dial sha store i u) = [] \<Longrightarrow> up_Errors u = []"
      by (auto simp: upload_step_def Let_def split: if_splits list.splits prod.splits option.splits)
    moreover have "i \<noteq> k \<or> up_Panic u \<Longrightarrow> up_Senders (upload_step dial sha store i u) ! k = up_Senders u ! k"
      by (auto simp: upload_step_def Let_def split: list.splits prod.splits option.splits)
    ultimately show ?thesis using B False upload_step_work(1) [where i = i and u = u and dial = dial and sha = sha and store = store]
      by (auto simp: bad_def)
  qed
  define u0 where "u0 = \<lparr>up_Senders = start_senders chunks placements, up_Errors = [], up_Panic = False, up_World = w\<rparr>"
  have "bad u0" using k by (simp add: bad_def u0_def start_senders_def)
  then have "bad (run_upload dial sha store sched u0)"
    using step by (induction sched arbitrary: u0) (simp_all add: run_upload_def)
  moreover have "r = upload_result (run_upload dial sha store sched u0)"
    using assms(5) by (simp add: uploadChunks_def u0_def Let_def)
  moreover have "sn_Ended (up_Senders u ! k) \<and> up_Errors u = []"
    if "upload_result u = Some (Ok ())" "k < length (up_Senders u)" for u :: "'a upload"
    using that by (auto simp: upload_result_def split: if_splits list.splits)
  ultimately show ?thesis unfolding bad_def by force
qed

lemma zip_ids: "length chunks = length placements \<Longrightarrow>
    map (\<lambda>(p, _). cp_ChunkId p) (zip placements chunks) = map cp_ChunkId placements"
  by (rule nth_equalityI) simp_all

lemma upload_no_panic:
  assumes "\<forall>p\<in>set placements. 12 \<le> length (cp_ChunkId p)"
    and "uploadChunks dial sha store sched chunks placements w = (w', r)"
  shows "r \<noteq> Some Panic"
proof -
  define fine :: "'a upload \<Rightarrow> bool" where
    "fine u \<longleftrightarrow> (\<forall>t\<in>set (up_Senders u). 12 \<le> length (sn_ChunkId t)) \<and> \<not> up_Panic u" for u
  have step: "fine (upload_step dial sha store i u)" if F: "fine u" for i u
  proof (cases "length (up_Senders u) \<le> i")
    case False
    then have "12 \<le> length (sn_ChunkId (up_Senders u ! i))" using F by (simp add: fine_def)
    then show ?thesis using F unfolding fine_def
      by (auto simp: upload_step_def Let_def split: list.splits prod.splits option.splits dest!: subsetD [OF set_update_subset_insert])
  qed (use F in \<open>auto simp: upload_step_def\<close>)
  define u0 where "u0 = \<lparr>up_Senders = start_senders chunks placements, up_Errors = [], up_Panic = False, up_World = w\<rparr>"
  have "fine u0" using assms(1) by (auto simp: fine_def u0_def start_senders_def dest!: set_zip_leftD)
  then have "fine (run_upload dial sha store sched u0)"
    using step by (induction sched arbitrary: u0) (simp_all add: run_upload_def)
  then show ?thesis
    using assms(2) by (auto simp: uploadChunks_def u0_def [symmetric] Let_def upload_result_def fine_def split: if_splits list.splits)
qed

section \<open>Properties\<close>

text \<open>
  C22: an upload or a download returns. Each goroutine ends after at most one step per address and
  one more, so under every schedule that runs each of them that often \<open>uploadChunks\<close> and
  \<open>downloadChunks\<close> return, whatever the RPCs do.
\<close>

theorem transfers_return:
  assumes "fair_upload sched placements" "fair_download sched' locations"
  shows "snd (uploadChunks dial sha store sched chunks placements w) \<noteq> None \<and>
    snd (downloadChunks dial sha get srt sched' locations w') \<noteq> None"
  using upload_returns [OF assms(1)] download_returns [OF assms(2)] by (metis prod.collapse)

text \<open>
  C14: an upload to the data nodes, in any order of the goroutines and under any faults. If it reports
  success, every node of every placement serves the chunk; whatever it reports, the nodes' stores stay
  consistent and no other chunk on any node is touched.
\<close>

theorem upload_stores_every_replica:
  assumes "distinct (map cp_ChunkId placements)" "\<forall>p\<in>set placements. no_slash (cp_ChunkId p)"
    and "length chunks = length placements" "net_inv w"
    and "uploadChunks dial sha (net_StoreChunk env sha) sched chunks placements w = (w', r)"
  shows "net_inv w' \<and>
    (\<forall>b j. j \<notin> cp_ChunkId ` set placements \<longrightarrow> net_holds sha w' b j = net_holds sha w b j) \<and>
    (r = Some (Ok ()) \<longrightarrow> (\<forall>k<length placements. \<forall>a\<in>set (cp_NodeAddresses (placements ! k)).
       net_holds sha w' a (cp_ChunkId (placements ! k)) = Some (chunks ! k)))"
proof -
  have ns: "\<forall>(p, _)\<in>set (zip placements chunks). no_slash (cp_ChunkId p)" using assms(2) by (auto dest: set_zip_leftD)
  have d: "distinct (map (\<lambda>(p, _). cp_ChunkId p) (zip placements chunks))" using assms(1,3) by (simp only: zip_ids)
  have z: "(placements ! k, chunks ! k) \<in> set (zip placements chunks)" if "k < length placements" for k
    using that assms(3) by (metis length_zip min.idem nth_mem nth_zip)
  show ?thesis using dn.upload_sound [OF d ns assms(4,5)] z by fast
qed

text \<open>
  C31: an upload of one chunk per placement, with different chunk IDs, to nodes that all exist and work (no transport fault,
  no disk fault, messages within the limit) succeeds, under every schedule that runs each goroutine to its end.
\<close>

theorem upload_succeeds:
  assumes "distinct (map cp_ChunkId placements)" "\<forall>p\<in>set placements. no_slash (cp_ChunkId p) \<and> 12 \<le> length (cp_ChunkId p)"
    and "length chunks = length placements" "net_inv w" "\<forall>c\<in>set chunks. en_fits env (length c)"
    and "\<forall>p\<in>set placements. \<forall>a\<in>set (cp_NodeAddresses p). dial a = None \<and> net_alive env a \<and> net_present w a"
    and "fair_upload sched placements"
  shows "snd (uploadChunks dial sha (net_StoreChunk env sha) sched chunks placements w) = Some (Ok ())"
proof -
  have d: "distinct (map (\<lambda>(p, _). cp_ChunkId p) (zip placements chunks))" using assms(1,3) by (simp only: zip_ids)
  obtain w' r where u: "uploadChunks dial sha (net_StoreChunk env sha) sched chunks placements w = (w', r)" by force
  have "r = Some (Ok ())"
    by (rule dn.upload_live [OF d _ assms(4) _ assms(7) u]) (use assms in \<open>auto dest: set_zip_leftD set_zip_rightD\<close>)
  then show ?thesis using u by simp
qed

text \<open>
  C15: a download from the data nodes. Under every schedule of its goroutines and any faults: if \<open>downloadChunks\<close>
  returns data, this is, concatenated in index order, data that for each location one of its nodes serves. And if the schedule
  runs each goroutine to its end and each chunk has, at one of its addresses, a reachable node that serves it in a
  message within the limit, it does return data: dead, unreachable and corrupted replicas, and the order in
  which the goroutines finish, make no difference to this. The nodes are left as they are.
\<close>

theorem download_returns_file:
  assumes "net_inv w" "sort_slice srt" "sorted_wrt (<) (map cl_ChunkIndex locations)"
    and "downloadChunks dial sha (net_GetChunk env sha) srt sched locations w = (w', r)"
  shows "net_inv w' \<and> net_holds sha w' = net_holds sha w \<and>
    (\<forall>out. r = Some (Ok out) \<longrightarrow> (\<exists>ds. out = concat ds \<and>
       list_all2 (\<lambda>l d. \<exists>a\<in>set (cl_NodeAddresses l). net_holds sha w a (cl_ChunkId l) = Some d) locations ds)) \<and>
    (fair_download sched locations \<and> (\<forall>l\<in>set locations. 12 \<le> length (cl_ChunkId l) \<and>
       (\<exists>a\<in>set (cl_NodeAddresses l). \<exists>d. dial a = None \<and> net_alive env a \<and>
          net_holds sha w a (cl_ChunkId l) = Some d \<and> en_fits env (length d))) \<longrightarrow>
     (\<exists>out. r = Some (Ok out)))"
proof -
  have "\<exists>out. r = Some (Ok out)"
    if "fair_download sched locations" and live: "\<forall>l\<in>set locations. 12 \<le> length (cl_ChunkId l) \<and>
       (\<exists>a\<in>set (cl_NodeAddresses l). \<exists>d. dial a = None \<and> net_alive env a \<and>
          net_holds sha w a (cl_ChunkId l) = Some d \<and> en_fits env (length d))"
  proof -
    have "\<forall>l\<in>set locations. 12 \<le> length (cl_ChunkId l) \<and>
        (\<exists>a\<in>set (cl_NodeAddresses l). dn.servable sha env dial w (cl_ChunkId l) a)"
      using live unfolding dn.servable_def by blast
    then show ?thesis using dn.download_live [OF assms(1) _ that(1) assms(4)] by blast
  qed
  then show ?thesis using dn.download_sound [OF assms] by blast
qed


section \<open>Examples\<close>

text \<open>Two empty nodes, a file of two chunks placed on both and on the second node, and where to find it.\<close>

definition demo_data_node :: "string \<Rightarrow> node" where
  "demo_data_node a = (\<lparr>ds_store = \<lparr>cs_dataDir = ''/'' @ a, cs_chunks = [], cs_usedBytes = 0\<rparr>, ds_health = NewHealthCollector (\<lambda>_. 0),
     ds_nodeID = a, ds_address = a, ds_port = 1, ds_adminPort = 2, ds_metaAddr = ''m'', ds_capacity = 100\<rparr>, [])"

definition demo_world :: World where
  "demo_world = \<lparr>w_nodes = [(''a'', demo_data_node ''a''), (''b'', demo_data_node ''b'')], w_calls = 0\<rparr>"

definition good_env :: env where
  "good_env = \<lparr>en_rpc = \<lambda>_ _. Delivered, en_write = \<lambda>_ _. NoFault, en_read = \<lambda>_ _. None, en_fits = \<lambda>_. True\<rparr>"

text \<open>The first node cannot be reached any more.\<close>

definition half_env :: env where
  "half_env = good_env\<lparr>en_rpc := \<lambda>_ a. if a = ''a'' then NotDelivered ''down'' else Delivered\<rparr>"

definition demo_places :: "ChunkPlacement list" where
  "demo_places = [\<lparr>cp_ChunkId = ''00000000000a'', cp_ChunkIndex = 0, cp_NodeAddresses = [''a'', ''b''], cp_NodeIds = [''n1'', ''n2'']\<rparr>,
     \<lparr>cp_ChunkId = ''00000000000b'', cp_ChunkIndex = 1, cp_NodeAddresses = [''b''], cp_NodeIds = [''n2'']\<rparr>]"

definition demo_locs :: "ChunkLocation list" where
  "demo_locs = [\<lparr>cl_ChunkId = ''00000000000a'', cl_ChunkIndex = 0, cl_NodeAddresses = [''a'', ''b''], cl_NodeIds = [''n1'', ''n2'']\<rparr>,
     \<lparr>cl_ChunkId = ''00000000000b'', cl_ChunkIndex = 1, cl_NodeAddresses = [''b''], cl_NodeIds = [''n2'']\<rparr>]"

definition demo_loaded :: World where
  "demo_loaded = fst (uploadChunks (\<lambda>_. None) id (net_StoreChunk good_env id) [1, 0, 0, 1, 0] [''hello'', ''world''] demo_places demo_world)"

lemma demo_fair: "fair_upload [1, 0, 0, 1, 0] demo_places" "fair_download [0, 1, 0, 0, 1] demo_locs"
  by (auto simp: fair_upload_def fair_download_def demo_places_def demo_locs_def less_Suc_eq)

lemma demo_world_inv: "net_inv demo_world"
  by (auto simp: net_inv_def demo_world_def demo_data_node_def cs_inv_new split: if_splits)

lemma good_env_alive: "net_alive good_env a" "net_alive half_env ''b''" "en_fits good_env n" "en_fits half_env n"
  by (simp_all add: net_alive_def good_env_def half_env_def)

lemma demo_ids_ok: "distinct (map cp_ChunkId demo_places)"
  "\<forall>p\<in>set demo_places. no_slash (cp_ChunkId p) \<and> 12 \<le> length (cp_ChunkId p)"
  by (auto simp: demo_places_def)

theorem transfers_return_witness:
  "snd (uploadChunks (\<lambda>_. None) id (\<lambda>a req w. (w, Inl ''x'')) [1, 0, 0, 1, 0] [''hello'', ''world''] demo_places ()) \<noteq> None \<and>
   snd (downloadChunks (\<lambda>_. None) id (\<lambda>a i w. (w, Inl ''x'')) insertion_sort [0, 1, 0, 0, 1] demo_locs ()) \<noteq> None"
  by (rule transfers_return [OF demo_fair])

theorem upload_succeeds_witness:
  "snd (uploadChunks (\<lambda>_. None) id (net_StoreChunk good_env id) [1, 0, 0, 1, 0] [''hello'', ''world''] demo_places demo_world) = Some (Ok ())"
  by (rule upload_succeeds [OF demo_ids_ok _ demo_world_inv _ _ demo_fair(1)])
    (auto simp: good_env_alive demo_places_def net_present_def demo_world_def)

lemma demo_loaded_eq:
  "uploadChunks (\<lambda>_. None) id (net_StoreChunk good_env id) [1, 0, 0, 1, 0] [''hello'', ''world''] demo_places demo_world =
   (demo_loaded, Some (Ok ()))"
proof -
  have "snd (uploadChunks (\<lambda>_. None) id (net_StoreChunk good_env id) [1, 0, 0, 1, 0] [''hello'', ''world''] demo_places demo_world) =
      Some (Ok ())" by code_simp
  then show ?thesis unfolding demo_loaded_def by (metis prod.collapse)
qed

theorem upload_stores_every_replica_witness:
  "net_inv demo_loaded \<and> net_holds id demo_loaded ''b'' ''00000000000b'' = Some ''world'' \<and>
   net_holds id demo_loaded ''a'' ''00000000000a'' = Some ''hello''"
proof -
  have ns: "\<forall>p\<in>set demo_places. no_slash (cp_ChunkId p)" using demo_ids_ok(2) by blast
  have len: "length [''hello'', ''world''] = length demo_places" by (simp add: demo_places_def)
  note u = upload_stores_every_replica [OF demo_ids_ok(1) ns len demo_world_inv demo_loaded_eq]
  then have "\<forall>k<length demo_places. \<forall>a\<in>set (cp_NodeAddresses (demo_places ! k)).
       net_holds id demo_loaded a (cp_ChunkId (demo_places ! k)) = Some ([''hello'', ''world''] ! k)" by blast
  then have "\<forall>k<2. \<forall>a\<in>set (cp_NodeAddresses (demo_places ! k)).
       net_holds id demo_loaded a (cp_ChunkId (demo_places ! k)) = Some ([''hello'', ''world''] ! k)"
    by (simp add: demo_places_def)
  from this [rule_format, of 0 "''a''"] this [rule_format, of 1 "''b''"] show ?thesis
    using u by (simp add: demo_places_def)
qed

theorem download_returns_file_witness:
  "\<exists>w'. downloadChunks (\<lambda>_. None) id (net_GetChunk half_env id) insertion_sort [0, 1, 0, 0, 1] demo_locs demo_loaded =
     (w', Some (Ok ''helloworld''))"
proof -
  have h: "net_holds id demo_loaded ''a'' ''00000000000a'' = Some ''hello''"
    "net_holds id demo_loaded ''b'' ''00000000000a'' = Some ''hello''"
    "net_holds id demo_loaded ''b'' ''00000000000b'' = Some ''world''" by code_simp+
  have ns: "\<forall>p\<in>set demo_places. no_slash (cp_ChunkId p)" using demo_ids_ok(2) by blast
  have inv: "net_inv demo_loaded"
    using dn.upload_sound [OF _ _ demo_world_inv demo_loaded_eq] by (auto simp: demo_places_def)
  obtain w' r where d: "downloadChunks (\<lambda>_. None) id (net_GetChunk half_env id) insertion_sort [0, 1, 0, 0, 1] demo_locs demo_loaded = (w', r)"
    by force
  have live: "\<forall>l\<in>set demo_locs. 12 \<le> length (cl_ChunkId l) \<and>
      (\<exists>a\<in>set (cl_NodeAddresses l). \<exists>d. (\<lambda>_. None :: string option) a = None \<and> net_alive half_env a \<and>
         net_holds id demo_loaded a (cl_ChunkId l) = Some d \<and> en_fits half_env (length d))"
    using h by (simp add: demo_locs_def good_env_alive)
  have s: "sorted_wrt (<) (map cl_ChunkIndex demo_locs)" by (simp add: demo_locs_def)
  note dl = download_returns_file [OF inv go_sort.sort_slice_axioms s d]
  then obtain out where r: "r = Some (Ok out)" using demo_fair(2) live by blast
  then obtain ds where "out = concat ds"
    "list_all2 (\<lambda>l d. \<exists>a\<in>set (cl_NodeAddresses l). net_holds id demo_loaded a (cl_ChunkId l) = Some d) demo_locs ds"
    using dl by blast
  then have "out = ''helloworld''" using h by (auto simp: demo_locs_def list_all2_Cons1)
  then show ?thesis using d r by blast
qed

definition demo_lf :: local_files where
  "demo_lf = \<lparr>lf_Open = \<lambda>p. if p = ''/x'' then Inr ''abc'' else Inl ''no such file'', lf_StatErr = None, lf_CopyErr = None,
     lf_Read = \<lambda>_. Inr (nat ChunkSize)\<rparr>"


lemma write_ok: "writeFile fault p data d = (d', None) \<Longrightarrow> d' = AList.update p data d"
  by (cases fault) (auto simp: writeFile_def)

lemma get_file_ok:
  assumes "cl_GetFile fault dial sha meta get srt sched path target (w, d) = ((w', d'), Some (Ok ()))"
  obtains w1 resp data where "meta path w = (w1, Inr resp)" "gfr_Success resp" "gfr_FileInfo resp \<noteq> None"
    "downloadChunks dial sha get srt sched (gfr_ChunkLocations resp) w1 = (w', Some (Ok data))"
    "d' = AList.update target data d"
proof -
  obtain w1 v where m: "meta path w = (w1, v)" by force
  obtain resp where v: "v = Inr resp" "gfr_Success resp" "gfr_FileInfo resp \<noteq> None"
    using assms m by (cases v) (auto simp: cl_GetFile_def split: if_splits)
  obtain w2 x where dl: "downloadChunks dial sha get srt sched (gfr_ChunkLocations resp) w1 = (w2, x)" by (metis prod.exhaust)
  obtain data where x: "x = Some (Ok data)"
    using assms m v dl by (auto simp: cl_GetFile_def split: option.splits outcome.splits)
  obtain d2 e where wr: "writeFile fault target data d = (d2, e)" by force
  have "w2 = w'" "d2 = d'" "e = None"
    using assms m v dl x wr by (auto simp: cl_GetFile_def split: option.splits)
  then show ?thesis using that m v dl x wr write_ok by metis
qed

end
