(* ===== verification/System.thy ===== *)
theory System
  imports Meta_Server Client
begin

text \<open>
  The whole system: the metadata server, the data nodes and a client. The client's RPCs to the metadata
  server run its handlers (a handler that panics loses the connection), those to the data nodes act on
  the world of data nodes. The contract \<open>chunk_service\<close> carries over from the world of nodes.
\<close>

section \<open>RPCs\<close>

type_synonym system = "Server \<times> World"

definition sys_PutFile ::
  "iter \<Rightarrow> sorter \<Rightarrow> (bytes \<Rightarrow> bytes) \<Rightarrow> time \<Rightarrow> PutFileRequest \<Rightarrow> system \<Rightarrow> system \<times> (string + PutFileResponse)" where
  "sys_PutFile it srt sha now req sw =
     (case sw of (s, w) \<Rightarrow>
        (case sv_PutFile it srt sha now req s of
           (s', Some resp) \<Rightarrow> ((s', w), Inr resp)
         | (s', None) \<Rightarrow> ((s', w), Inl ''connection lost'')))"

definition sys_GetFile :: "string \<Rightarrow> system \<Rightarrow> system \<times> (string + GetFileResponse)" where
  "sys_GetFile path sw =
     (case sv_GetFile path (fst sw) of Some resp \<Rightarrow> (sw, Inr resp) | None \<Rightarrow> (sw, Inl ''connection lost''))"

definition on_nodes :: "(World \<Rightarrow> World \<times> 'a) \<Rightarrow> system \<Rightarrow> system \<times> 'a" where
  "on_nodes f sw = (case f (snd sw) of (w', r) \<Rightarrow> ((fst sw, w'), r))"

definition sys_StoreChunk :: "env \<Rightarrow> (bytes \<Rightarrow> bytes) \<Rightarrow> system store_rpc" where
  "sys_StoreChunk env sha addr req = on_nodes (net_StoreChunk env sha addr req)"

definition sys_GetChunk :: "env \<Rightarrow> (bytes \<Rightarrow> bytes) \<Rightarrow> system get_rpc" where
  "sys_GetChunk env sha addr i = on_nodes (net_GetChunk env sha addr i)"

lemma on_nodes_iff: "on_nodes f sw = (sw', r) \<longleftrightarrow> fst sw' = fst sw \<and> f (snd sw) = (snd sw', r)"
  by (cases sw') (auto simp: on_nodes_def split: prod.splits)

interpretation sys: chunk_service sha "sys_StoreChunk env sha" "sys_GetChunk env sha" "\<lambda>sw. net_inv (snd sw)"
  "\<lambda>sw. net_holds sha (snd sw)" "\<lambda>sw. net_present (snd sw)" "net_alive env" "en_fits env"
  for sha env
proof unfold_locales
  fix w w' :: system and req a r
  assume "net_inv (snd w)" "no_slash (sc_ChunkId req)" "sys_StoreChunk env sha a req w = (w', r)"
  then show "net_inv (snd w') \<and> net_present (snd w') = net_present (snd w)"
    using dn.store_inv unfolding sys_StoreChunk_def on_nodes_iff by blast
next
  fix w w' :: system and req a r b i
  assume "net_inv (snd w)" "no_slash (sc_ChunkId req)" "sys_StoreChunk env sha a req w = (w', r)"
    "(b, i) \<noteq> (a, sc_ChunkId req)"
  then show "net_holds sha (snd w') b i = net_holds sha (snd w) b i"
    using dn.store_frame unfolding sys_StoreChunk_def on_nodes_iff by blast
next
  fix w w' :: system and req a resp
  assume "net_inv (snd w)" "no_slash (sc_ChunkId req)" "sys_StoreChunk env sha a req w = (w', Inr resp)" "scr_Success resp"
  then show "net_holds sha (snd w') a (sc_ChunkId req) = Some (sc_Data req)"
    using dn.store_done unfolding sys_StoreChunk_def on_nodes_iff by blast
next
  fix w w' :: system and req a r
  assume "net_inv (snd w)" "net_alive env a" "net_present (snd w) a" "en_fits env (length (sc_Data req))"
    "sc_Checksum req = DataChecksum sha (sc_Data req)" "sys_StoreChunk env sha a req w = (w', r)"
  then show "\<exists>resp. r = Inr resp \<and> scr_Success resp"
    using dn.store_alive unfolding sys_StoreChunk_def on_nodes_iff by blast
next
  fix w w' :: system and a i g
  assume "net_inv (snd w)" "sys_GetChunk env sha a i w = (w', g)"
  then show "net_inv (snd w') \<and> net_holds sha (snd w') = net_holds sha (snd w) \<and> net_present (snd w') = net_present (snd w)"
    using dn.get_keeps unfolding sys_GetChunk_def on_nodes_iff by blast
next
  fix w w' :: system and a i ans
  assume "net_inv (snd w)" "sys_GetChunk env sha a i w = (w', Inr ans)" "gkr_Success ans"
  then show "net_holds sha (snd w) a i = Some (gkr_Data ans) \<and> gkr_Checksum ans = DataChecksum sha (gkr_Data ans)"
    using dn.get_sound unfolding sys_GetChunk_def on_nodes_iff by blast
next
  fix w w' :: system and a i data g
  assume "net_inv (snd w)" "net_alive env a" "net_holds sha (snd w) a i = Some data" "en_fits env (length data)"
    "sys_GetChunk env sha a i w = (w', g)"
  then show "\<exists>ans. g = Inr ans \<and> gkr_Success ans"
    using dn.get_alive unfolding sys_GetChunk_def on_nodes_iff by blast
qed

section \<open>Transfers leave the metadata alone\<close>

lemma send_keeps:
  assumes "\<And>a req w. f (fst (store a req w)) = f w"
  shows "sendChunkToNode dial store a i data ck w = (w', r) \<Longrightarrow> f w' = f w"
  using assms [of a "\<lparr>sc_ChunkId = i, sc_Data = data, sc_Checksum = ck\<rparr>" w]
  by (auto simp: sendChunkToNode_def split: option.splits prod.splits sum.splits)

lemma upload_keeps:
  assumes "\<And>a req w. f (fst (store a req w)) = f w"
  shows "f (fst (uploadChunks dial sha store sched chunks placements w)) = f w"
proof -
  have step: "f (up_World (upload_step dial sha store i u)) = f (up_World u)" for i u
    using send_keeps [of f store, OF assms]
    by (auto simp: upload_step_def Let_def split: list.splits prod.splits option.splits)
  have "f (up_World (run_upload dial sha store sched u)) = f (up_World u)" for u
    using step by (induction sched arbitrary: u) (simp_all add: run_upload_def)
  then show ?thesis by (simp add: uploadChunks_def Let_def)
qed

lemma sys_upload_fst: "fst (fst (uploadChunks dial sha (sys_StoreChunk env sha) sched chunks placements sw)) = fst sw"
  by (rule upload_keeps) (simp add: sys_StoreChunk_def on_nodes_def split: prod.split)

section \<open>A successful put\<close>

text \<open>The placements of a successful put: the chunk IDs of the path in order, on at most three nodes each.\<close>

lemma put_placements:
  assumes "ns_inv (sv_namespace s)" "cm_inv (sv_chunkMgr s)" "perm_iter it" "sort_slice srt"
    and "sv_PutFile it srt sha now req s = (s', Some resp)" "pfr_Success resp"
  shows "map cp_ChunkId (pfr_Placements resp) = chunk_ids sha (pf_Path req) (pf_ChunkCount req)"
    and "k < length (pfr_Placements resp) \<Longrightarrow> cp_ChunkIndex (pfr_Placements resp ! k) = int32 (int k)"
    and "k < length (pfr_Placements resp) \<Longrightarrow> length (cp_NodeAddresses (pfr_Placements resp ! k)) \<le> 3"
    and "k < length (pfr_Placements resp) \<Longrightarrow> cp_NodeAddresses (pfr_Placements resp ! k) \<noteq> []"
proof -
  obtain ps where a: "cm_AllocateChunks it srt sha now (pf_Path req) (pf_ChunkCount req) (pf_FileSize req) (sv_chunkMgr s) =
      (sv_chunkMgr s', Ok ps)"
    and pl: "pfr_Placements resp = map (\<lambda>p. \<lparr>cp_ChunkId = pl_ChunkID p, cp_ChunkIndex = int32 (pl_ChunkIndex p),
        cp_NodeAddresses = pl_NodeAddresses p, cp_NodeIds = pl_NodeIDs p\<rparr>) ps"
    by (rule put_success [OF assms(1,5,6)]) blast
  let ?H = "cm_healthyNodes it now (sv_chunkMgr s)"
  have H: "?H \<noteq> []" "0 \<le> pf_ChunkCount req"
    using a by (auto simp: cm_AllocateChunks_def Let_def split: if_splits)
  from allocate_ok [OF assms(2-4) refl H, where sha = sha and path = "pf_Path req" and fileSize = "pf_FileSize req"] a
  have l: "list_all2 (placement_ok (sv_chunkMgr s) ?H (alloc_repl ?H) sha (pf_Path req)) [0..<nat (pf_ChunkCount req)] ps" by auto
  show "map cp_ChunkId (pfr_Placements resp) = chunk_ids sha (pf_Path req) (pf_ChunkCount req)"
    using placed_ids [OF l] by (simp add: pl chunk_ids_def comp_def)
  show "cp_ChunkIndex (pfr_Placements resp ! k) = int32 (int k)" if k: "k < length (pfr_Placements resp)"
    using list_all2_nthD2 [OF l, of k] k list_all2_lengthD [OF l] by (simp add: pl placement_ok_def)
  have len: "length (cp_NodeAddresses (pfr_Placements resp ! k)) = alloc_repl ?H" if k: "k < length (pfr_Placements resp)"
    using list_all2_nthD2 [OF l, of k] k by (simp add: pl placement_ok_def)
  show "length (cp_NodeAddresses (pfr_Placements resp ! k)) \<le> 3" if k: "k < length (pfr_Placements resp)"
    using len [OF k] by (simp add: alloc_repl_def)
  show "cp_NodeAddresses (pfr_Placements resp ! k) \<noteq> []" if k: "k < length (pfr_Placements resp)"
    using len [OF k] H(1) by (auto simp: alloc_repl_def min_def split: if_splits)
qed

lemma chunk_id_long: "(\<And>x. 6 \<le> length (sha x)) \<Longrightarrow> 12 \<le> length (GenerateChunkID sha p i)"
proof -
  assume "\<And>x. 6 \<le> length (sha x)"
  from this [of "chunk_key p i"] show ?thesis by (simp add: GenerateChunkID_def fmt_x_length min_def)
qed

section \<open>Putting a file and getting it back\<close>

lemma chunks_nonempty_bound:
  assumes "lf_Open lf path = Inr data" "readAndChunkFile sha lf path = Inr (chunks, fsize, ck)"
  shows "length chunks \<le> length data" "concat chunks = data"
proof -
  have cf: "ChunkFile (lf_Open lf) (lf_Read lf) path = Inr chunks"
    using assms by (auto simp: readAndChunkFile_def ChunkFile_def split: option.splits sum.splits)
  show cd: "concat chunks = data" by (rule ChunkFile_concat(1) [OF cf assms(1)])
  have "\<forall>c\<in>set xs. c \<noteq> [] \<Longrightarrow> length xs \<le> length (concat xs)" for xs :: "bytes list"
    by (induction xs) (auto simp: neq_Nil_conv)
  then show "length chunks \<le> length data" using ChunkFile_concat(2) [OF cf assms(1)] cd by metis
qed

lemma put_file_ok:
  assumes "cl_PutFile lf dial sha meta store sched localPath remotePath w = (w', Some (Ok ()))"
  obtains chunks fsize ck w1 resp where
    "readAndChunkFile sha lf localPath = Inr (chunks, fsize, ck)"
    "meta \<lparr>pf_Path = remotePath, pf_FileSize = fsize, pf_ChunkCount = int32 (int (length chunks)), pf_Checksum = ck\<rparr> w =
       (w1, Inr resp)"
    "pfr_Success resp" "uploadChunks dial sha store sched chunks (pfr_Placements resp) w1 = (w', Some (Ok ()))"
proof -
  have wrap: "wrap_err m r = Some (Ok ()) \<longleftrightarrow> r = Some (Ok ())" for m and r :: "(string, unit) outcome option"
    by (auto simp: wrap_err_def split: option.splits outcome.splits)
  show ?thesis using assms that
    by (auto simp: cl_PutFile_def wrap split: sum.splits prod.splits if_splits)
qed

text \<open>What the system looks like after a put that reported success.\<close>

lemma put_state:
  assumes inv: "ns_inv (sv_namespace s)" "cm_inv (sv_chunkMgr s)" "net_inv w" "perm_iter it" "sort_slice srt"
    and ids: "inj_on (\<lambda>i. GenerateChunkID sha remotePath (int i)) {..<length chunks}" "plain remotePath"
    and rd: "readAndChunkFile sha lf localPath = Inr (chunks, fsize, ck)" "int (length chunks) < 2 ^ 31"
    and put: "cl_PutFile lf dial sha (sys_PutFile it srt sha now) (sys_StoreChunk env sha) sched localPath remotePath (s, w) =
      (sw', Some (Ok ()))"
  obtains g where "sv_GetFile remotePath (fst sw') = Some g" "gfr_Success g" "gfr_FileInfo g \<noteq> None" "net_inv (snd sw')"
    "length (gfr_ChunkLocations g) = length chunks"
    "\<And>k. k < length chunks \<Longrightarrow> cl_ChunkId (gfr_ChunkLocations g ! k) = GenerateChunkID sha remotePath (int k) \<and>
       cl_ChunkIndex (gfr_ChunkLocations g ! k) = int k \<and> length (cl_NodeAddresses (gfr_ChunkLocations g ! k)) \<le> 3 \<and>
       (\<forall>a\<in>set (cl_NodeAddresses (gfr_ChunkLocations g ! k)).
          net_holds sha (snd sw') a (GenerateChunkID sha remotePath (int k)) = Some (chunks ! k))"
proof -
  define req where "req = \<lparr>pf_Path = remotePath, pf_FileSize = fsize, pf_ChunkCount = int32 (int (length chunks)), pf_Checksum = ck\<rparr>"
  have n: "int32 (int (length chunks)) = int (length chunks)" using rd(2) by (intro int32_id) simp
  obtain sw1 resp where m: "sys_PutFile it srt sha now req (s, w) = (sw1, Inr resp)" "pfr_Success resp"
    and up: "uploadChunks dial sha (sys_StoreChunk env sha) sched chunks (pfr_Placements resp) sw1 = (sw', Some (Ok ()))"
    by (rule put_file_ok [OF put]) (use rd(1) in \<open>auto simp: req_def\<close>)
  obtain s1 where sv: "sv_PutFile it srt sha now req s = (s1, Some resp)" "sw1 = (s1, w)"
    using m(1) by (auto simp: sys_PutFile_def split: prod.splits option.splits)
  let ?ps = "pfr_Placements resp"
  note pl = put_placements [OF inv(1,2,4,5) sv(1) m(2)]
  have pids: "map cp_ChunkId ?ps = chunk_ids sha remotePath (int (length chunks))" using pl(1) by (simp add: req_def n)
  then have len: "length ?ps = length chunks" by (metis chunk_ids_def diff_zero length_map length_upt nat_int)
  have id: "cp_ChunkId (?ps ! k) = GenerateChunkID sha remotePath (int k)" if "k < length chunks" for k
    using arg_cong [OF pids, of "\<lambda>xs. xs ! k"] that len by (simp add: chunk_ids_def)
  have idx: "cp_ChunkIndex (?ps ! k) = int k" if "k < length chunks" for k
    using pl(2) [of k] that len rd(2) by (simp add: int32_id)
  have dist: "distinct (map cp_ChunkId ?ps)"
    using ids(1) unfolding pids chunk_ids_def by (simp add: distinct_map atLeast0LessThan)
  have ns: "\<forall>p\<in>set ?ps. no_slash (cp_ChunkId p)"
    using id len GenerateChunkID_no_slash by (auto simp: in_set_conv_nth)
  have fst': "fst sw' = s1" using sys_upload_fst [of dial sha env sched chunks ?ps sw1] up sv(2) by simp
  have w1: "net_inv (snd sw1)" using inv(3) sv(2) by simp
  have dz: "distinct (map (\<lambda>(p, _). cp_ChunkId p) (zip ?ps chunks))" using dist by (simp only: zip_ids [OF len [symmetric]])
  have nz: "\<forall>(p, _)\<in>set (zip ?ps chunks). no_slash (cp_ChunkId p)" using ns by (auto dest: set_zip_leftD)
  note us = sys.upload_sound [OF dz nz w1 up]
  have held: "net_holds sha (snd sw') a (cp_ChunkId (?ps ! k)) = Some (chunks ! k)"
    if "k < length chunks" "a \<in> set (cp_NodeAddresses (?ps ! k))" for k a
  proof -
    have "(?ps ! k, chunks ! k) \<in> set (zip ?ps chunks)" using that len by (metis length_zip min.idem nth_mem nth_zip)
    then show ?thesis using us that(2) by blast
  qed
  have inj: "inj_on (\<lambda>i. GenerateChunkID sha (pf_Path req) (int i)) {..<nat (pf_ChunkCount req)}"
    using ids(1) by (simp add: req_def n)
  obtain g info where g: "sv_GetFile remotePath s1 = Some g" "gfr_Success g" "gfr_FileInfo g = Some info"
    "gfr_ChunkLocations g = map (\<lambda>p. \<lparr>cl_ChunkId = cp_ChunkId p, cl_ChunkIndex = cp_ChunkIndex p,
      cl_NodeAddresses = cp_NodeAddresses p, cl_NodeIds = cp_NodeIds p\<rparr>) ?ps"
    using put_get_locations [OF inv(1,2,4,5) inj _ sv(1) m(2)] ids(2) by (auto simp: req_def)
  show ?thesis
    using g len id idx held pl(3) us by (intro that [of g]) (simp_all add: fst')
qed

text \<open>A download over the system, when each chunk has one alive node.\<close>

lemma sys_download:
  assumes "net_inv (snd sw)" "sort_slice rsrt" "length locs = length chunks" "int (length chunks) < 2 ^ 31"
    and loc: "\<And>k. k < length chunks \<Longrightarrow> cl_ChunkId (locs ! k) = ids k \<and> cl_ChunkIndex (locs ! k) = int k \<and>
       length (cl_NodeAddresses (locs ! k)) \<le> 3 \<and>
       (\<forall>a\<in>set (cl_NodeAddresses (locs ! k)). net_holds sha (snd sw) a (ids k) = Some (chunks ! k))"
    and "\<And>k. 12 \<le> length (ids k)" "\<forall>c\<in>set chunks. en_fits env (length c)"
    and "\<forall>l\<in>set locs. \<exists>a\<in>set (cl_NodeAddresses l). dial a = None \<and> net_alive env a"
    and "\<forall>k<length chunks. 3 < count_list sched k"
  shows "\<exists>sw'. downloadChunks dial sha (sys_GetChunk env sha) rsrt sched locs sw = (sw', Some (Ok (concat chunks)))"
proof -
  obtain sw' r where d: "downloadChunks dial sha (sys_GetChunk env sha) rsrt sched locs sw = (sw', r)" by (metis prod.exhaust)
  have live: "\<forall>l\<in>set locs. 12 \<le> length (cl_ChunkId l) \<and>
      (\<exists>a\<in>set (cl_NodeAddresses l). sys.servable sha env dial sw (cl_ChunkId l) a)"
  proof
    fix l assume l: "l \<in> set locs"
    then obtain k where k: "k < length chunks" "l = locs ! k" using assms(3) by (auto simp: in_set_conv_nth)
    obtain a where a: "a \<in> set (cl_NodeAddresses l)" "dial a = None" "net_alive env a" using assms(8) l by blast
    then have "sys.servable sha env dial sw (cl_ChunkId l) a"
      using loc [OF k(1)] k assms(7) by (auto simp: sys.servable_def)
    then show "12 \<le> length (cl_ChunkId l) \<and> (\<exists>a\<in>set (cl_NodeAddresses l). sys.servable sha env dial sw (cl_ChunkId l) a)"
      using a(1) loc [OF k(1)] assms(6) [of k] k(2) by auto
  qed
  have fair: "fair_download sched locs"
    unfolding fair_download_def
  proof (intro allI impI)
    fix i assume "i < length locs"
    then show "length (cl_NodeAddresses (locs ! i)) < count_list sched i"
      using loc [of i] assms(3,9) by (metis le_less_trans)
  qed
  have sorted: "sorted_wrt (<) (map cl_ChunkIndex locs)"
    using loc assms(3) by (auto simp: sorted_wrt_iff_nth_less)
  obtain out where r: "r = Some (Ok out)" using sys.download_live [OF assms(1) live fair d] by blast
  then obtain xs where xs: "out = concat xs"
    "list_all2 (\<lambda>l x. \<exists>a\<in>set (cl_NodeAddresses l). net_holds sha (snd sw) a (cl_ChunkId l) = Some x) locs xs"
    using sys.download_sound [OF assms(1,2) sorted d] by blast
  have "xs = chunks"
  proof (rule nth_equalityI)
    show "length xs = length chunks" using list_all2_lengthD [OF xs(2)] assms(3) by simp
    fix i assume "i < length xs"
    then have i: "i < length locs" using list_all2_lengthD [OF xs(2)] by simp
    show "xs ! i = chunks ! i" using list_all2_nthD [OF xs(2) i] loc [of i] i assms(3) by auto
  qed
  then show ?thesis using d r xs(1) by blast
qed
section \<open>Messages over the limit\<close>

lemma full_first_chunk:
  assumes "\<forall>p. lf_Read lf p = Inr (nat ChunkSize)" "lf_Open lf path = Inr data" "lf_StatErr lf = None" "lf_CopyErr lf = None"
    and "ChunkSize \<le> int (length data)"
  obtains chunks where "readAndChunkFile sha lf path = Inr (chunks, int64 (int (length data)), fmt_x (sha data))"
    "chunks \<noteq> []" "int (length (chunks ! 0)) = ChunkSize" "length chunks = nat ((int (length data) + ChunkSize - 1) div ChunkSize)"
proof -
  define b where "b = nat ChunkSize"
  have b: "0 < b" "int b = ChunkSize" by (simp_all add: b_def ChunkSize_def)
  have "\<And>p. lf_Read lf p = Inr b" using assms(1) by (simp add: b_def)
  from read_loop_full [where rd = "lf_Read lf" and b = b and data = data and pos = 0 and acc = "[]", OF this b(1)]
  obtain new where n: "read_loop b (lf_Read lf) data 0 [] = Inr new" "length new = (length data + b - 1) div b"
    "\<forall>i<length new. length (new ! i) = min b (length data - i * b)" by auto
  have bl: "b \<le> length data" using assms(5) b(2) by linarith
  then have "b \<le> length data + b - 1" using b(1) by linarith
  then have "0 < length new" unfolding n(2) using b(1) by (simp add: div_greater_zero_iff)
  moreover from this have "length (new ! 0) = b" using n(3) bl by simp
  moreover have "readAndChunkFile sha lf path = Inr (new, int64 (int (length data)), fmt_x (sha data))"
    using n(1) assms(2-4) by (simp add: readAndChunkFile_def b_def [symmetric])
  moreover have "length new = nat ((int (length data) + ChunkSize - 1) div ChunkSize)"
    using n(2) b by (simp add: nat_div_as_int of_nat_diff)
  ultimately show ?thesis using b(2) by (intro that [of new]) auto
qed

lemma oversized_refused:
  assumes "\<not> en_fits env (length data)"
  shows "snd (sendChunkToNode dial (sys_StoreChunk env sha) a i data ck sw) \<noteq> None"
proof -
  obtain sw' e where "sys_StoreChunk env sha a \<lparr>sc_ChunkId = i, sc_Data = data, sc_Checksum = ck\<rparr> sw = (sw', Inl e)"
    using assms by (cases "map_of (w_nodes (snd sw)) a") (auto simp: sys_StoreChunk_def on_nodes_def net_StoreChunk_def Let_def)
  then show ?thesis by (cases "dial a") (simp_all add: sendChunkToNode_def)
qed

lemma put_placements_fair:
  assumes "ns_inv (sv_namespace s)" "cm_inv (sv_chunkMgr s)" "perm_iter it" "sort_slice srt"
    and "sv_PutFile it srt sha now req s = (s', Some resp)" "pfr_Success resp"
    and "\<forall>k<length (pfr_Placements resp). 3 < count_list sched k"
  shows "fair_upload sched (pfr_Placements resp)"
  unfolding fair_upload_def using put_placements(3) [OF assms(1-6)] assms(7) by (meson le_less_trans)

text \<open>When the metadata server accepts a put.\<close>

lemma put_accepted:
  assumes "cm_inv (sv_chunkMgr s)" "perm_iter it" "sort_slice srt" "cm_healthyNodes it now (sv_chunkMgr s) \<noteq> []"
    and "\<And>meta. \<exists>rt'. ns_CreateFile (sv_namespace s) (pf_Path req) meta = (rt', Inr ())" "0 \<le> pf_ChunkCount req"
  shows "\<exists>s' resp. sv_PutFile it srt sha now req s = (s', Some resp) \<and> pfr_Success resp"
proof -
  obtain cm' ps where a: "cm_AllocateChunks it srt sha now (pf_Path req) (pf_ChunkCount req) (pf_FileSize req) (sv_chunkMgr s) = (cm', Ok ps)"
    by (rule allocate_ok [OF assms(1-3) refl assms(4,6)]) blast
  obtain rt' where "ns_CreateFile (sv_namespace s) (pf_Path req) \<lparr>fm_Path = pf_Path req, fm_Size = pf_FileSize req,
        fm_ChunkCount = pf_ChunkCount req, fm_ReplicationFactor = DefaultReplicationFactor,
        fm_Checksum = pf_Checksum req, fm_ChunkIDs = map pl_ChunkID ps, fm_CreatedAt = now\<rparr> = (rt', Inr ())"
    using assms(5) by blast
  then show ?thesis using a by (simp add: sv_PutFile_def Let_def)
qed

section \<open>Deleting a file\<close>

definition sys_DeleteFile :: "iter \<Rightarrow> string \<Rightarrow> system \<Rightarrow> system \<times> (string + DeleteFileResponse)" where
  "sys_DeleteFile it path sw =
     (case sw of (s, w) \<Rightarrow>
        (case sv_DeleteFile it path s of
           (s', Some resp) \<Rightarrow> ((s', w), Inr resp)
         | (s', None) \<Rightarrow> ((s', w), Inl ''connection lost'')))"

lemma put_keeps_ns:
  assumes "ns_inv (sv_namespace s)"
    and "cl_PutFile lf dial sha (sys_PutFile it srt sha now) (sys_StoreChunk env sha) sched localPath path (s, w) =
      (sw', Some (Ok ()))"
  shows "ns_inv (sv_namespace (fst sw'))"
proof -
  obtain req sw1 resp chunks where m: "sys_PutFile it srt sha now req (s, w) = (sw1, Inr resp)" "pfr_Success resp"
    and up: "uploadChunks dial sha (sys_StoreChunk env sha) sched chunks (pfr_Placements resp) sw1 = (sw', Some (Ok ()))"
    by (rule put_file_ok [OF assms(2)]) blast
  obtain s1 where sv: "sv_PutFile it srt sha now req s = (s1, Some resp)" "sw1 = (s1, w)"
    using m(1) by (auto simp: sys_PutFile_def split: prod.splits option.splits)
  have "fst sw' = s1" using sys_upload_fst [of dial sha env sched chunks "pfr_Placements resp" sw1] up sv(2) by simp
  moreover have "ns_inv (sv_namespace s1)"
    by (rule put_success [OF assms(1) sv(1) m(2)]) (use ns.create_ok assms(1) in blast)
  ultimately show ?thesis by simp
qed

lemma delete_gone:
  assumes "ns_inv (sv_namespace s)" "plain path" "sv_DeleteFile it path s = (s', Some resp)" "dfr_Success resp"
  shows "\<exists>g. sv_GetFile path s' = Some g \<and> \<not> gfr_Success g"
proof -
  obtain ns r where d: "ns_DeleteFile (sv_namespace s) path = (ns, r)" by force
  then obtain fo where Inr: "r = Inr fo"
    using assms(3,4) by (cases r) (auto simp: sv_DeleteFile_def)
  have "sv_namespace s' = ns"
    using assms(3) d Inr by (auto simp: sv_DeleteFile_def split: option.splits)
  moreover obtain e where "ns_GetFile ns path = Inl e"
    using ns.get_remove(1) [OF d [unfolded Inr] assms(1), of path] plain_target [OF assms(2)] by auto
  ultimately show ?thesis by (simp add: sv_GetFile_def)
qed

section \<open>A small system\<close>

text \<open>Three data nodes with empty disks; SHA-256 is replaced by a function that is easy to compute.\<close>

definition pad_sha :: "bytes \<Rightarrow> bytes" where
  "pad_sha x = rev x @ ''00000000''"

definition demo_nodes :: World where
  "demo_nodes = \<lparr>w_nodes = [(''a:1'', demo_data_node ''a:1''), (''b:1'', demo_data_node ''b:1''), (''c:1'', demo_data_node ''c:1'')], w_calls = 0\<rparr>"

lemma pad_sha_long: "6 \<le> length (pad_sha x)" "8 \<le> length (pad_sha x)"
  by (simp_all add: pad_sha_def)

lemma demo_nodes_inv: "net_inv demo_nodes"
  by (auto simp: net_inv_def demo_nodes_def demo_data_node_def cs_inv_new split: if_splits)

lemma demo_sv0_inv: "ns_inv (sv_namespace demo_sv0)" "cm_inv (sv_chunkMgr demo_sv0)"
  using sv_inv_reachable [of pad_sha "{}", OF _ demo_sv0_reachable] by (simp_all add: sv_inv_def)

text \<open>A file of three bytes and the request that puts it.\<close>

definition demo_request :: PutFileRequest where
  "demo_request = \<lparr>pf_Path = ''/f'', pf_FileSize = 3, pf_ChunkCount = 1, pf_Checksum = fmt_x (pad_sha ''abc'')\<rparr>"

lemma demo_read: "readAndChunkFile pad_sha demo_lf ''/x'' = Inr ([''abc''], 3, fmt_x (pad_sha ''abc''))"
proof -
  have "read_loop (nat ChunkSize) (\<lambda>_. Inr (nat ChunkSize)) ''abc'' 0 [] = Inr [''abc'']"
    by (subst read_loop.simps, simp add: ChunkSize_def, subst read_loop.simps, simp)
  then show ?thesis by (simp add: readAndChunkFile_def demo_lf_def int64_id)
qed

definition demo_K1 :: "bytes set" where
  "demo_K1 = {chunk_key ''/f'' 0}"

lemma demo_K1_inj: "inj_on (\<lambda>x. take 8 (pad_sha x)) demo_K1"
  by (simp add: demo_K1_def)

end
