(* ===== verification/Cluster.thy ===== *)
theory Cluster
  imports System
begin

text \<open>
  The life of a cluster: clients put, get and delete files, nodes register and report, the server runs
  its background loops and migrates chunks, in any order. A ghost map remembers what was put
  successfully; the invariant says that every node listed for a chunk of such a file holds its data.
\<close>

section \<open>What the operations do to the replicas\<close>

text \<open>
  Operations that leave alone which node lists which chunk and where a node is found. They may add nodes.
\<close>

definition quiet :: "ChunkManager \<Rightarrow> ChunkManager \<Rightarrow> bool" where
  "quiet cm cm' \<longleftrightarrow> map_of (cm_chunks cm') = map_of (cm_chunks cm) \<and> holdings cm' = holdings cm \<and>
     (\<forall>n. addr_of cm n \<noteq> None \<longrightarrow> addr_of cm' n = addr_of cm n)"

lemma quiet_refl [simp]: "quiet cm cm"
  by (simp add: quiet_def)

lemma quiet_trans: "quiet a b \<Longrightarrow> quiet b c \<Longrightarrow> quiet a c"
  by (simp add: quiet_def)

lemma quiet_upd:
  assumes "\<And>n. dni_Address (f n) = dni_Address n" "\<And>n. dni_Chunks (f n) = dni_Chunks n"
  shows "quiet cm (upd_node p f cm)"
  using assms by (auto simp: quiet_def cm_simps fun_eq_iff holdings_def split: option.splits)

lemma quiet_replicas: "quiet cm cm' \<Longrightarrow> replicas cm' = replicas cm"
  by (auto simp: quiet_def replicas_def fun_eq_iff)

lemma quiet_exact: "quiet cm cm' \<Longrightarrow> cm_exact cm' \<longleftrightarrow> cm_exact cm"
  using quiet_replicas [of cm cm'] by (simp add: quiet_def cm_exact_def)

lemma quiet_register:
  assumes "cm_inv cm"
  shows "quiet cm (fst (cm_RegisterNode it now address capacity cm))"
proof (cases "find (\<lambda>(k, n). dni_Address n = address) (gm_range it (cm_nodes cm))")
  case (Some x)
  then show ?thesis by (cases x) (simp add: cm_RegisterNode_def quiet_upd)
next
  case None
  have "map_of (cm_nodes cm) (node_name (length (cm_nodes cm) + 1)) = None"
    using inv_fresh [OF assms] by (simp add: map_of_eq_None_iff)
  then show ?thesis using None
    by (auto simp: cm_RegisterNode_def Let_def quiet_def holdings_def addr_of_def fun_eq_iff)
qed

lemma quiet_heartbeat: "quiet cm (fst (cm_UpdateHeartbeat now n u k cm))"
  by (auto simp: cm_UpdateHeartbeat_def Let_def split: option.splits intro!: quiet_upd)

lemma quiet_health: "quiet cm (cm_UpdateNodeHealth n st r cm)"
  by (auto simp: cm_UpdateNodeHealth_def split: option.splits intro!: quiet_upd)

lemma quiet_predict:
  "quiet cm (fold (\<lambda>r. cm_UpdateNodeHealth (pr_NodeID r) (pr_Status r) (pr_OverallRisk r)) rs cm)"
  by (induction rs arbitrary: cm) (auto intro: quiet_trans quiet_health)

lemma quiet_dead: "quiet cm (fst (cm_CheckDeadNodes it now cm))"
proof -
  have "quiet cm (fst (dead_loop now ks cm))" for ks
  proof (induction now ks cm rule: dead_loop.induct)
    case (2 now k ks cm)
    have "quiet cm (upd_node k (\<lambda>n. n\<lparr>dni_Status := StatusDead\<rparr>) cm)" by (rule quiet_upd) simp_all
    then show ?case using 2 by (auto split: option.splits prod.splits intro: quiet_trans)
  qed simp
  then show ?thesis by (simp add: cm_CheckDeadNodes_def)
qed

lemma server_quiet:
  "cm_inv (sv_chunkMgr s) \<Longrightarrow> quiet (sv_chunkMgr s) (sv_chunkMgr (fst (sv_RegisterNode it now address capacity s)))"
  "quiet (sv_chunkMgr s) (sv_chunkMgr (fst (sv_Heartbeat now hb s)))"
  "quiet (sv_chunkMgr s) (sv_chunkMgr (fst (sv_ReportHealth metrics s)))"
  "quiet (sv_chunkMgr s) (sv_chunkMgr (deadNodeChecker_tick it now s))"
  "quiet (sv_chunkMgr s) (sv_chunkMgr (fst (predictionLoop_tick it now s)))"
  by (simp_all add: server_views quiet_register quiet_heartbeat quiet_dead quiet_predict)

text \<open>Chunk IDs that no node lists: those of a path that is new, or whose chunks were removed.\<close>

definition fresh_ids :: "ChunkManager \<Rightarrow> string list \<Rightarrow> bool" where
  "fresh_ids cm cs \<longleftrightarrow> (\<forall>n. holdings cm n \<inter> set cs = {})"

lemma alloc_chunk_holdings:
  assumes "alloc_chunk srt sha H r path fileSize i cm = (cm', p)"
  shows "holdings cm' n \<subseteq> holdings cm n \<union> {pl_ChunkID p}"
    and "c \<noteq> pl_ChunkID p \<Longrightarrow> c \<in> holdings cm' n \<longleftrightarrow> c \<in> holdings cm n"
    and "cm_inv cm \<Longrightarrow> set H \<subseteq> gm_keys (cm_nodes cm) \<Longrightarrow> pl_ChunkID p \<in> holdings cm' n \<Longrightarrow>
      pl_ChunkID p \<in> holdings cm n \<or> n \<in> set (pl_NodeIDs p)"
    and "addr_of cm' = addr_of cm" "pl_ChunkID p = GenerateChunkID sha path (int i)"
proof -
  define c where "c = GenerateChunkID sha path (int i)"
  define T where "T = cm_selectNodes srt cm H r c"
  let ?cm1 = "fold (\<lambda>p. upd_node p (add_chunk_entry c)) T cm"
  have cm': "\<exists>C. cm' = ?cm1\<lparr>cm_chunks := C\<rparr>" and p: "pl_ChunkID p = c" "pl_NodeIDs p = map (\<lambda>p. dni_NodeID (deref cm p)) T"
    using assms by (auto simp: alloc_chunk_def Let_def c_def [symmetric] T_def [symmetric] add_chunk_entry_def [abs_def])
  have h: "holdings (fold (\<lambda>p. upd_node p (add_chunk_entry c)) ts cm) n =
      holdings cm n \<union> (if n \<in> set ts \<and> map_of (cm_nodes cm) n \<noteq> None then {c} else {})" for ts cm
    by (induction ts arbitrary: cm) (auto simp: cm_simps holdings_def split: option.splits)
  have a: "addr_of (fold (\<lambda>p. upd_node p (add_chunk_entry c)) ts cm) = addr_of cm" for ts cm
    by (induction ts arbitrary: cm) simp_all
  have hold: "holdings cm' n = holdings cm n \<union> (if n \<in> set T \<and> map_of (cm_nodes cm) n \<noteq> None then {c} else {})"
    using cm' h [of T cm] by (auto simp: cm_simps)
  then show "holdings cm' n \<subseteq> holdings cm n \<union> {pl_ChunkID p}" using p by auto
  show "d \<in> holdings cm' n \<longleftrightarrow> d \<in> holdings cm n" if "d \<noteq> pl_ChunkID p" for d using that hold p by auto
  show "pl_ChunkID p \<in> holdings cm n \<or> n \<in> set (pl_NodeIDs p)"
    if q: "cm_inv cm" "set H \<subseteq> gm_keys (cm_nodes cm)" "pl_ChunkID p \<in> holdings cm' n"
  proof (cases "c \<in> holdings cm n")
    case False
    then obtain m where m: "n \<in> set T" "map_of (cm_nodes cm) n = Some m"
      using q(3) hold p(1) by (auto split: if_splits)
    then have "dni_NodeID (deref cm n) = n" using inv_node_id [OF q(1)] by (simp add: deref_def)
    then show ?thesis using m(1) p(2) by (metis image_eqI list.set_map)
  qed (simp add: p)
  show "addr_of cm' = addr_of cm" using cm' a [of T cm] by (auto simp: addr_of_def fun_eq_iff)
  show "pl_ChunkID p = GenerateChunkID sha path (int i)" by (simp add: p c_def)
qed

lemma alloc_loop_exact:
  assumes "cm_inv cm" "sort_slice srt" "distinct H" "set H \<subseteq> gm_keys (cm_nodes cm)" "r \<le> length H"
    and "alloc_loop srt sha H (int r) path fileSize is cm = (cm', ps)"
    and "cm_exact cm" "distinct (map (\<lambda>i. GenerateChunkID sha path (int i)) is)"
    and "fresh_ids cm (map (\<lambda>i. GenerateChunkID sha path (int i)) is)"
  shows "cm_exact cm' \<and> addr_of cm' = addr_of cm \<and>
    (\<forall>n. holdings cm' n \<subseteq> holdings cm n \<union> (\<lambda>i. GenerateChunkID sha path (int i)) ` set is)"
  using assms
proof (induction "is" arbitrary: cm cm' ps)
  case (Cons i "is")
  let ?c = "GenerateChunkID sha path (int i)"
  obtain cm1 p where p: "alloc_chunk srt sha H (int r) path fileSize i cm = (cm1, p)" by force
  obtain ps' where ps: "alloc_loop srt sha H (int r) path fileSize is cm1 = (cm', ps')"
    using Cons.prems(6) p by (auto split: prod.splits)
  note step = alloc_chunk_step [OF Cons.prems(1-5) p]
  note hold = alloc_chunk_holdings [OF p]
  have keys: "gm_keys (cm_nodes cm1) = gm_keys (cm_nodes cm)"
    using arg_cong [OF step(2), of "\<lambda>xs. set (map fst xs)"]
    by (simp add: node_cores_def image_image case_prod_beta)
  have H1: "set H \<subseteq> gm_keys (cm_nodes cm1)" using Cons.prems(4) keys by simp
  have fr: "?c \<notin> holdings cm n" for n using Cons.prems(9) by (auto simp: fresh_ids_def)
  have ex: "cm_exact cm1"
    unfolding cm_exact_def
  proof (intro allI ballI)
    fix n d assume d: "d \<in> holdings cm1 n"
    show "n \<in> set (replicas cm1 d)"
    proof (cases "d = ?c")
      case True
      then have "n \<in> set (pl_NodeIDs p)" using hold(3) [OF Cons.prems(1,4)] d fr by (auto simp: hold(5))
      then show ?thesis using True by (simp add: replicas_def step(4) placement_meta_def hold(5))
    next
      case False
      then have "n \<in> set (replicas cm d)" using hold(2) d Cons.prems(7) by (auto simp: cm_exact_def hold(5))
      then show ?thesis using False by (simp add: replicas_def step(4) hold(5))
    qed
  qed
  have "d \<notin> holdings cm1 n" if "d \<in> set (map (\<lambda>i. GenerateChunkID sha path (int i)) is)" for d n
  proof -
    have "d \<noteq> ?c" using that Cons.prems(8) by (metis distinct.simps(2) list.simps(9))
    moreover have "d \<notin> holdings cm n" using that Cons.prems(9) by (auto simp: fresh_ids_def)
    ultimately show ?thesis using hold(2) by (simp add: hold(5))
  qed
  then have fr1: "fresh_ids cm1 (map (\<lambda>i. GenerateChunkID sha path (int i)) is)" by (auto simp: fresh_ids_def)
  have d1: "distinct (map (\<lambda>i. GenerateChunkID sha path (int i)) is)" using Cons.prems(8) by simp
  have IH: "cm_exact cm' \<and> addr_of cm' = addr_of cm1 \<and>
    (\<forall>n. holdings cm' n \<subseteq> holdings cm1 n \<union> (\<lambda>i. GenerateChunkID sha path (int i)) ` set is)"
    by (rule Cons.IH [OF step(1) Cons.prems(2,3) H1 Cons.prems(5) ps ex d1 fr1])
  have "holdings cm' n \<subseteq> holdings cm n \<union> (\<lambda>i. GenerateChunkID sha path (int i)) ` set (i # is)" for n
  proof -
    have "holdings cm1 n \<subseteq> holdings cm n \<union> {?c}" using hold(1) [of n] by (simp add: hold(5))
    moreover have "holdings cm' n \<subseteq> holdings cm1 n \<union> (\<lambda>i. GenerateChunkID sha path (int i)) ` set is" using IH by blast
    ultimately show ?thesis by auto
  qed
  then show ?case using IH hold(4) by simp
qed simp

lemma allocate_exact:
  assumes "cm_inv cm" "perm_iter it" "sort_slice srt" "cm_exact cm"
    and "cm_AllocateChunks it srt sha now path cnt sz cm = (cm', r)"
    and "distinct (chunk_ids sha path cnt)" "fresh_ids cm (chunk_ids sha path cnt)"
  shows "cm_exact cm' \<and> addr_of cm' = addr_of cm \<and> (\<forall>n. holdings cm' n \<subseteq> holdings cm n \<union> set (chunk_ids sha path cnt))"
proof (cases "cm_healthyNodes it now cm = [] \<or> cnt < 0")
  case True
  then show ?thesis using assms(4,5) by (auto simp: cm_AllocateChunks_def Let_def split: if_splits)
next
  case False
  let ?H = "cm_healthyNodes it now cm"
  have H: "?H \<noteq> []" "0 \<le> cnt" using False by simp_all
  obtain ps where l: "alloc_loop srt sha ?H (int (alloc_repl ?H)) path sz [0..<nat cnt] cm = (cm', ps)"
    using assms(5) unfolding AllocateChunks_eq [OF refl H] by (auto split: prod.splits)
  have sub: "set ?H \<subseteq> gm_keys (cm_nodes cm)"
    unfolding healthyNodes_set(1) [OF assms(1,2)] by (auto dest: map_of_Some_key)
  have le: "alloc_repl ?H \<le> length ?H" by (simp add: alloc_repl_def)
  show ?thesis
    using alloc_loop_exact [OF assms(1,3) healthyNodes_set(2) [OF assms(1,2)] sub le l assms(4)] assms(6,7)
    by (simp add: chunk_ids_def)
qed

section \<open>Chunks that are safe\<close>

definition chunk_index :: "ChunkManager \<Rightarrow> string \<Rightarrow> int option" where
  "chunk_index cm c = map_option ck_ChunkIndex (map_of (cm_chunks cm) c)"

text \<open>Chunk \<open>c\<close> has \<open>r\<close> replicas, and the node at the address of each holds \<open>data\<close>.\<close>

definition chunk_good ::
  "(bytes \<Rightarrow> bytes) \<Rightarrow> ChunkManager \<Rightarrow> World \<Rightarrow> string \<Rightarrow> nat \<Rightarrow> nat \<Rightarrow> bytes \<Rightarrow> bool" where
  "chunk_good sha cm w c i r data \<longleftrightarrow>
     chunk_index cm c = Some (int i) \<and> length (replicas cm c) = r \<and>
     (\<forall>n\<in>set (replicas cm c). \<forall>a. addr_of cm n = Some a \<longrightarrow> net_holds sha w a c = Some data)"

text \<open>What the nodes list are chunk IDs, not paths.\<close>

definition ids_plain :: "ChunkManager \<Rightarrow> bool" where
  "ids_plain cm \<longleftrightarrow> (\<forall>n. \<forall>c\<in>holdings cm n. no_slash c)"

lemma replica_registered:
  assumes "cm_inv cm" "n \<in> set (replicas cm c)"
  shows "addr_of cm n \<noteq> None" "c \<in> holdings cm n"
proof -
  show "c \<in> holdings cm n" using inv_parts(6) [OF assms] .
  then show "addr_of cm n \<noteq> None" by (auto simp: holdings_def addr_of_def split: option.splits)
qed

lemma replica_known: "n \<in> set (replicas cm c) \<Longrightarrow> cm_known cm c"
  by (cases "map_of (cm_chunks cm) c") (simp_all add: cm_known_def replicas_def)

lemma addr_of_inj: "cm_inv cm \<Longrightarrow> addr_of cm n = Some a \<Longrightarrow> addr_of cm m = Some a \<Longrightarrow> n = m"
  using inv_address_unique [of cm n _ m] by (auto simp: addr_of_def)

lemma ad_addr: "ad_GetNodeAddress = addr_of"
  by (auto simp: fun_eq_iff ad_GetNodeAddress_def cm_GetNode_def addr_of_def split: option.splits)

lemma addr_add_remove:
  "addr_of (cm_AddChunkToNode c n cm) = addr_of cm" "addr_of (cm_RemoveChunkFromNode c n cm) = addr_of cm"
  using address_add_remove unfolding ad_addr by simp_all

text \<open>A chunk stays safe when its entry, its nodes' addresses and their data stay.\<close>

lemma chunk_good_frame:
  assumes "cm_inv cm" "chunk_good sha cm w c i r data" "map_of (cm_chunks cm') c = map_of (cm_chunks cm) c"
    and "\<And>n. addr_of cm n \<noteq> None \<Longrightarrow> addr_of cm' n = addr_of cm n"
    and "\<And>a. net_holds sha w' a c = net_holds sha w a c"
  shows "chunk_good sha cm' w' c i r data"
proof -
  have "replicas cm' c = replicas cm c" "chunk_index cm' c = chunk_index cm c"
    using assms(3) by (simp_all add: replicas_def chunk_index_def)
  then show ?thesis
    using assms(2,4,5) replica_registered(1) [OF assms(1)] by (simp add: chunk_good_def)
qed

lemma quiet_good:
  "cm_inv cm \<Longrightarrow> quiet cm cm' \<Longrightarrow> chunk_good sha cm w c i r data \<Longrightarrow> chunk_good sha cm' w c i r data"
  by (rule chunk_good_frame [of cm]) (simp_all add: quiet_def)

lemma quiet_plain: "quiet cm cm' \<Longrightarrow> ids_plain cm' \<longleftrightarrow> ids_plain cm"
  by (simp add: quiet_def ids_plain_def)

section \<open>Migration keeps them safe\<close>

lemma add_remove_views:
  assumes "cm' = cl_RemoveChunkFromNode (ChunkManagerAdapter it) c n (cl_AddChunkToNode (ChunkManagerAdapter it) c t cm)"
  shows "addr_of cm' = addr_of cm" "chunk_index cm' = chunk_index cm" "chunk_path cm' = chunk_path cm"
proof -
  have cm': "cm' = cm_RemoveChunkFromNode c n (cm_AddChunkToNode c t cm)"
    using assms by (simp add: ChunkManagerAdapter_def ad_AddChunkToNode_def ad_RemoveChunkFromNode_def)
  show "addr_of cm' = addr_of cm" using address_add_remove unfolding cm' ad_addr by simp
  show "chunk_path cm' = chunk_path cm" unfolding cm' by simp
  show "chunk_index cm' = chunk_index cm" unfolding cm' AddChunkToNode_eq RemoveChunkFromNode_eq
    by (auto simp: chunk_index_def fun_eq_iff cm_simps option.map_comp comp_def if_distrib intro!: map_option_cong)
qed

definition mig_ok :: "ChunkManager \<Rightarrow> World \<Rightarrow> bool" where
  "mig_ok cm w \<longleftrightarrow> cm_inv cm \<and> cm_exact cm \<and> ids_plain cm \<and> net_inv w"

text \<open>A transfer to a node outside the replicas harms no chunk; a completed move replaces a replica by a node with the data.\<close>

lemma transfer_good:
  assumes inv: "cm_inv cm" "net_inv w" "no_slash c"
    and tr: "net_TransferChunk env sha src c tgt w = (w', a)" "t \<notin> set (replicas cm c)" "addr_of cm t = Some tgt"
    and g: "chunk_good sha cm w d i r data"
  shows "chunk_good sha cm w' d i r data"
proof -
  have "net_holds sha w' b d = net_holds sha w b d" if "k \<in> set (replicas cm d)" "addr_of cm k = Some b" for k b
  proof -
    have "(b, d) \<noteq> (tgt, c)" using that tr(2,3) addr_of_inj [OF inv(1)] by auto
    then show ?thesis using net_transfer [OF inv(2,3) tr(1)] by blast
  qed
  then show ?thesis using g by (simp add: chunk_good_def)
qed

lemma moved_good:
  assumes inv: "cm_inv cm" "cm_exact cm" "net_inv w" "no_slash c" "perm_iter it"
    and n: "c \<in> holdings cm n" "addr_of cm n = Some src"
    and t: "t \<notin> set (replicas cm c)" "addr_of cm t = Some tgt"
    and tr: "net_TransferChunk env sha src c tgt w = (w', Inr (True, msg))"
    and cm': "cm' = cl_RemoveChunkFromNode (ChunkManagerAdapter it) c n (cl_AddChunkToNode (ChunkManagerAdapter it) c t cm)"
    and g: "chunk_good sha cm w d i r data"
  shows "chunk_good sha cm' w' d i r data"
proof -
  note loc = adapter_contract [OF inv(5)]
  note g' = transfer_good [OF inv(1,3,4) tr t g]
  have n': "n \<in> set (replicas cm c)" using inv(2) n(1) by (auto simp: cm_exact_def)
  then have known: "cm_known cm c" and ne: "t \<noteq> n" using t(1) replica_known by auto
  have reg: "cm_registered cm t" using t(2) by (auto simp: addr_of_def cm_registered_def split: option.splits)
  have reps: "replicas cm' e = (if e = c then remove1 n (replicas cm c) @ [t] else replicas cm e)" for e
    by (rule chunk_locator.moved_facts(3) [OF loc inv(1) known t(1) reg ne cm'])
  note views = add_remove_views [OF cm']
  show ?thesis
  proof (cases "d = c")
    case False
    then show ?thesis using g' by (simp add: chunk_good_def reps views)
  next
    case True
    obtain x where x: "net_holds sha w src c = Some x" "net_holds sha w' tgt c = Some x"
      using net_transfer [OF inv(3,4) tr] by blast
    have "x = data" using x(1) g n' n(2) True by (auto simp: chunk_good_def)
    moreover have "length (remove1 n (replicas cm c) @ [t]) = length (replicas cm c)" using length_remove1_in [OF n'] by simp
    ultimately show ?thesis
      using g' x(2) t(2) True set_remove1_subset [of n "replicas cm c"] by (auto simp: chunk_good_def reps views)
  qed
qed

lemma migrateChunk_good:
  assumes "mig_ok cm w" "perm_iter it" "c \<in> holdings cm n" "addr_of cm n = Some src"
    and m: "migrateChunk (ChunkManagerAdapter it) dial (net_TransferChunk env sha) clock c n src cm w = (cm', w', ev)"
  shows "mig_ok cm' w'" "addr_of cm' = addr_of cm" "chunk_path cm' = chunk_path cm"
    and "holdings cm' n = (if me_Success ev then holdings cm n - {c} else holdings cm n)"
    and "chunk_good sha cm w d i r data \<Longrightarrow> chunk_good sha cm' w' d i r data"
proof -
  let ?L = "ChunkManagerAdapter it"
  note loc = adapter_contract [OF assms(2)]
  have inv: "cm_inv cm" "cm_exact cm" "ids_plain cm" "net_inv w" using assms(1) by (simp_all add: mig_ok_def)
  note st = chunk_locator.migrate_step [OF loc inv(1) _ assms(3) m, unfolded exact_iff [OF assms(2)], OF inv(2)]
  have ns: "no_slash c" using inv(3) assms(3) by (auto simp: ids_plain_def)
  have out: "(cm' = cm \<and> w' = w) \<or> (\<exists>ex t ts a. cl_GetChunkMeta ?L cm c = Some ex \<and>
      cl_GetHealthyNodeAddresses ?L cm ex = t # ts \<and> net_TransferChunk env sha src c (nt_Address t) w = (w', a) \<and>
      (cm' = cm \<or> (\<exists>msg. a = Inr (True, msg)) \<and> cm' = cl_RemoveChunkFromNode ?L c n (cl_AddChunkToNode ?L c (nt_NodeID t) cm)))"
    using migrate_outcome [OF m] by blast
  show "holdings cm' n = (if me_Success ev then holdings cm n - {c} else holdings cm n)" by (rule st(6))
  show "addr_of cm' = addr_of cm" and "chunk_path cm' = chunk_path cm"
    using out add_remove_views by metis+
  have "no_slash d" if "d \<in> holdings cm' k" for k d
  proof (cases "d = c")
    case False
    have "k \<in> set (replicas cm' d)" using st(2) that by (auto simp: cm_exact_def)
    then have "d \<in> holdings cm k" using st(5) [OF False] replica_registered(2) [OF inv(1)] by simp
    then show ?thesis using inv(3) by (auto simp: ids_plain_def)
  qed (simp add: ns)
  then have "ids_plain cm'" by (simp add: ids_plain_def)
  moreover have "net_inv w'" using out net_transfer [OF inv(4) ns] inv(4) by blast
  ultimately show "mig_ok cm' w'" using st(1,2) by (simp add: mig_ok_def)
  assume g: "chunk_good sha cm w d i r data"
  from out show "chunk_good sha cm' w' d i r data"
  proof
    assume "\<exists>ex t ts a. cl_GetChunkMeta ?L cm c = Some ex \<and>
      cl_GetHealthyNodeAddresses ?L cm ex = t # ts \<and> net_TransferChunk env sha src c (nt_Address t) w = (w', a) \<and>
      (cm' = cm \<or> (\<exists>msg. a = Inr (True, msg)) \<and> cm' = cl_RemoveChunkFromNode ?L c n (cl_AddChunkToNode ?L c (nt_NodeID t) cm))"
    then obtain ex t ts a where t: "cl_GetChunkMeta ?L cm c = Some ex" "cl_GetHealthyNodeAddresses ?L cm ex = t # ts"
      and tr: "net_TransferChunk env sha src c (nt_Address t) w = (w', a)"
      and cm': "cm' = cm \<or> (\<exists>msg. a = Inr (True, msg)) \<and> cm' = cl_RemoveChunkFromNode ?L c n (cl_AddChunkToNode ?L c (nt_NodeID t) cm)"
      by blast
    have "ex = replicas cm c" using chunk_locator.meta [OF loc inv(1), of c] t(1) by (auto split: if_splits)
    then have tt: "nt_NodeID t \<notin> set (replicas cm c)" "addr_of cm (nt_NodeID t) = Some (nt_Address t)"
      using chunk_locator.targets [OF loc inv(1), of t ex] t(2) by (auto simp: ChunkManagerAdapter_def ad_addr)
    show ?thesis
      using cm' transfer_good [OF inv(1,4) ns tr tt g] moved_good [OF inv(1,2,4) ns assms(2-4) tt _ _ g] tr by blast
  qed (use g in simp)
qed

lemma migrate_loop_good:
  assumes "mig_ok cm w" "perm_iter it" "distinct cs" "set cs \<subseteq> holdings cm n" "addr_of cm n = Some src"
    and "migrate_loop (ChunkManagerAdapter it) dial (net_TransferChunk env sha) clock n src cs cm w rep = (cm', w', rep')"
  shows "mig_ok cm' w' \<and> addr_of cm' = addr_of cm \<and> chunk_path cm' = chunk_path cm \<and>
    (\<forall>d i r data. chunk_good sha cm w d i r data \<longrightarrow> chunk_good sha cm' w' d i r data)"
  using assms
proof (induction cs arbitrary: cm w rep)
  case (Cons c cs)
  obtain cm1 w1 ev where m: "migrateChunk (ChunkManagerAdapter it) dial (net_TransferChunk env sha) clock c n src cm w = (cm1, w1, ev)"
    by (metis prod_cases3)
  obtain rep1 where l: "migrate_loop (ChunkManagerAdapter it) dial (net_TransferChunk env sha) clock n src cs cm1 w1 rep1 = (cm', w', rep')"
    using Cons.prems(6) m by (auto simp: Let_def)
  have c: "c \<in> holdings cm n" using Cons.prems(4) by simp
  note st = migrateChunk_good [OF Cons.prems(1,2) c Cons.prems(5) m]
  have sub: "set cs \<subseteq> holdings cm1 n" using Cons.prems(3,4) unfolding st(4) by auto
  have d: "distinct cs" and a: "addr_of cm1 n = Some src" using Cons.prems(3,5) st(2) by simp_all
  have "mig_ok cm' w' \<and> addr_of cm' = addr_of cm1 \<and> chunk_path cm' = chunk_path cm1 \<and>
    (\<forall>d i r data. chunk_good sha cm1 w1 d i r data \<longrightarrow> chunk_good sha cm' w' d i r data)"
    by (rule Cons.IH [OF st(1) Cons.prems(2) d sub a l])
  then show ?case using st(2,3,5) by metis
qed simp

text \<open>The goroutine that the prediction loop starts for a node.\<close>

lemma sv_migrate_good:
  assumes "mig_ok (sv_chunkMgr s) w" "perm_iter it" "sv_migrate it dial (net_TransferChunk env sha) clock p s w = (s', w')"
  shows "mig_ok (sv_chunkMgr s') w'" "chunk_path (sv_chunkMgr s') = chunk_path (sv_chunkMgr s)"
    and "sv_namespace s' = sv_namespace s"
    and "chunk_good sha (sv_chunkMgr s) w d i r data \<Longrightarrow> chunk_good sha (sv_chunkMgr s') w' d i r data"
proof -
  let ?L = "ChunkManagerAdapter it" and ?cm = "sv_chunkMgr s" and ?n = "pr_NodeID p"
  have cs: "distinct (cl_GetChunksOnNode ?L ?cm ?n) \<and> set (cl_GetChunksOnNode ?L ?cm ?n) = holdings ?cm ?n"
    using chunk_locator.on_node [OF adapter_contract [OF assms(2)]] assms(1) by (simp add: mig_ok_def)
  show ns: "sv_namespace s' = sv_namespace s" using assms(3) by (auto simp: sv_migrate_def split: prod.splits)
  have "(sv_chunkMgr s' = ?cm \<and> w' = w) \<or> (\<exists>src cs rep rep'. addr_of ?cm ?n = Some src \<and> cs = cl_GetChunksOnNode ?L ?cm ?n \<and>
      migrate_loop ?L dial (net_TransferChunk env sha) clock ?n src cs ?cm w rep = (sv_chunkMgr s', w', rep'))"
  proof -
    obtain m cm1 w1 res where M: "MigrateNode ?L dial (net_TransferChunk env sha) clock p (sv_migrator s) ?cm w = (m, cm1, w1, res)"
      by (metis prod_cases4)
    have s': "sv_chunkMgr s' = cm1" "w' = w1" using assms(3) M by (auto simp: sv_migrate_def)
    have "cl_GetNodeAddress ?L = addr_of" by (simp add: ChunkManagerAdapter_def ad_addr)
    then show ?thesis using M unfolding s'
      by (fastforce simp: MigrateNode_def mig_body_def Let_def split: prod.splits bool.splits option.splits if_splits)
  qed
  then have all: "mig_ok (sv_chunkMgr s') w' \<and> chunk_path (sv_chunkMgr s') = chunk_path ?cm \<and>
      (\<forall>d i r data. chunk_good sha ?cm w d i r data \<longrightarrow> chunk_good sha (sv_chunkMgr s') w' d i r data)"
    using migrate_loop_good [OF assms(1,2)] cs assms(1) by (metis order_refl)
  show "mig_ok (sv_chunkMgr s') w'" "chunk_path (sv_chunkMgr s') = chunk_path ?cm"
    and "chunk_good sha ?cm w d i r data \<Longrightarrow> chunk_good sha (sv_chunkMgr s') w' d i r data" using all by auto
qed

section \<open>Putting a new file\<close>

lemma put_chunkMgr:
  "sv_chunkMgr (fst (sv_PutFile it srt sha now req s)) =
     fst (cm_AllocateChunks it srt sha now (pf_Path req) (pf_ChunkCount req) (pf_FileSize req) (sv_chunkMgr s))"
  by (auto simp: sv_PutFile_def Let_def split: prod.splits outcome.splits sum.splits)

lemma allocate_frame:
  assumes "cm_inv cm" "perm_iter it" "sort_slice srt"
    and "cm_AllocateChunks it srt sha now path cnt sz cm = (cm', r)" "c \<notin> set (chunk_ids sha path cnt)"
  shows "map_of (cm_chunks cm') c = map_of (cm_chunks cm) c"
proof (cases "cm_healthyNodes it now cm = [] \<or> cnt < 0")
  case True
  then show ?thesis using assms(4) by (auto simp: cm_AllocateChunks_def Let_def split: if_splits)
next
  case False
  then have H: "cm_healthyNodes it now cm \<noteq> []" "0 \<le> cnt" by simp_all
  from allocate_ok [OF assms(1-3) refl H, where sha = sha and path = path and fileSize = sz] obtain cm1 ps where
    a: "cm_AllocateChunks it srt sha now path cnt sz cm = (cm1, Ok ps)"
    and pl: "list_all2 (placement_ok cm (cm_healthyNodes it now cm) (alloc_repl (cm_healthyNodes it now cm)) sha path) [0..<nat cnt] ps"
    and M: "map_of (cm_chunks cm1) = map_of (cm_chunks cm) ++
      map_of (rev (map (\<lambda>p. (pl_ChunkID p, placement_meta path sz p)) ps))" by blast
  have "map_of (rev (map (\<lambda>p. (pl_ChunkID p, placement_meta path sz p)) ps)) c = None"
  proof -
    have "set (map pl_ChunkID ps) = set (chunk_ids sha path cnt)" by (simp only: placed_ids [OF pl] chunk_ids_def)
    then show ?thesis using assms(5) by (simp add: map_of_eq_None_iff image_image)
  qed
  then show ?thesis using a M assms(4) by (simp add: map_add_def)
qed

text \<open>The metadata of a put of new chunks keeps all there was.\<close>

lemma put_meta_keeps:
  assumes "mig_ok (sv_chunkMgr s) w" "perm_iter it" "sort_slice srt" "sv_PutFile it srt sha now req s = (s', ro)"
    and "distinct (chunk_ids sha (pf_Path req) (pf_ChunkCount req))"
    and "fresh_ids (sv_chunkMgr s) (chunk_ids sha (pf_Path req) (pf_ChunkCount req))"
  shows "mig_ok (sv_chunkMgr s') w"
    and "c \<notin> set (chunk_ids sha (pf_Path req) (pf_ChunkCount req)) \<Longrightarrow>
      chunk_good sha (sv_chunkMgr s) w c i r data \<Longrightarrow> chunk_good sha (sv_chunkMgr s') w c i r data"
    and "addr_of (sv_chunkMgr s') = addr_of (sv_chunkMgr s)"
proof -
  let ?cm = "sv_chunkMgr s" and ?cm' = "sv_chunkMgr s'" and ?ids = "chunk_ids sha (pf_Path req) (pf_ChunkCount req)"
  obtain ra where a: "cm_AllocateChunks it srt sha now (pf_Path req) (pf_ChunkCount req) (pf_FileSize req) ?cm = (?cm', ra)"
    using put_chunkMgr [of it srt sha now req s] assms(4) by (metis fst_conv prod.exhaust_sel)
  have inv: "cm_inv ?cm" "cm_exact ?cm" "ids_plain ?cm" using assms(1) by (simp_all add: mig_ok_def)
  have ex: "cm_exact ?cm'" "addr_of ?cm' = addr_of ?cm" "\<And>n. holdings ?cm' n \<subseteq> holdings ?cm n \<union> set ?ids"
    using allocate_exact [OF inv(1) assms(2,3) inv(2) a assms(5,6)] by auto
  have "no_slash c" if "c \<in> set ?ids" for c using that GenerateChunkID_no_slash by (auto simp: chunk_ids_def)
  then have "ids_plain ?cm'" using ex(3) inv(3) unfolding ids_plain_def by blast
  moreover have "cm_inv ?cm'" using inv_allocate [OF inv(1) assms(2,3)] a by (metis fst_conv)
  ultimately show "mig_ok ?cm' w" using ex(1) assms(1) by (simp add: mig_ok_def)
  show "addr_of ?cm' = addr_of ?cm" by (rule ex(2))
  show "chunk_good sha ?cm' w c i r data" if "c \<notin> set ?ids" "chunk_good sha ?cm w c i r data"
    using chunk_good_frame [OF inv(1) that(2) allocate_frame [OF inv(1) assms(2,3) a that(1)], of w] ex(2) by simp
qed
text \<open>A put as a whole: the metadata, then the upload, which touches the new chunks only.\<close>

lemma put_run:
  assumes inv: "ns_inv (sv_namespace s)" "cm_inv (sv_chunkMgr s)" "net_inv w" "perm_iter it" "sort_slice srt"
    and rd: "readAndChunkFile sha lf localPath = Inr (chunks, fsize, ck)" "int (length chunks) < 2 ^ 31"
    and ids: "distinct (chunk_ids sha path (int (length chunks)))"
    and req: "req = \<lparr>pf_Path = path, pf_FileSize = fsize, pf_ChunkCount = int (length chunks), pf_Checksum = ck\<rparr>"
    and put: "cl_PutFile lf dial sha (sys_PutFile it srt sha now) (sys_StoreChunk env sha) sched localPath path (s, w) = (sw', r)"
  obtains s' w' ro where "sw' = (s', w')" "sv_PutFile it srt sha now req s = (s', ro)" "net_inv w'"
    "\<And>b j. j \<notin> set (chunk_ids sha path (int (length chunks))) \<Longrightarrow> net_holds sha w' b j = net_holds sha w b j"
    "r = Some (Ok ()) \<Longrightarrow> \<exists>resp. ro = Some resp \<and> pfr_Success resp \<and>
      (\<forall>k<length chunks. \<forall>a\<in>set (cp_NodeAddresses (pfr_Placements resp ! k)).
         net_holds sha w' a (GenerateChunkID sha path (int k)) = Some (chunks ! k))"
proof -
  let ?ids = "chunk_ids sha path (int (length chunks))"
  have n: "int32 (int (length chunks)) = int (length chunks)" using rd(2) by (intro int32_id) simp
  obtain s1 ro where sv: "sv_PutFile it srt sha now req s = (s1, ro)" by force
  show ?thesis
  proof (cases "\<exists>resp. ro = Some resp \<and> pfr_Success resp")
    case False
    then have "sw' = (s1, w)" "r \<noteq> Some (Ok ())"
      using put rd(1) sv by (auto simp: cl_PutFile_def sys_PutFile_def n req split: option.splits)
    then show ?thesis using that [of s1 w ro] sv inv(3) by simp
  next
    case True
    then obtain resp where ok: "ro = Some resp" "pfr_Success resp" by blast
    let ?ps = "pfr_Placements resp"
    obtain r0 where up: "uploadChunks dial sha (sys_StoreChunk env sha) sched chunks ?ps (s1, w) = (sw', r0)"
      and r0: "r = wrap_err ''upload chunks: '' r0"
      using put rd(1) sv ok by (auto simp: cl_PutFile_def sys_PutFile_def n req split: prod.splits)
    have pids: "map cp_ChunkId ?ps = ?ids" using put_placements(1) [OF inv(1,2,4,5) sv [unfolded ok] ok(2)] by (simp add: req)
    then have len: "length ?ps = length chunks" by (metis chunk_ids_def diff_zero length_map length_upt nat_int)
    have id: "cp_ChunkId (?ps ! k) = GenerateChunkID sha path (int k)" if "k < length chunks" for k
      using arg_cong [OF pids, of "\<lambda>xs. xs ! k"] that len by (simp add: chunk_ids_def)
    have ns: "\<forall>p\<in>set ?ps. no_slash (cp_ChunkId p)"
      using id len GenerateChunkID_no_slash by (auto simp: in_set_conv_nth)
    have dz: "distinct (map (\<lambda>(p, _). cp_ChunkId p) (zip ?ps chunks))"
      using ids by (simp only: zip_ids [OF len [symmetric]] pids)
    have nz: "\<forall>(p, _)\<in>set (zip ?ps chunks). no_slash (cp_ChunkId p)" using ns by (auto dest: set_zip_leftD)
    have w1: "net_inv (snd (s1, w))" using inv(3) by simp
    note us = sys.upload_sound [OF dz nz w1 up]
    have ids': "cp_ChunkId ` set ?ps = set ?ids" using pids by (metis list.set_map)
    have "fst sw' = s1" using sys_upload_fst [of dial sha env sched chunks ?ps "(s1, w)"] up by simp
    then have sw': "sw' = (s1, snd sw')" by (metis prod.collapse)
    have "r = Some (Ok ()) \<Longrightarrow> r0 = Some (Ok ())" using r0 by (auto simp: wrap_err_def split: option.splits outcome.splits)
    then have "net_holds sha (snd sw') a (GenerateChunkID sha path (int k)) = Some (chunks ! k)"
      if q: "r = Some (Ok ())" "k < length chunks" "a \<in> set (cp_NodeAddresses (?ps ! k))" for k a
    proof -
      have z: "(?ps ! k, chunks ! k) \<in> set (zip ?ps chunks)" using q(2) len by (metis length_zip min.idem nth_mem nth_zip)
      have "r0 = Some (Ok ())" using q(1) \<open>r = Some (Ok ()) \<Longrightarrow> r0 = Some (Ok ())\<close> by blast
      then have "\<forall>a\<in>set (cp_NodeAddresses (?ps ! k)). net_holds sha (snd sw') a (cp_ChunkId (?ps ! k)) = Some (chunks ! k)"
        using us z by fastforce
      then show ?thesis using q(3) id [OF q(2)] by simp
    qed
    then show ?thesis using that [of s1 "snd sw'" ro, OF sw' sv] us ids' ok by simp
  qed
qed

section \<open>The cluster as a whole\<close>

text \<open>
  The ghost map gives for the target of each path that was put successfully the chunks of the local
  file and the number of replicas they got.
\<close>

type_synonym stored = "string list \<Rightarrow> (bytes list \<times> nat) option"

inductive cluster_step :: "(bytes \<Rightarrow> bytes) \<Rightarrow> bytes set \<Rightarrow> system \<times> stored \<Rightarrow> system \<times> stored \<Rightarrow> bool" for sha K where
  put: "perm_iter it \<Longrightarrow> sort_slice srt \<Longrightarrow>
    readAndChunkFile sha lf localPath = Inr (chunks, fsize, ck) \<Longrightarrow> int (length chunks) < 2 ^ 31 \<Longrightarrow>
    \<forall>i<length chunks. chunk_key path (int i) \<in> K \<Longrightarrow>
    ns_files (sv_namespace s) (ns_target path) = None \<Longrightarrow>
    fresh_ids (sv_chunkMgr s) (chunk_ids sha path (int (length chunks))) \<Longrightarrow>
    cl_PutFile lf dial sha (sys_PutFile it srt sha now) (sys_StoreChunk env sha) sched localPath path (s, w) = (sw', r) \<Longrightarrow>
    cluster_step sha K ((s, w), good)
      (sw', if r = Some (Ok ()) then good(ns_target path \<mapsto> (chunks, min 3 (length (cm_healthyNodes it now (sv_chunkMgr s)))))
            else good)"
| get: "cl_GetFile fault dial sha sys_GetFile (sys_GetChunk env sha) rsrt sched path target (sw, disk) = ((sw', disk'), r) \<Longrightarrow>
    cluster_step sha K (sw, good) (sw', good)"
| delete: "cl_DeleteFile (sys_DeleteFile it) path (s, w) = (sw', r) \<Longrightarrow>
    cluster_step sha K ((s, w), good) (sw', if r = None then good(ns_target path := None) else good)"
| register: "perm_iter it \<Longrightarrow>
    cluster_step sha K ((s, w), good) ((fst (sv_RegisterNode it now address capacity s), w), good)"
| heartbeat: "cluster_step sha K ((s, w), good) ((fst (sv_Heartbeat now hb s), w), good)"
| report: "cluster_step sha K ((s, w), good) ((fst (sv_ReportHealth metrics s), w), good)"
| dead_check: "cluster_step sha K ((s, w), good) ((deadNodeChecker_tick it now s, w), good)"
| predict: "cluster_step sha K ((s, w), good) ((fst (predictionLoop_tick it now s), w), good)"
| migrate: "perm_iter it \<Longrightarrow> sv_migrate it dial (net_TransferChunk env sha) clock p s w = (s', w') \<Longrightarrow>
    cluster_step sha K ((s, w), good) ((s', w'), good)"
| join: "map_of (w_nodes w) a = None \<Longrightarrow> cs_inv (ds_store (fst n)) \<Longrightarrow>
    cluster_step sha K ((s, w), good) ((s, w\<lparr>w_nodes := AList.update a n (w_nodes w)\<rparr>), good)"
| restart: "restarted sha a w w' \<Longrightarrow> cluster_step sha K ((s, w), good) ((s, w'), good)"

inductive cluster_reachable :: "(bytes \<Rightarrow> bytes) \<Rightarrow> bytes set \<Rightarrow> system \<times> stored \<Rightarrow> bool" for sha K where
  new: "cluster_reachable sha K ((NewServer, \<lparr>w_nodes = [], w_calls = 0\<rparr>), Map.empty)"
| step: "cluster_reachable sha K x \<Longrightarrow> cluster_step sha K x y \<Longrightarrow> cluster_reachable sha K y"

text \<open>Each file in the ghost map is in the namespace, and all its chunks are safe.\<close>

definition file_safe :: "(bytes \<Rightarrow> bytes) \<Rightarrow> Server \<Rightarrow> World \<Rightarrow> string list \<Rightarrow> bytes list \<times> nat \<Rightarrow> bool" where
  "file_safe sha s w ps xr \<longleftrightarrow>
     (case xr of (xs, r) \<Rightarrow> int (length xs) < 2 ^ 31 \<and> (xs \<noteq> [] \<longrightarrow> 0 < r) \<and> r \<le> 3 \<and>
       (\<exists>f. ns_files (sv_namespace s) ps = Some f \<and> fm_ChunkCount f = int (length xs) \<and>
          (\<forall>i<length xs. chunk_good sha (sv_chunkMgr s) w (GenerateChunkID sha (fm_Path f) (int i)) i r (xs ! i))))"

definition cluster_inv :: "(bytes \<Rightarrow> bytes) \<Rightarrow> bytes set \<Rightarrow> system \<times> stored \<Rightarrow> bool" where
  "cluster_inv sha K x \<longleftrightarrow>
     (case x of ((s, w), good) \<Rightarrow> sv_inv sha K s \<and> mig_ok (sv_chunkMgr s) w \<and>
        (\<forall>ps xr. good ps = Some xr \<longrightarrow> file_safe sha s w ps xr))"
section \<open>Every step keeps the invariant\<close>

lemma file_safe_frame:
  assumes "file_safe sha s w ps (xs, r)" "ns_files (sv_namespace s') ps = ns_files (sv_namespace s) ps"
    and "\<And>c i data f. ns_files (sv_namespace s) ps = Some f \<Longrightarrow>
      c \<in> set (chunk_ids sha (fm_Path f) (fm_ChunkCount f)) \<Longrightarrow> 0 < r \<Longrightarrow>
      chunk_good sha (sv_chunkMgr s) w c i r data \<Longrightarrow> chunk_good sha (sv_chunkMgr s') w' c i r data"
  shows "file_safe sha s' w' ps (xs, r)"
proof -
  obtain f where f: "ns_files (sv_namespace s) ps = Some f" "fm_ChunkCount f = int (length xs)"
    and g: "\<And>i. i < length xs \<Longrightarrow> chunk_good sha (sv_chunkMgr s) w (GenerateChunkID sha (fm_Path f) (int i)) i r (xs ! i)"
    using assms(1) by (auto simp: file_safe_def)
  have "chunk_good sha (sv_chunkMgr s') w' (GenerateChunkID sha (fm_Path f) (int i)) i r (xs ! i)" if i: "i < length xs" for i
  proof (rule assms(3) [OF f(1) _ _ g [OF i]])
    show "GenerateChunkID sha (fm_Path f) (int i) \<in> set (chunk_ids sha (fm_Path f) (fm_ChunkCount f))"
      using i by (simp add: chunk_ids_def f(2))
    show "0 < r" using assms(1) i by (auto simp: file_safe_def)
  qed
  then show ?thesis using assms(1,2) f by (auto simp: file_safe_def)
qed

text \<open>Steps of the server that only touch statuses, statistics and the set of nodes.\<close>

lemma inv_quiet:
  assumes "cluster_inv sha K ((s, w), good)" "sv_inv sha K s'" "sv_namespace s' = sv_namespace s"
    and "quiet (sv_chunkMgr s) (sv_chunkMgr s')"
  shows "cluster_inv sha K ((s', w), good)"
proof -
  have cm: "cm_inv (sv_chunkMgr s)" using assms(1) by (simp add: cluster_inv_def mig_ok_def)
  have "mig_ok (sv_chunkMgr s') w"
    using assms(1,2) quiet_exact [OF assms(4)] quiet_plain [OF assms(4)] by (simp add: cluster_inv_def mig_ok_def sv_inv_def)
  moreover have "file_safe sha s' w ps (xs, r)" if "file_safe sha s w ps (xs, r)" for ps xs r
    by (rule file_safe_frame [OF that]) (simp_all add: assms(3) quiet_good [OF cm assms(4)])
  ultimately show ?thesis using assms(1,2) by (auto simp: cluster_inv_def)
qed

text \<open>Steps of the data nodes that lose nothing.\<close>

lemma inv_nodes:
  assumes "cluster_inv sha K ((s, w), good)" "net_inv w'"
    and "\<And>b i data. net_holds sha w b i = Some data \<Longrightarrow> net_holds sha w' b i = Some data"
  shows "cluster_inv sha K ((s, w'), good)"
proof -
  have "chunk_good sha cm w c i r data \<Longrightarrow> chunk_good sha cm w' c i r data" for cm c i r data
    using assms(3) by (auto simp: chunk_good_def)
  then have "file_safe sha s w' ps (xs, r)" if "file_safe sha s w ps (xs, r)" for ps xs r
    by (intro file_safe_frame [OF that]) simp_all
  then show ?thesis using assms(1,2) by (auto simp: cluster_inv_def mig_ok_def)
qed

lemma inv_migrate:
  assumes "cluster_inv sha K ((s, w), good)" "perm_iter it"
    and m: "sv_migrate it dial (net_TransferChunk env sha) clock p s w = (s', w')"
  shows "cluster_inv sha K ((s', w'), good)"
proof -
  have ok: "mig_ok (sv_chunkMgr s) w" and sv: "sv_inv sha K s" using assms(1) by (simp_all add: cluster_inv_def)
  note mg = sv_migrate_good [OF ok assms(2) m]
  have "sv_inv sha K s'" using sv mg(1-3) by (simp add: sv_inv_def file_ok_def mig_ok_def)
  moreover have "file_safe sha s' w' ps (xs, r)" if "file_safe sha s w ps (xs, r)" for ps xs r
    by (rule file_safe_frame [OF that]) (simp_all add: mg)
  ultimately show ?thesis using assms(1) mg(1) by (auto simp: cluster_inv_def)
qed

text \<open>Removing the chunks of one file leaves those of others.\<close>

lemma other_file_chunk:
  assumes "inj_on (\<lambda>x. take 8 (sha x)) K" "sv_inv sha K s" "ns_files (sv_namespace s) ps = Some f"
    and "ns_files (sv_namespace s) qs = Some g" "c \<in> set (chunk_ids sha (fm_Path g) (fm_ChunkCount g))" "qs \<noteq> ps"
  shows "c \<notin> set (fm_ChunkIDs f)"
proof
  assume "c \<in> set (fm_ChunkIDs f)"
  moreover have "file_ok sha K (sv_chunkMgr s) ps f" "file_ok sha K (sv_chunkMgr s) qs g" using assms(2-4) by (auto simp: sv_inv_def)
  ultimately show False
    using chunk_ids_path [OF assms(1), of c "fm_Path f" "fm_ChunkCount f" "fm_Path g" "fm_ChunkCount g"] assms(5,6) by (simp add: file_ok_def)
qed

lemma inv_delete:
  assumes inj: "inj_on (\<lambda>x. take 8 (sha x)) K" and I: "cluster_inv sha K ((s, w), good)"
    and del: "cl_DeleteFile (sys_DeleteFile it) path (s, w) = (sw', r)"
  shows "cluster_inv sha K (sw', if r = None then good(ns_target path := None) else good)"
proof -
  have sv: "sv_inv sha K s" and ok: "mig_ok (sv_chunkMgr s) w" using I by (simp_all add: cluster_inv_def)
  have nsi: "ns_inv (sv_namespace s)" using sv by (simp add: sv_inv_def)
  obtain s' ro where d: "sv_DeleteFile it path s = (s', ro)" by force
  then have sw': "sw' = (s', w)" and r: "r = None \<longleftrightarrow> (\<exists>resp. ro = Some resp \<and> dfr_Success resp)"
    using del by (auto simp: cl_DeleteFile_def sys_DeleteFile_def split: option.splits if_splits)
  obtain ns rn where nd: "ns_DeleteFile (sv_namespace s) path = (ns, rn)" by force
  show ?thesis
  proof (cases rn)
    case (Inl e)
    then have "s' = s\<lparr>sv_namespace := sv_namespace s\<rparr>" "r \<noteq> None"
      using d nd r ns.remove_err [OF nd [unfolded Inl] nsi] by (auto simp: sv_DeleteFile_def)
    then show ?thesis using I sw' by auto
  next
    case (Inr fo)
    note rm = ns.remove_ok [OF nd [unfolded Inr] nsi]
    then obtain f where f: "fo = Some f" "ns_files (sv_namespace s) (ns_target path) = Some f" by auto
    let ?cm = "sv_chunkMgr s" and ?ids = "fm_ChunkIDs f"
    have s': "s' = s\<lparr>sv_namespace := ns, sv_chunkMgr := fst (cm_RemoveChunks it ?ids ?cm)\<rparr>" and ro: "r = None"
      "ro = Some \<lparr>dfr_Success = True, dfr_Message = ''file deleted''\<rparr>"
      using d nd Inr f r by (auto simp: sv_DeleteFile_def)
    let ?cm' = "fold forget_chunk ?ids ?cm"
    have cm': "sv_chunkMgr s' = ?cm'" by (simp add: s' RemoveChunks_fst)
    have inv: "cm_inv ?cm" "cm_exact ?cm" using ok by (simp_all add: mig_ok_def)
    note fg = forget_all [OF inv, of ?ids]
    have addr: "addr_of (fold forget_chunk cs cm) = addr_of cm" for cs cm by (induction cs arbitrary: cm) simp_all
    have sv': "sv_inv sha K s'" by (rule sv_inv_delete [OF inj sv d [unfolded ro(2)]])
    have ok': "mig_ok (sv_chunkMgr s') w"
      using sv' fg ok by (auto simp: mig_ok_def sv_inv_def ids_plain_def cm')
    have "file_safe sha s' w ps (xs, k)" if g: "good ps = Some (xs, k)" "ps \<noteq> ns_target path" for ps xs k
    proof (rule file_safe_frame)
      show "file_safe sha s w ps (xs, k)" using I g(1) by (simp add: cluster_inv_def)
      show "ns_files (sv_namespace s') ps = ns_files (sv_namespace s) ps" using rm g(2) by (simp add: s')
      fix c i data h
      assume h: "ns_files (sv_namespace s) ps = Some h" "c \<in> set (chunk_ids sha (fm_Path h) (fm_ChunkCount h))"
        and gd: "chunk_good sha ?cm w c i k data"
      show "chunk_good sha (sv_chunkMgr s') w c i k data"
        using chunk_good_frame [OF inv(1) gd, of ?cm' w] fg addr other_file_chunk [OF inj sv f(2) h g(2)] by (simp add: cm')
    qed
    then show ?thesis using sw' sv' ok' ro(1) by (auto simp: cluster_inv_def)
  qed
qed
text \<open>The chunks of a file just put: the nodes chosen are those it was sent to.\<close>

lemma new_chunks_placed:
  assumes "ns_inv (sv_namespace s)" "cm_inv (sv_chunkMgr s)" "perm_iter it" "sort_slice srt"
    and ids: "inj_on (\<lambda>i. GenerateChunkID sha (pf_Path req) (int i)) {..<n}" "pf_ChunkCount req = int n"
    and put: "sv_PutFile it srt sha now req s = (s', Some resp)" "pfr_Success resp"
    and k: "k < n"
  defines "c \<equiv> GenerateChunkID sha (pf_Path req) (int k)"
  shows "chunk_index (sv_chunkMgr s') c = Some (int k)"
    and "length (replicas (sv_chunkMgr s') c) = min 3 (length (cm_healthyNodes it now (sv_chunkMgr s)))"
    and "m \<in> set (replicas (sv_chunkMgr s') c) \<Longrightarrow> addr_of (sv_chunkMgr s') m = Some a \<Longrightarrow>
      a \<in> set (cp_NodeAddresses (pfr_Placements resp ! k))"
    and "cm_healthyNodes it now (sv_chunkMgr s) \<noteq> []"
proof -
  let ?cm = "sv_chunkMgr s" and ?cm' = "sv_chunkMgr s'" and ?H = "cm_healthyNodes it now (sv_chunkMgr s)"
  let ?c = "GenerateChunkID sha (pf_Path req) (int k)"
  note c = c_def
  obtain ps where a: "cm_AllocateChunks it srt sha now (pf_Path req) (pf_ChunkCount req) (pf_FileSize req) ?cm = (?cm', Ok ps)"
    and pl: "pfr_Placements resp = map (\<lambda>p. \<lparr>cp_ChunkId = pl_ChunkID p, cp_ChunkIndex = int32 (pl_ChunkIndex p),
        cp_NodeAddresses = pl_NodeAddresses p, cp_NodeIds = pl_NodeIDs p\<rparr>) ps"
    by (rule put_success [OF assms(1) put]) blast
  show H: "?H \<noteq> []" using a by (auto simp: cm_AllocateChunks_def Let_def split: if_splits)
  have pos: "0 \<le> pf_ChunkCount req" using ids(2) by simp
  have inj: "inj_on (\<lambda>i. GenerateChunkID sha (pf_Path req) (int i)) {..<nat (pf_ChunkCount req)}" using ids by simp
  obtain cm1 ps1 where b: "cm_AllocateChunks it srt sha now (pf_Path req) (pf_ChunkCount req) (pf_FileSize req) ?cm = (cm1, Ok ps1)"
    "length ps1 = n" "node_cores cm1 = node_cores ?cm"
    "placement_ok ?cm ?H (min 3 (length ?H)) sha (pf_Path req) k (ps1 ! k)"
    "\<exists>sz. map_of (cm_chunks cm1) ?c = Some \<lparr>ck_ChunkID = ?c, ck_ChunkIndex = int k, ck_Size = sz,
             ck_Checksum = '''', ck_NodeIDs = pl_NodeIDs (ps1 ! k), ck_FilePath = pf_Path req\<rparr>"
    by (rule allocate_recorded [OF assms(2-4) refl H pos inj, where fileSize = "pf_FileSize req"]) (use k ids(2) in auto)
  have eq: "cm1 = ?cm'" "ps1 = ps" using a b(1) by simp_all
  show idx: "chunk_index ?cm' c = Some (int k)" using b(5) unfolding eq c by (auto simp: chunk_index_def)
  have reps: "replicas ?cm' c = pl_NodeIDs (ps ! k)" using b(5) unfolding eq c by (auto simp: replicas_def)
  show "length (replicas ?cm' c) = min 3 (length ?H)" using b(4) unfolding eq reps by (simp add: placement_ok_def)
  assume "m \<in> set (replicas ?cm' c)" and m2: "addr_of ?cm' m = Some a"
  then have m: "m \<in> set (pl_NodeIDs (ps ! k))" by (simp add: reps)
  have mh: "m \<in> set ?H" using b(4) m unfolding eq by (auto simp: placement_ok_def)
  have "dni_Address (deref ?cm' m) = dni_Address (deref ?cm m)"
    by (rule healthy_address [OF assms(2,3) b(3) [unfolded eq] mh])
  moreover have "dni_Address (deref ?cm' m) = a" using m2 by (auto simp: addr_of_def deref_def)
  ultimately have "a \<in> set (pl_NodeAddresses (ps ! k))"
    using b(4) m unfolding eq by (auto simp: placement_ok_def)
  then show "a \<in> set (cp_NodeAddresses (pfr_Placements resp ! k))" using pl k b(2) eq by simp
qed

lemma new_chunks_good:
  assumes "ns_inv (sv_namespace s)" "cm_inv (sv_chunkMgr s)" "perm_iter it" "sort_slice srt"
    and "inj_on (\<lambda>i. GenerateChunkID sha (pf_Path req) (int i)) {..<n}" "pf_ChunkCount req = int n"
    and "sv_PutFile it srt sha now req s = (s', Some resp)" "pfr_Success resp"
    and "\<And>k a. k < n \<Longrightarrow> a \<in> set (cp_NodeAddresses (pfr_Placements resp ! k)) \<Longrightarrow>
      net_holds sha w' a (GenerateChunkID sha (pf_Path req) (int k)) = Some (xs ! k)"
    and "k < n"
  shows "chunk_good sha (sv_chunkMgr s') w' (GenerateChunkID sha (pf_Path req) (int k)) k
      (min 3 (length (cm_healthyNodes it now (sv_chunkMgr s)))) (xs ! k)"
    and "cm_healthyNodes it now (sv_chunkMgr s) \<noteq> []"
  using new_chunks_placed [OF assms(1-8,10)] assms(9) [OF assms(10)] by (auto simp: chunk_good_def)

text \<open>A file stored before is safe after a put of another path: its chunks are not among the new ones.\<close>

lemma put_keeps_file:
  assumes "cm_inv (sv_chunkMgr s)" "file_safe sha s w ps xr" "ns_files (sv_namespace s') ps = ns_files (sv_namespace s) ps"
    and "fresh_ids (sv_chunkMgr s) ids"
    and keep: "\<And>c i r data. c \<notin> set ids \<Longrightarrow> chunk_good sha (sv_chunkMgr s) w c i r data \<Longrightarrow> chunk_good sha (sv_chunkMgr s') w c i r data"
    and fr: "\<And>b j. j \<notin> set ids \<Longrightarrow> net_holds sha w' b j = net_holds sha w b j"
  shows "file_safe sha s' w' ps xr"
proof -
  obtain xs n where xr: "xr = (xs, n)" by force
  show ?thesis unfolding xr
  proof (rule file_safe_frame [OF assms(2) [unfolded xr] assms(3)])
    fix c i data assume "0 < n" and gd: "chunk_good sha (sv_chunkMgr s) w c i n data"
    then obtain m where "m \<in> set (replicas (sv_chunkMgr s) c)" by (cases "replicas (sv_chunkMgr s) c") (auto simp: chunk_good_def)
    then have "c \<in> holdings (sv_chunkMgr s) m" by (rule replica_registered(2) [OF assms(1)])
    then have c: "c \<notin> set ids" using assms(4) by (auto simp: fresh_ids_def)
    show "chunk_good sha (sv_chunkMgr s') w' c i n data" using keep [OF c gd] fr [OF c] by (simp add: chunk_good_def)
  qed
qed

lemma inv_put:
  assumes inj: "inj_on (\<lambda>x. take 8 (sha x)) K" and I: "cluster_inv sha K ((s, w), good)"
    and it: "perm_iter it" "sort_slice srt"
    and rd: "readAndChunkFile sha lf localPath = Inr (chunks, fsize, ck)" "int (length chunks) < 2 ^ 31"
    and K: "\<forall>i<length chunks. chunk_key path (int i) \<in> K"
    and new: "ns_files (sv_namespace s) (ns_target path) = None"
      "fresh_ids (sv_chunkMgr s) (chunk_ids sha path (int (length chunks)))"
    and put: "cl_PutFile lf dial sha (sys_PutFile it srt sha now) (sys_StoreChunk env sha) sched localPath path (s, w) = (sw', r)"
  shows "cluster_inv sha K (sw', if r = Some (Ok ())
      then good(ns_target path \<mapsto> (chunks, min 3 (length (cm_healthyNodes it now (sv_chunkMgr s))))) else good)"
proof -
  define req where "req = \<lparr>pf_Path = path, pf_FileSize = fsize, pf_ChunkCount = int (length chunks), pf_Checksum = ck\<rparr>"
  have rp: "pf_Path req = path" "pf_ChunkCount req = int (length chunks)" by (simp_all add: req_def)
  let ?ids = "chunk_ids sha path (int (length chunks))" and ?H = "cm_healthyNodes it now (sv_chunkMgr s)"
  have sv: "sv_inv sha K s" and ok: "mig_ok (sv_chunkMgr s) w" and old: "\<And>ps xr. good ps = Some xr \<Longrightarrow> file_safe sha s w ps xr"
    using I by (auto simp: cluster_inv_def)
  have nsi: "ns_inv (sv_namespace s)" and cm: "cm_inv (sv_chunkMgr s)" using sv by (simp_all add: sv_inv_def)
  have idi: "inj_on (\<lambda>i. GenerateChunkID sha path (int i)) {..<length chunks}"
    by (rule path_ids_inj [OF inj K])
  have dist: "distinct ?ids" using idi by (simp add: chunk_ids_def distinct_map atLeast0LessThan)
  have nw: "net_inv w" using ok by (simp add: mig_ok_def)
  obtain s' w' ro where sw': "sw' = (s', w')" and pm: "sv_PutFile it srt sha now req s = (s', ro)" and nw': "net_inv w'"
    and fr: "\<And>b j. j \<notin> set ?ids \<Longrightarrow> net_holds sha w' b j = net_holds sha w b j"
    and up: "r = Some (Ok ()) \<Longrightarrow> \<exists>resp. ro = Some resp \<and> pfr_Success resp \<and>
      (\<forall>k<length chunks. \<forall>a\<in>set (cp_NodeAddresses (pfr_Placements resp ! k)).
         net_holds sha w' a (GenerateChunkID sha path (int k)) = Some (chunks ! k))"
    by (rule put_run [OF nsi cm nw it rd dist req_def put]) blast
  have "ro \<noteq> None"
    using pm by (auto simp: sv_PutFile_def cm_AllocateChunks_def Let_def rp split: prod.splits if_splits sum.splits)
  then obtain resp where ro: "ro = Some resp" by blast
  have keys: "\<forall>i<nat (pf_ChunkCount req). chunk_key (pf_Path req) (int i) \<in> K" using K by (simp add: rp)
  have sv': "sv_inv sha K s'" by (rule sv_inv_put [OF inj sv it keys pm [unfolded ro]])
  note keep = put_meta_keeps [OF ok it pm, unfolded rp, OF dist new(2)]
  have ok': "mig_ok (sv_chunkMgr s') w'" using keep(1) nw' by (simp add: mig_ok_def)
  have ns': "ps \<noteq> ns_target path \<Longrightarrow> ns_files (sv_namespace s') ps = ns_files (sv_namespace s) ps" for ps
    using put_other_files [OF nsi pm [unfolded ro]] by (simp add: rp)
  have safe: "file_safe sha s' w' ps xr" if g: "good ps = Some xr" for ps xr
  proof -
    have "ps \<noteq> ns_target path" using old [OF g] new(1) by (auto simp: file_safe_def)
    then show ?thesis using put_keeps_file [OF cm old [OF g] ns' new(2) keep(2) fr] by simp
  qed
  show ?thesis
  proof (cases "r = Some (Ok ())")
    case False
    then show ?thesis using safe sv' ok' sw' by (auto simp: cluster_inv_def)
  next
    case True
    then have succ: "pfr_Success resp" and held: "\<And>k a. k < length chunks \<Longrightarrow> a \<in> set (cp_NodeAddresses (pfr_Placements resp ! k)) \<Longrightarrow>
         net_holds sha w' a (GenerateChunkID sha path (int k)) = Some (chunks ! k)"
      using up ro by auto
    note ng = new_chunks_good [where n = "length chunks" and req = req, unfolded rp, OF nsi cm it idi refl pm [unfolded ro] succ held]
    have "\<exists>f. ns_files (sv_namespace s') (ns_target path) = Some f \<and> fm_ChunkCount f = int (length chunks) \<and> fm_Path f = path"
      by (rule put_success [OF nsi pm [unfolded ro] succ]) (auto simp: rp)
    then have "file_safe sha s' w' (ns_target path) (chunks, min 3 (length ?H))"
      using ng rd(2) by (auto simp: file_safe_def)
    then show ?thesis using safe sv' ok' sw' True by (auto simp: cluster_inv_def)
  qed
qed

section \<open>Reachable states\<close>

lemma sys_download_fst: "fst (fst (downloadChunks dial sha (sys_GetChunk env sha) rsrt sched locs sw)) = fst sw"
proof -
  have fetch: "fst v' = fst v" if "fetchChunkFromNode dial sha (sys_GetChunk env sha) a i v = (v', q)" for a i v v' q
    using that by (auto simp: fetchChunkFromNode_def sys_GetChunk_def on_nodes_def Let_def split: option.splits prod.splits sum.splits if_splits)
  have step: "fst (dl_World (download_step dial sha (sys_GetChunk env sha) i u)) = fst (dl_World u)" for i u
    by (auto simp: download_step_def Let_def split: list.splits prod.splits sum.splits dest!: fetch)
  have "fst (dl_World (run_download dial sha (sys_GetChunk env sha) sched u)) = fst (dl_World u)" for u
    using step by (induction sched arbitrary: u) (simp_all add: run_download_def)
  then show ?thesis by (simp add: downloadChunks_def Let_def)
qed

text \<open>A download changes neither the metadata nor what the nodes hold.\<close>

lemma get_keeps_system:
  assumes "net_inv (snd sw)"
    and "cl_GetFile fault dial sha sys_GetFile (sys_GetChunk env sha) rsrt sched path target (sw, disk) = ((sw', disk'), r)"
  shows "fst sw' = fst sw \<and> net_inv (snd sw') \<and> net_holds sha (snd sw') = net_holds sha (snd sw)"
proof -
  have "sw' = sw \<or> (\<exists>locs x. downloadChunks dial sha (sys_GetChunk env sha) rsrt sched locs sw = (sw', x))"
    using assms(2) by (auto simp: cl_GetFile_def sys_GetFile_def split: option.splits prod.splits sum.splits if_splits outcome.splits)
  then show ?thesis
  proof
    assume "\<exists>locs x. downloadChunks dial sha (sys_GetChunk env sha) rsrt sched locs sw = (sw', x)"
    then obtain locs x where d: "downloadChunks dial sha (sys_GetChunk env sha) rsrt sched locs sw = (sw', x)" by blast
    show ?thesis using sys.download_keeps [OF assms(1) d] sys_download_fst [of dial sha env rsrt sched locs sw] d by simp
  qed (use assms(1) in simp)
qed

text \<open>The handlers and rounds that leave the replicas alone.\<close>

lemma inv_server_quiet:
  assumes "inj_on (\<lambda>x. take 8 (sha x)) K" "cluster_inv sha K ((s, w), good)" "sv_step sha K s s'"
    and "quiet (sv_chunkMgr s) (sv_chunkMgr s')" "sv_namespace s' = sv_namespace s"
  shows "cluster_inv sha K ((s', w), good)"
  using inv_quiet [OF assms(2) sv_inv_step [OF assms(1,3)] assms(5,4)] assms(2) by (simp add: cluster_inv_def)

inductive_cases cluster_stepE: "cluster_step sha K x y"

lemma cluster_inv_step:
  assumes inj: "inj_on (\<lambda>x. take 8 (sha x)) K" and st: "cluster_step sha K x y" and I: "cluster_inv sha K x"
  shows "cluster_inv sha K y"
  using st I
proof cases
  case (put it srt lf localPath chunks fsize ck path s w dial now env sched sw' r good)
  then show ?thesis using inv_put [OF inj] I by simp
next
  case (get fault dial env rsrt sched path target sw disk sw' disk' r good)
  obtain s w where sw: "sw = (s, w)" by force
  have n: "net_inv (snd sw)" using I by (simp add: get sw cluster_inv_def mig_ok_def)
  note k = get_keeps_system [OF n get(3)]
  have "sw' = (s, snd sw')" using k sw by (metis fst_conv prod.collapse)
  moreover have "cluster_inv sha K ((s, snd sw'), good)"
    by (rule inv_nodes) (use I k in \<open>auto simp: get sw\<close>)
  ultimately show ?thesis using get by simp
next
  case (delete it path s w sw' r good)
  then show ?thesis using inv_delete [OF inj] I by simp
next
  case (register it s w good now address capacity)
  then show ?thesis using inv_server_quiet [OF inj I [unfolded register] sv_step.register [OF register(3)] server_quiet(1)] I
    by (simp add: server_views cluster_inv_def mig_ok_def)
next
  case (heartbeat s w good now hb)
  then show ?thesis using inv_server_quiet [OF inj I [unfolded heartbeat] sv_step.heartbeat server_quiet(2)] by (simp add: server_views)
next
  case (report s w good metrics)
  then show ?thesis using inv_server_quiet [OF inj I [unfolded report] sv_step.report server_quiet(3)] by (simp add: server_views)
next
  case (dead_check s w good it now)
  then show ?thesis using inv_server_quiet [OF inj I [unfolded dead_check] sv_step.dead_check server_quiet(4)] by (simp add: server_views)
next
  case (predict s w good it now)
  then show ?thesis using inv_server_quiet [OF inj I [unfolded predict] sv_step.predict server_quiet(5)] by (simp add: server_views)
next
  case (migrate it dial env clock p s w s' w' good)
  then show ?thesis using inv_migrate I by simp
next
  case (join w a n s good)
  have "net_inv (w\<lparr>w_nodes := AList.update a n (w_nodes w)\<rparr>)"
    using I join by (auto simp: cluster_inv_def mig_ok_def net_inv_def)
  moreover have "net_holds sha (w\<lparr>w_nodes := AList.update a n (w_nodes w)\<rparr>) b i = Some data"
    if "net_holds sha w b i = Some data" for b i data using that join(3) by (auto simp: net_holds_def)
  ultimately show ?thesis using inv_nodes [OF I [unfolded join]] join(2) by blast
next
  case (restart a w w' s good)
  have n: "net_inv w" using I by (simp add: restart cluster_inv_def mig_ok_def)
  show ?thesis using inv_nodes [OF I [unfolded restart] restart_keeps(1) [OF n restart(3)]] restart_keeps(2) [OF n restart(3)] restart by simp
qed

lemma cluster_inv_reachable:
  assumes "inj_on (\<lambda>x. take 8 (sha x)) K" "cluster_reachable sha K x"
  shows "cluster_inv sha K x"
  using assms(2)
proof induction
  case new
  have "sv_inv sha K NewServer" by (rule sv_inv_reachable [OF assms(1) sv_reachable.new])
  then show ?case
    by (auto simp: cluster_inv_def mig_ok_def sv_inv_def net_inv_def ids_plain_def cm_exact_def NewServer_def
        NewChunkManager_def holdings_def)
next
  case (step x y)
  then show ?case using cluster_inv_step [OF assms(1)] by blast
qed

text \<open>Where the server finds a chunk that is safe.\<close>

lemma locate_good:
  assumes "cm_inv cm" "chunk_good sha cm w c i r data" "locate_chunk cm c = Inr l"
  shows "n \<in> set (replicas cm c) \<Longrightarrow> map_of (cm_nodes cm) n = Some d \<Longrightarrow> dni_Status d \<noteq> StatusDead \<Longrightarrow>
      dni_Address d \<in> set (lo_NodeAddresses l)"
    and "lo_ChunkID l = c" "lo_ChunkIndex l = int i" "lo_NodeAddresses l \<noteq> []" "length (lo_NodeAddresses l) \<le> r"
    and "a \<in> set (lo_NodeAddresses l) \<Longrightarrow> net_holds sha w a c = Some data"
proof -
  obtain m where m: "map_of (cm_chunks cm) c = Some m" and ne: "live_replicas cm m \<noteq> []"
    and l: "lo_ChunkID l = ck_ChunkID m" "lo_ChunkIndex l = ck_ChunkIndex m"
      "lo_NodeAddresses l = map (dni_Address \<circ> snd) (live_replicas cm m)"
    using assms(3) by (auto simp: locate_chunk_def Let_def split: option.splits if_splits)
  have len: "length (List.map_filter f xs) \<le> length xs" for f :: "string \<Rightarrow> (string \<times> DataNodeInfo) option" and xs
    by (simp add: List.map_filter_def)
  have reps: "ck_NodeIDs m = replicas cm c" by (simp add: replicas_def m)
  show "dni_Address d \<in> set (lo_NodeAddresses l)"
    if q: "n \<in> set (replicas cm c)" "map_of (cm_nodes cm) n = Some d" "dni_Status d \<noteq> StatusDead"
  proof -
    have "(n, d) \<in> set (live_replicas cm m)" using q reps by (simp add: live_replicas_set)
    then show ?thesis using l(3) by force
  qed
  show "lo_ChunkID l = c" using l(1) inv_parts(4) [OF assms(1) m] by simp
  show "lo_ChunkIndex l = int i" using assms(2) m l(2) by (simp add: chunk_good_def chunk_index_def)
  show "lo_NodeAddresses l \<noteq> []" using ne l(3) by simp
  show "length (lo_NodeAddresses l) \<le> r"
    using len [of _ "ck_NodeIDs m"] assms(2) l(3) reps by (simp add: live_replicas_def chunk_good_def)
  assume "a \<in> set (lo_NodeAddresses l)"
  then obtain k n where "k \<in> set (ck_NodeIDs m)" "map_of (cm_nodes cm) k = Some n" "a = dni_Address n"
    using l(3) live_replicas_set [of cm m] by auto
  then have "k \<in> set (replicas cm c)" "addr_of cm k = Some a" by (simp_all add: reps addr_of_def)
  then show "net_holds sha w a c = Some data" using assms(2) by (simp add: chunk_good_def)
qed

text \<open>What a successful \<open>GetFile\<close> response says of the \<open>k\<close>-th chunk of file \<open>f\<close>.\<close>

definition located :: "(bytes \<Rightarrow> bytes) \<Rightarrow> Server \<Rightarrow> World \<Rightarrow> bytes list \<Rightarrow> nat \<Rightarrow> FileMeta \<Rightarrow> GetFileResponse \<Rightarrow> nat \<Rightarrow> bool" where
  "located sha s w xs r f g k \<longleftrightarrow>
     cl_ChunkId (gfr_ChunkLocations g ! k) = GenerateChunkID sha (fm_Path f) (int k) \<and>
       cl_ChunkIndex (gfr_ChunkLocations g ! k) = int k \<and> cl_NodeAddresses (gfr_ChunkLocations g ! k) \<noteq> [] \<and>
       length (cl_NodeAddresses (gfr_ChunkLocations g ! k)) \<le> r \<and>
       (\<forall>n d. n \<in> set (replicas (sv_chunkMgr s) (GenerateChunkID sha (fm_Path f) (int k))) \<longrightarrow>
          map_of (cm_nodes (sv_chunkMgr s)) n = Some d \<longrightarrow> dni_Status d \<noteq> StatusDead \<longrightarrow>
          dni_Address d \<in> set (cl_NodeAddresses (gfr_ChunkLocations g ! k))) \<and>
       (\<forall>a\<in>set (cl_NodeAddresses (gfr_ChunkLocations g ! k)).
          net_holds sha w a (GenerateChunkID sha (fm_Path f) (int k)) = Some (xs ! k))"

lemma GetFile_locations:
  assumes "sv_GetFile path s = Some g" "ns_GetFile (sv_namespace s) path = Inr (Some f)" "gfr_Success g"
  obtains locs where "gfr_FileInfo g \<noteq> None" "map (locate_chunk (sv_chunkMgr s)) (fm_ChunkIDs f) = map Inr locs"
    "gfr_ChunkLocations g = map (\<lambda>loc. \<lparr>cl_ChunkId = lo_ChunkID loc, cl_ChunkIndex = int32 (lo_ChunkIndex loc),
       cl_NodeAddresses = lo_NodeAddresses loc, cl_NodeIds = lo_NodeIDs loc\<rparr>) locs"
  using that assms by (auto simp: sv_GetFile_def Let_def GetChunkLocations_all [symmetric] split: sum.splits if_splits)

lemma stored_located:
  assumes I: "cluster_inv sha K ((s, w), good)" and "good (ns_target path) = Some (xs, r)" "plain path"
  obtains f g where "ns_GetFile (sv_namespace s) path = Inr (Some f)" "fm_ChunkIDs f = chunk_ids sha (fm_Path f) (int (length xs))"
    "sv_GetFile path s = Some g"
    "gfr_Success g \<longleftrightarrow> (\<forall>c\<in>set (fm_ChunkIDs f). \<exists>n\<in>set (replicas (sv_chunkMgr s) c). \<exists>d.
       map_of (cm_nodes (sv_chunkMgr s)) n = Some d \<and> dni_Status d \<noteq> StatusDead)"
    "gfr_Success g \<longrightarrow> gfr_FileInfo g \<noteq> None \<and> length (gfr_ChunkLocations g) = length xs \<and> (\<forall>k<length xs. located sha s w xs r f g k)"
proof -
  let ?cm = "sv_chunkMgr s"
  have sv: "sv_inv sha K s" and cm: "cm_inv ?cm" and fs: "file_safe sha s w (ns_target path) (xs, r)"
    using I assms(2) by (auto simp: cluster_inv_def sv_inv_def)
  have n31: "int (length xs) < 2 ^ 31" using fs by (simp add: file_safe_def)
  obtain f where f: "ns_files (sv_namespace s) (ns_target path) = Some f" "fm_ChunkCount f = int (length xs)"
    and cg: "\<And>k. k < length xs \<Longrightarrow> chunk_good sha ?cm w (GenerateChunkID sha (fm_Path f) (int k)) k r (xs ! k)"
    using fs by (auto simp: file_safe_def)
  have nsi: "ns_inv (sv_namespace s)" using sv by (simp add: sv_inv_def)
  have get: "ns_GetFile (sv_namespace s) path = Inr (Some f)"
    using ns.get_iff [OF nsi] f(1) plain_target(1) [OF assms(3)] by simp
  have fo: "file_ok sha K ?cm (ns_target path) f" using sv f(1) by (simp add: sv_inv_def)
  then have ids: "fm_ChunkIDs f = chunk_ids sha (fm_Path f) (int (length xs))" by (simp add: file_ok_def f(2))
  have idk: "fm_ChunkIDs f ! k = GenerateChunkID sha (fm_Path f) (int k)" "k < length (fm_ChunkIDs f)" if "k < length xs" for k
    using that by (simp_all add: ids chunk_ids_def)
  have meta: "\<exists>m. map_of (cm_chunks ?cm) c = Some m \<and> ck_ChunkID m = c" if "c \<in> set (fm_ChunkIDs f)" for c
  proof -
    have "chunk_path ?cm c = Some (fm_Path f)" using fo that by (simp add: file_ok_def)
    then show ?thesis using inv_parts(4) [OF cm, of c] by (auto simp: chunk_path_def)
  qed
  obtain g where g: "sv_GetFile path s = Some g" and live: "gfr_Success g \<longleftrightarrow> (\<forall>c\<in>set (fm_ChunkIDs f). \<exists>n\<in>set (replicas ?cm c). \<exists>d.
       map_of (cm_nodes ?cm) n = Some d \<and> dni_Status d \<noteq> StatusDead)"
    using GetFile_live [OF get meta] by blast
  have "gfr_FileInfo g \<noteq> None \<and> length (gfr_ChunkLocations g) = length xs \<and> (\<forall>k<length xs. located sha s w xs r f g k)" if ok: "gfr_Success g"
  proof -
    obtain locs where l: "gfr_FileInfo g \<noteq> None" "map (locate_chunk ?cm) (fm_ChunkIDs f) = map Inr locs"
      "gfr_ChunkLocations g = map (\<lambda>loc. \<lparr>cl_ChunkId = lo_ChunkID loc, cl_ChunkIndex = int32 (lo_ChunkIndex loc),
        cl_NodeAddresses = lo_NodeAddresses loc, cl_NodeIds = lo_NodeIDs loc\<rparr>) locs"
      by (rule GetFile_locations [OF g get ok])
    have len: "length locs = length xs" using arg_cong [OF l(2), of length] by (simp add: ids chunk_ids_def)
    have "located sha s w xs r f g k" if k: "k < length xs" for k
    proof -
      have "locate_chunk ?cm (fm_ChunkIDs f ! k) = Inr (locs ! k)"
        using arg_cong [OF l(2), of "\<lambda>zs. zs ! k"] len k idk(2) [OF k] by simp
      then have lk: "locate_chunk ?cm (GenerateChunkID sha (fm_Path f) (int k)) = Inr (locs ! k)" by (simp add: idk(1) [OF k])
      have "int32 (int k) = int k" using k n31 by (intro int32_id) simp
      then show ?thesis using locate_good [OF cm cg [OF k] lk] l(3) len k by (simp add: located_def)
    qed
    then show ?thesis using l(1,3) len by simp
  qed
  then show ?thesis using that [OF get ids g live] by blast
qed

lemma stored_chunks_good:
  assumes "cluster_inv sha K ((s, w), good)" "good (ns_target path) = Some (xs, r)" "plain path"
  obtains f where "ns_GetFile (sv_namespace s) path = Inr (Some f)" "fm_ChunkIDs f = chunk_ids sha (fm_Path f) (int (length xs))"
    "\<And>k. k < length xs \<Longrightarrow> chunk_good sha (sv_chunkMgr s) w (fm_ChunkIDs f ! k) k r (xs ! k)"
proof -
  obtain f where f: "ns_files (sv_namespace s) (ns_target path) = Some f"
    and cg: "\<And>k. k < length xs \<Longrightarrow> chunk_good sha (sv_chunkMgr s) w (GenerateChunkID sha (fm_Path f) (int k)) k r (xs ! k)"
    using assms(1,2) by (force simp: cluster_inv_def file_safe_def)
  obtain f' where f': "ns_GetFile (sv_namespace s) path = Inr (Some f')"
    "fm_ChunkIDs f' = chunk_ids sha (fm_Path f') (int (length xs))"
    by (rule stored_located [OF assms]) blast
  have "f' = f" using ns.get_iff f f'(1) plain_target(1) [OF assms(3)] assms(1) by (auto simp: cluster_inv_def sv_inv_def)
  then have "fm_ChunkIDs f' ! k = GenerateChunkID sha (fm_Path f) (int k)" if "k < length xs" for k
    using that f'(2) by (simp add: chunk_ids_def)
  then show thesis using that [OF f'] cg by simp
qed

text \<open>A file that was put can be read while one replica of each chunk works.\<close>

lemma stored_readable:
  assumes "inj_on (\<lambda>x. take 8 (sha x)) K" "\<And>x. 6 \<le> length (sha x)" "cluster_reachable sha K ((s, w), good)"
    and "good (ns_target path) = Some (xs, r)" "plain path" "sort_slice rsrt"
    and "\<And>f c. ns_GetFile (sv_namespace s) path = Inr (Some f) \<Longrightarrow> c \<in> set (fm_ChunkIDs f) \<Longrightarrow>
      \<exists>n\<in>set (replicas (sv_chunkMgr s) c). \<exists>d. map_of (cm_nodes (sv_chunkMgr s)) n = Some d \<and>
        dni_Status d \<noteq> StatusDead \<and> dial (dni_Address d) = None \<and> net_alive env (dni_Address d)"
    and "\<forall>c\<in>set xs. en_fits env (length c)" "\<forall>k<length xs. 3 < count_list sched k"
  shows "\<exists>sw'. cl_GetFile NoFault dial sha sys_GetFile (sys_GetChunk env sha) rsrt sched path target ((s, w), disk) =
    ((sw', AList.update target (concat xs) disk), Some (Ok ()))"
proof -
  note I = cluster_inv_reachable [OF assms(1,3)]
  have nw: "net_inv (snd (s, w))" using I by (simp add: cluster_inv_def mig_ok_def)
  have n31: "int (length xs) < 2 ^ 31" and r3: "r \<le> 3" using I assms(4) by (auto simp: cluster_inv_def file_safe_def)
  obtain f g where f: "ns_GetFile (sv_namespace s) path = Inr (Some f)" "fm_ChunkIDs f = chunk_ids sha (fm_Path f) (int (length xs))"
    and g: "sv_GetFile path s = Some g"
    and live: "gfr_Success g \<longleftrightarrow> (\<forall>c\<in>set (fm_ChunkIDs f). \<exists>n\<in>set (replicas (sv_chunkMgr s) c). \<exists>d.
       map_of (cm_nodes (sv_chunkMgr s)) n = Some d \<and> dni_Status d \<noteq> StatusDead)"
    and loc0: "gfr_Success g \<longrightarrow> gfr_FileInfo g \<noteq> None \<and> length (gfr_ChunkLocations g) = length xs \<and> (\<forall>k<length xs. located sha s w xs r f g k)"
    by (rule stored_located [OF I assms(4,5)]) blast
  have ok: "gfr_Success g" unfolding live using assms(7) [OF f(1)] by blast
  have len': "length (gfr_ChunkLocations g) = length xs" and info: "gfr_FileInfo g \<noteq> None"
    and loc: "\<And>k. k < length xs \<Longrightarrow> located sha s w xs r f g k" using loc0 ok by auto
  have al: "\<forall>l\<in>set (gfr_ChunkLocations g). \<exists>a\<in>set (cl_NodeAddresses l). dial a = None \<and> net_alive env a"
  proof
    fix l assume "l \<in> set (gfr_ChunkLocations g)"
    then obtain k where k: "k < length xs" "l = gfr_ChunkLocations g ! k" using len' by (auto simp: in_set_conv_nth)
    have "GenerateChunkID sha (fm_Path f) (int k) \<in> set (fm_ChunkIDs f)" using k(1) by (simp add: f(2) chunk_ids_def)
    from assms(7) [OF f(1) this] show "\<exists>a\<in>set (cl_NodeAddresses l). dial a = None \<and> net_alive env a"
      using loc [OF k(1)] k(2) unfolding located_def by blast
  qed
  have at: "\<And>k. k < length xs \<Longrightarrow> cl_ChunkId (gfr_ChunkLocations g ! k) = GenerateChunkID sha (fm_Path f) (int k) \<and>
       cl_ChunkIndex (gfr_ChunkLocations g ! k) = int k \<and> length (cl_NodeAddresses (gfr_ChunkLocations g ! k)) \<le> 3 \<and>
       (\<forall>a\<in>set (cl_NodeAddresses (gfr_ChunkLocations g ! k)).
          net_holds sha (snd (s, w)) a (GenerateChunkID sha (fm_Path f) (int k)) = Some (xs ! k))"
    using loc r3 unfolding located_def snd_conv by (meson order_trans)
  obtain sw' where "downloadChunks dial sha (sys_GetChunk env sha) rsrt sched (gfr_ChunkLocations g) (s, w) =
      (sw', Some (Ok (concat xs)))"
    using sys_download [OF nw assms(6) len' n31 at chunk_id_long [OF assms(2)] assms(8) al assms(9)] by blast
  then show ?thesis using g ok info by (auto simp: cl_GetFile_def sys_GetFile_def writeFile_def)
qed

end
