(* ===== verification/Migrate_Steps.thy ===== *)
theory Migrate_Steps
  imports Migrator
begin

text \<open>
  \<open>MigrateNode\<close> (\<^verbatim>\<open>internal/health/migrator.go\<close>) as a machine of single steps. The method holds no lock
  while it works: between any two of its calls of the locator, the RPC and its own critical sections
  other goroutines run. Here one step is one such call, and a task records where the method stands. The
  theorem \<open>steps_are_MigrateNode\<close> says that the steps of a task that nobody interrupts are exactly
  \<open>MigrateNode\<close>.
\<close>

section \<open>Tasks\<close>

datatype mig_pc =
    Entering
  | Listing
  | Locating
  | Checking
  | Picking "string list"
  | Sending NodeTarget
  | Adding NodeTarget
  | Removing NodeTarget
  | Leaving bool
  | Refused
  | Ended

record mig_task =
  mt_Prediction :: PredictionResult
  mt_Pc :: mig_pc
  mt_Chunks :: "string list"
  mt_Source :: string
  mt_Event :: MigrationEvent
  mt_Report :: MigrationReport

definition mt_Node :: "mig_task \<Rightarrow> string" where
  "mt_Node t = pr_NodeID (mt_Prediction t)"

definition no_event :: MigrationEvent where
  "no_event = \<lparr>me_ChunkID = '''', me_FromNodeID = '''', me_ToNodeID = '''', me_ToAddress = '''', me_Reason = '''',
     me_Success = False, me_Error = '''', me_StartedAt = 0, me_Duration = 0\<rparr>"

definition new_report :: "PredictionResult \<Rightarrow> time \<Rightarrow> MigrationReport" where
  "new_report p now = \<lparr>rp_NodeID = pr_NodeID p, rp_RiskScore = pr_OverallRisk p, rp_Status = pr_Status p,
     rp_TotalChunks = 0, rp_MigratedChunks = 0, rp_FailedChunks = 0, rp_Events = [], rp_StartedAt = now,
     rp_CompletedAt = 0, rp_Reasons = pr_Reasons p\<rparr>"

definition new_task :: "PredictionResult \<Rightarrow> mig_task" where
  "new_task p = \<lparr>mt_Prediction = p, mt_Pc = Entering, mt_Chunks = [], mt_Source = '''', mt_Event = no_event,
     mt_Report = new_report p 0\<rparr>"

text \<open>The end of the work on one chunk: the event is logged and the loop goes on.\<close>

definition log_event :: "MigrationEvent \<Rightarrow> mig_task \<Rightarrow> mig_task" where
  "log_event ev t =
     (let report = (mt_Report t)\<lparr>rp_Events := rp_Events (mt_Report t) @ [ev]\<rparr>;
          report = (if me_Success ev
                    then report\<lparr>rp_MigratedChunks := rp_MigratedChunks report + 1\<rparr>
                    else report\<lparr>rp_FailedChunks := rp_FailedChunks report + 1\<rparr>)
      in t\<lparr>mt_Report := report, mt_Chunks := tl (mt_Chunks t), mt_Pc := Checking\<rparr>)"

definition failed_event :: "string \<Rightarrow> time \<Rightarrow> MigrationEvent \<Rightarrow> MigrationEvent" where
  "failed_event err now ev = ev\<lparr>me_Error := err, me_Duration := now - me_StartedAt ev\<rparr>"

definition mig_step ::
  "'s ChunkLocator \<Rightarrow> (string \<Rightarrow> string option) \<Rightarrow> 'w transfer_rpc \<Rightarrow> ('w \<Rightarrow> time) \<Rightarrow>
   mig_task \<times> Migrator \<times> 's \<times> 'w \<Rightarrow> mig_task \<times> Migrator \<times> 's \<times> 'w" where
  "mig_step L dial rpc clock x =
     (case x of (t, m, s, w) \<Rightarrow>
        (case mt_Pc t of
           Entering \<Rightarrow>
             (case mig_begin (mt_Node t) m of
                (m', False) \<Rightarrow> (t\<lparr>mt_Pc := Refused\<rparr>, m', s, w)
              | (m', True) \<Rightarrow> (t\<lparr>mt_Pc := Listing, mt_Report := new_report (mt_Prediction t) (clock w)\<rparr>, m', s, w))
         | Listing \<Rightarrow>
             (let chunkIDs = cl_GetChunksOnNode L s (mt_Node t);
                  report = (mt_Report t)\<lparr>rp_TotalChunks := int (length chunkIDs)\<rparr>
              in if chunkIDs = [] then (t\<lparr>mt_Report := report\<lparr>rp_CompletedAt := clock w\<rparr>, mt_Pc := Leaving True\<rparr>, m, s, w)
                 else (t\<lparr>mt_Report := report, mt_Chunks := chunkIDs, mt_Pc := Locating\<rparr>, m, s, w))
         | Locating \<Rightarrow>
             (case cl_GetNodeAddress L s (mt_Node t) of
                None \<Rightarrow> (t\<lparr>mt_Report := (mt_Report t)\<lparr>rp_CompletedAt := clock w\<rparr>, mt_Pc := Leaving False\<rparr>, m, s, w)
              | Some sourceAddr \<Rightarrow> (t\<lparr>mt_Source := sourceAddr, mt_Pc := Checking\<rparr>, m, s, w))
         | Checking \<Rightarrow>
             (case mt_Chunks t of
                [] \<Rightarrow> (t\<lparr>mt_Report := (mt_Report t)\<lparr>rp_CompletedAt := clock w\<rparr>, mt_Pc := Leaving True\<rparr>, m, s, w)
              | chunkID # _ \<Rightarrow>
                  let event = no_event\<lparr>me_ChunkID := chunkID, me_FromNodeID := mt_Node t, me_StartedAt := clock w\<rparr>
                  in case cl_GetChunkMeta L s chunkID of
                       None \<Rightarrow> (log_event (failed_event ''chunk metadata not found'' (clock w) event) t, m, s, w)
                     | Some existingNodeIDs \<Rightarrow> (t\<lparr>mt_Event := event, mt_Pc := Picking existingNodeIDs\<rparr>, m, s, w))
         | Picking existingNodeIDs \<Rightarrow>
             (case cl_GetHealthyNodeAddresses L s existingNodeIDs of
                [] \<Rightarrow> (log_event (failed_event ''no healthy target nodes available'' (clock w) (mt_Event t)) t, m, s, w)
              | target # _ \<Rightarrow>
                  (t\<lparr>mt_Event := (mt_Event t)\<lparr>me_ToNodeID := nt_NodeID target, me_ToAddress := nt_Address target,
                       me_Reason := ''proactive migration from at-risk node '' @ mt_Node t @
                         '' (risk: '' @ fmt_f False 2 0 @ '')''\<rparr>,
                     mt_Pc := Sending target\<rparr>, m, s, w))
         | Sending target \<Rightarrow>
             (case transferChunk dial rpc (mt_Source t) (hd (mt_Chunks t)) (nt_Address target) w of
                (w', Some err) \<Rightarrow> (log_event (failed_event err (clock w') (mt_Event t)) t, m, s, w')
              | (w', None) \<Rightarrow> (t\<lparr>mt_Pc := Adding target\<rparr>, m, s, w'))
         | Adding target \<Rightarrow>
             (t\<lparr>mt_Pc := Removing target\<rparr>, m, cl_AddChunkToNode L (hd (mt_Chunks t)) (nt_NodeID target) s, w)
         | Removing target \<Rightarrow>
             (log_event ((mt_Event t)\<lparr>me_Success := True, me_Duration := clock w - me_StartedAt (mt_Event t)\<rparr>) t, m,
              cl_RemoveChunkFromNode L (hd (mt_Chunks t)) (mt_Node t) s, w)
         | Leaving keep \<Rightarrow> (t\<lparr>mt_Pc := Ended\<rparr>, mig_end (mt_Node t) (mt_Report t) keep m, s, w)
         | Refused \<Rightarrow> (t, m, s, w)
         | Ended \<Rightarrow> (t, m, s, w)))"

section \<open>A task that nobody interrupts\<close>

abbreviation mig_steps ::
  "'s ChunkLocator \<Rightarrow> (string \<Rightarrow> string option) \<Rightarrow> 'w transfer_rpc \<Rightarrow> ('w \<Rightarrow> time) \<Rightarrow>
   mig_task \<times> Migrator \<times> 's \<times> 'w \<Rightarrow> mig_task \<times> Migrator \<times> 's \<times> 'w \<Rightarrow> bool" where
  "mig_steps L dial rpc clock \<equiv> (\<lambda>x y. mig_step L dial rpc clock x = y)\<^sup>*\<^sup>*"

lemma mig_steps_step:
  "mig_step L dial rpc clock x = y \<Longrightarrow> mig_steps L dial rpc clock y z \<Longrightarrow> mig_steps L dial rpc clock x z"
  by (rule converse_rtranclp_into_rtranclp)

lemma mig_steps_last:
  "mig_steps L dial rpc clock x y \<Longrightarrow> mig_step L dial rpc clock y = z \<Longrightarrow> mig_steps L dial rpc clock x z"
  by (rule rtranclp.rtrancl_into_rtrancl)

lemma mig_steps_one: "mig_step L dial rpc clock x = y \<Longrightarrow> mig_steps L dial rpc clock x y"
  by (rule r_into_rtranclp)

text \<open>One round of the loop is \<open>migrateChunk\<close>.\<close>

lemma chunk_steps:
  assumes "mt_Pc t = Checking" "mt_Chunks t = c # cs"
    and "migrateChunk L dial rpc clock c (mt_Node t) (mt_Source t) s w = (s', w', ev)"
  shows "\<exists>ev0. mig_steps L dial rpc clock (t, m, s, w) (log_event ev (t\<lparr>mt_Event := ev0\<rparr>), m, s', w')"
proof (cases "cl_GetChunkMeta L s c")
  case None
  show ?thesis
    by (rule exI [of _ "mt_Event t"], rule r_into_rtranclp)
      (use assms None in \<open>auto simp: mig_step_def migrateChunk_def Let_def failed_event_def no_event_def\<close>)
next
  case (Some ex)
  define ev1 where "ev1 = no_event\<lparr>me_ChunkID := c, me_FromNodeID := mt_Node t, me_StartedAt := clock w\<rparr>"
  have s1: "mig_step L dial rpc clock (t, m, s, w) = (t\<lparr>mt_Event := ev1, mt_Pc := Picking ex\<rparr>, m, s, w)"
    using assms Some by (simp add: mig_step_def ev1_def Let_def)
  show ?thesis
  proof (cases "cl_GetHealthyNodeAddresses L s ex")
    case Nil
    show ?thesis
      by (rule exI [of _ ev1], rule mig_steps_step [OF s1], rule r_into_rtranclp)
        (use assms Some Nil in \<open>auto simp: mig_step_def migrateChunk_def Let_def failed_event_def no_event_def ev1_def log_event_def\<close>)
  next
    case (Cons tg ts)
    define ev2 where "ev2 = ev1\<lparr>me_ToNodeID := nt_NodeID tg, me_ToAddress := nt_Address tg,
      me_Reason := ''proactive migration from at-risk node '' @ mt_Node t @ '' (risk: '' @ fmt_f False 2 0 @ '')''\<rparr>"
    have s2: "mig_step L dial rpc clock (t\<lparr>mt_Event := ev1, mt_Pc := Picking ex\<rparr>, m, s, w) =
        (t\<lparr>mt_Event := ev2, mt_Pc := Sending tg\<rparr>, m, s, w)"
      using Cons by (simp add: mig_step_def ev2_def mt_Node_def)
    obtain w1 r where tr: "transferChunk dial rpc (mt_Source t) c (nt_Address tg) w = (w1, r)" by force
    show ?thesis
    proof (cases r)
      case None
      have s3: "mig_step L dial rpc clock (t\<lparr>mt_Event := ev2, mt_Pc := Sending tg\<rparr>, m, s, w) =
          (t\<lparr>mt_Event := ev2, mt_Pc := Adding tg\<rparr>, m, s, w1)"
        using tr None assms(2) by (simp add: mig_step_def)
      have s4: "mig_step L dial rpc clock (t\<lparr>mt_Event := ev2, mt_Pc := Adding tg\<rparr>, m, s, w1) =
          (t\<lparr>mt_Event := ev2, mt_Pc := Removing tg\<rparr>, m, cl_AddChunkToNode L c (nt_NodeID tg) s, w1)"
        using assms(2) by (simp add: mig_step_def)
      show ?thesis
        by (rule exI [of _ ev2], rule mig_steps_step [OF s1], rule mig_steps_step [OF s2], rule mig_steps_step [OF s3],
            rule mig_steps_step [OF s4], rule r_into_rtranclp)
          (use assms Some Cons tr None in \<open>auto simp: mig_step_def migrateChunk_def Let_def no_event_def ev1_def ev2_def log_event_def mt_Node_def\<close>)
    next
      case (Some err)
      show ?thesis
        by (rule exI [of _ ev2], rule mig_steps_step [OF s1], rule mig_steps_step [OF s2], rule r_into_rtranclp)
          (use assms \<open>cl_GetChunkMeta L s c = Some ex\<close> Cons tr Some in
            \<open>auto simp: mig_step_def migrateChunk_def Let_def failed_event_def no_event_def ev1_def ev2_def log_event_def mt_Node_def\<close>)
    qed
  qed
qed

lemma loop_steps:
  assumes "mt_Pc t = Checking" "mt_Chunks t = cs"
    and "migrate_loop L dial rpc clock (mt_Node t) (mt_Source t) cs s w (mt_Report t) = (s', w', rep)"
  shows "\<exists>t'. mig_steps L dial rpc clock (t, m, s, w) (t', m, s', w') \<and> mt_Pc t' = Checking \<and> mt_Chunks t' = [] \<and>
    mt_Report t' = rep \<and> mt_Prediction t' = mt_Prediction t"
  using assms
proof (induction cs arbitrary: t s w)
  case Nil
  then show ?case by auto
next
  case (Cons c cs)
  obtain s1 w1 ev where m: "migrateChunk L dial rpc clock c (mt_Node t) (mt_Source t) s w = (s1, w1, ev)" by (metis prod_cases3)
  obtain ev0 where st: "mig_steps L dial rpc clock (t, m, s, w) (log_event ev (t\<lparr>mt_Event := ev0\<rparr>), m, s1, w1)"
    using chunk_steps [OF Cons.prems(1,2) m] by blast
  let ?t = "log_event ev (t\<lparr>mt_Event := ev0\<rparr>)"
  have t: "mt_Pc ?t = Checking" "mt_Chunks ?t = cs" "mt_Source ?t = mt_Source t" "mt_Prediction ?t = mt_Prediction t"
    "mt_Node ?t = mt_Node t"
    using Cons.prems(2) by (simp_all add: log_event_def Let_def mt_Node_def)
  have "migrate_loop L dial rpc clock (mt_Node ?t) (mt_Source ?t) cs s1 w1 (mt_Report ?t) = (s', w', rep)"
    using Cons.prems(3) m by (simp add: log_event_def Let_def mt_Node_def)
  from Cons.IH [OF t(1,2) this] obtain t' where "mig_steps L dial rpc clock (?t, m, s1, w1) (t', m, s', w')"
    "mt_Pc t' = Checking" "mt_Chunks t' = []" "mt_Report t' = rep" "mt_Prediction t' = mt_Prediction ?t" by blast
  with rtranclp_trans [OF st, of "(t', m, s', w')"] t(4) show ?case by auto
qed

text \<open>From the source's address to the end of the loop, and the whole body of \<open>MigrateNode\<close> between its locks.\<close>

lemma located_steps:
  assumes "mt_Pc t = Locating" "mt_Chunks t = cs" "cl_GetNodeAddress L s (mt_Node t) = Some src"
    and "migrate_loop L dial rpc clock (mt_Node t) src cs s w (mt_Report t) = (s', w', rep)"
  shows "\<exists>t'. mig_steps L dial rpc clock (t, m, s, w) (t', m, s', w') \<and> mt_Pc t' = Leaving True \<and>
    mt_Report t' = rep\<lparr>rp_CompletedAt := clock w'\<rparr> \<and> mt_Prediction t' = mt_Prediction t"
proof -
  let ?t1 = "t\<lparr>mt_Source := src, mt_Pc := Checking\<rparr>"
  have st: "mig_step L dial rpc clock (t, m, s, w) = (?t1, m, s, w)" using assms(1,3) by (simp add: mig_step_def)
  have loop: "migrate_loop L dial rpc clock (mt_Node ?t1) (mt_Source ?t1) cs s w (mt_Report ?t1) = (s', w', rep)"
    using assms(4) by (simp add: mt_Node_def)
  obtain t2 where t2: "mig_steps L dial rpc clock (?t1, m, s, w) (t2, m, s', w')" "mt_Pc t2 = Checking" "mt_Chunks t2 = []"
    "mt_Report t2 = rep" "mt_Prediction t2 = mt_Prediction ?t1"
    using loop_steps [OF _ _ loop, of m] assms(2) by auto
  have "mig_step L dial rpc clock (t2, m, s', w') =
      (t2\<lparr>mt_Report := rep\<lparr>rp_CompletedAt := clock w'\<rparr>, mt_Pc := Leaving True\<rparr>, m, s', w')"
    using t2 by (simp add: mig_step_def)
  from mig_steps_step [OF st mig_steps_last [OF t2(1) this]] show ?thesis
    using t2(5) by (intro exI [of _ "t2\<lparr>mt_Report := rep\<lparr>rp_CompletedAt := clock w'\<rparr>, mt_Pc := Leaving True\<rparr>"]) simp
qed

lemma body_steps:
  assumes "mt_Pc t = Listing" "mt_Prediction t = p" "mt_Report t = new_report p (clock w)"
    and body: "mig_body L dial rpc clock p s w = (s', w', rep, keep)"
  shows "\<exists>t'. mig_steps L dial rpc clock (t, m, s, w) (t', m, s', w') \<and> mt_Pc t' = Leaving keep \<and>
    mt_Report t' = rep \<and> mt_Prediction t' = p"
proof -
  define cs where "cs = cl_GetChunksOnNode L s (pr_NodeID p)"
  define rep0 where "rep0 = (new_report p (clock w))\<lparr>rp_TotalChunks := int (length cs)\<rparr>"
  let ?done = "\<lambda>t keep. t\<lparr>mt_Report := rep0\<lparr>rp_CompletedAt := clock w\<rparr>, mt_Pc := Leaving keep\<rparr>"
  let ?t1 = "t\<lparr>mt_Report := rep0, mt_Chunks := cs, mt_Pc := Locating\<rparr>"
  have body: "(if cs = [] then (s, w, rep0\<lparr>rp_CompletedAt := clock w\<rparr>, True)
      else case cl_GetNodeAddress L s (pr_NodeID p) of
        None \<Rightarrow> (s, w, rep0\<lparr>rp_CompletedAt := clock w\<rparr>, False)
      | Some src \<Rightarrow> (case migrate_loop L dial rpc clock (pr_NodeID p) src cs s w rep0 of
          (s', w', r) \<Rightarrow> (s', w', r\<lparr>rp_CompletedAt := clock w'\<rparr>, True))) = (s', w', rep, keep)"
    using body unfolding mig_body_def Let_def rep0_def new_report_def cs_def by simp
  show ?thesis
  proof (cases "cs = []")
    case True
    then have "mig_step L dial rpc clock (t, m, s, w) = (?done t True, m, s, w)"
      using assms(1-3) by (simp add: mig_step_def cs_def rep0_def mt_Node_def)
    from mig_steps_one [OF this] show ?thesis using body True assms(2) by (intro exI [of _ "?done t True"]) auto
  next
    case False
    have st: "mig_step L dial rpc clock (t, m, s, w) = (?t1, m, s, w)"
      using False assms(1-3) by (simp add: mig_step_def cs_def rep0_def mt_Node_def Let_def)
    show ?thesis
    proof (cases "cl_GetNodeAddress L s (pr_NodeID p)")
      case None
      then have "mig_step L dial rpc clock (?t1, m, s, w) = (?done ?t1 False, m, s, w)"
        using assms(2) by (simp add: mig_step_def mt_Node_def)
      from mig_steps_step [OF st mig_steps_one [OF this]] show ?thesis using body False None assms(2)
        by (intro exI [of _ "?done ?t1 False"]) auto
    next
      case (Some src)
      obtain r where r: "migrate_loop L dial rpc clock (pr_NodeID p) src cs s w rep0 = (s', w', r)"
        "rep = r\<lparr>rp_CompletedAt := clock w'\<rparr>" "keep"
        using body False Some by (auto split: prod.splits)
      then obtain t2 where t2: "mig_steps L dial rpc clock (?t1, m, s, w) (t2, m, s', w')" "mt_Pc t2 = Leaving True"
        "mt_Report t2 = r\<lparr>rp_CompletedAt := clock w'\<rparr>" "mt_Prediction t2 = mt_Prediction ?t1"
        using located_steps [of ?t1 cs L s src dial rpc clock w s' w' r m] Some assms(2) by (auto simp: mt_Node_def)
      then show ?thesis using mig_steps_step [OF st t2(1)] r(2,3) assms(2) by (intro exI [of _ t2]) simp
    qed
  qed
qed

text \<open>
  the steps of a migration are \<open>MigrateNode\<close>. A task that nobody interrupts runs to its end and leaves
  the state, the world and the report that \<open>MigrateNode\<close> leaves, or is refused if one for the node is at work.
\<close>

theorem steps_are_MigrateNode:
  assumes "MigrateNode L dial rpc clock p m s w = (m', s', w', r)"
  shows "\<exists>t. mig_steps L dial rpc clock (new_task p, m, s, w) (t, m', s', w') \<and>
    (case r of None \<Rightarrow> mt_Pc t = Refused | Some report \<Rightarrow> mt_Pc t = Ended \<and> mt_Report t = report)"
proof (cases "snd (mig_begin (pr_NodeID p) m)")
  case False
  then have "mig_step L dial rpc clock (new_task p, m, s, w) = ((new_task p)\<lparr>mt_Pc := Refused\<rparr>, m', s', w')" "r = None"
    using assms by (auto simp: MigrateNode_def mig_step_def new_task_def mt_Node_def split: prod.splits bool.splits)
  then show ?thesis by (force intro: r_into_rtranclp)
next
  case True
  then obtain m1 where m1: "mig_begin (pr_NodeID p) m = (m1, True)" by (metis prod.collapse)
  obtain s2 w2 rep keep where body: "mig_body L dial rpc clock p s w = (s2, w2, rep, keep)" by (metis prod_cases4)
  have res: "m' = mig_end (pr_NodeID p) rep keep m1" "s' = s2" "w' = w2" "r = Some rep"
    using assms m1 body by (simp_all add: MigrateNode_def)
  let ?t1 = "(new_task p)\<lparr>mt_Pc := Listing, mt_Report := new_report p (clock w)\<rparr>"
  have enter: "mig_step L dial rpc clock (new_task p, m, s, w) = (?t1, m1, s, w)"
    using m1 by (simp add: mig_step_def new_task_def mt_Node_def)
  obtain t where t: "mig_steps L dial rpc clock (?t1, m1, s, w) (t, m1, s', w')" "mt_Pc t = Leaving keep"
    "mt_Report t = rep" "mt_Prediction t = p"
    using body_steps [OF _ _ _ body, of ?t1 m1] res by (auto simp: new_task_def)
  have "mig_step L dial rpc clock (t, m1, s', w') = (t\<lparr>mt_Pc := Ended\<rparr>, m', s', w')"
    using t(2-4) res(1) by (simp add: mig_step_def mt_Node_def)
  from mig_steps_step [OF enter mig_steps_last [OF t(1) this]] show ?thesis
    using t(3) res(4) by (intro exI [of _ "t\<lparr>mt_Pc := Ended\<rparr>"]) simp
qed

text \<open>A node \<open>a\<close> with one chunk, and one healthy node \<open>b\<close>.\<close>

definition demo_locator :: "(string \<times> string list) list ChunkLocator" where
  "demo_locator =
     \<lparr>cl_GetChunksOnNode = (\<lambda>s n. map fst (filter (\<lambda>(c, ns). n \<in> set ns) s)), cl_GetChunkMeta = map_of,
      cl_GetHealthyNodeAddresses = (\<lambda>s ex. if ''b'' \<in> set ex then [] else [\<lparr>nt_NodeID = ''b'', nt_Address = ''b:1''\<rparr>]),
      cl_AddChunkToNode = (\<lambda>c n s. map (\<lambda>(d, ns). (d, if d = c then ns @ [n] else ns)) s),
      cl_RemoveChunkFromNode = (\<lambda>c n s. map (\<lambda>(d, ns). (d, if d = c then remove1 n ns else ns)) s),
      cl_GetNodeAddress = (\<lambda>s n. Some (n @ '':1''))\<rparr>"

definition demo_prediction :: PredictionResult where
  "demo_prediction = \<lparr>pr_NodeID = ''a'', pr_OverallRisk = 1, pr_Status = StatusCritical, pr_MetricRisks = [],
     pr_Reasons = [], pr_PredictedAt = 0\<rparr>"

theorem steps_are_MigrateNode_witness:
  "\<exists>t m'. mig_steps demo_locator (\<lambda>_. None) (\<lambda>_ _ _ w. (w + 1, Inr (True, ''''))) (\<lambda>w. w)
     (new_task demo_prediction, NewMigrator, [(''c'', [''a''])], 5) (t, m', [(''c'', [''b''])], 6) \<and>
     mt_Pc t = Ended \<and> rp_MigratedChunks (mt_Report t) = 1"
proof -
  let ?run = "MigrateNode demo_locator (\<lambda>_. None) (\<lambda>_ _ _ w. (w + 1, Inr (True, ''''))) (\<lambda>w. w) demo_prediction NewMigrator [(''c'', [''a''])] 5"
  obtain m' s' w' r where run: "?run = (m', s', w', r)" by (metis prod_cases4)
  have "snd (mig_begin ''a'' NewMigrator)" by (simp add: mig_begin_def NewMigrator_def)
  then have "s' = [(''c'', [''b''])] \<and> w' = 6 \<and> (\<exists>rep. r = Some rep \<and> rp_MigratedChunks rep = 1)"
    using run by (auto simp: MigrateNode_def mig_body_def demo_locator_def demo_prediction_def Let_def migrateChunk_def transferChunk_def split: prod.splits bool.splits)
  then show ?thesis using steps_are_MigrateNode [OF run] by fastforce
qed

end
