(* ===== verification/Concurrent.thy ===== *)
theory Concurrent
  imports Cluster Migrate_Steps
begin

text \<open>
  The cluster with everything in flight at once. Uploads, downloads and migrations are tasks that take one
  step at a time: one RPC to a data node, or one call of the metadata; between any two steps anything else
  may happen. (A handler of the metadata server is one step.) Two ghost components remember what was
  put: \<open>cc_data\<close>, the data that belongs to a chunk ID, and \<open>cc_reg\<close>, the put that wrote the file
  that is now at a path.

  No disk fails in the middle of a write (\<open>untorn\<close>: a write is refused at once or is done); requests and
  replies get lost at will, reads fail, nodes restart.
\<close>

section \<open>Tasks and states\<close>

text \<open>The goroutines of a transfer without their world, and put into one.\<close>

definition up_at :: "'w \<Rightarrow> 'v upload \<Rightarrow> 'w upload" where
  "up_at w u = \<lparr>up_Senders = up_Senders u, up_Errors = up_Errors u, up_Panic = up_Panic u, up_World = w\<rparr>"

definition dl_at :: "'w \<Rightarrow> 'v download \<Rightarrow> 'w download" where
  "dl_at w u = \<lparr>dl_Fetchers = dl_Fetchers u, dl_Results = dl_Results u, dl_Errors = dl_Errors u, dl_Panic = dl_Panic u, dl_World = w\<rparr>"

lemma dl_at_world [simp]: "dl_World (dl_at w u) = w" "up_World (up_at w v) = w"
  by (simp_all add: dl_at_def up_at_def)

record put_task =
  pt_Path :: string
  pt_Chunks :: "bytes list"
  pt_Up :: "unit upload"

lemma up_at_same [simp]: "p\<lparr>pt_Up := up_at () (up_at w (pt_Up p))\<rparr> = p"
  by (cases p; cases "pt_Up p") (simp add: up_at_def)

record get_task =
  gt_From :: "nat option"
  gt_Down :: "unit download"

record conc =
  cc_sv :: Server
  cc_w :: World
  cc_puts :: "put_task list"
  cc_gets :: "get_task list"
  cc_migs :: "mig_task list"
  cc_reg :: "string list \<Rightarrow> nat option"
  cc_data :: "string \<Rightarrow> bytes option"

definition conc_start :: conc where
  "conc_start = \<lparr>cc_sv = NewServer, cc_w = \<lparr>w_nodes = [], w_calls = 0\<rparr>, cc_puts = [], cc_gets = [], cc_migs = [],
     cc_reg = Map.empty, cc_data = Map.empty\<rparr>"

definition untorn :: "env \<Rightarrow> bool" where
  "untorn env \<longleftrightarrow> (\<forall>t a n e. en_write env t a \<noteq> WriteFault n e)"

definition start_put :: "string \<Rightarrow> bytes list \<Rightarrow> ChunkPlacement list \<Rightarrow> put_task" where
  "start_put path chunks placements = \<lparr>pt_Path = path, pt_Chunks = chunks,
     pt_Up = \<lparr>up_Senders = start_senders chunks placements, up_Errors = [], up_Panic = False, up_World = ()\<rparr>\<rparr>"

definition start_get :: "nat option \<Rightarrow> ChunkLocation list \<Rightarrow> get_task" where
  "start_get i locs = \<lparr>gt_From = i,
     gt_Down = \<lparr>dl_Fetchers = start_fetchers locs, dl_Results = [], dl_Errors = [], dl_Panic = False, dl_World = ()\<rparr>\<rparr>"

text \<open>What a put of the given chunks adds to \<open>cc_data\<close>.\<close>

definition add_data :: "(string \<times> bytes) list \<Rightarrow> (string \<Rightarrow> bytes option) \<Rightarrow> string \<Rightarrow> bytes option" where
  "add_data new D = D ++ map_of new"

text \<open>The chunk files in the data directory of a node hold what was put under their IDs.\<close>

definition node_files :: "(string \<Rightarrow> bytes option) \<Rightarrow> node \<Rightarrow> bool" where
  "node_files D n \<longleftrightarrow>
     (\<forall>c d. no_slash c \<longrightarrow> map_of (snd n) (cs_chunkPath (ds_store (fst n)) c) = Some d \<longrightarrow> D c = Some d)"

section \<open>Steps\<close>

text \<open>
  A put whose answer reaches the client (\<open>put\<close>) starts an upload; its chunk IDs were not used for other data
  before. A put that fails, or whose answer is lost (\<open>put_lost\<close>), changes the metadata all the same.
  \<open>GetChunkMeta\<close> hands the migrator the live slice of node IDs, which other goroutines shift in place; so
  the nodes that a migration excludes may change under it, here to anything (\<open>race\<close>).
\<close>

inductive conc_step :: "(bytes \<Rightarrow> bytes) \<Rightarrow> bytes set \<Rightarrow> conc \<Rightarrow> conc \<Rightarrow> bool" for sha K where
  put: "perm_iter it \<Longrightarrow> sort_slice srt \<Longrightarrow>
    readAndChunkFile sha lf localPath = Inr (chunks, fsize, ck) \<Longrightarrow> int (length chunks) < 2 ^ 31 \<Longrightarrow>
    \<forall>i<length chunks. chunk_key path (int i) \<in> K \<Longrightarrow>
    ids = chunk_ids sha path (int (length chunks)) \<Longrightarrow>
    \<forall>k<length chunks. cc_data x (ids ! k) \<in> {None, Some (chunks ! k)} \<Longrightarrow>
    sv_PutFile it srt sha now \<lparr>pf_Path = path, pf_FileSize = fsize, pf_ChunkCount = int (length chunks), pf_Checksum = ck\<rparr>
      (cc_sv x) = (s', Some resp) \<Longrightarrow> pfr_Success resp \<Longrightarrow>
    conc_step sha K x (x\<lparr>cc_sv := s', cc_puts := cc_puts x @ [start_put path chunks (pfr_Placements resp)],
      cc_reg := (cc_reg x)(ns_target path \<mapsto> length (cc_puts x)), cc_data := add_data (zip ids chunks) (cc_data x)\<rparr>)"
| put_lost: "perm_iter it \<Longrightarrow> sort_slice srt \<Longrightarrow>
    \<forall>i<nat (pf_ChunkCount req). chunk_key (pf_Path req) (int i) \<in> K \<Longrightarrow>
    sv_PutFile it srt sha now req (cc_sv x) = (s', Some resp) \<Longrightarrow>
    conc_step sha K x (x\<lparr>cc_sv := s', cc_reg := (cc_reg x)(ns_target (pf_Path req) := None)\<rparr>)"
| send: "untorn env \<Longrightarrow> j < length (cc_puts x) \<Longrightarrow>
    u = upload_step dial sha (net_StoreChunk env sha) i (up_at (cc_w x) (pt_Up (cc_puts x ! j))) \<Longrightarrow>
    conc_step sha K x (x\<lparr>cc_w := up_World u, cc_puts := (cc_puts x)[j := (cc_puts x ! j)\<lparr>pt_Up := up_at () u\<rparr>]\<rparr>)"
| get: "sv_GetFile path (cc_sv x) = Some resp \<Longrightarrow> gfr_Success resp \<Longrightarrow> gfr_FileInfo resp \<noteq> None \<Longrightarrow> plain path \<Longrightarrow>
    conc_step sha K x (x\<lparr>cc_gets := cc_gets x @ [start_get (cc_reg x (ns_target path)) (gfr_ChunkLocations resp)]\<rparr>)"
| fetch: "j < length (cc_gets x) \<Longrightarrow>
    u = download_step dial sha (net_GetChunk env sha) i (dl_at (cc_w x) (gt_Down (cc_gets x ! j))) \<Longrightarrow>
    conc_step sha K x (x\<lparr>cc_w := dl_World u, cc_gets := (cc_gets x)[j := (cc_gets x ! j)\<lparr>gt_Down := dl_at () u\<rparr>]\<rparr>)"
| delete: "sv_DeleteFile it path (cc_sv x) = (s', Some resp) \<Longrightarrow>
    conc_step sha K x (x\<lparr>cc_sv := s', cc_reg := (cc_reg x)(ns_target path := None)\<rparr>)"
| register: "perm_iter it \<Longrightarrow> conc_step sha K x (x\<lparr>cc_sv := fst (sv_RegisterNode it now address capacity (cc_sv x))\<rparr>)"
| heartbeat: "conc_step sha K x (x\<lparr>cc_sv := fst (sv_Heartbeat now hb (cc_sv x))\<rparr>)"
| report: "conc_step sha K x (x\<lparr>cc_sv := fst (sv_ReportHealth metrics (cc_sv x))\<rparr>)"
| dead_check: "conc_step sha K x (x\<lparr>cc_sv := deadNodeChecker_tick it now (cc_sv x)\<rparr>)"
| predict: "predictionLoop_tick it now (cc_sv x) = (s', critical) \<Longrightarrow>
    conc_step sha K x (x\<lparr>cc_sv := s', cc_migs := cc_migs x @ map new_task critical\<rparr>)"
| migrate: "untorn env \<Longrightarrow> perm_iter it \<Longrightarrow> j < length (cc_migs x) \<Longrightarrow>
    mig_step (ChunkManagerAdapter it) dial (net_TransferChunk env sha) clock
      (cc_migs x ! j, sv_migrator (cc_sv x), sv_chunkMgr (cc_sv x), cc_w x) = (t', m', cm', w') \<Longrightarrow>
    conc_step sha K x (x\<lparr>cc_sv := (cc_sv x)\<lparr>sv_migrator := m', sv_chunkMgr := cm'\<rparr>, cc_w := w',
      cc_migs := (cc_migs x)[j := t']\<rparr>)"
| race: "j < length (cc_migs x) \<Longrightarrow> mt_Pc (cc_migs x ! j) = Picking ex \<Longrightarrow>
    conc_step sha K x (x\<lparr>cc_migs := (cc_migs x)[j := (cc_migs x ! j)\<lparr>mt_Pc := Picking ex'\<rparr>]\<rparr>)"
| join: "map_of (w_nodes (cc_w x)) a = None \<Longrightarrow> cs_inv (ds_store (fst n)) \<Longrightarrow>
    node_files (cc_data x) n \<Longrightarrow>
    conc_step sha K x (x\<lparr>cc_w := (cc_w x)\<lparr>w_nodes := AList.update a n (w_nodes (cc_w x))\<rparr>\<rparr>)"
| restart: "restarted sha a (cc_w x) w' \<Longrightarrow> conc_step sha K x (x\<lparr>cc_w := w'\<rparr>)"

inductive conc_reachable :: "(bytes \<Rightarrow> bytes) \<Rightarrow> bytes set \<Rightarrow> conc \<Rightarrow> bool" for sha K where
  start: "conc_reachable sha K conc_start"
| step: "conc_reachable sha K x \<Longrightarrow> conc_step sha K x y \<Longrightarrow> conc_reachable sha K y"

inductive_cases conc_stepE: "conc_step sha K x y"

section \<open>What the data nodes keep\<close>

definition world_ok :: "(string \<Rightarrow> bytes option) \<Rightarrow> World \<Rightarrow> bool" where
  "world_ok D w \<longleftrightarrow> net_inv w \<and> (\<forall>a n. map_of (w_nodes w) a = Some n \<longrightarrow> node_files D n)"

definition held_le :: "(bytes \<Rightarrow> bytes) \<Rightarrow> World \<Rightarrow> World \<Rightarrow> bool" where
  "held_le sha w w' \<longleftrightarrow> (\<forall>a c d. net_holds sha w a c = Some d \<longrightarrow> net_holds sha w' a c = Some d)"

lemma held_le_refl [simp]: "held_le sha w w"
  by (simp add: held_le_def)

lemma held_le_same [intro]: "net_holds sha w' = net_holds sha w \<Longrightarrow> held_le sha w w'"
  by (simp add: held_le_def)

lemma world_ok_nodes: "w_nodes w' = w_nodes w \<Longrightarrow> world_ok D w' \<longleftrightarrow> world_ok D w"
  by (simp add: world_ok_def net_inv_def)

lemma holds_nodes: "w_nodes w' = w_nodes w \<Longrightarrow> net_holds sha w' = net_holds sha w"
  by (simp add: net_holds_def fun_eq_iff)

text \<open>Nodes serve what was put.\<close>

lemma holds_data:
  assumes "world_ok D w" "net_holds sha w a c = Some d"
  shows "D c = Some d"
proof -
  obtain s dk where n: "map_of (w_nodes w) a = Some (s, dk)" and h: "cs_holds sha (ds_store s, dk) c = Some d"
    using assms(2) by (auto simp: net_holds_def split: option.splits)
  have i: "cs_inv (ds_store s)" "node_files D (s, dk)" using assms(1) n by (fastforce simp: world_ok_def net_inv_def)+
  obtain m where m: "map_of (cs_chunks (ds_store s)) c = Some m" "map_of dk (stc_FilePath m) = Some d"
    using h by (auto simp: holds_iff)
  show ?thesis using i(2) m(2) cs_inv_path [OF i(1) m(1)] cs_inv_slash [OF i(1) m(1)] by (simp add: node_files_def)
qed

lemma store_node:
  assumes "cs_inv (ds_store s)" "node_files D (s, d)" "no_slash c" "D c = Some data" "\<And>k e. fault \<noteq> WriteFault k e"
    and "ds_StoreChunk fault sha \<lparr>sc_ChunkId = c, sc_Data = data, sc_Checksum = DataChecksum sha data\<rparr> (s, d) = (n', resp)"
  shows "cs_inv (ds_store (fst n'))" "node_files D n'"
    and "cs_holds sha (ds_store (fst n'), snd n') \<in> {cs_holds sha (ds_store s, d), (cs_holds sha (ds_store s, d))(c \<mapsto> data)}"
proof -
  have "(cs_inv (ds_store (fst n')) \<and> node_files D n') \<and>
    cs_holds sha (ds_store (fst n'), snd n') \<in> {cs_holds sha (ds_store s, d), (cs_holds sha (ds_store s, d))(c \<mapsto> data)}"
  proof (cases fault)
    case NoFault
    obtain cs d' where st: "cs_StoreChunk NoFault sha c data (DataChecksum sha data) (ds_store s, d) = ((cs, d'), None)"
      and n': "n' = (s\<lparr>ds_store := cs\<rparr>, d')"
      and d': "d' = AList.update (cs_chunkPath (ds_store s) c) data d" and dir: "cs_dataDir cs = cs_dataDir (ds_store s)"
      using assms(6) NoFault by (auto simp: ds_StoreChunk_def cs_StoreChunk_def Let_def)
    have "cs_inv (ds_store (fst n'))" using cs_inv_store [OF assms(1,3) st] by (simp add: n')
    moreover have "cs_holds sha (ds_store (fst n'), snd n') = (cs_holds sha (ds_store s, d))(c \<mapsto> data)"
      using store_holds [OF assms(1,3) st] by (simp add: n')
    moreover have "node_files D n'"
      using assms(2,3,4) by (auto simp: node_files_def n' d' chunkPath_same [OF dir] chunk_path_inj split: if_splits)
    ultimately show ?thesis by blast
  next
    case (OpenFault e)
    then have "n' = (s, d)" using assms(6) by (auto simp: ds_StoreChunk_def cs_StoreChunk_def Let_def)
    then show ?thesis using assms(1,2) by simp
  qed (use assms(5) in blast)
  then show "cs_inv (ds_store (fst n'))" "node_files D n'"
    "cs_holds sha (ds_store (fst n'), snd n') \<in> {cs_holds sha (ds_store s, d), (cs_holds sha (ds_store s, d))(c \<mapsto> data)}"
    by blast+
qed

lemma net_store_runs:
  assumes "net_StoreChunk env sha a req w = (w', r)"
  shows "w_nodes w' = w_nodes w \<or> (\<exists>n n' resp. map_of (w_nodes w) a = Some n \<and>
    ds_StoreChunk (en_write env (w_calls w) a) sha req n = (n', resp) \<and> w_nodes w' = AList.update a n' (w_nodes w))"
  using assms by (auto simp: net_StoreChunk_def Let_def split: option.splits if_splits rpc_fault.splits prod.splits)

lemma store_keeps:
  assumes "untorn env" "world_ok D w" "no_slash c" "D c = Some data"
    and "net_StoreChunk env sha a \<lparr>sc_ChunkId = c, sc_Data = data, sc_Checksum = DataChecksum sha data\<rparr> w = (w', r)"
  shows "world_ok D w'" "held_le sha w w'" "r = Inr resp \<Longrightarrow> scr_Success resp \<Longrightarrow> net_holds sha w' a c = Some data"
proof -
  let ?req = "\<lparr>sc_ChunkId = c, sc_Data = data, sc_Checksum = DataChecksum sha data\<rparr>"
  have ns: "no_slash (sc_ChunkId ?req)" using assms(3) by simp
  show "r = Inr resp \<Longrightarrow> scr_Success resp \<Longrightarrow> net_holds sha w' a c = Some data"
    using dn.store_done [OF _ ns] assms(2,5) by (fastforce simp: world_ok_def)
  have "\<forall>k e. en_write env (w_calls w) a \<noteq> WriteFault k e" using assms(1) by (simp add: untorn_def)
  then have "w_nodes w' = w_nodes w \<or> (\<exists>f s d n' resp'. (\<forall>k e. f \<noteq> WriteFault k e) \<and> map_of (w_nodes w) a = Some (s, d) \<and>
      ds_StoreChunk f sha ?req (s, d) = (n', resp') \<and> w_nodes w' = AList.update a n' (w_nodes w))"
    using net_store_runs [OF assms(5)] by (metis prod.exhaust)
  then show "world_ok D w'" "held_le sha w w'"
  proof (atomize (full), elim disjE exE conjE)
    assume "w_nodes w' = w_nodes w"
    then show "world_ok D w' \<and> held_le sha w w'" using assms(2) world_ok_nodes holds_nodes by blast
  next
    fix f s d n' resp'
    assume f: "\<forall>k e. f \<noteq> WriteFault k e" and n: "map_of (w_nodes w) a = Some (s, d)"
      and w': "w_nodes w' = AList.update a n' (w_nodes w)" and st: "ds_StoreChunk f sha ?req (s, d) = (n', resp')"
    have i: "cs_inv (ds_store s)" "node_files D (s, d)" using assms(2) n by (fastforce simp: world_ok_def net_inv_def)+
    have f': "\<And>k e. f \<noteq> WriteFault k e" using f by blast
    note sc = store_node [OF i assms(3,4) f' st]
    have "net_holds sha w' b e = Some x" if h: "net_holds sha w b e = Some x" for b e x
    proof -
      have "D e = Some x" by (rule holds_data [OF assms(2) h])
      then show ?thesis using n w' sc(3) h assms(4) by (auto simp: net_holds_def case_prod_beta split: if_splits)
    qed
    then have "held_le sha w w'" by (simp add: held_le_def)
    then show "world_ok D w' \<and> held_le sha w w'" using assms(2) w' sc(1,2) by (auto simp: world_ok_def net_inv_def)
  qed
qed

text \<open>A transfer copies what was put.\<close>

lemma transfer_keeps:
  assumes "untorn env" "world_ok D w" "no_slash c" "net_TransferChunk env sha src c tgt w = (w', r)"
  shows "world_ok D w'" "held_le sha w w'" "r = Inr (True, msg) \<Longrightarrow> net_holds sha w' tgt c \<noteq> None"
proof -
  show "r = Inr (True, msg) \<Longrightarrow> net_holds sha w' tgt c \<noteq> None"
    using net_transfer [OF _ assms(3,4)] assms(2) by (auto simp: world_ok_def)
  let ?w = "w\<lparr>w_calls := w_calls w + 1\<rparr>"
  have same: "world_ok D ?w" "net_holds sha ?w = net_holds sha w" using assms(2) world_ok_nodes [of ?w w] holds_nodes [of ?w w] by auto
  have "w' = ?w \<or> (\<exists>data r'. net_holds sha w src c = Some data \<and>
      net_StoreChunk env sha tgt \<lparr>sc_ChunkId = c, sc_Data = data, sc_Checksum = DataChecksum sha data\<rparr> ?w = (w', r'))"
    using assms(4)
    by (auto simp: net_TransferChunk_def Let_def ds_TransferChunk_def net_holds_def
        split: option.splits if_splits rpc_fault.splits prod.splits sum.splits dest!: GetChunk_holds)
  then show "world_ok D w'" "held_le sha w w'"
  proof (atomize (full), elim disjE exE conjE)
    assume "w' = ?w"
    then show "world_ok D w' \<and> held_le sha w w'" using same by auto
  next
    fix data r'
    assume h: "net_holds sha w src c = Some data"
      and st: "net_StoreChunk env sha tgt \<lparr>sc_ChunkId = c, sc_Data = data, sc_Checksum = DataChecksum sha data\<rparr> ?w = (w', r')"
    from store_keeps(1,2) [OF assms(1) same(1) assms(3) holds_data [OF assms(2) h] st]
    show "world_ok D w' \<and> held_le sha w w'" using same(2) unfolding held_le_def by simp
  qed
qed

lemma fetch_same:
  assumes "fetchChunkFromNode dial sha (net_GetChunk env sha) a c w = (w', r)"
  shows "w_nodes w' = w_nodes w" "net_inv w \<Longrightarrow> r = Inr data \<Longrightarrow> net_holds sha w a c = Some data"
proof -
  show "w_nodes w' = w_nodes w"
    using assms by (auto simp: fetchChunkFromNode_def split: option.splits prod.splits sum.splits dest: net_get_keeps)
  show "net_inv w \<Longrightarrow> r = Inr data \<Longrightarrow> net_holds sha w a c = Some data"
    using dn.fetch_cases [OF _ assms] by blast
qed

text \<open>A restart keeps the files.\<close>

lemma restart_world:
  assumes "world_ok D w" "restarted sha a w w'"
  shows "world_ok D w'" "held_le sha w w'"
proof -
  have inv: "net_inv w" using assms(1) by (simp add: world_ok_def)
  note k = restart_keeps [OF inv assms(2)]
  show "held_le sha w w'" using k(2) by (simp add: held_le_def)
  obtain s d es rnd port adminPort metaAddr capacity adv s' where n: "map_of (w_nodes w) a = Some (s, d)"
    and new: "ds_NewServer None (\<lambda>_. None) sha (Inr es) rnd port adminPort metaAddr (cs_dataDir (ds_store s)) capacity adv d = Inr s'"
    and w': "w' = w\<lparr>w_nodes := AList.update a (s', d) (w_nodes w)\<rparr>"
    using assms(2) unfolding restarted_def by blast
  have "cs_dataDir (ds_store s') = cs_dataDir (ds_store s)"
    using new by (auto simp: ds_NewServer_def NewChunkStore_def cs_loadExisting_def load_fold_dir Let_def split: sum.splits option.splits if_splits)
  then have "node_files D (s, d) \<Longrightarrow> node_files D (s', d)" by (simp add: node_files_def cs_chunkPath_def)
  then show "world_ok D w'" using assms(1) k(1) n by (auto simp: world_ok_def w')
qed

section \<open>The invariant\<close>

abbreviation pt_id :: "(bytes \<Rightarrow> bytes) \<Rightarrow> put_task \<Rightarrow> nat \<Rightarrow> string" where
  "pt_id sha p k \<equiv> GenerateChunkID sha (pt_Path p) (int k)"

text \<open>A sender sends one of the chunks of its put; one that ended without an error has stored it everywhere.\<close>

definition put_ok :: "(bytes \<Rightarrow> bytes) \<Rightarrow> (string \<Rightarrow> bytes option) \<Rightarrow> put_task \<Rightarrow> bool" where
  "put_ok sha D p \<longleftrightarrow> int (length (pt_Chunks p)) < 2 ^ 31 \<and> length (up_Senders (pt_Up p)) = length (pt_Chunks p) \<and>
     (\<forall>k<length (pt_Chunks p). sn_ChunkId (up_Senders (pt_Up p) ! k) = pt_id sha p k \<and>
        sn_Data (up_Senders (pt_Up p) ! k) = pt_Chunks p ! k \<and> D (pt_id sha p k) = Some (pt_Chunks p ! k) \<and>
        (sn_Ended (up_Senders (pt_Up p) ! k) \<longrightarrow> sn_Todo (up_Senders (pt_Up p) ! k) = [] \<or> up_Errors (pt_Up p) \<noteq> []))"

text \<open>What a node that is listed for chunk \<open>k\<close> of a put has, or will get if the put goes on.\<close>

definition served :: "(bytes \<Rightarrow> bytes) \<Rightarrow> World \<Rightarrow> put_task \<Rightarrow> nat \<Rightarrow> string \<Rightarrow> bool" where
  "served sha w p k a \<longleftrightarrow>
     net_holds sha w a (pt_id sha p k) = Some (pt_Chunks p ! k) \<or>
     a \<in> set (sn_Todo (up_Senders (pt_Up p) ! k)) \<or> up_Errors (pt_Up p) \<noteq> []"

definition chunk_reg :: "(bytes \<Rightarrow> bytes) \<Rightarrow> ChunkManager \<Rightarrow> World \<Rightarrow> put_task \<Rightarrow> nat \<Rightarrow> bool" where
  "chunk_reg sha cm w p k \<longleftrightarrow> chunk_index cm (pt_id sha p k) = Some (int k) \<and>
     (\<forall>n\<in>set (replicas cm (pt_id sha p k)). \<forall>a. addr_of cm n = Some a \<longrightarrow> served sha w p k a)"

definition reg_ok :: "(bytes \<Rightarrow> bytes) \<Rightarrow> Server \<Rightarrow> World \<Rightarrow> string list \<Rightarrow> put_task \<Rightarrow> bool" where
  "reg_ok sha s w ps p \<longleftrightarrow> ns_target (pt_Path p) = ps \<and>
     (\<exists>f. ns_files (sv_namespace s) ps = Some f \<and> fm_Path f = pt_Path p \<and> fm_ChunkCount f = int (length (pt_Chunks p))) \<and>
     (\<forall>k<length (pt_Chunks p). chunk_reg sha (sv_chunkMgr s) w p k)"

text \<open>A migration has a real target, and adds it to the metadata only when it holds the chunk.\<close>

definition mig_task_ok :: "(bytes \<Rightarrow> bytes) \<Rightarrow> ChunkManager \<Rightarrow> World \<Rightarrow> mig_task \<Rightarrow> bool" where
  "mig_task_ok sha cm w t \<longleftrightarrow> (\<forall>c\<in>set (mt_Chunks t). no_slash c) \<and>
     (case mt_Pc t of
        Picking ex \<Rightarrow> mt_Chunks t \<noteq> []
      | Sending tg \<Rightarrow> mt_Chunks t \<noteq> [] \<and> addr_of cm (nt_NodeID tg) = Some (nt_Address tg)
      | Adding tg \<Rightarrow> mt_Chunks t \<noteq> [] \<and> addr_of cm (nt_NodeID tg) = Some (nt_Address tg) \<and>
          net_holds sha w (nt_Address tg) (hd (mt_Chunks t)) \<noteq> None
      | Removing tg \<Rightarrow> mt_Chunks t \<noteq> []
      | _ \<Rightarrow> True)"

text \<open>A reader of the file of put \<open>p\<close> has fetched the chunks of \<open>p\<close>.\<close>

definition get_ok :: "(bytes \<Rightarrow> bytes) \<Rightarrow> put_task \<Rightarrow> 'w download \<Rightarrow> bool" where
  "get_ok sha p u \<longleftrightarrow> length (dl_Fetchers u) = length (pt_Chunks p) \<and>
     (\<forall>k<length (pt_Chunks p). ft_ChunkId (dl_Fetchers u ! k) = pt_id sha p k \<and> ft_Index (dl_Fetchers u ! k) = int k) \<and>
     (dl_Errors u = [] \<longrightarrow> mset (dl_Results u) = image_mset (\<lambda>k. \<lparr>cr_Index = int k, cr_Data = pt_Chunks p ! k\<rparr>)
        (mset_set {k. k < length (pt_Chunks p) \<and> ft_Ended (dl_Fetchers u ! k)}))"

definition conc_inv :: "(bytes \<Rightarrow> bytes) \<Rightarrow> bytes set \<Rightarrow> conc \<Rightarrow> bool" where
  "conc_inv sha K x \<longleftrightarrow> sv_inv sha K (cc_sv x) \<and> world_ok (cc_data x) (cc_w x) \<and> ids_plain (sv_chunkMgr (cc_sv x)) \<and>
     (\<forall>p\<in>set (cc_puts x). put_ok sha (cc_data x) p) \<and>
     (\<forall>ps i. cc_reg x ps = Some i \<longrightarrow> i < length (cc_puts x) \<and> reg_ok sha (cc_sv x) (cc_w x) ps (cc_puts x ! i)) \<and>
     (\<forall>g\<in>set (cc_gets x). \<forall>i. gt_From g = Some i \<longrightarrow> i < length (cc_puts x) \<and> get_ok sha (cc_puts x ! i) (gt_Down g)) \<and>
     (\<forall>t\<in>set (cc_migs x). mig_task_ok sha (sv_chunkMgr (cc_sv x)) (cc_w x) t)"

lemma conc_inv_reg:
  "conc_inv sha K x \<Longrightarrow> cc_reg x ps = Some i \<Longrightarrow>
   i < length (cc_puts x) \<and> reg_ok sha (cc_sv x) (cc_w x) ps (cc_puts x ! i) \<and> put_ok sha (cc_data x) (cc_puts x ! i)"
  by (simp add: conc_inv_def)

lemma conc_inv_get:
  "conc_inv sha K x \<Longrightarrow> g \<in> set (cc_gets x) \<Longrightarrow> gt_From g = Some i \<Longrightarrow>
   i < length (cc_puts x) \<and> get_ok sha (cc_puts x ! i) (gt_Down g) \<and> put_ok sha (cc_data x) (cc_puts x ! i)"
  by (simp add: conc_inv_def)

lemma in_updateD: "x \<in> set (xs[j := y]) \<Longrightarrow> x = y \<or> x \<in> set xs"
  using set_update_subset_insert [of xs j y] by blast

section \<open>Uploads\<close>

lemma sendChunk_keeps:
  assumes env: "untorn env" and w: "world_ok D w" and c: "no_slash c" and d: "D c = Some data"
    and s: "sendChunkToNode dial (net_StoreChunk env sha) b c data (DataChecksum sha data) w = (w1, r)"
  shows "world_ok D w1" "held_le sha w w1" "r = None \<Longrightarrow> net_holds sha w1 b c = Some data"
proof -
  have "w1 = w \<and> r \<noteq> None \<or> (\<exists>v. net_StoreChunk env sha b \<lparr>sc_ChunkId = c, sc_Data = data,
      sc_Checksum = DataChecksum sha data\<rparr> w = (w1, v) \<and> (r = None \<longrightarrow> (\<exists>resp. v = Inr resp \<and> scr_Success resp)))"
    using s by (auto simp: sendChunkToNode_def split: option.splits prod.splits sum.splits if_splits)
  then show "world_ok D w1" "held_le sha w w1" "r = None \<Longrightarrow> net_holds sha w1 b c = Some data"
    using store_keeps [OF env w c d] w by (metis held_le_refl)+
qed

lemma send_step:
  assumes "put_ok sha D p" "world_ok D w" "untorn env"
    and u: "u = upload_step dial sha (net_StoreChunk env sha) i (up_at w (pt_Up p))" and p': "p' = p\<lparr>pt_Up := up_at () u\<rparr>"
  shows "world_ok D (up_World u)" "held_le sha w (up_World u)" "put_ok sha D p'"
    and "k < length (pt_Chunks p) \<Longrightarrow> served sha w p k a \<Longrightarrow> served sha (up_World u) p' k a"
proof -
  let ?U = "pt_Up p" and ?t = "up_Senders (pt_Up p) ! i"
  have "world_ok D (up_World u) \<and> held_le sha w (up_World u) \<and> put_ok sha D p' \<and>
    (\<forall>k a. k < length (pt_Chunks p) \<longrightarrow> served sha w p k a \<longrightarrow> served sha (up_World u) p' k a)"
  proof (cases "up_Panic ?U \<or> length (up_Senders ?U) \<le> i \<or> sn_Ended ?t")
    case True
    then have u2: "u = up_at w ?U" by (auto simp: u upload_step_def up_at_def)
    then have "p' = p" by (simp add: p')
    then show ?thesis using assms(1,2) u2 by (simp add: up_at_def)
  next
    case False
    have len: "length (up_Senders ?U) = length (pt_Chunks p)" using assms(1) by (simp add: put_ok_def)
    then have i: "i < length (pt_Chunks p)" using False by simp
    have t: "sn_ChunkId ?t = pt_id sha p i" "sn_Data ?t = pt_Chunks p ! i" "D (pt_id sha p i) = Some (pt_Chunks p ! i)"
      using assms(1) i by (simp_all add: put_ok_def)
    show ?thesis
    proof (cases "sn_Todo ?t")
      case Nil
      then have "u = (up_at w ?U)\<lparr>up_Panic := True\<rparr> \<or> u = (up_at w ?U)\<lparr>up_Senders := (up_Senders ?U)[i := ?t\<lparr>sn_Ended := True\<rparr>]\<rparr>"
        using False by (simp add: u upload_step_def up_at_def Let_def)
      then show ?thesis using assms(1,2) Nil len i
        by (auto simp: p' up_at_def put_ok_def served_def nth_list_update split: if_splits)
    next
      case (Cons b rest)
      obtain w1 r where s: "sendChunkToNode dial (net_StoreChunk env sha) b (pt_id sha p i) (pt_Chunks p ! i)
          (DataChecksum sha (pt_Chunks p ! i)) w = (w1, r)" by force
      have "no_slash (pt_id sha p i)" using GenerateChunkID_no_slash by blast
      note sk = sendChunk_keeps [OF assms(3,2) this t(3) s]
      have u': "u = (case r of
          Some err \<Rightarrow> (up_at w1 ?U)\<lparr>up_Senders := (up_Senders ?U)[i := ?t\<lparr>sn_Ended := True\<rparr>],
            up_Errors := up_Errors ?U @ [''chunk '' @ pt_id sha p i @ '' to '' @ b @ '': '' @ err]\<rparr>
        | None \<Rightarrow> (up_at w1 ?U)\<lparr>up_Senders := (up_Senders ?U)[i := ?t\<lparr>sn_Todo := rest\<rparr>]\<rparr>)"
        using False Cons s t by (simp add: u upload_step_def up_at_def Let_def split: option.splits)
      have up: "up_World u = w1" by (simp add: u' up_at_def split: option.splits)
      have "put_ok sha D p'"
        using assms(1) len i False Cons
        by (cases r) (auto simp: u' p' up_at_def put_ok_def nth_list_update)
      moreover have "served sha w1 p' k a" if "k < length (pt_Chunks p)" "served sha w p k a" for k a
        using that sk(2,3) len i Cons
        by (cases r; cases "k = i") (auto simp: u' p' up_at_def served_def held_le_def nth_list_update)
      ultimately show ?thesis using sk(1,2) up by simp
    qed
  qed
  then show "world_ok D (up_World u)" "held_le sha w (up_World u)" "put_ok sha D p'"
    "k < length (pt_Chunks p) \<Longrightarrow> served sha w p k a \<Longrightarrow> served sha (up_World u) p' k a" by auto
qed

section \<open>Downloads\<close>

lemma fetch_step:
  assumes "get_ok sha p U" "put_ok sha D p" "world_ok D (dl_World U)"
    and u: "u = download_step dial sha (net_GetChunk env sha) i U"
  shows "get_ok sha p u" "w_nodes (dl_World u) = w_nodes (dl_World U)"
proof -
  let ?t = "dl_Fetchers U ! i" and ?n = "length (pt_Chunks p)"
  have len: "length (dl_Fetchers U) = ?n" using assms(1) by (simp add: get_ok_def)
  have "get_ok sha p u \<and> w_nodes (dl_World u) = w_nodes (dl_World U)"
  proof (cases "dl_Panic U \<or> length (dl_Fetchers U) \<le> i \<or> ft_Ended ?t")
    case True
    then show ?thesis using assms(1) by (auto simp: u download_step_def)
  next
    case False
    then have i: "i < ?n" using len by simp
    have t: "ft_ChunkId ?t = pt_id sha p i" "ft_Index ?t = int i" "D (pt_id sha p i) = Some (pt_Chunks p ! i)"
      using assms(1,2) i by (simp_all add: get_ok_def put_ok_def)
    show ?thesis
    proof (cases "ft_Todo ?t")
      case Nil
      then show ?thesis using assms(1) False len by (auto simp: u download_step_def Let_def get_ok_def nth_list_update)
    next
      case (Cons b rest)
      obtain w1 r where f: "fetchChunkFromNode dial sha (net_GetChunk env sha) b (pt_id sha p i) (dl_World U) = (w1, r)" by force
      note fs = fetch_same [OF f]
      show ?thesis
      proof (cases r)
        case (Inl e)
        have "ft_Ended ((dl_Fetchers U)[i := ?t\<lparr>ft_Todo := rest, ft_LastErr := e\<rparr>] ! k) = ft_Ended (dl_Fetchers U ! k)" for k
          by (cases "i < length (dl_Fetchers U)") (simp_all add: nth_list_update list_update_beyond)
        then show ?thesis using assms(1) False len Cons f Inl fs(1) t
          by (simp add: u download_step_def Let_def get_ok_def) (simp add: nth_list_update)
      next
        case (Inr data)
        have "net_inv (dl_World U)" using assms(3) by (simp add: world_ok_def)
        then have d: "data = pt_Chunks p ! i" using holds_data [OF assms(3) fs(2)] Inr t(3) by simp
        let ?F = "(dl_Fetchers U)[i := ?t\<lparr>ft_Ended := True\<rparr>]"
        have "mset_set {k. k < ?n \<and> ft_Ended (?F ! k)} = add_mset i (mset_set {k. k < ?n \<and> ft_Ended (dl_Fetchers U ! k)})"
          using ended_mset [OF len i] False by simp
        moreover have "u = U\<lparr>dl_World := w1, dl_Results := dl_Results U @ [\<lparr>cr_Index = int i, cr_Data = pt_Chunks p ! i\<rparr>],
            dl_Fetchers := ?F, dl_Panic := length (ft_ChunkId ?t) < 12\<rparr>"
          using False Cons f t Inr d by (simp add: u download_step_def Let_def)
        moreover have "ft_ChunkId (?F ! k) = ft_ChunkId (dl_Fetchers U ! k) \<and> ft_Index (?F ! k) = ft_Index (dl_Fetchers U ! k)" for k
          using len i by (cases "k = i") simp_all
        ultimately show ?thesis using assms(1) len fs(1) by (simp add: get_ok_def)
      qed
    qed
  qed
  then show "get_ok sha p u" "w_nodes (dl_World u) = w_nodes (dl_World U)" by auto
qed

lemma fetch_nodes: "w_nodes (dl_World (download_step dial sha (net_GetChunk env sha) i U)) = w_nodes (dl_World U)"
  by (auto simp: download_step_def Let_def split: list.splits prod.splits sum.splits dest!: fetch_same(1))

section \<open>The metadata under the tasks\<close>

lemma chunk_reg_frame:
  assumes "cm_inv cm" "chunk_reg sha cm w p k" "pt_Path p' = pt_Path p"
    and "map_of (cm_chunks cm') (pt_id sha p k) = map_of (cm_chunks cm) (pt_id sha p k)"
    and "\<And>n. addr_of cm n \<noteq> None \<Longrightarrow> addr_of cm' n = addr_of cm n"
    and "\<And>a. served sha w p k a \<Longrightarrow> served sha w' p' k a"
  shows "chunk_reg sha cm' w' p' k"
proof -
  have "replicas cm' (pt_id sha p k) = replicas cm (pt_id sha p k)" "chunk_index cm' (pt_id sha p k) = chunk_index cm (pt_id sha p k)"
    using assms(4) by (simp_all add: replicas_def chunk_index_def)
  then show ?thesis
    using assms(2,3,5,6) replica_registered(1) [OF assms(1)] by (simp add: chunk_reg_def)
qed

lemma reg_ok_frame:
  assumes "reg_ok sha s w ps p" "ns_files (sv_namespace s') ps = ns_files (sv_namespace s) ps"
    and "pt_Path p' = pt_Path p" "length (pt_Chunks p') = length (pt_Chunks p)"
    and "\<And>k. k < length (pt_Chunks p) \<Longrightarrow> chunk_reg sha (sv_chunkMgr s) w p k \<Longrightarrow> chunk_reg sha (sv_chunkMgr s') w' p' k"
  shows "reg_ok sha s' w' ps p'"
  using assms by (simp add: reg_ok_def)

lemma served_le: "held_le sha w w' \<Longrightarrow> served sha w p k a \<Longrightarrow> served sha w' p k a"
  by (auto simp: served_def held_le_def)

lemma mig_task_frame:
  assumes "mig_task_ok sha cm w t" "\<And>n. addr_of cm n \<noteq> None \<Longrightarrow> addr_of cm' n = addr_of cm n" "held_le sha w w'"
  shows "mig_task_ok sha cm' w' t"
  using assms unfolding mig_task_ok_def held_le_def by (cases "mt_Pc t") fastforce+

lemma alloc_loop_views:
  assumes "alloc_loop srt sha H r path fileSize is cm = (cm', ps)"
  shows "addr_of cm' = addr_of cm \<and> (\<forall>n. holdings cm' n \<subseteq> holdings cm n \<union> (\<lambda>i. GenerateChunkID sha path (int i)) ` set is)"
  using assms
proof (induction "is" arbitrary: cm ps)
  case (Cons i "is")
  obtain cm1 p where p: "alloc_chunk srt sha H r path fileSize i cm = (cm1, p)" by force
  obtain ps' where ps: "alloc_loop srt sha H r path fileSize is cm1 = (cm', ps')"
    using Cons.prems p by (auto split: prod.splits)
  note h = alloc_chunk_holdings [OF p]
  have "holdings cm1 n \<subseteq> insert (GenerateChunkID sha path (int i)) (holdings cm n)" for n using h(1) by (auto simp: h(5))
  then show ?case using Cons.IH [OF ps] h(4) by fastforce
qed simp

lemma allocate_views:
  assumes "cm_AllocateChunks it srt sha now path cnt sz cm = (cm', r)"
  shows "addr_of cm' = addr_of cm \<and> (\<forall>n. holdings cm' n \<subseteq> holdings cm n \<union> set (chunk_ids sha path cnt))"
proof (cases "cm_healthyNodes it now cm = [] \<or> cnt < 0")
  case True
  then show ?thesis using assms by (auto simp: cm_AllocateChunks_def Let_def split: if_splits)
next
  case False
  then have H: "cm_healthyNodes it now cm \<noteq> []" "0 \<le> cnt" by simp_all
  obtain ps where "alloc_loop srt sha (cm_healthyNodes it now cm) (int (alloc_repl (cm_healthyNodes it now cm))) path sz [0..<nat cnt] cm = (cm', ps)"
    using assms unfolding AllocateChunks_eq [OF refl H] by (auto split: prod.splits)
  from alloc_loop_views [OF this] show ?thesis by (simp add: chunk_ids_def)
qed

text \<open>A put, successful or not, touches the entry of its target and the chunks of its path.\<close>

lemma put_frame:
  assumes inj: "inj_on (\<lambda>x. take 8 (sha x)) K" and sv: "sv_inv sha K s" and it: "perm_iter it" "sort_slice srt"
    and keys: "\<forall>i<nat (pf_ChunkCount req). chunk_key (pf_Path req) (int i) \<in> K"
    and put: "sv_PutFile it srt sha now req s = (s', Some resp)"
  shows "sv_inv sha K s'" "ids_plain (sv_chunkMgr s) \<Longrightarrow> ids_plain (sv_chunkMgr s')"
    and "addr_of (sv_chunkMgr s') = addr_of (sv_chunkMgr s)"
    and "c \<notin> set (chunk_ids sha (pf_Path req) (pf_ChunkCount req)) \<Longrightarrow>
      map_of (cm_chunks (sv_chunkMgr s')) c = map_of (cm_chunks (sv_chunkMgr s)) c"
    and "ps \<noteq> ns_target (pf_Path req) \<Longrightarrow> ns_files (sv_namespace s') ps = ns_files (sv_namespace s) ps"
proof -
  let ?cm = "sv_chunkMgr s" and ?cm' = "sv_chunkMgr s'" and ?ids = "chunk_ids sha (pf_Path req) (pf_ChunkCount req)"
  obtain ra where a: "cm_AllocateChunks it srt sha now (pf_Path req) (pf_ChunkCount req) (pf_FileSize req) ?cm = (?cm', ra)"
    using put_chunkMgr [of it srt sha now req s] put by (metis fst_conv prod.exhaust_sel)
  have cm: "cm_inv ?cm" and nsi: "ns_inv (sv_namespace s)" using sv by (simp_all add: sv_inv_def)
  show "sv_inv sha K s'" by (rule sv_inv_put [OF inj sv it keys put])
  note v = allocate_views [OF a]
  show "addr_of ?cm' = addr_of ?cm" using v by blast
  have "no_slash c" if "c \<in> set ?ids" for c using that GenerateChunkID_no_slash by (auto simp: chunk_ids_def)
  then show "ids_plain ?cm \<Longrightarrow> ids_plain ?cm'" using v unfolding ids_plain_def by blast
  show "c \<notin> set ?ids \<Longrightarrow> map_of (cm_chunks ?cm') c = map_of (cm_chunks ?cm) c" by (rule allocate_frame [OF cm it a])
  show "ps \<noteq> ns_target (pf_Path req) \<Longrightarrow> ns_files (sv_namespace s') ps = ns_files (sv_namespace s) ps"
    by (rule put_other_files [OF nsi put])
qed

text \<open>A deletion touches the entry of its target and the chunks of the file there.\<close>

lemma forget_views:
  "cm_inv cm \<Longrightarrow> cm_inv (fold forget_chunk cs cm) \<and> addr_of (fold forget_chunk cs cm) = addr_of cm \<and>
     (\<forall>n. holdings (fold forget_chunk cs cm) n \<subseteq> holdings cm n) \<and>
     (\<forall>c. map_of (cm_chunks (fold forget_chunk cs cm)) c = (if c \<in> set cs then None else map_of (cm_chunks cm) c))"
proof (induction cs arbitrary: cm)
  case (Cons c cs)
  have "holdings (forget_chunk c cm) n \<subseteq> holdings cm n" for n
    unfolding holdings_forget [OF Cons.prems] by auto
  then show ?case using Cons.IH [OF inv_forget [OF Cons.prems, of c]] by (fastforce simp: chunks_forget)
qed simp

lemma delete_frame:
  assumes inj: "inj_on (\<lambda>x. take 8 (sha x)) K" and sv: "sv_inv sha K s"
    and del: "sv_DeleteFile it path s = (s', Some resp)"
  shows "sv_inv sha K s'" "ids_plain (sv_chunkMgr s) \<Longrightarrow> ids_plain (sv_chunkMgr s')"
    and "addr_of (sv_chunkMgr s') = addr_of (sv_chunkMgr s)"
    and "ps \<noteq> ns_target path \<Longrightarrow> ns_files (sv_namespace s') ps = ns_files (sv_namespace s) ps"
    and "ps \<noteq> ns_target path \<Longrightarrow> ns_files (sv_namespace s) ps = Some f \<Longrightarrow> c \<in> set (fm_ChunkIDs f) \<Longrightarrow>
      map_of (cm_chunks (sv_chunkMgr s')) c = map_of (cm_chunks (sv_chunkMgr s)) c"
proof -
  let ?cm = "sv_chunkMgr s"
  have cm: "cm_inv ?cm" and nsi: "ns_inv (sv_namespace s)" using sv by (simp_all add: sv_inv_def)
  show "sv_inv sha K s'" by (rule sv_inv_delete [OF inj sv del])
  obtain ns rn where nd: "ns_DeleteFile (sv_namespace s) path = (ns, rn)" by force
  have "(ids_plain ?cm \<longrightarrow> ids_plain (sv_chunkMgr s')) \<and> addr_of (sv_chunkMgr s') = addr_of ?cm \<and>
    (\<forall>ps. ps \<noteq> ns_target path \<longrightarrow> ns_files (sv_namespace s') ps = ns_files (sv_namespace s) ps \<and>
      (\<forall>f c. ns_files (sv_namespace s) ps = Some f \<longrightarrow> c \<in> set (fm_ChunkIDs f) \<longrightarrow>
        map_of (cm_chunks (sv_chunkMgr s')) c = map_of (cm_chunks ?cm) c))"
  proof (cases rn)
    case (Inl e)
    then have "s' = s\<lparr>sv_namespace := sv_namespace s\<rparr>"
      using del nd ns.remove_err [OF nd [unfolded Inl] nsi] by (auto simp: sv_DeleteFile_def)
    then show ?thesis by simp
  next
    case (Inr fo)
    note rm = ns.remove_ok [OF nd [unfolded Inr] nsi]
    then obtain g where g: "fo = Some g" "ns_files (sv_namespace s) (ns_target path) = Some g" by auto
    have s': "s' = s\<lparr>sv_namespace := ns, sv_chunkMgr := fst (cm_RemoveChunks it (fm_ChunkIDs g) ?cm)\<rparr>"
      using del nd Inr g by (auto simp: sv_DeleteFile_def)
    note fv = forget_views [OF cm, of "fm_ChunkIDs g"]
    have "c \<notin> set (fm_ChunkIDs g)" if h: "ps \<noteq> ns_target path" "ns_files (sv_namespace s) ps = Some f" "c \<in> set (fm_ChunkIDs f)" for ps f c
    proof
      assume "c \<in> set (fm_ChunkIDs g)"
      moreover have fo: "file_ok sha K ?cm (ns_target path) g" "file_ok sha K ?cm ps f" using sv g(2) h(2) by (auto simp: sv_inv_def)
      ultimately have "fm_Path g = fm_Path f"
        using chunk_ids_path [OF inj, of c "fm_Path g" "fm_ChunkCount g" "fm_Path f" "fm_ChunkCount f"] h(3)
        by (simp add: file_ok_def)
      then show False using fo h(1) by (simp add: file_ok_def)
    qed
    moreover have "ids_plain ?cm \<longrightarrow> ids_plain (fold forget_chunk (fm_ChunkIDs g) ?cm)" using fv unfolding ids_plain_def by blast
    ultimately show ?thesis using fv rm by (auto simp: s' RemoveChunks_fst)
  qed
  then show "ids_plain ?cm \<Longrightarrow> ids_plain (sv_chunkMgr s')" "addr_of (sv_chunkMgr s') = addr_of ?cm"
    "ps \<noteq> ns_target path \<Longrightarrow> ns_files (sv_namespace s') ps = ns_files (sv_namespace s) ps"
    "ps \<noteq> ns_target path \<Longrightarrow> ns_files (sv_namespace s) ps = Some f \<Longrightarrow> c \<in> set (fm_ChunkIDs f) \<Longrightarrow>
      map_of (cm_chunks (sv_chunkMgr s')) c = map_of (cm_chunks ?cm) c" by blast+
qed

section \<open>Migrations\<close>

lemma index_add_remove:
  "chunk_index (cm_AddChunkToNode c n cm) = chunk_index cm" "chunk_index (cm_RemoveChunkFromNode c n cm) = chunk_index cm"
  unfolding AddChunkToNode_eq RemoveChunkFromNode_eq
  by (auto simp: chunk_index_def fun_eq_iff cm_simps option.map_comp comp_def if_distrib intro!: map_option_cong)

lemma add_replicas_sub:
  "set (replicas (cm_AddChunkToNode c n cm) d) \<subseteq> (if d = c then insert n (set (replicas cm d)) else set (replicas cm d))"
  unfolding AddChunkToNode_eq by (cases "map_of (cm_chunks cm) c") (auto simp: replicas_def cm_simps split: option.splits if_splits)

lemma remove_replicas_sub: "set (replicas (cm_RemoveChunkFromNode c n cm) d) \<subseteq> set (replicas cm d)"
  unfolding remove_replicas using set_remove1_subset [of n "replicas cm c"] by auto

text \<open>A step of a migration keeps what the tasks rely on.\<close>

definition keeps_meta :: "ChunkManager \<Rightarrow> ChunkManager \<Rightarrow> bool" where
  "keeps_meta cm cm' \<longleftrightarrow> cm_inv cm' \<and> ids_plain cm' \<and> addr_of cm' = addr_of cm \<and> chunk_path cm' = chunk_path cm \<and>
     chunk_index cm' = chunk_index cm"

definition mig_kept :: "(bytes \<Rightarrow> bytes) \<Rightarrow> (string \<Rightarrow> bytes option) \<Rightarrow> ChunkManager \<Rightarrow> World \<Rightarrow>
  ChunkManager \<Rightarrow> World \<Rightarrow> mig_task \<Rightarrow> bool" where
  "mig_kept sha D cm w cm' w' t' \<longleftrightarrow> keeps_meta cm cm' \<and> world_ok D w' \<and> held_le sha w w' \<and> mig_task_ok sha cm' w' t' \<and>
     (\<forall>p k. put_ok sha D p \<longrightarrow> k < length (pt_Chunks p) \<longrightarrow> chunk_reg sha cm w p k \<longrightarrow> chunk_reg sha cm' w' p k)"

lemma mig_kept_same:
  assumes "cm_inv cm" "ids_plain cm" "world_ok D w" "mig_task_ok sha cm w t'"
  shows "mig_kept sha D cm w cm w t'"
  using assms by (simp add: mig_kept_def keeps_meta_def)

lemma log_event_ok:
  assumes "mig_task_ok sha cm w t"
  shows "mig_task_ok sha cm' w' (log_event ev t)"
  using assms by (cases "mt_Chunks t") (auto simp: mig_task_ok_def log_event_def Let_def)

lemma sending_keeps:
  assumes cm: "cm_inv cm" "ids_plain cm" and w: "world_ok D w" and env: "untorn env"
    and t: "mig_task_ok sha cm w t" and pc: "mt_Pc t = Sending tg"
    and st: "mig_step (ChunkManagerAdapter it) dial (net_TransferChunk env sha) clock (t, m, cm, w) = (t', m', cm', w')"
  shows "mig_kept sha D cm w cm' w' t'"
proof -
  have c: "no_slash (hd (mt_Chunks t))" using t pc by (simp add: mig_task_ok_def)
  obtain r where tr: "transferChunk dial (net_TransferChunk env sha) (mt_Source t) (hd (mt_Chunks t)) (nt_Address tg) w = (w', r)"
    and cm': "cm' = cm" and t': "t' = (case r of None \<Rightarrow> t\<lparr>mt_Pc := Adding tg\<rparr>
      | Some err \<Rightarrow> log_event (failed_event err (clock w') (mt_Event t)) t)"
    using st pc by (auto simp: mig_step_def split: prod.splits option.splits)
  have "w' = w \<and> r \<noteq> None \<or> (\<exists>v. net_TransferChunk env sha (mt_Source t) (hd (mt_Chunks t)) (nt_Address tg) w = (w', v) \<and>
      (r = None \<longrightarrow> (\<exists>msg. v = Inr (True, msg))))"
    using tr by (auto simp: transferChunk_def split: option.splits prod.splits sum.splits if_splits)
  then have tk: "world_ok D w'" "held_le sha w w'" "r = None \<Longrightarrow> net_holds sha w' (nt_Address tg) (hd (mt_Chunks t)) \<noteq> None"
    using transfer_keeps [OF env w c] w by (metis held_le_refl)+
  have "mig_task_ok sha cm w' t'"
    using t pc tk(3) log_event_ok [OF t] by (cases r) (auto simp: t' mig_task_ok_def)
  moreover have "chunk_reg sha cm w' p k" if "chunk_reg sha cm w p k" for p k
    using that served_le [OF tk(2)] by (simp add: chunk_reg_def)
  ultimately show ?thesis using cm tk(1,2) by (simp add: cm' mig_kept_def keeps_meta_def)
qed

lemma adding_keeps:
  assumes cm: "cm_inv cm" "ids_plain cm" and w: "world_ok D w"
    and t: "mig_task_ok sha cm w t" and pc: "mt_Pc t = Adding tg"
    and st: "mig_step (ChunkManagerAdapter it) dial (net_TransferChunk env sha) clock (t, m, cm, w) = (t', m', cm', w')"
  shows "mig_kept sha D cm w cm' w' t'"
proof -
  let ?c = "hd (mt_Chunks t)" and ?n = "nt_NodeID tg"
  have a: "no_slash ?c" "addr_of cm ?n = Some (nt_Address tg)" "net_holds sha w (nt_Address tg) ?c \<noteq> None" "mt_Chunks t \<noteq> []"
    using t pc by (simp_all add: mig_task_ok_def)
  have eq: "cm' = cm_AddChunkToNode ?c ?n cm" "w' = w" "t' = t\<lparr>mt_Pc := Removing tg\<rparr>"
    using st pc by (simp_all add: mig_step_def ChunkManagerAdapter_def ad_AddChunkToNode_def)
  have reg: "map_of (cm_nodes cm) ?n \<noteq> None" using a(2) by (auto simp: addr_of_def)
  have "ids_plain cm'" using cm(2) a(1) by (auto simp: ids_plain_def eq add_holdings [OF reg])
  then have km: "keeps_meta cm cm'"
    using inv_AddChunkToNode [OF cm(1) reg] by (simp add: keeps_meta_def eq index_add_remove addr_add_remove)
  have "chunk_reg sha cm' w p k" if p: "put_ok sha D p" "k < length (pt_Chunks p)" "chunk_reg sha cm w p k" for p k
  proof -
    have "served sha w p k b" if b: "n \<in> set (replicas cm' (pt_id sha p k))" "addr_of cm n = Some b" for n b
    proof (cases "n \<in> set (replicas cm (pt_id sha p k))")
      case False
      then have n: "n = ?n" "pt_id sha p k = ?c" using b(1) add_replicas_sub [of ?c ?n cm "pt_id sha p k"] by (auto simp: eq split: if_splits)
      obtain d where d: "net_holds sha w (nt_Address tg) ?c = Some d" using a(3) by auto
      have "D ?c = Some (pt_Chunks p ! k)" using p(1,2) n(2) by (auto simp: put_ok_def)
      then show ?thesis using holds_data [OF w d] d n a(2) b(2) by (simp add: served_def)
    qed (use p(3) b(2) in \<open>auto simp: chunk_reg_def\<close>)
    then show ?thesis using p(3) by (auto simp: chunk_reg_def eq index_add_remove addr_add_remove)
  qed
  moreover have "mig_task_ok sha cm' w t'" using t a(4) by (simp add: eq mig_task_ok_def)
  ultimately show ?thesis using km w by (simp add: eq mig_kept_def)
qed

lemma removing_keeps:
  assumes cm: "cm_inv cm" "ids_plain cm" and w: "world_ok D w"
    and t: "mig_task_ok sha cm w t" and pc: "mt_Pc t = Removing tg"
    and st: "mig_step (ChunkManagerAdapter it) dial (net_TransferChunk env sha) clock (t, m, cm, w) = (t', m', cm', w')"
  shows "mig_kept sha D cm w cm' w' t'"
proof -
  let ?c = "hd (mt_Chunks t)"
  have eq: "cm' = cm_RemoveChunkFromNode ?c (mt_Node t) cm" "w' = w" "\<exists>ev. t' = log_event ev t"
    using st pc by (auto simp: mig_step_def ChunkManagerAdapter_def ad_RemoveChunkFromNode_def)
  have "ids_plain cm'" using cm(2) by (auto simp: ids_plain_def eq remove_holdings)
  then have km: "keeps_meta cm cm'"
    using inv_RemoveChunkFromNode [OF cm(1)] by (simp add: keeps_meta_def eq index_add_remove addr_add_remove)
  have "chunk_reg sha cm' w p k" if "chunk_reg sha cm w p k" for p k
    using that remove_replicas_sub [of ?c "mt_Node t" cm "pt_id sha p k"]
    by (auto simp: chunk_reg_def eq index_add_remove addr_add_remove)
  then show ?thesis using km w eq log_event_ok [OF t] by (auto simp: mig_kept_def)
qed

lemma mig_step_keeps:
  assumes cm: "cm_inv cm" "ids_plain cm" and w: "world_ok D w" and env: "untorn env" "perm_iter it"
    and t: "mig_task_ok sha cm w t"
    and st: "mig_step (ChunkManagerAdapter it) dial (net_TransferChunk env sha) clock (t, m, cm, w) = (t', m', cm', w')"
  shows "mig_kept sha D cm w cm' w' t'"
proof -
  have same: ?thesis if "cm' = cm" "w' = w" "mig_task_ok sha cm w t'"
    using that mig_kept_same [OF cm w] by simp
  note logged = log_event_ok [OF t]
  show ?thesis
  proof (cases "mt_Pc t")
    case (Sending tg)
    then show ?thesis by (rule sending_keeps [OF cm w env(1) t _ st])
  next
    case (Adding tg)
    then show ?thesis by (rule adding_keeps [OF cm w t _ st])
  next
    case (Removing tg)
    then show ?thesis by (rule removing_keeps [OF cm w t _ st])
  next
    case (Picking ex)
    have ne: "mt_Chunks t \<noteq> []" using t Picking by (simp add: mig_task_ok_def)
    show ?thesis
    proof (cases "cl_GetHealthyNodeAddresses (ChunkManagerAdapter it) cm ex")
      case Nil
      then show ?thesis using st Picking logged by (intro same) (auto simp: mig_step_def)
    next
      case (Cons tg ts)
      then have "tg \<in> set (ad_GetHealthyNodeAddresses it cm ex)" by (simp add: ChunkManagerAdapter_def)
      then have "addr_of cm (nt_NodeID tg) = Some (nt_Address tg)" using adapter_targets [OF cm(1) env(2)] by (simp add: ad_addr)
      then show ?thesis using st Picking Cons t ne by (intro same) (auto simp: mig_step_def mig_task_ok_def)
    qed
  next
    case Listing
    have "set (cl_GetChunksOnNode (ChunkManagerAdapter it) cm (mt_Node t)) = holdings cm (mt_Node t)"
      using chunks_on_node [OF cm(1) env(2)] by (simp add: ChunkManagerAdapter_def ad_GetChunksOnNode_def)
    then show ?thesis using st Listing cm(2) t
      by (intro same) (auto simp: mig_step_def Let_def mig_task_ok_def ids_plain_def split: if_splits)
  qed (use st t logged in \<open>intro same; auto simp: mig_step_def Let_def mig_task_ok_def split: list.splits option.splits prod.splits bool.splits\<close>)+
qed

section \<open>New tasks\<close>

lemma add_data_le:
  assumes "distinct ids" "length ids = length chunks" "\<forall>k<length chunks. D (ids ! k) \<in> {None, Some (chunks ! k)}"
  shows "D \<subseteq>\<^sub>m add_data (zip ids chunks) D"
    and "k < length chunks \<Longrightarrow> add_data (zip ids chunks) D (ids ! k) = Some (chunks ! k)"
proof -
  have m: "map_of (zip ids chunks) (ids ! k) = Some (chunks ! k)" if "k < length chunks" for k
    using that assms(1,2) by (simp add: map_of_zip_nth)
  show "k < length chunks \<Longrightarrow> add_data (zip ids chunks) D (ids ! k) = Some (chunks ! k)"
    using m by (simp add: add_data_def)
  show "D \<subseteq>\<^sub>m add_data (zip ids chunks) D"
    unfolding map_le_def
  proof
    fix c assume c: "c \<in> dom D"
    show "D c = add_data (zip ids chunks) D c"
    proof (cases "c \<in> set ids")
      case True
      then obtain k where k: "k < length chunks" "c = ids ! k" using assms(2) by (auto simp: in_set_conv_nth)
      then show ?thesis using m assms(3) c by (force simp: add_data_def)
    next
      case False
      then have "map_of (zip ids chunks) c = None" by (auto simp: map_of_eq_None_iff dest: set_zip_leftD)
      then show ?thesis by (simp add: add_data_def map_add_def)
    qed
  qed
qed

lemma put_ok_le: "D \<subseteq>\<^sub>m D' \<Longrightarrow> put_ok sha D p \<Longrightarrow> put_ok sha D' p"
  unfolding put_ok_def map_le_def by (metis domI)

lemma world_ok_le: "D \<subseteq>\<^sub>m D' \<Longrightarrow> world_ok D w \<Longrightarrow> world_ok D' w"
  unfolding world_ok_def node_files_def map_le_def by (metis domI)

text \<open>An upload starts with placements for the chunks of the file, on nodes that the metadata lists.\<close>

lemma start_put_ok:
  assumes sv: "sv_inv sha K s" and inj: "inj_on (\<lambda>x. take 8 (sha x)) K" and it: "perm_iter it" "sort_slice srt"
    and n: "int (length chunks) < 2 ^ 31" "\<forall>i<length chunks. chunk_key path (int i) \<in> K"
    and put: "sv_PutFile it srt sha now \<lparr>pf_Path = path, pf_FileSize = fsize, pf_ChunkCount = int (length chunks), pf_Checksum = ck\<rparr> s
      = (s', Some resp)" "pfr_Success resp"
  defines "p \<equiv> start_put path chunks (pfr_Placements resp)"
  shows "(\<And>k. k < length chunks \<Longrightarrow> D (pt_id sha p k) = Some (chunks ! k)) \<Longrightarrow> put_ok sha D p"
    and "reg_ok sha s' w (ns_target path) p" "distinct (chunk_ids sha path (int (length chunks)))"
proof -
  let ?req = "\<lparr>pf_Path = path, pf_FileSize = fsize, pf_ChunkCount = int (length chunks), pf_Checksum = ck\<rparr>"
  let ?ps = "pfr_Placements resp" and ?ids = "chunk_ids sha path (int (length chunks))"
  have nsi: "ns_inv (sv_namespace s)" and cm: "cm_inv (sv_chunkMgr s)" using sv by (simp_all add: sv_inv_def)
  have idi: "inj_on (\<lambda>i. GenerateChunkID sha path (int i)) {..<length chunks}"
    by (rule path_ids_inj [OF inj n(2)])
  then show "distinct ?ids" by (simp add: chunk_ids_def distinct_map atLeast0LessThan)
  have pids: "map cp_ChunkId ?ps = ?ids" using put_placements(1) [OF nsi cm it put] by simp
  then have len: "length ?ps = length chunks" by (metis chunk_ids_def diff_zero length_map length_upt nat_int)
  have id: "cp_ChunkId (?ps ! k) = GenerateChunkID sha path (int k)" if "k < length chunks" for k
    using arg_cong [OF pids, of "\<lambda>xs. xs ! k"] that len by (simp add: chunk_ids_def)
  have fields: "pt_Path p = path" "pt_Chunks p = chunks" "up_Errors (pt_Up p) = []"
    "length (up_Senders (pt_Up p)) = length chunks"
    by (simp_all add: p_def start_put_def start_senders_def len)
  have snd: "up_Senders (pt_Up p) ! k = \<lparr>sn_ChunkId = GenerateChunkID sha path (int k), sn_Data = chunks ! k,
      sn_Todo = cp_NodeAddresses (?ps ! k), sn_Ended = False\<rparr>" if "k < length chunks" for k
    using that len id by (simp add: p_def start_put_def start_senders_def)
  show "put_ok sha D p" if "\<And>k. k < length chunks \<Longrightarrow> D (pt_id sha p k) = Some (chunks ! k)"
    using that n(1) by (simp add: put_ok_def fields snd)
  have "chunk_reg sha (sv_chunkMgr s') w p k" if k: "k < length chunks" for k
    using new_chunks_placed(1,3) [OF nsi cm it _ _ put k] idi
    by (simp add: chunk_reg_def fields served_def snd [OF k])
  moreover have "\<exists>f. ns_files (sv_namespace s') (ns_target path) = Some f \<and> fm_Path f = path \<and> fm_ChunkCount f = int (length chunks)"
    by (rule put_success [OF nsi put]) auto
  ultimately show "reg_ok sha s' w (ns_target path) p" by (simp add: reg_ok_def fields)
qed

text \<open>A download of a registered file starts with the chunks of its put, in order.\<close>

lemma start_get_ok:
  assumes sv: "sv_inv sha K s" and reg: "reg_ok sha s w (ns_target path) p" and pt: "put_ok sha D p" and "plain path"
    and g: "sv_GetFile path s = Some resp" "gfr_Success resp"
  shows "get_ok sha p (gt_Down (start_get i (gfr_ChunkLocations resp)))"
proof -
  let ?cm = "sv_chunkMgr s" and ?n = "length (pt_Chunks p)" and ?ls = "gfr_ChunkLocations resp"
  have nsi: "ns_inv (sv_namespace s)" using sv by (simp add: sv_inv_def)
  obtain f where f: "ns_files (sv_namespace s) (ns_target path) = Some f" "fm_Path f = pt_Path p" "fm_ChunkCount f = int ?n"
    using reg by (auto simp: reg_ok_def)
  have get: "ns_GetFile (sv_namespace s) path = Inr (Some f)"
    using ns.get_iff [OF nsi] f(1) plain_target(1) [OF assms(4)] by simp
  have "file_ok sha K ?cm (ns_target path) f" using sv f(1) by (simp add: sv_inv_def)
  then have ids: "fm_ChunkIDs f = chunk_ids sha (pt_Path p) (int ?n)" by (simp add: file_ok_def f(2,3))
  obtain locs where l: "map (locate_chunk ?cm) (fm_ChunkIDs f) = map Inr locs"
    "?ls = map (\<lambda>loc. \<lparr>cl_ChunkId = lo_ChunkID loc, cl_ChunkIndex = int32 (lo_ChunkIndex loc),
        cl_NodeAddresses = lo_NodeAddresses loc, cl_NodeIds = lo_NodeIDs loc\<rparr>) locs"
    using g get by (auto simp: sv_GetFile_def Let_def GetChunkLocations_all [symmetric] split: sum.splits if_splits)
  have len: "length locs = ?n" using arg_cong [OF l(1), of length] by (simp add: ids chunk_ids_def)
  have at: "lo_ChunkID (locs ! k) = pt_id sha p k" "lo_ChunkIndex (locs ! k) = int k" if k: "k < ?n" for k
  proof -
    have loc: "locate_chunk ?cm (pt_id sha p k) = Inr (locs ! k)"
      using arg_cong [OF l(1), of "\<lambda>zs. zs ! k"] len k by (simp add: ids chunk_ids_def)
    have "chunk_index ?cm (pt_id sha p k) = Some (int k)" using reg k by (simp add: reg_ok_def chunk_reg_def)
    then obtain m where m: "map_of (cm_chunks ?cm) (pt_id sha p k) = Some m" "ck_ChunkIndex m = int k" by (auto simp: chunk_index_def)
    have "ck_ChunkID m = pt_id sha p k" using inv_parts(4) m(1) sv by (metis sv_inv_def)
    then show "lo_ChunkID (locs ! k) = pt_id sha p k" "lo_ChunkIndex (locs ! k) = int k"
      using loc m by (auto simp: locate_chunk_def Let_def split: if_splits dest: sym)
  qed
  have "int32 (int k) = int k" if "k < ?n" for k using that pt by (intro int32_id) (simp add: put_ok_def)
  then have "length (start_fetchers ?ls) = ?n \<and> (\<forall>k<?n. ft_ChunkId (start_fetchers ?ls ! k) = pt_id sha p k \<and>
      ft_Index (start_fetchers ?ls ! k) = int k \<and> \<not> ft_Ended (start_fetchers ?ls ! k))"
    using at len by (simp add: start_fetchers_def l(2))
  moreover from this have "mset_set {k. k < ?n \<and> ft_Ended (start_fetchers ?ls ! k)} = {#}"
    by (metis (mono_tags, lifting) empty_Collect_eq mset_set.empty)
  ultimately show ?thesis by (simp add: get_ok_def start_get_def)
qed

section \<open>Every step keeps the invariant\<close>

text \<open>Steps that start no transfer, when each registration that is left rests on one there was.\<close>

lemma conc_frame:
  assumes I: "conc_inv sha K x"
    and y: "sv_inv sha K (cc_sv y)" "world_ok (cc_data x) (cc_w y)" "ids_plain (sv_chunkMgr (cc_sv y))"
      "cc_puts y = cc_puts x" "cc_gets y = cc_gets x" "cc_data y = cc_data x"
    and reg: "\<And>ps i. cc_reg y ps = Some i \<Longrightarrow> cc_reg x ps = Some i \<and>
      ns_files (sv_namespace (cc_sv y)) ps = ns_files (sv_namespace (cc_sv x)) ps"
    and chunk: "\<And>ps i k. cc_reg y ps = Some i \<Longrightarrow> reg_ok sha (cc_sv x) (cc_w x) ps (cc_puts x ! i) \<Longrightarrow>
      put_ok sha (cc_data x) (cc_puts x ! i) \<Longrightarrow> k < length (pt_Chunks (cc_puts x ! i)) \<Longrightarrow>
      chunk_reg sha (sv_chunkMgr (cc_sv x)) (cc_w x) (cc_puts x ! i) k \<Longrightarrow>
      chunk_reg sha (sv_chunkMgr (cc_sv y)) (cc_w y) (cc_puts x ! i) k"
    and migs: "\<forall>t\<in>set (cc_migs y). mig_task_ok sha (sv_chunkMgr (cc_sv y)) (cc_w y) t"
  shows "conc_inv sha K y"
proof -
  have "i < length (cc_puts x) \<and> reg_ok sha (cc_sv y) (cc_w y) ps (cc_puts x ! i)" if r: "cc_reg y ps = Some i" for ps i
  proof -
    note rx = reg [OF r]
    have ok: "i < length (cc_puts x)" "reg_ok sha (cc_sv x) (cc_w x) ps (cc_puts x ! i)" using I rx by (auto simp: conc_inv_def)
    have pt: "put_ok sha (cc_data x) (cc_puts x ! i)" using I ok(1) by (simp add: conc_inv_def)
    have "reg_ok sha (cc_sv y) (cc_w y) ps (cc_puts x ! i)"
      by (rule reg_ok_frame [OF ok(2)]) (use rx chunk [OF r ok(2) pt] in simp_all)
    then show ?thesis using ok(1) by blast
  qed
  then show ?thesis using I y migs by (simp add: conc_inv_def)
qed

lemma conc_migs:
  assumes "conc_inv sha K x" "\<And>n. addr_of (sv_chunkMgr (cc_sv x)) n \<noteq> None \<Longrightarrow> addr_of cm' n = addr_of (sv_chunkMgr (cc_sv x)) n"
    and "held_le sha (cc_w x) w'"
  shows "\<forall>t\<in>set (cc_migs x). mig_task_ok sha cm' w' t"
proof
  fix t assume "t \<in> set (cc_migs x)"
  then have "mig_task_ok sha (sv_chunkMgr (cc_sv x)) (cc_w x) t" using assms(1) by (simp add: conc_inv_def)
  then show "mig_task_ok sha cm' w' t" by (rule mig_task_frame [OF _ assms(2,3)])
qed

text \<open>Steps of the server that only touch statuses, statistics and the set of nodes.\<close>

lemma conc_quiet:
  assumes I: "conc_inv sha K x" and s': "sv_inv sha K s'" "sv_namespace s' = sv_namespace (cc_sv x)"
      "quiet (sv_chunkMgr (cc_sv x)) (sv_chunkMgr s')"
  shows "conc_inv sha K (x\<lparr>cc_sv := s', cc_migs := cc_migs x @ map new_task ps\<rparr>)"
proof (rule conc_frame [OF I])
  have cm: "cm_inv (sv_chunkMgr (cc_sv x))" using I by (simp add: conc_inv_def sv_inv_def)
  have ad: "addr_of (sv_chunkMgr (cc_sv x)) n \<noteq> None \<Longrightarrow> addr_of (sv_chunkMgr s') n = addr_of (sv_chunkMgr (cc_sv x)) n" for n
    using s'(3) by (simp add: quiet_def)
  show "ids_plain (sv_chunkMgr (cc_sv (x\<lparr>cc_sv := s', cc_migs := cc_migs x @ map new_task ps\<rparr>)))"
    using I quiet_plain [OF s'(3)] by (simp add: conc_inv_def)
  show "\<forall>t\<in>set (cc_migs (x\<lparr>cc_sv := s', cc_migs := cc_migs x @ map new_task ps\<rparr>)).
      mig_task_ok sha (sv_chunkMgr (cc_sv (x\<lparr>cc_sv := s', cc_migs := cc_migs x @ map new_task ps\<rparr>)))
        (cc_w (x\<lparr>cc_sv := s', cc_migs := cc_migs x @ map new_task ps\<rparr>)) t"
    using conc_migs [OF I ad held_le_refl] by (auto simp: mig_task_ok_def new_task_def)
  fix k i assume "chunk_reg sha (sv_chunkMgr (cc_sv x)) (cc_w x) (cc_puts x ! i) k"
  then show "chunk_reg sha (sv_chunkMgr (cc_sv (x\<lparr>cc_sv := s', cc_migs := cc_migs x @ map new_task ps\<rparr>)))
      (cc_w (x\<lparr>cc_sv := s', cc_migs := cc_migs x @ map new_task ps\<rparr>)) (cc_puts x ! i) k"
    using chunk_reg_frame [OF cm, where cm' = "sv_chunkMgr s'"] s'(3) by (simp add: quiet_def)
qed (use I s' in \<open>simp_all add: conc_inv_def\<close>)

text \<open>Steps of the data nodes that lose nothing.\<close>

lemma conc_world:
  assumes I: "conc_inv sha K x" and w': "world_ok (cc_data x) w'" "held_le sha (cc_w x) w'"
  shows "conc_inv sha K (x\<lparr>cc_w := w'\<rparr>)"
proof (rule conc_frame [OF I])
  show "\<forall>t\<in>set (cc_migs (x\<lparr>cc_w := w'\<rparr>)). mig_task_ok sha (sv_chunkMgr (cc_sv (x\<lparr>cc_w := w'\<rparr>))) (cc_w (x\<lparr>cc_w := w'\<rparr>)) t"
    using conc_migs [OF I _ w'(2)] by simp
qed (use I w' served_le [OF w'(2)] in \<open>auto simp: conc_inv_def chunk_reg_def\<close>)

text \<open>The chunks of a registered put: their keys, and that another path has other IDs.\<close>

lemma reg_other_ids:
  assumes "inj_on (\<lambda>x. take 8 (sha x)) K" "sv_inv sha K s" "reg_ok sha s w ps p" "k < length (pt_Chunks p)"
    and "ns_target q \<noteq> ps" "\<forall>i<nat n. chunk_key q (int i) \<in> K"
  shows "pt_id sha p k \<notin> set (chunk_ids sha q n)"
proof
  assume c: "pt_id sha p k \<in> set (chunk_ids sha q n)"
  obtain f where f: "ns_files (sv_namespace s) ps = Some f" "fm_Path f = pt_Path p" "fm_ChunkCount f = int (length (pt_Chunks p))"
    using assms(3) by (auto simp: reg_ok_def)
  have "file_ok sha K (sv_chunkMgr s) ps f" using assms(2) f(1) by (simp add: sv_inv_def)
  then have "\<forall>i<nat (int (length (pt_Chunks p))). chunk_key (pt_Path p) (int i) \<in> K" by (simp add: file_ok_def f(2,3))
  moreover have "pt_id sha p k \<in> set (chunk_ids sha (pt_Path p) (int (length (pt_Chunks p))))"
    using assms(4) by (simp add: chunk_ids_def)
  ultimately have "pt_Path p = q" using chunk_ids_path [OF assms(1) _ c] assms(6) by blast
  then show False using assms(3,5) by (simp add: reg_ok_def)
qed

lemma conc_put_meta:
  assumes inj: "inj_on (\<lambda>x. take 8 (sha x)) K" and I: "conc_inv sha K x" and it: "perm_iter it" "sort_slice srt"
    and keys: "\<forall>i<nat (pf_ChunkCount req). chunk_key (pf_Path req) (int i) \<in> K"
    and put: "sv_PutFile it srt sha now req (cc_sv x) = (s', Some resp)"
  shows "conc_inv sha K (x\<lparr>cc_sv := s', cc_reg := (cc_reg x)(ns_target (pf_Path req) := None)\<rparr>)"
proof (rule conc_frame [OF I])
  let ?y = "x\<lparr>cc_sv := s', cc_reg := (cc_reg x)(ns_target (pf_Path req) := None)\<rparr>"
  have sv: "sv_inv sha K (cc_sv x)" and cm: "cm_inv (sv_chunkMgr (cc_sv x))" using I by (simp_all add: conc_inv_def sv_inv_def)
  note pf = put_frame [OF inj sv it keys put]
  show "sv_inv sha K (cc_sv ?y)" using pf(1) by simp
  show "ids_plain (sv_chunkMgr (cc_sv ?y))" using pf(2) I by (simp add: conc_inv_def)
  show "\<forall>t\<in>set (cc_migs ?y). mig_task_ok sha (sv_chunkMgr (cc_sv ?y)) (cc_w ?y) t"
    using conc_migs [OF I _ held_le_refl] pf(3) by simp
  show "cc_reg x ps = Some i \<and> ns_files (sv_namespace (cc_sv ?y)) ps = ns_files (sv_namespace (cc_sv x)) ps"
    if "cc_reg ?y ps = Some i" for ps i using that pf(5) by (auto split: if_splits)
  fix ps i k
  assume r: "cc_reg ?y ps = Some i" "reg_ok sha (cc_sv x) (cc_w x) ps (cc_puts x ! i)" "k < length (pt_Chunks (cc_puts x ! i))"
    and c: "chunk_reg sha (sv_chunkMgr (cc_sv x)) (cc_w x) (cc_puts x ! i) k"
  have "ns_target (pf_Path req) \<noteq> ps" using r(1) by (auto split: if_splits)
  then have "pt_id sha (cc_puts x ! i) k \<notin> set (chunk_ids sha (pf_Path req) (pf_ChunkCount req))"
    by (rule reg_other_ids [OF inj sv r(2,3) _ keys])
  then show "chunk_reg sha (sv_chunkMgr (cc_sv ?y)) (cc_w ?y) (cc_puts x ! i) k"
    using chunk_reg_frame [OF cm c refl, of "sv_chunkMgr s'"] pf(3,4) by simp
qed (use I in \<open>simp_all add: conc_inv_def\<close>)

lemma conc_put:
  assumes inj: "inj_on (\<lambda>x. take 8 (sha x)) K" and I: "conc_inv sha K x" and it: "perm_iter it" "sort_slice srt"
    and n: "int (length chunks) < 2 ^ 31" "\<forall>i<length chunks. chunk_key path (int i) \<in> K"
    and ids: "ids = chunk_ids sha path (int (length chunks))"
    and D: "\<forall>k<length chunks. cc_data x (ids ! k) \<in> {None, Some (chunks ! k)}"
    and put: "sv_PutFile it srt sha now \<lparr>pf_Path = path, pf_FileSize = fsize, pf_ChunkCount = int (length chunks), pf_Checksum = ck\<rparr>
      (cc_sv x) = (s', Some resp)" "pfr_Success resp"
  shows "conc_inv sha K (x\<lparr>cc_sv := s', cc_puts := cc_puts x @ [start_put path chunks (pfr_Placements resp)],
      cc_reg := (cc_reg x)(ns_target path \<mapsto> length (cc_puts x)), cc_data := add_data (zip ids chunks) (cc_data x)\<rparr>)"
proof -
  let ?p = "start_put path chunks (pfr_Placements resp)" and ?D = "add_data (zip ids chunks) (cc_data x)"
  have sv: "sv_inv sha K (cc_sv x)" using I by (simp add: conc_inv_def)
  note sp = start_put_ok [OF sv inj it n put]
  have len: "length ids = length chunks" and d: "distinct ids" using sp(3) by (simp_all add: ids chunk_ids_def)
  note ad = add_data_le [OF d len D]
  have "pt_id sha ?p k = ids ! k" if "k < length chunks" for k
    using that by (simp add: ids chunk_ids_def start_put_def)
  then have p: "put_ok sha ?D ?p" using sp(1) [of ?D] ad(2) by simp
  have J: "conc_inv sha K (x\<lparr>cc_sv := s', cc_reg := (cc_reg x)(ns_target path := None)\<rparr>)"
    using conc_put_meta [OF inj I it _ put(1)] n(2) by simp
  have len: "i < length (cc_puts x) \<Longrightarrow> (cc_puts x @ [?p]) ! i = cc_puts x ! i" for i by (simp add: nth_append)
  have "i < Suc (length (cc_puts x)) \<and> reg_ok sha s' (cc_w x) ps ((cc_puts x @ [?p]) ! i)"
    if r: "((cc_reg x)(ns_target path \<mapsto> length (cc_puts x))) ps = Some i" for ps i
  proof (cases "ps = ns_target path")
    case True
    then show ?thesis using r sp(2) by auto
  next
    case False
    then have "i < length (cc_puts x) \<and> reg_ok sha s' (cc_w x) ps (cc_puts x ! i)"
      using conc_inv_reg [OF J, of ps i] r by simp
    then show ?thesis using len by simp
  qed
  moreover have "i < Suc (length (cc_puts x)) \<and> get_ok sha ((cc_puts x @ [?p]) ! i) (gt_Down g)"
    if "g \<in> set (cc_gets x)" "gt_From g = Some i" for g i
  proof -
    have "i < length (cc_puts x) \<and> get_ok sha (cc_puts x ! i) (gt_Down g)" using I that by (auto simp: conc_inv_def)
    then show ?thesis using len by simp
  qed
  ultimately show ?thesis
    using J p put_ok_le [OF ad(1)] world_ok_le [OF ad(1)] by (auto simp: conc_inv_def)
qed

lemma conc_delete:
  assumes inj: "inj_on (\<lambda>x. take 8 (sha x)) K" and I: "conc_inv sha K x" and del: "sv_DeleteFile it path (cc_sv x) = (s', Some resp)"
  shows "conc_inv sha K (x\<lparr>cc_sv := s', cc_reg := (cc_reg x)(ns_target path := None)\<rparr>)"
proof (rule conc_frame [OF I])
  let ?y = "x\<lparr>cc_sv := s', cc_reg := (cc_reg x)(ns_target path := None)\<rparr>"
  have sv: "sv_inv sha K (cc_sv x)" and cm: "cm_inv (sv_chunkMgr (cc_sv x))" using I by (simp_all add: conc_inv_def sv_inv_def)
  note df = delete_frame [OF inj sv del]
  show "sv_inv sha K (cc_sv ?y)" using df(1) by simp
  show "ids_plain (sv_chunkMgr (cc_sv ?y))" using df(2) I by (simp add: conc_inv_def)
  show "\<forall>t\<in>set (cc_migs ?y). mig_task_ok sha (sv_chunkMgr (cc_sv ?y)) (cc_w ?y) t"
    using conc_migs [OF I _ held_le_refl] df(3) by simp
  show "cc_reg x ps = Some i \<and> ns_files (sv_namespace (cc_sv ?y)) ps = ns_files (sv_namespace (cc_sv x)) ps"
    if "cc_reg ?y ps = Some i" for ps i using that df(4) by (auto split: if_splits)
  fix ps i k
  assume r: "cc_reg ?y ps = Some i" "reg_ok sha (cc_sv x) (cc_w x) ps (cc_puts x ! i)" "k < length (pt_Chunks (cc_puts x ! i))"
    and c: "chunk_reg sha (sv_chunkMgr (cc_sv x)) (cc_w x) (cc_puts x ! i) k"
  obtain f where f: "ns_files (sv_namespace (cc_sv x)) ps = Some f" "fm_Path f = pt_Path (cc_puts x ! i)"
    "fm_ChunkCount f = int (length (pt_Chunks (cc_puts x ! i)))" using r(2) by (auto simp: reg_ok_def)
  have "file_ok sha K (sv_chunkMgr (cc_sv x)) ps f" using sv f(1) by (simp add: sv_inv_def)
  then have "pt_id sha (cc_puts x ! i) k \<in> set (fm_ChunkIDs f)" using r(3) by (simp add: file_ok_def f chunk_ids_def)
  moreover have "ps \<noteq> ns_target path" using r(1) by (auto split: if_splits)
  ultimately show "chunk_reg sha (sv_chunkMgr (cc_sv ?y)) (cc_w ?y) (cc_puts x ! i) k"
    using chunk_reg_frame [OF cm c refl, of "sv_chunkMgr s'"] df(3,5) f(1) by simp
qed (use I in \<open>simp_all add: conc_inv_def\<close>)

lemma conc_migrate:
  assumes I: "conc_inv sha K x" and env: "untorn env" "perm_iter it" and j: "j < length (cc_migs x)"
    and st: "mig_step (ChunkManagerAdapter it) dial (net_TransferChunk env sha) clock
      (cc_migs x ! j, sv_migrator (cc_sv x), sv_chunkMgr (cc_sv x), cc_w x) = (t', m', cm', w')"
  shows "conc_inv sha K (x\<lparr>cc_sv := (cc_sv x)\<lparr>sv_migrator := m', sv_chunkMgr := cm'\<rparr>, cc_w := w', cc_migs := (cc_migs x)[j := t']\<rparr>)"
proof (rule conc_frame [OF I])
  let ?y = "x\<lparr>cc_sv := (cc_sv x)\<lparr>sv_migrator := m', sv_chunkMgr := cm'\<rparr>, cc_w := w', cc_migs := (cc_migs x)[j := t']\<rparr>"
  have sv: "sv_inv sha K (cc_sv x)" and cm: "cm_inv (sv_chunkMgr (cc_sv x))" "ids_plain (sv_chunkMgr (cc_sv x))"
    and w: "world_ok (cc_data x) (cc_w x)" and t: "mig_task_ok sha (sv_chunkMgr (cc_sv x)) (cc_w x) (cc_migs x ! j)"
    using I j by (simp_all add: conc_inv_def sv_inv_def)
  note mk = mig_step_keeps [OF cm w env t st, unfolded mig_kept_def]
  have km: "cm_inv cm'" "ids_plain cm'" "addr_of cm' = addr_of (sv_chunkMgr (cc_sv x))"
    "chunk_path cm' = chunk_path (sv_chunkMgr (cc_sv x))" using mk by (simp_all add: keeps_meta_def)
  show "sv_inv sha K (cc_sv ?y)" using sv_inv_chunkMgr [OF sv_inv_others(2) [OF sv] km(1)] km(4) by simp
  show "ids_plain (sv_chunkMgr (cc_sv ?y))" using km(2) by simp
  show "world_ok (cc_data x) (cc_w ?y)" using mk by simp
  have "mig_task_ok sha cm' w' t" if "t \<in> set (cc_migs x)" for t using conc_migs [OF I] km(3) mk that by simp
  then show "\<forall>t\<in>set (cc_migs ?y). mig_task_ok sha (sv_chunkMgr (cc_sv ?y)) (cc_w ?y) t"
    using mk by (auto dest!: in_updateD)
  show "chunk_reg sha (sv_chunkMgr (cc_sv ?y)) (cc_w ?y) (cc_puts x ! i) k"
    if "put_ok sha (cc_data x) (cc_puts x ! i)" "k < length (pt_Chunks (cc_puts x ! i))"
      "chunk_reg sha (sv_chunkMgr (cc_sv x)) (cc_w x) (cc_puts x ! i) k" for i k using mk that by simp
qed simp_all

lemma conc_send:
  assumes I: "conc_inv sha K x" and env: "untorn env" and j: "j < length (cc_puts x)"
    and u: "u = upload_step dial sha (net_StoreChunk env sha) i (up_at (cc_w x) (pt_Up (cc_puts x ! j)))"
  shows "conc_inv sha K (x\<lparr>cc_w := up_World u, cc_puts := (cc_puts x)[j := (cc_puts x ! j)\<lparr>pt_Up := up_at () u\<rparr>]\<rparr>)"
proof -
  let ?p = "cc_puts x ! j" and ?p' = "(cc_puts x ! j)\<lparr>pt_Up := up_at () u\<rparr>"
  have p: "put_ok sha (cc_data x) ?p" and w: "world_ok (cc_data x) (cc_w x)" using I j by (simp_all add: conc_inv_def)
  note ss = send_step [OF p w env u refl]
  have J: "conc_inv sha K (x\<lparr>cc_w := up_World u\<rparr>)" by (rule conc_world [OF I ss(1,2)])
  let ?ps = "(cc_puts x)[j := ?p']"
  have same: "pt_Path (?ps ! i) = pt_Path (cc_puts x ! i)" "pt_Chunks (?ps ! i) = pt_Chunks (cc_puts x ! i)" for i
    by (cases "i = j"; simp add: j)+
  have "i < length (cc_puts x) \<and> reg_ok sha (cc_sv x) (up_World u) ps (?ps ! i)" if r: "cc_reg x ps = Some i" for ps i
  proof -
    have i: "i < length (cc_puts x)" "reg_ok sha (cc_sv x) (cc_w x) ps (cc_puts x ! i)" using conc_inv_reg [OF I r] by auto
    have "reg_ok sha (cc_sv x) (up_World u) ps (?ps ! i)"
    proof (rule reg_ok_frame [OF i(2)])
      fix k assume k: "k < length (pt_Chunks (cc_puts x ! i))" "chunk_reg sha (sv_chunkMgr (cc_sv x)) (cc_w x) (cc_puts x ! i) k"
      have cm: "cm_inv (sv_chunkMgr (cc_sv x))" using I by (simp add: conc_inv_def sv_inv_def)
      show "chunk_reg sha (sv_chunkMgr (cc_sv x)) (up_World u) (?ps ! i) k"
        by (rule chunk_reg_frame [OF cm k(2)]) (use k ss(4) served_le [OF ss(2)] j in \<open>cases "i = j"; simp\<close>)+
    qed (simp_all add: same)
    then show ?thesis using i(1) by blast
  qed
  moreover have "get_ok sha (?ps ! i) g" if "get_ok sha (cc_puts x ! i) g" for i and g :: "unit download"
    using that by (simp add: get_ok_def same)
  moreover have "\<forall>p\<in>set ?ps. put_ok sha (cc_data x) p"
    using I ss(3) by (auto simp: conc_inv_def dest!: in_updateD)
  ultimately show ?thesis using J by (simp add: conc_inv_def)
qed

lemma dl_at_ok: "get_ok sha p (dl_at w u) \<longleftrightarrow> get_ok sha p u"
  by (simp add: get_ok_def dl_at_def)

lemma conc_fetch:
  assumes I: "conc_inv sha K x" and j: "j < length (cc_gets x)"
    and u: "u = download_step dial sha (net_GetChunk env sha) i (dl_at (cc_w x) (gt_Down (cc_gets x ! j)))"
  shows "conc_inv sha K (x\<lparr>cc_w := dl_World u, cc_gets := (cc_gets x)[j := (cc_gets x ! j)\<lparr>gt_Down := dl_at () u\<rparr>]\<rparr>)"
proof -
  let ?g = "cc_gets x ! j" and ?g' = "(cc_gets x ! j)\<lparr>gt_Down := dl_at () u\<rparr>"
  have w: "world_ok (cc_data x) (cc_w x)" using I by (simp add: conc_inv_def)
  have n: "w_nodes (dl_World u) = w_nodes (cc_w x)" by (simp add: u fetch_nodes)
  have J: "conc_inv sha K (x\<lparr>cc_w := dl_World u\<rparr>)"
    by (rule conc_world [OF I]) (use w world_ok_nodes [OF n] holds_nodes [OF n] in auto)
  have "i < length (cc_puts x) \<and> get_ok sha (cc_puts x ! i) (gt_Down ?g')" if "gt_From ?g' = Some i" for i
  proof -
    have i: "i < length (cc_puts x)" "get_ok sha (cc_puts x ! i) (gt_Down ?g)" "put_ok sha (cc_data x) (cc_puts x ! i)"
      using conc_inv_get [OF I nth_mem [OF j]] that by simp_all
    have "get_ok sha (cc_puts x ! i) (dl_at (cc_w x) (gt_Down ?g))" using i(2) by (simp add: dl_at_ok)
    from fetch_step(1) [OF this i(3) _ u] w show ?thesis using i(1) by (simp add: dl_at_ok)
  qed
  then show ?thesis using J by (auto simp: conc_inv_def dest!: in_updateD)
qed

lemma conc_inv_step:
  assumes inj: "inj_on (\<lambda>x. take 8 (sha x)) K" and st: "conc_step sha K x y" and I: "conc_inv sha K x"
  shows "conc_inv sha K y"
proof -
  have sv: "sv_inv sha K (cc_sv x)" "cm_inv (sv_chunkMgr (cc_sv x))" using I by (simp_all add: conc_inv_def sv_inv_def)
  note quiet = conc_quiet [OF I, where ps = "[]", simplified]
  show ?thesis
    using st
  proof cases
    case (put it srt lf localPath chunks fsize ck path ids now s' resp)
    then show ?thesis using conc_put [OF inj I put(2,3,5,6,7,8,9,10)] by simp
  next
    case (put_lost it srt req now s' resp)
    then show ?thesis using conc_put_meta [OF inj I] by simp
  next
    case (send env j u dial i)
    then show ?thesis using conc_send [OF I] by simp
  next
    case (get path resp)
    have "i < length (cc_puts x) \<and> get_ok sha (cc_puts x ! i) (gt_Down (start_get (Some i) (gfr_ChunkLocations resp)))"
      if "cc_reg x (ns_target path) = Some i" for i
      using conc_inv_reg [OF I that] start_get_ok [OF sv(1) _ _ get(5,2,3)] by blast
    then show ?thesis using I by (auto simp: get conc_inv_def start_get_def)
  next
    case (fetch j u dial env i)
    then show ?thesis using conc_fetch [OF I] by simp
  next
    case (delete it path s' resp)
    then show ?thesis using conc_delete [OF inj I] by simp
  next
    case (register it now address capacity)
    then show ?thesis using quiet [OF sv_inv_step [OF inj sv_step.register [OF register(2)] sv(1)]] server_quiet(1) [OF sv(2)]
      by (simp add: server_views)
  next
    case (heartbeat now hb)
    then show ?thesis using quiet [OF sv_inv_step [OF inj sv_step.heartbeat sv(1)]] server_quiet(2) by (simp add: server_views)
  next
    case (report metrics)
    then show ?thesis using quiet [OF sv_inv_step [OF inj sv_step.report sv(1)]] server_quiet(3) by (simp add: server_views)
  next
    case (dead_check it now)
    then show ?thesis using quiet [OF sv_inv_step [OF inj sv_step.dead_check sv(1)]] server_quiet(4) by (simp add: server_views)
  next
    case (predict it now s' critical)
    then have "s' = fst (predictionLoop_tick it now (cc_sv x))" by simp
    then show ?thesis
      using conc_quiet [OF I sv_inv_step [OF inj sv_step.predict sv(1)]] predict
      by (simp add: predictionLoop_tick_def Let_def quiet_predict)
  next
    case (migrate env it j dial clock t' m' cm' w')
    then show ?thesis using conc_migrate [OF I] by simp
  next
    case (race j ex ex')
    have "mig_task_ok sha (sv_chunkMgr (cc_sv x)) (cc_w x) (cc_migs x ! j)" using I race(2) by (simp add: conc_inv_def)
    then have "mig_task_ok sha (sv_chunkMgr (cc_sv x)) (cc_w x) ((cc_migs x ! j)\<lparr>mt_Pc := Picking ex'\<rparr>)"
      using race(3) by (simp add: mig_task_ok_def)
    then show ?thesis using I by (auto simp: race conc_inv_def dest!: in_updateD)
  next
    case (join a n)
    let ?w = "(cc_w x)\<lparr>w_nodes := AList.update a n (w_nodes (cc_w x))\<rparr>"
    have "world_ok (cc_data x) (cc_w x)" using I by (simp add: conc_inv_def)
    then have "world_ok (cc_data x) ?w" using join(3,4) by (auto simp: world_ok_def net_inv_def split: if_splits)
    moreover have "held_le sha (cc_w x) ?w" using join(2) by (auto simp: held_le_def net_holds_def)
    ultimately show ?thesis using conc_world [OF I] join by simp
  next
    case (restart a w')
    have "world_ok (cc_data x) (cc_w x)" using I by (simp add: conc_inv_def)
    from conc_world [OF I restart_world [OF this restart(2)]] show ?thesis by (simp add: restart)
  qed
qed

lemma conc_inv_reachable:
  assumes "inj_on (\<lambda>x. take 8 (sha x)) K" "conc_reachable sha K x"
  shows "conc_inv sha K x"
  using assms(2)
proof induction
  case start
  have "sv_inv sha K NewServer" by (rule sv_inv_reachable [OF assms(1) sv_reachable.new])
  then show ?case
    by (auto simp: conc_inv_def conc_start_def world_ok_def net_inv_def ids_plain_def NewServer_def NewChunkManager_def holdings_def)
next
  case (step x y)
  then show ?case using conc_inv_step [OF assms(1)] by blast
qed

section \<open>Properties\<close>

text \<open>
  C5: reads are exact, whatever happens around them, as long as no chunk ID is used for two different data. A download that
  asked for a file when put \<open>i\<close> was the latest of it, and that ends without an error, returns the bytes of put
  \<open>i\<close>: in every interleaving of its RPCs with other transfers, migrations (racing ones too), deletions,
  restarts, lost messages and failing disks. The condition is part of the steps: a chunk ID depends only on the path and the index, so
  a path may be put again with the same chunks, or fewer or more of them, but not with other bytes under an ID that
  was used before, and a node that joins has no other data under such an ID on its disk. Without it the claim is
  false: \<open>conflicting_puts_diverge\<close> and \<open>stale_copy_becomes_replica\<close> show how other data comes among the replicas.
\<close>

theorem concurrent_reads_are_exact:
  assumes "inj_on (\<lambda>x. take 8 (sha x)) K" "conc_reachable sha K x" "sort_slice srt"
    and "g \<in> set (cc_gets x)" "gt_From g = Some i" "download_result srt (gt_Down g) = Some (Ok data)"
  shows "i < length (cc_puts x) \<and> data = concat (pt_Chunks (cc_puts x ! i))"
proof -
  let ?p = "cc_puts x ! i" and ?u = "gt_Down g"
  let ?n = "length (pt_Chunks ?p)"
  note ok = conc_inv_get [OF conc_inv_reachable [OF assms(1,2)] assms(4,5)]
  have e: "dl_Errors ?u = []" "\<forall>t\<in>set (dl_Fetchers ?u). ft_Ended t"
    and out: "data = concat (map cr_Data (srt by_index (dl_Results ?u)))"
    using assms(6) by (auto simp: download_result_def by_index_def [abs_def] split: if_splits list.splits)
  have "{k. k < ?n \<and> ft_Ended (dl_Fetchers ?u ! k)} = {0..<?n}" using ok e(2) by (auto simp: get_ok_def)
  then have m: "mset (dl_Results ?u) = mset (map (\<lambda>k. \<lparr>cr_Index = int k, cr_Data = pt_Chunks ?p ! k\<rparr>) [0..<?n])"
    using ok e(1) by (simp add: get_ok_def)
  have "sorted_wrt by_index (map (\<lambda>k. \<lparr>cr_Index = int k, cr_Data = pt_Chunks ?p ! k\<rparr>) [0..<?n])"
    by (auto simp: sorted_wrt_iff_nth_less by_index_def)
  then have "srt by_index (dl_Results ?u) = map (\<lambda>k. \<lparr>cr_Index = int k, cr_Data = pt_Chunks ?p ! k\<rparr>) [0..<?n]"
    by (rule sort_slice.sort_unique [OF assms(3) by_index_weak m [symmetric]])
  then show ?thesis using ok by (simp add: out comp_def map_nth)
qed

text \<open>
  C6: what the metadata lists is stored, under the condition of the steps that no chunk ID is ever put with two different data
  (see above). When the upload of the latest put of a file has ended without an error,
  every registered node that the metadata lists for one of its chunks holds the data of that chunk; and this
  stays so while migrations move the chunks. After a put of other content under the same path it is false
  (\<open>conflicting_puts_diverge\<close>, \<open>stale_copy_becomes_replica\<close>).
\<close>

theorem listed_replicas_hold_data:
  assumes "inj_on (\<lambda>x. take 8 (sha x)) K" "conc_reachable sha K x"
    and "cc_reg x ps = Some i" "upload_result (pt_Up (cc_puts x ! i)) = Some (Ok ())" "k < length (pt_Chunks (cc_puts x ! i))"
    and "n \<in> set (replicas (sv_chunkMgr (cc_sv x)) (GenerateChunkID sha (pt_Path (cc_puts x ! i)) (int k)))"
    and "addr_of (sv_chunkMgr (cc_sv x)) n = Some a"
  shows "net_holds sha (cc_w x) a (GenerateChunkID sha (pt_Path (cc_puts x ! i)) (int k)) = Some (pt_Chunks (cc_puts x ! i) ! k)"
proof -
  let ?p = "cc_puts x ! i"
  have ok: "reg_ok sha (cc_sv x) (cc_w x) ps ?p" "put_ok sha (cc_data x) ?p"
    using conc_inv_reg [OF conc_inv_reachable [OF assms(1,2)] assms(3)] by auto
  have e: "up_Errors (pt_Up ?p) = []" "\<forall>t\<in>set (up_Senders (pt_Up ?p)). sn_Ended t"
    using assms(4) by (auto simp: upload_result_def split: if_splits list.splits)
  have "sn_Todo (up_Senders (pt_Up ?p) ! k) = []" using ok(2) e assms(5) by (auto simp: put_ok_def)
  moreover have "served sha (cc_w x) ?p k a" using ok(1) assms(5-7) by (auto simp: reg_ok_def chunk_reg_def)
  ultimately show ?thesis using e(1) by (simp add: served_def)
qed

section \<open>A small cluster at work\<close>

text \<open>Three nodes, a put of three bytes, and a reader that asks as soon as the metadata is there.\<close>

definition demo_conc0 :: conc where
  "demo_conc0 = conc_start\<lparr>cc_w := demo_nodes, cc_sv := demo_sv0\<rparr>"

definition demo_places1 :: "ChunkPlacement list" where
  "demo_places1 = (case sv_PutFile (\<lambda>ks. ks) insertion_sort pad_sha 0 demo_request demo_sv0 of
     (_, Some resp) \<Rightarrow> pfr_Placements resp | _ \<Rightarrow> [])"

definition demo_conc1 :: conc where
  "demo_conc1 = demo_conc0\<lparr>cc_sv := fst (sv_PutFile (\<lambda>ks. ks) insertion_sort pad_sha 0 demo_request demo_sv0),
     cc_puts := [start_put ''/f'' [''abc''] demo_places1], cc_reg := [ns_target ''/f'' \<mapsto> 0],
     cc_data := add_data (zip (chunk_ids pad_sha ''/f'' 1) [''abc'']) Map.empty\<rparr>"

definition demo_send :: "conc \<Rightarrow> conc" where
  "demo_send x = (let u = upload_step (\<lambda>_. None) pad_sha (net_StoreChunk good_env pad_sha) 0 (up_at (cc_w x) (pt_Up (cc_puts x ! 0)))
     in x\<lparr>cc_w := up_World u, cc_puts := (cc_puts x)[0 := (cc_puts x ! 0)\<lparr>pt_Up := up_at () u\<rparr>]\<rparr>)"

definition demo_fetch :: "conc \<Rightarrow> conc" where
  "demo_fetch x = (let u = download_step (\<lambda>_. None) pad_sha (net_GetChunk good_env pad_sha) 0 (dl_at (cc_w x) (gt_Down (cc_gets x ! 0)))
     in x\<lparr>cc_w := dl_World u, cc_gets := (cc_gets x)[0 := (cc_gets x ! 0)\<lparr>gt_Down := dl_at () u\<rparr>]\<rparr>)"

definition demo_answer :: GetFileResponse where
  "demo_answer = (case sv_GetFile ''/f'' (cc_sv demo_conc1) of Some g \<Rightarrow> g
     | None \<Rightarrow> \<lparr>gfr_Success = False, gfr_Message = '''', gfr_FileInfo = None, gfr_ChunkLocations = []\<rparr>)"

definition demo_get :: "conc \<Rightarrow> conc" where
  "demo_get x = x\<lparr>cc_gets := cc_gets x @ [start_get (cc_reg x (ns_target ''/f'')) (gfr_ChunkLocations demo_answer)]\<rparr>"

definition demo_conc :: conc where
  "demo_conc = demo_send (demo_send (demo_fetch (demo_send (demo_get (demo_send demo_conc1)))))"

lemma demo_conc0_reachable: "conc_reachable pad_sha K demo_conc0"
proof -
  have cs: "cs_inv (ds_store (fst (demo_data_node a)))" for a by (simp add: demo_data_node_def cs_inv_new)
  have nf: "node_files Map.empty (demo_data_node a)" for a by (simp add: node_files_def demo_data_node_def)
  define w where "w k = \<lparr>w_nodes = take k [(''a:1'', demo_data_node ''a:1''), (''b:1'', demo_data_node ''b:1''), (''c:1'', demo_data_node ''c:1'')],
    w_calls = 0\<rparr>" for k
  have "conc_reachable pad_sha K (conc_start\<lparr>cc_w := w 0\<rparr>)" using conc_reachable.start by (simp add: w_def conc_start_def)
  then have "conc_reachable pad_sha K (conc_start\<lparr>cc_w := w 1\<rparr>)"
    by (rule conc_reachable.step)
      (use conc_step.join [OF _ cs, where a = "''a:1''" and a1 = "''a:1''" and x = "conc_start\<lparr>cc_w := w 0\<rparr>"] nf in
        \<open>simp add: w_def conc_start_def\<close>)
  then have "conc_reachable pad_sha K (conc_start\<lparr>cc_w := w 2\<rparr>)"
    by (rule conc_reachable.step)
      (use conc_step.join [OF _ cs, where a = "''b:1''" and a1 = "''b:1''" and x = "conc_start\<lparr>cc_w := w 1\<rparr>"] nf in
        \<open>simp add: w_def conc_start_def\<close>)
  then have "conc_reachable pad_sha K (conc_start\<lparr>cc_w := w 3\<rparr>)"
    by (rule conc_reachable.step)
      (use conc_step.join [OF _ cs, where a = "''c:1''" and a1 = "''c:1''" and x = "conc_start\<lparr>cc_w := w 2\<rparr>"] nf in
        \<open>simp add: w_def conc_start_def\<close>)
  then have "conc_reachable pad_sha K (conc_start\<lparr>cc_w := demo_nodes\<rparr>)" by (simp add: w_def demo_nodes_def)
  moreover have "conc_reachable pad_sha K (conc_start\<lparr>cc_w := demo_nodes, cc_sv := s\<rparr>) \<Longrightarrow>
      conc_reachable pad_sha K (conc_start\<lparr>cc_w := demo_nodes, cc_sv := demo_reg a s\<rparr>)" for s a
    by (erule conc_reachable.step)
      (use conc_step.register [OF perm_iter_id, where x = "conc_start\<lparr>cc_w := demo_nodes, cc_sv := s\<rparr>"] in \<open>simp add: demo_reg_def\<close>)
  ultimately show ?thesis unfolding demo_conc0_def demo_sv0_def by (simp add: conc_start_def)
qed

lemma demo_conc1_reachable: "conc_reachable pad_sha demo_K1 demo_conc1"
proof (rule conc_reachable.step [OF demo_conc0_reachable])
  obtain s' ro where p: "sv_PutFile (\<lambda>ks. ks) insertion_sort pad_sha 0 demo_request demo_sv0 = (s', ro)" by force
  have "case snd (sv_PutFile (\<lambda>ks. ks) insertion_sort pad_sha 0 demo_request demo_sv0) of None \<Rightarrow> False | Some r \<Rightarrow> pfr_Success r"
    by code_simp
  then obtain resp where ok: "ro = Some resp" "pfr_Success resp" using p by (auto split: option.splits)
  have put: "sv_PutFile (\<lambda>ks. ks) insertion_sort pad_sha 0 \<lparr>pf_Path = ''/f'', pf_FileSize = 3, pf_ChunkCount = int (length [''abc'']),
      pf_Checksum = fmt_x (pad_sha ''abc'')\<rparr> (cc_sv demo_conc0) = (s', Some resp)"
    using p ok by (simp add: demo_request_def demo_conc0_def)
  have n: "int (length [''abc'']) < 2 ^ 31" "\<forall>i<length [''abc'']. chunk_key ''/f'' (int i) \<in> demo_K1" by (simp_all add: demo_K1_def)
  have d: "\<forall>k<length [''abc'']. cc_data demo_conc0 (chunk_ids pad_sha ''/f'' (int (length [''abc''])) ! k) \<in> {None, Some ([''abc''] ! k)}"
    by (simp add: demo_conc0_def conc_start_def)
  have "demo_conc1 = demo_conc0\<lparr>cc_sv := s', cc_puts := cc_puts demo_conc0 @ [start_put ''/f'' [''abc''] (pfr_Placements resp)],
      cc_reg := (cc_reg demo_conc0)(ns_target ''/f'' \<mapsto> length (cc_puts demo_conc0)),
      cc_data := add_data (zip (chunk_ids pad_sha ''/f'' (int (length [''abc'']))) [''abc'']) (cc_data demo_conc0)\<rparr>"
    using p ok by (simp add: demo_conc1_def demo_conc0_def conc_start_def demo_places1_def)
  then show "conc_step pad_sha demo_K1 demo_conc0 demo_conc1"
    using conc_step.put [OF perm_iter_id go_sort.sort_slice_axioms demo_read n refl d put ok(2)] by simp
qed

lemma demo_sends: "0 < length (cc_puts x) \<Longrightarrow> conc_reachable pad_sha K x \<Longrightarrow> conc_reachable pad_sha K (demo_send x)"
  unfolding demo_send_def Let_def
  by (rule conc_reachable.step, assumption, rule conc_step.send [OF _ _ refl]) (simp_all add: untorn_def good_env_def)

lemma demo_fetches: "0 < length (cc_gets x) \<Longrightarrow> conc_reachable pad_sha K x \<Longrightarrow> conc_reachable pad_sha K (demo_fetch x)"
  unfolding demo_fetch_def Let_def
  by (rule conc_reachable.step, assumption, rule conc_step.fetch [OF _ refl]) simp_all

lemma demo_conc_reachable: "conc_reachable pad_sha demo_K1 demo_conc"
proof -
  have l: "length (cc_puts (demo_send x)) = length (cc_puts x)" "length (cc_puts (demo_fetch x)) = length (cc_puts x)"
    "length (cc_puts (demo_get x)) = length (cc_puts x)" "length (cc_gets (demo_send x)) = length (cc_gets x)"
    "length (cc_gets (demo_get x)) = Suc (length (cc_gets x))" "cc_sv (demo_send x) = cc_sv x" for x
    by (simp_all add: demo_send_def demo_fetch_def demo_get_def Let_def)
  have one: "length (cc_puts demo_conc1) = 1" by (simp add: demo_conc1_def)
  have "case sv_GetFile ''/f'' (cc_sv demo_conc1) of None \<Rightarrow> False | Some g \<Rightarrow> gfr_Success g \<and> (gfr_FileInfo g = None) = False"
    unfolding demo_conc1_def demo_conc0_def by code_simp
  then have g: "sv_GetFile ''/f'' (cc_sv demo_conc1) = Some demo_answer" "gfr_Success demo_answer" "gfr_FileInfo demo_answer \<noteq> None"
    by (auto simp: demo_answer_def split: option.splits)
  have pl: "plain ''/f''" by code_simp
  have r: "conc_reachable pad_sha demo_K1 (demo_send demo_conc1)" by (intro demo_sends demo_conc1_reachable) (simp add: one)
  have "sv_GetFile ''/f'' (cc_sv (demo_send demo_conc1)) = Some demo_answer" using g(1) by (simp add: l)
  then have "conc_reachable pad_sha demo_K1 (demo_get (demo_send demo_conc1))"
    unfolding demo_get_def by (intro conc_reachable.step [OF r conc_step.get] g(2,3) pl)
  then show ?thesis unfolding demo_conc_def by (intro demo_sends demo_fetches) (simp_all add: l one)
qed

lemma demo_conc_values:
  "length (cc_gets demo_conc) = 1" "gt_From (cc_gets demo_conc ! 0) = Some 0"
  "download_result insertion_sort (gt_Down (cc_gets demo_conc ! 0)) = Some (Ok ''abc'')"
  "upload_result (pt_Up (cc_puts demo_conc ! 0)) = Some (Ok ())"
  "pt_Path (cc_puts demo_conc ! 0) = ''/f''" "pt_Chunks (cc_puts demo_conc ! 0) = [''abc'']"
  "cc_reg demo_conc (ns_target ''/f'') = Some 0"
  "replicas (sv_chunkMgr (cc_sv demo_conc)) (GenerateChunkID pad_sha ''/f'' 0) = [''node-1'', ''node-2'', ''node-3'']"
  "addr_of (sv_chunkMgr (cc_sv demo_conc)) ''node-3'' = Some ''c:1''"
proof -
  show "length (cc_gets demo_conc) = 1" by code_simp
  show "gt_From (cc_gets demo_conc ! 0) = Some 0" by code_simp
  show "download_result insertion_sort (gt_Down (cc_gets demo_conc ! 0)) = Some (Ok ''abc'')" by code_simp
  show "upload_result (pt_Up (cc_puts demo_conc ! 0)) = Some (Ok ())" by code_simp
  show "pt_Path (cc_puts demo_conc ! 0) = ''/f''" by code_simp
  show "pt_Chunks (cc_puts demo_conc ! 0) = [''abc'']" by code_simp
  show "cc_reg demo_conc (ns_target ''/f'') = Some 0" by code_simp
  show "replicas (sv_chunkMgr (cc_sv demo_conc)) (GenerateChunkID pad_sha ''/f'' 0) = [''node-1'', ''node-2'', ''node-3'']" by code_simp
  show "addr_of (sv_chunkMgr (cc_sv demo_conc)) ''node-3'' = Some ''c:1''" by code_simp
qed

theorem concurrent_reads_are_exact_witness:
  "download_result insertion_sort (gt_Down (cc_gets demo_conc ! 0)) = Some (Ok (concat (pt_Chunks (cc_puts demo_conc ! 0))))"
  using concurrent_reads_are_exact [OF demo_K1_inj demo_conc_reachable go_sort.sort_slice_axioms _ demo_conc_values(2,3)]
    demo_conc_values(1,3) by simp

theorem listed_replicas_hold_data_witness:
  "net_holds pad_sha (cc_w demo_conc) ''c:1'' (GenerateChunkID pad_sha ''/f'' 0) = Some ''abc''"
  using listed_replicas_hold_data [OF demo_K1_inj demo_conc_reachable demo_conc_values(7,4), where k = 0 and n = "''node-3''"]
    demo_conc_values by simp

end
