(* ===== verification/Conflicting_Puts.thy ===== *)
theory Conflicting_Puts
  imports Concurrent
begin

text \<open>
  Two clients that write one path at the same time (\<^verbatim>\<open>internal/client/transfer.go\<close>). The chunk IDs depend
  only on the path, the data nodes keep the data that came last, and nothing orders the uploads: each client sends to
  the replicas one after the other. \<open>two_step\<close> interleaves the goroutine of each client, one RPC at a time.
\<close>

definition two_step ::
  "(string \<Rightarrow> string option) \<Rightarrow> (bytes \<Rightarrow> bytes) \<Rightarrow> 'w store_rpc \<Rightarrow> bool \<Rightarrow> unit upload \<times> unit upload \<times> 'w \<Rightarrow>
   unit upload \<times> unit upload \<times> 'w" where
  "two_step dial sha store first x =
     (case x of (p, q, w) \<Rightarrow>
        if first then (let u = upload_step dial sha store 0 (up_at w p) in (up_at () u, q, up_World u))
        else (let u = upload_step dial sha store 0 (up_at w q) in (p, up_at () u, up_World u)))"

definition one_chunk_upload :: "bytes \<Rightarrow> ChunkPlacement \<Rightarrow> unit upload" where
  "one_chunk_upload data p = \<lparr>up_Senders = start_senders [data] [p], up_Errors = [], up_Panic = False, up_World = ()\<rparr>"

text \<open>An upload of one chunk with the nodes it still has to reach, or at its end.\<close>

definition sending :: "string \<Rightarrow> bytes \<Rightarrow> string list \<Rightarrow> bool \<Rightarrow> unit upload" where
  "sending c data todo ended = \<lparr>up_Senders = [\<lparr>sn_ChunkId = c, sn_Data = data, sn_Todo = todo, sn_Ended = ended\<rparr>],
     up_Errors = [], up_Panic = False, up_World = ()\<rparr>"

lemma start_sending: "one_chunk_upload data p = sending (cp_ChunkId p) data (cp_NodeAddresses p) False"
  by (simp add: one_chunk_upload_def sending_def start_senders_def)

lemma sent: "upload_result (sending c data [] True) = Some (Ok ())"
  by (simp add: upload_result_def sending_def)

text \<open>One RPC to a node that works, and the last step.\<close>

lemma sending_step:
  assumes "net_inv w" "no_slash c" "dial a = None" "net_alive env a" "net_present w a" "en_fits env (length data)"
  obtains w' where
    "upload_step dial sha (net_StoreChunk env sha) 0 (up_at w (sending c data (a # todo) False)) = up_at w' (sending c data todo False)"
    "net_inv w'" "net_present w' = net_present w" "net_holds sha w' a c = Some data"
    "\<And>b. b \<noteq> a \<Longrightarrow> net_holds sha w' b c = net_holds sha w b c"
proof -
  obtain w' where st: "sendChunkToNode dial (net_StoreChunk env sha) a c data (DataChecksum sha data) w = (w', None)"
    using dn.send_alive assms(1,3-6) by blast
  have "upload_step dial sha (net_StoreChunk env sha) 0 (up_at w (sending c data (a # todo) False)) = up_at w' (sending c data todo False)"
    using st by (simp add: upload_step_def up_at_def sending_def)
  then show thesis using that dn.send_cases [OF assms(1,2) st] by simp
qed

lemma sending_end:
  "12 \<le> length c \<Longrightarrow> upload_step dial sha store 0 (up_at w (sending c data [] False)) = up_at w (sending c data [] True)"
  by (simp add: upload_step_def up_at_def sending_def)

lemma up_at_again [simp]: "up_at () (up_at w (sending c data xs e)) = sending c data xs e"
  by (simp add: up_at_def sending_def)

text \<open>The rest of an upload in one go.\<close>

lemma sending_all:
  assumes "net_inv w" "no_slash c" "12 \<le> length c" "en_fits env (length data)"
    and "\<forall>a\<in>set todo. dial a = None \<and> net_alive env a \<and> net_present w a"
  shows "\<exists>w'. fold (two_step dial sha (net_StoreChunk env sha)) (replicate (Suc (length todo)) True) (sending c data todo False, q, w) =
      (sending c data [] True, q, w') \<and>
    fold (two_step dial sha (net_StoreChunk env sha)) (replicate (Suc (length todo)) False) (q, sending c data todo False, w) =
      (q, sending c data [] True, w') \<and>
    net_inv w' \<and> net_present w' = net_present w \<and> (\<forall>a\<in>set todo. net_holds sha w' a c = Some data) \<and>
    (\<forall>a. a \<notin> set todo \<longrightarrow> net_holds sha w' a c = net_holds sha w a c)"
  using assms(1,5)
proof (induction todo arbitrary: w)
  case Nil
  then show ?case by (simp add: two_step_def Let_def sending_end [OF assms(3)])
next
  case (Cons a todo)
  obtain w1 where st: "upload_step dial sha (net_StoreChunk env sha) 0 (up_at w (sending c data (a # todo) False)) =
      up_at w1 (sending c data todo False)" and w1: "net_inv w1" "net_present w1 = net_present w"
    "net_holds sha w1 a c = Some data" "\<And>b. b \<noteq> a \<Longrightarrow> net_holds sha w1 b c = net_holds sha w b c"
    by (rule sending_step [where todo = todo and dial = dial and sha = sha, OF Cons.prems(1) assms(2) _ _ _ assms(4)]) (use Cons.prems(2) in auto)
  have one: "two_step dial sha (net_StoreChunk env sha) True (sending c data (a # todo) False, q, w) = (sending c data todo False, q, w1)"
    "two_step dial sha (net_StoreChunk env sha) False (q, sending c data (a # todo) False, w) = (q, sending c data todo False, w1)"
    using st by (simp_all add: two_step_def)
  obtain w' where "fold (two_step dial sha (net_StoreChunk env sha)) (replicate (Suc (length todo)) True) (sending c data todo False, q, w1) =
      (sending c data [] True, q, w')"
    "fold (two_step dial sha (net_StoreChunk env sha)) (replicate (Suc (length todo)) False) (q, sending c data todo False, w1) =
      (q, sending c data [] True, w')"
    and w': "net_inv w'" "net_present w' = net_present w1" "\<forall>a\<in>set todo. net_holds sha w' a c = Some data"
    "\<forall>a. a \<notin> set todo \<longrightarrow> net_holds sha w' a c = net_holds sha w1 a c"
    using Cons.IH [OF w1(1)] Cons.prems(2) w1(2) by auto
  moreover have "net_holds sha w' a c = Some data" using w'(3,4) w1(3) by (cases "a \<in> set todo") auto
  ultimately show ?case using one w1 w' by (auto simp: replicate_Suc)
qed

text \<open>
  C36: two acknowledged puts of one path can leave the replicas of a chunk with different data. Two clients
  upload a chunk each under the same ID to the same working nodes, as two puts of one path do in a cluster of three nodes: under
  the schedule in which the first sends to the first node, then the second runs, then the first goes on, both report success,
  and the first node holds the data of the second client, all others that of the first. Each copy has its right checksum, so
  what a download of the chunk returns depends on which node it asks.
\<close>

theorem conflicting_puts_diverge:
  assumes "net_inv w" "no_slash c" "12 \<le> length c" "p = \<lparr>cp_ChunkId = c, cp_ChunkIndex = i, cp_NodeAddresses = a # rest, cp_NodeIds = ids\<rparr>"
    and "a \<notin> set rest" "\<forall>x\<in>set (a # rest). dial x = None \<and> net_alive env x \<and> net_present w x"
    and "en_fits env (length data1)" "en_fits env (length data2)"
  shows "\<exists>u1 u2 w'. fold (two_step dial sha (net_StoreChunk env sha))
        ([True] @ replicate (length rest + 2) False @ replicate (length rest + 1) True)
        (one_chunk_upload data1 p, one_chunk_upload data2 p, w) = (u1, u2, w') \<and>
      upload_result u1 = Some (Ok ()) \<and> upload_result u2 = Some (Ok ()) \<and>
      net_holds sha w' a c = Some data2 \<and> (\<forall>x\<in>set rest. net_holds sha w' x c = Some data1) \<and>
      (\<forall>x\<in>set (a # rest). \<exists>w''. fetchChunkFromNode dial sha (net_GetChunk env sha) x c w' = (w'', Inr (if x = a then data2 else data1)))"
proof -
  let ?two = "two_step dial sha (net_StoreChunk env sha)"
  obtain w1 where "upload_step dial sha (net_StoreChunk env sha) 0 (up_at w (sending c data1 (a # rest) False)) =
      up_at w1 (sending c data1 rest False)" and w1: "net_inv w1" "net_present w1 = net_present w"
    by (rule sending_step [where todo = rest and dial = dial and sha = sha, OF assms(1,2) _ _ _ assms(7)]) (use assms(6) in auto)
  then have 1: "?two True (sending c data1 (a # rest) False, sending c data2 (a # rest) False, w) =
      (sending c data1 rest False, sending c data2 (a # rest) False, w1)" by (simp add: two_step_def)
  obtain w2 where 2: "fold ?two (replicate (Suc (length (a # rest))) False) (sending c data1 rest False, sending c data2 (a # rest) False, w1) =
      (sending c data1 rest False, sending c data2 [] True, w2)"
    and w2: "net_inv w2" "net_present w2 = net_present w1" "\<forall>x\<in>set (a # rest). net_holds sha w2 x c = Some data2"
    using sending_all [OF w1(1) assms(2,3,8), of "a # rest" dial sha "sending c data1 rest False"] assms(6) w1(2) by auto
  obtain w3 where 3: "fold ?two (replicate (Suc (length rest)) True) (sending c data1 rest False, sending c data2 [] True, w2) =
      (sending c data1 [] True, sending c data2 [] True, w3)"
    and w3: "\<forall>x\<in>set rest. net_holds sha w3 x c = Some data1" "\<forall>x. x \<notin> set rest \<longrightarrow> net_holds sha w3 x c = net_holds sha w2 x c"
      "net_inv w3"
    using sending_all [OF w2(1) assms(2,3,7), of rest dial sha "sending c data2 [] True"] assms(6) w1(2) w2(2) by auto
  have "fold ?two ([True] @ replicate (length rest + 2) False @ replicate (length rest + 1) True)
      (one_chunk_upload data1 p, one_chunk_upload data2 p, w) = (sending c data1 [] True, sending c data2 [] True, w3)"
    using 1 2 3 by (simp add: start_sending assms(4))
  moreover have h: "net_holds sha w3 a c = Some data2" "\<forall>x\<in>set rest. net_holds sha w3 x c = Some data1"
    using w2(3) w3 assms(5) by auto
  moreover have "\<exists>w''. fetchChunkFromNode dial sha (net_GetChunk env sha) x c w3 = (w'', Inr (if x = a then data2 else data1))"
    if "x \<in> set (a # rest)" for x
    using dn.fetch_alive [OF w3(3), of dial x env sha c] h assms(5-8) that by auto
  ultimately show ?thesis using sent by blast
qed

theorem conflicting_puts_diverge_witness:
  "\<exists>u1 u2 w'. fold (two_step (\<lambda>_. None) id (net_StoreChunk good_env id)) [True, False, False, False, True, True]
       (one_chunk_upload ''hello'' (hd demo_places), one_chunk_upload ''howdy'' (hd demo_places), demo_world) = (u1, u2, w') \<and>
     upload_result u1 = Some (Ok ()) \<and> upload_result u2 = Some (Ok ()) \<and>
     net_holds id w' ''a'' ''00000000000a'' = Some ''howdy'' \<and> net_holds id w' ''b'' ''00000000000a'' = Some ''hello'' \<and>
     (\<exists>w''. fetchChunkFromNode (\<lambda>_. None) id (net_GetChunk good_env id) ''a'' ''00000000000a'' w' = (w'', Inr ''howdy'')) \<and>
     (\<exists>w''. fetchChunkFromNode (\<lambda>_. None) id (net_GetChunk good_env id) ''b'' ''00000000000a'' w' = (w'', Inr ''hello''))"
proof -
  have "hd demo_places = \<lparr>cp_ChunkId = ''00000000000a'', cp_ChunkIndex = 0, cp_NodeAddresses = ''a'' # [''b''], cp_NodeIds = [''n1'', ''n2'']\<rparr>"
    by (simp add: demo_places_def)
  moreover have "\<forall>x\<in>set (''a'' # [''b'']). (\<lambda>_. None :: string option) x = None \<and> net_alive good_env x \<and> net_present demo_world x"
    by (auto simp: good_env_alive net_present_def demo_world_def)
  moreover have "en_fits good_env n" for n by (simp add: good_env_def)
  moreover have "no_slash ''00000000000a''" "12 \<le> length ''00000000000a''" "''a'' \<notin> set [''b'']" by simp_all
  ultimately show ?thesis
    using conflicting_puts_diverge [OF demo_world_inv, of "''00000000000a''" "hd demo_places" 0 "''a''" "[''b'']" "[''n1'', ''n2'']"
      "\<lambda>_. None" good_env "''hello''" "''howdy''" id] by (simp add: numeral_2_eq_2)
qed

end
