(* ===== verification/Membership.thy ===== *)
theory Membership
  imports Cluster
begin

text \<open>
  Data nodes and the metadata server together (\<^verbatim>\<open>datanode/server.go\<close> calling \<^verbatim>\<open>metaserver/server.go\<close>): a node
  registers, sends heartbeats, and the server marks dead the nodes that are silent. A node keeps its ID
  and address whatever the server does, and a node whose heartbeats come in time is never taken for dead;
  but the answer to a heartbeat is thrown away, so a node never learns that the server does not know it.
\<close>

section \<open>RPCs of a node\<close>

definition sys_RegisterNode ::
  "iter \<Rightarrow> time \<Rightarrow> string \<Rightarrow> int \<Rightarrow> system \<Rightarrow> system \<times> (string + RegisterNodeResponse)" where
  "sys_RegisterNode it now address capacity sw =
     (case sv_RegisterNode it now address capacity (fst sw) of (s', resp) \<Rightarrow> ((s', snd sw), Inr resp))"

definition sys_Heartbeat :: "time \<Rightarrow> HeartbeatRequest \<Rightarrow> system \<Rightarrow> system \<times> string option" where
  "sys_Heartbeat now req sw = (case sv_Heartbeat now req (fst sw) of (s', _) \<Rightarrow> ((s', snd sw), None))"

section \<open>What the server keeps of a node\<close>

text \<open>\<open>keeps Q\<close>: a node whose record satisfies \<open>Q\<close> is still there, and its record still does.\<close>

definition keeps :: "(DataNodeInfo \<Rightarrow> bool) \<Rightarrow> ChunkManager \<Rightarrow> ChunkManager \<Rightarrow> bool" where
  "keeps Q cm cm' \<longleftrightarrow> (\<forall>k d. map_of (cm_nodes cm) k = Some d \<longrightarrow> Q d \<longrightarrow> (\<exists>d'. map_of (cm_nodes cm') k = Some d' \<and> Q d'))"

lemma keeps_refl [simp]: "keeps Q cm cm"
  by (simp add: keeps_def)

lemma keeps_trans: "keeps Q a b \<Longrightarrow> keeps Q b c \<Longrightarrow> keeps Q a c"
  unfolding keeps_def by blast

lemma keeps_upd: "(\<And>d. map_of (cm_nodes cm) p = Some d \<Longrightarrow> Q d \<Longrightarrow> Q (f d)) \<Longrightarrow> keeps Q cm (upd_node p f cm)"
  by (auto simp: keeps_def cm_simps)

lemma keeps_chunks [simp]: "keeps Q cm (upd_chunk c f cm') \<longleftrightarrow> keeps Q cm cm'"
  by (simp add: keeps_def cm_simps)

lemma keeps_fold: "(\<And>x cm. x \<in> set xs \<Longrightarrow> keeps Q cm (f x cm)) \<Longrightarrow> keeps Q cm (fold f xs cm)"
  by (induction xs arbitrary: cm) (auto intro: keeps_trans)

text \<open>What \<open>Q\<close> may look at: the address, the status and the time of the last heartbeat.\<close>

definition core_pred :: "(DataNodeInfo \<Rightarrow> bool) \<Rightarrow> bool" where
  "core_pred Q \<longleftrightarrow> (\<forall>d d'. dni_Address d' = dni_Address d \<longrightarrow> dni_Status d' = dni_Status d \<longrightarrow>
     dni_LastHeartbeat d' = dni_LastHeartbeat d \<longrightarrow> Q d \<longrightarrow> Q d')"

lemma keeps_chunk_entry:
  assumes "core_pred Q"
  shows "Q d \<Longrightarrow> Q (d\<lparr>dni_Chunks := x\<rparr>)"
  using assms unfolding core_pred_def by (elim allE [of _ d] allE [of _ "d\<lparr>dni_Chunks := x\<rparr>"]) simp

lemma keeps_cores:
  assumes "core_pred Q" "node_cores cm' = node_cores cm"
  shows "keeps Q cm cm'"
  unfolding keeps_def
proof (intro allI impI)
  fix k d assume d: "map_of (cm_nodes cm) k = Some d" "Q d"
  obtain d' where "map_of (cm_nodes cm') k = Some d'" "dni_Address d' = dni_Address d" "dni_Status d' = dni_Status d"
    "dni_LastHeartbeat d' = dni_LastHeartbeat d" by (rule cores_fields [OF assms(2) d(1)]) blast
  then show "\<exists>d'. map_of (cm_nodes cm') k = Some d' \<and> Q d'" using assms(1) d(2) unfolding core_pred_def by metis
qed

lemma keeps_allocate:
  assumes "core_pred Q" "cm_inv cm" "perm_iter it" "sort_slice srt"
  shows "keeps Q cm (fst (cm_AllocateChunks it srt sha now path cnt sz cm))"
proof (cases "cm_healthyNodes it now cm = [] \<or> cnt < 0")
  case True
  then show ?thesis by (auto simp: cm_AllocateChunks_def Let_def)
next
  case False
  then have H: "cm_healthyNodes it now cm \<noteq> []" "0 \<le> cnt" by simp_all
  obtain cm' ps where "cm_AllocateChunks it srt sha now path cnt sz cm = (cm', Ok ps)" "node_cores cm' = node_cores cm"
    by (rule allocate_ok [OF assms(2-4) refl H, of sha path sz]) blast
  then show ?thesis using keeps_cores [OF assms(1)] by simp
qed

lemma keeps_remove:
  assumes "core_pred Q"
  shows "keeps Q cm (fst (cm_RemoveChunks it cs cm))"
proof -
  have del: "keeps Q a (upd_node p (del_chunk_entry c) a)" for a p c
    by (rule keeps_upd) (simp add: del_chunk_entry_def keeps_chunk_entry [OF assms])
  have "keeps Q (a\<lparr>cm_chunks := C\<rparr>) b \<longleftrightarrow> keeps Q a b" for a b C by (simp add: keeps_def)
  then have "keeps Q a (forget_chunk c a)" for a c
    using keeps_fold [of "replicas a c" Q "\<lambda>p. upd_node p (del_chunk_entry c)", OF del]
    unfolding forget_chunk_def by blast
  then have "keeps Q cm (fst (remove_loop cs cm []))" unfolding remove_loop_fst by (intro keeps_fold)
  then show ?thesis by (simp add: cm_RemoveChunks_def case_prod_beta)
qed

section \<open>Steps with a clock\<close>

text \<open>
  The steps of the server, with the times at which nodes register and send heartbeats bounded by \<open>beat\<close>
  and those of the dead-node checks by \<open>check\<close>.
\<close>

inductive paced_step ::
  "(bytes \<Rightarrow> bytes) \<Rightarrow> bytes set \<Rightarrow> (time \<Rightarrow> bool) \<Rightarrow> (time \<Rightarrow> bool) \<Rightarrow> Server \<Rightarrow> Server \<Rightarrow> bool" for sha K beat check where
  put: "perm_iter it \<Longrightarrow> sort_slice srt \<Longrightarrow>
    \<forall>i<nat (pf_ChunkCount req). chunk_key (pf_Path req) (int i) \<in> K \<Longrightarrow>
    sv_PutFile it srt sha now req s = (s', Some resp) \<Longrightarrow> paced_step sha K beat check s s'"
| delete: "sv_DeleteFile it path s = (s', Some resp) \<Longrightarrow> paced_step sha K beat check s s'"
| register: "perm_iter it \<Longrightarrow> beat now \<Longrightarrow> paced_step sha K beat check s (fst (sv_RegisterNode it now address capacity s))"
| heartbeat: "beat now \<Longrightarrow> paced_step sha K beat check s (fst (sv_Heartbeat now hb s))"
| report: "paced_step sha K beat check s (fst (sv_ReportHealth metrics s))"
| dead_check: "check now \<Longrightarrow> paced_step sha K beat check s (deadNodeChecker_tick it now s)"
| predict: "paced_step sha K beat check s (fst (predictionLoop_tick it now s))"
| migrated_to: "cm_registered (sv_chunkMgr s) n \<Longrightarrow>
    paced_step sha K beat check s (s\<lparr>sv_chunkMgr := cm_AddChunkToNode c n (sv_chunkMgr s)\<rparr>)"
| migrated_from: "paced_step sha K beat check s (s\<lparr>sv_chunkMgr := cm_RemoveChunkFromNode c n (sv_chunkMgr s)\<rparr>)"
| migrator: "paced_step sha K beat check s (s\<lparr>sv_migrator := m\<rparr>)"

lemma paced_sv_step: "paced_step sha K beat check s s' \<Longrightarrow> sv_step sha K s s'"
  by (induction rule: paced_step.induct) (blast intro: sv_step.intros)+


text \<open>
  A predicate that survives timely heartbeats, the checks and any status that a prediction can give
  survives every step.
\<close>

definition paced_pred :: "(time \<Rightarrow> bool) \<Rightarrow> (time \<Rightarrow> bool) \<Rightarrow> (DataNodeInfo \<Rightarrow> bool) \<Rightarrow> bool" where
  "paced_pred beat check Q \<longleftrightarrow> core_pred Q \<and>
     (\<forall>d st. st \<noteq> StatusDead \<longrightarrow> Q d \<longrightarrow> Q (d\<lparr>dni_Status := st\<rparr>)) \<and>
     (\<forall>d now. beat now \<longrightarrow> Q d \<longrightarrow> Q (d\<lparr>dni_LastHeartbeat := now\<rparr>)) \<and>
     (\<forall>d now. check now \<longrightarrow> cm_stale now d \<longrightarrow> Q d \<longrightarrow> Q (d\<lparr>dni_Status := StatusDead\<rparr>))"

lemma core_predD:
  "core_pred Q \<Longrightarrow> Q d \<Longrightarrow> dni_Address d' = dni_Address d \<Longrightarrow> dni_Status d' = dni_Status d \<Longrightarrow>
   dni_LastHeartbeat d' = dni_LastHeartbeat d \<Longrightarrow> Q d'"
  unfolding core_pred_def by blast

lemma keeps_dead_loop:
  assumes "\<And>d. cm_stale now d \<Longrightarrow> Q d \<Longrightarrow> Q (d\<lparr>dni_Status := StatusDead\<rparr>)"
  shows "keeps Q cm (fst (dead_loop now ks cm))"
proof (induction ks arbitrary: cm)
  case (Cons k ks)
  have "keeps Q cm (fst (dead_loop now ks (upd_node k (\<lambda>n. n\<lparr>dni_Status := StatusDead\<rparr>) cm)))"
    if "map_of (cm_nodes cm) k = Some n" "cm_stale now n" for n
    using that assms by (intro keeps_trans [OF keeps_upd Cons]) auto
  then show ?case using Cons by (auto simp: case_prod_beta split: option.split)
qed simp

lemma keeps_predict:
  assumes "paced_pred beat check Q"
  shows "keeps Q cm (fold (\<lambda>r. cm_UpdateNodeHealth (pr_NodeID r) (pr_Status r) (pr_OverallRisk r)) (PredictAll it now m) cm)"
proof (rule keeps_fold)
  fix r cm assume "r \<in> set (PredictAll it now m)"
  then have "PredictNode now m (pr_NodeID r) = Some r" using PredictAll_sound [of it now m] by blast
  then have "\<exists>x. RiskToStatus x = pr_Status r"
    by (auto simp: PredictNode_def Let_def split: option.splits prod.splits if_splits dest!: arg_cong [of _ r pr_Status])
  then have "pr_Status r \<noteq> StatusDead" by (auto simp: RiskToStatus_def split: if_splits)
  then have "Q (d\<lparr>dni_Status := pr_Status r, dni_RiskScore := pr_OverallRisk r\<rparr>)" if "Q d" for d
    using assms core_predD [of Q "d\<lparr>dni_Status := pr_Status r\<rparr>"] that by (simp add: paced_pred_def)
  then show "keeps Q cm (cm_UpdateNodeHealth (pr_NodeID r) (pr_Status r) (pr_OverallRisk r) cm)"
    by (auto simp: cm_UpdateNodeHealth_def split: option.split intro: keeps_upd)
qed

lemma keeps_register:
  assumes "cm_inv cm" "\<And>d. Q d \<Longrightarrow> Q (d\<lparr>dni_LastHeartbeat := now\<rparr>)"
  shows "keeps Q cm (fst (cm_RegisterNode it now address capacity cm))"
proof (cases "find (\<lambda>(k, n). dni_Address n = address) (gm_range it (cm_nodes cm))")
  case (Some x)
  then show ?thesis using assms(2) by (cases x) (simp add: cm_RegisterNode_def keeps_upd)
next
  case None
  have "map_of (cm_nodes cm) (node_name (length (cm_nodes cm) + 1)) = None"
    using inv_fresh [OF assms(1)] by (simp add: map_of_eq_None_iff)
  then show ?thesis using None by (auto simp: cm_RegisterNode_def Let_def keeps_def)
qed

lemma keeps_heartbeat:
  assumes "paced_pred beat check Q" "beat now"
  shows "keeps Q cm (fst (cm_UpdateHeartbeat now n used cnt cm))"
proof -
  define f where "f = (\<lambda>n :: DataNodeInfo. let n = n\<lparr>dni_LastHeartbeat := now, dni_UsedBytes := used, dni_ChunkCount := cnt\<rparr>
    in if dni_Status n = StatusDead then n\<lparr>dni_Status := StatusHealthy, dni_RiskScore := 0\<rparr> else n)"
  have "Q (f d)" if q: "Q d" for d
  proof -
    have c: "core_pred Q" and "Q (d\<lparr>dni_LastHeartbeat := now\<rparr>)" using assms q by (simp_all add: paced_pred_def)
    then have h: "Q (d\<lparr>dni_LastHeartbeat := now, dni_UsedBytes := used, dni_ChunkCount := cnt\<rparr>)" (is "Q ?h")
      using core_predD [OF c] by fastforce
    then have "Q (?h\<lparr>dni_Status := StatusHealthy\<rparr>)" using assms(1) by (simp add: paced_pred_def)
    then have "Q (?h\<lparr>dni_Status := StatusHealthy, dni_RiskScore := 0\<rparr>)" using core_predD [OF c] by fastforce
    then show ?thesis using h by (simp add: f_def Let_def)
  qed
  then show ?thesis unfolding cm_UpdateHeartbeat_def f_def by (auto split: option.split intro: keeps_upd)
qed


lemma paced_keeps:
  assumes "paced_step sha K beat check s s'" "cm_inv (sv_chunkMgr s)" "paced_pred beat check Q"
  shows "keeps Q (sv_chunkMgr s) (sv_chunkMgr s')"
  using assms(1)
proof cases
  have core: "core_pred Q" using assms(3) by (simp add: paced_pred_def)
  have entry: "keeps Q cm (upd_node p (\<lambda>n. n\<lparr>dni_Chunks := g n\<rparr>) cm)" for cm p g
    by (rule keeps_upd) (rule keeps_chunk_entry [OF core])
  {
    case (put it srt req now resp)
    then show ?thesis
      using keeps_allocate [OF core assms(2) put(1,2)] put_chunkMgr [of it srt sha now req s] by (metis fst_conv)
  next
    case (delete it path resp)
    then show ?thesis
      using keeps_remove [OF core] by (auto simp: sv_DeleteFile_def split: prod.splits sum.splits option.splits)
  next
    case (register it now address capacity)
    then show ?thesis using keeps_register [OF assms(2)] assms(3) by (simp add: server_views paced_pred_def)
  next
    case (heartbeat now hb)
    then show ?thesis using keeps_heartbeat [OF assms(3) heartbeat(2)] by (simp add: server_views)
  next
    case (report metrics)
    then show ?thesis by (simp add: server_views)
  next
    case (dead_check now it)
    then show ?thesis using assms(3) keeps_dead_loop [of now Q]
      by (simp add: server_views cm_CheckDeadNodes_def paced_pred_def)
  next
    case (predict it now)
    then show ?thesis using keeps_predict [OF assms(3)] by (simp add: server_views)
  next
    case (migrated_to n c)
    then show ?thesis using entry by (simp add: cm_AddChunkToNode_def)
  next
    case (migrated_from c n)
    then show ?thesis using entry by (simp add: cm_RemoveChunkFromNode_def)
  next
    case (migrator m)
    then show ?thesis by simp
  }
qed

lemma paced_run_keeps:
  assumes "inj_on (\<lambda>x. take 8 (sha x)) K" "(paced_step sha K beat check)\<^sup>*\<^sup>* s s'" "sv_inv sha K s" "paced_pred beat check Q"
  shows "sv_inv sha K s' \<and> keeps Q (sv_chunkMgr s) (sv_chunkMgr s')"
  using assms(2)
proof (induction rule: rtranclp_induct)
  case (step s1 s2)
  have "sv_inv sha K s2" using sv_inv_step [OF assms(1) paced_sv_step [OF step(2)]] step(3) by blast
  moreover have "keeps Q (sv_chunkMgr s1) (sv_chunkMgr s2)"
    using paced_keeps [OF step(2) _ assms(4)] step(3) by (simp add: sv_inv_def)
  ultimately show ?case using step(3) keeps_trans by blast
qed (simp add: assms(3))

section \<open>Registration and heartbeats\<close>

lemma register_done:
  assumes "cm_inv (sv_chunkMgr s)" "perm_iter it"
    and "ds_register None (sys_RegisterNode it now) d (s, w) = (d', (s', w'), None)"
  shows "s' = fst (sv_RegisterNode it now (ds_address d) (ds_capacity d) s)" "w' = w" "d' = d\<lparr>ds_nodeID := ds_nodeID d'\<rparr>"
    and "\<exists>n. map_of (cm_nodes (sv_chunkMgr s')) (ds_nodeID d') = Some n \<and> dni_Address n = ds_address d"
proof -
  obtain cm' r where r: "cm_RegisterNode it now (ds_address d) (ds_capacity d) (sv_chunkMgr s) = (cm', r)" by force
  obtain nodeID n where "r = Inr nodeID" "map_of (cm_nodes cm') nodeID = Some n" "dni_Address n = ds_address d"
    using register_node [OF assms(1,2) r] by blast
  then show "s' = fst (sv_RegisterNode it now (ds_address d) (ds_capacity d) s)" "w' = w" "d' = d\<lparr>ds_nodeID := ds_nodeID d'\<rparr>"
    "\<exists>n. map_of (cm_nodes (sv_chunkMgr s')) (ds_nodeID d') = Some n \<and> dni_Address n = ds_address d"
    using assms(3) r by (auto simp: ds_register_def sys_RegisterNode_def sv_RegisterNode_def)
qed

lemma heartbeat_done:
  assumes "ds_sendHeartbeat None (sys_Heartbeat now) d (s, w) = ((s', w'), r)"
    and "map_of (cm_nodes (sv_chunkMgr s)) (ds_nodeID d) = Some n"
  shows "s' = fst (sv_Heartbeat now (heartbeat_request d) s)"
    and "\<exists>n'. map_of (cm_nodes (sv_chunkMgr s')) (ds_nodeID d) = Some n' \<and> dni_Address n' = dni_Address n \<and>
      dni_Status n' \<noteq> StatusDead \<and> dni_LastHeartbeat n' = now"
  using assms
  by (auto simp: ds_sendHeartbeat_def sys_Heartbeat_def sv_Heartbeat_def cm_UpdateHeartbeat_def Let_def
      heartbeat_request_def cm_simps split: prod.splits)


definition demo_member :: DataServer where
  "demo_member = fst (demo_data_node ''d:1'')"

section \<open>A heartbeat that the server rejects\<close>

inductive idle_step :: "Server \<Rightarrow> Server \<Rightarrow> bool" where
  heartbeat: "ds_sendHeartbeat None (sys_Heartbeat now) d (s, w) = ((s', w'), r) \<Longrightarrow> idle_step s s'"
| report: "idle_step s (fst (sv_ReportHealth metrics s))"
| dead_check: "idle_step s (deadNodeChecker_tick it now s)"
| predict: "idle_step s (fst (predictionLoop_tick it now s))"


lemma idle_step_nodes:
  assumes "idle_step s s'" "cm_nodes (sv_chunkMgr s) = []"
  shows "cm_nodes (sv_chunkMgr s') = []"
  using assms(1)
proof cases
  case (heartbeat now d w w' r)
  then show ?thesis
    using assms(2)
    by (auto simp: ds_sendHeartbeat_def sys_Heartbeat_def sv_Heartbeat_def cm_UpdateHeartbeat_def split: prod.splits)
next
  case (report metrics)
  then show ?thesis using assms(2) by (simp add: server_views)
next
  case (dead_check it now)
  have "fst (dead_loop now ks (sv_chunkMgr s)) = sv_chunkMgr s" for ks using assms(2) by (induction ks) simp_all
  then show ?thesis using dead_check assms(2) by (simp add: server_views cm_CheckDeadNodes_def)
next
  case (predict it now)
  have "cm_nodes (fold (\<lambda>r. cm_UpdateNodeHealth (pr_NodeID r) (pr_Status r) (pr_OverallRisk r)) rs cm) = []"
    if "cm_nodes cm = []" for rs cm
    using that by (induction rs arbitrary: cm) (simp_all add: cm_UpdateNodeHealth_def)
  then show ?thesis using predict assms(2) by (simp add: server_views)
qed

text \<open>
  C30: a node does not notice that the server does not know it. The metadata is in memory only: after a
  restart the server knows no node. Heartbeats then change nothing on the server and report no error to
  the node, which registers only when it starts: for any number of heartbeats, health reports, dead-node
  checks and prediction rounds the server lists no node, and every \<open>PutFile\<close> fails.
\<close>


theorem restarted_server_stays_empty:
  assumes "idle_step\<^sup>*\<^sup>* NewServer s" "perm_iter it"
  shows "ds_sendHeartbeat None (sys_Heartbeat now) d (s, w) = ((s, w), None) \<and> sv_GetNodeInfo it '''' s = [] \<and>
    sv_PutFile it srt sha now req s =
      (s, Some \<lparr>pfr_Success = False, pfr_Message = ''no healthy nodes available'', pfr_Placements = []\<rparr>)"
proof -
  have e: "cm_nodes (sv_chunkMgr s) = []"
    using assms(1)
    by (induction rule: rtranclp_induct) (simp add: NewServer_def NewChunkManager_def, blast intro: idle_step_nodes)
  have it: "it [] = []" using perm_iter_length [OF assms(2), of "[]"] by simp
  show ?thesis
    by (simp add: e it ds_sendHeartbeat_def sys_Heartbeat_def sv_Heartbeat_def cm_UpdateHeartbeat_def heartbeat_request_def
        sv_GetNodeInfo_def cm_GetAllNodes_def gm_range_def sv_PutFile_def cm_AllocateChunks_def cm_healthyNodes_def)
qed

theorem restarted_server_stays_empty_witness:
  "sv_GetNodeInfo (\<lambda>ks. ks) '''' (fst (fst (ds_sendHeartbeat None (sys_Heartbeat 5) demo_member (NewServer, demo_nodes)))) = []"
proof -
  obtain s' w' r where hb: "ds_sendHeartbeat None (sys_Heartbeat 5) demo_member (NewServer, demo_nodes) = ((s', w'), r)"
    by (metis prod.exhaust)
  have "idle_step\<^sup>*\<^sup>* NewServer s'" by (rule r_into_rtranclp) (rule idle_step.heartbeat [OF hb])
  from restarted_server_stays_empty [OF this perm_iter_id] show ?thesis using hb by simp
qed

end
