(* ===== verification/Meta_Admin.thy ===== *)
theory Meta_Admin
  imports Meta_Server
begin

text \<open>
  \<^verbatim>\<open>internal/metaserver/admin.go\<close>: the HTTP endpoints of the metadata server. A handler returns the object
  it encodes as JSON; the routes and the encoding are the library's. \<open>fmt_dur\<close> is \<open>Duration.String\<close>,
  \<open>fmt_time\<close> is \<open>Time.Format\<close> with the layout \<open>15:04:05\<close>.
\<close>

record migrationSummary =
  mgs_NodeID :: string
  mgs_Risk :: real
  mgs_Total :: int
  mgs_Migrated :: int
  mgs_Failed :: int
  mgs_Duration :: string
  mgs_StartedAt :: string

record migrations_reply =
  mgr_count :: int
  mgr_migrations :: "migrationSummary list"

definition adm_handleMigrations :: "(duration \<Rightarrow> string) \<Rightarrow> (time \<Rightarrow> string) \<Rightarrow> Server \<Rightarrow> migrations_reply" where
  "adm_handleMigrations fmt_dur fmt_time s =
     (let summaries = map (\<lambda>r. \<lparr>mgs_NodeID = rp_NodeID r, mgs_Risk = rp_RiskScore r, mgs_Total = rp_TotalChunks r,
            mgs_Migrated = rp_MigratedChunks r, mgs_Failed = rp_FailedChunks r,
            mgs_Duration = fmt_dur (rp_CompletedAt r - rp_StartedAt r), mgs_StartedAt = fmt_time (rp_StartedAt r)\<rparr>)
            (GetHistory (sv_migrator s))
      in \<lparr>mgr_count = int (length summaries), mgr_migrations = summaries\<rparr>)"

record nodeSummary =
  nds_NodeID :: string
  nds_Status :: string
  nds_Risk :: real
  nds_Chunks :: int

record health_reply =
  hlr_total_nodes :: int
  hlr_healthy_nodes :: int
  hlr_total_chunks :: int
  hlr_nodes :: "nodeSummary list"

definition adm_handleHealth :: "iter \<Rightarrow> Server \<Rightarrow> health_reply" where
  "adm_handleHealth it s =
     (let stats = cm_GetClusterStats it (sv_chunkMgr s);
          nodes = cm_GetAllNodes it (sv_chunkMgr s);
          nodeList = map (\<lambda>n. \<lparr>nds_NodeID = dni_NodeID n, nds_Status = status_string (dni_Status n),
            nds_Risk = dni_RiskScore n, nds_Chunks = dni_ChunkCount n\<rparr>) nodes
      in \<lparr>hlr_total_nodes = st_TotalNodes stats, hlr_healthy_nodes = st_HealthyNodes stats,
          hlr_total_chunks = st_TotalChunks stats, hlr_nodes = nodeList\<rparr>)"


text \<open>
  the health endpoint is consistent: it lists every node once, in whatever order, \<open>total_nodes\<close> is the length
  of the list and \<open>healthy_nodes\<close> the number of its entries with status HEALTHY.
\<close>

theorem health_endpoint_counts:
  assumes "cm_inv (sv_chunkMgr s)" "perm_iter it"
  shows "mset (map nds_NodeID (hlr_nodes (adm_handleHealth it s))) = mset (map fst (cm_nodes (sv_chunkMgr s))) \<and>
    hlr_total_nodes (adm_handleHealth it s) = int (length (hlr_nodes (adm_handleHealth it s))) \<and>
    hlr_healthy_nodes (adm_handleHealth it s) =
      int (length (filter (\<lambda>n. nds_Status n = ''HEALTHY'') (hlr_nodes (adm_handleHealth it s))))"
proof -
  let ?cm = "sv_chunkMgr s" and ?xs = "gm_range it (cm_nodes (sv_chunkMgr s))"
  have m: "mset ?xs = mset (cm_nodes ?cm)" by (rule mset_gm_range [OF assms(2) inv_nodes_wf [OF assms(1)]])
  have "dni_NodeID n = k" if "(k, n) \<in> set (cm_nodes ?cm)" for k n
    using that inv_node_id [OF assms(1)] inv_nodes_wf [OF assms(1)] by simp
  then have "map (\<lambda>(k, n). dni_NodeID n) (cm_nodes ?cm) = map fst (cm_nodes ?cm)" by (auto intro!: map_cong)
  moreover have "map nds_NodeID (hlr_nodes (adm_handleHealth it s)) = map (\<lambda>(k, n). dni_NodeID n) ?xs"
    by (simp add: adm_handleHealth_def Let_def cm_GetAllNodes_def comp_def case_prod_beta)
  moreover have "mset (map (\<lambda>(k, n). dni_NodeID n) ?xs) = mset (map (\<lambda>(k, n). dni_NodeID n) (cm_nodes ?cm))" using m by simp
  ultimately have ids: "mset (map nds_NodeID (hlr_nodes (adm_handleHealth it s))) = mset (map fst (cm_nodes ?cm))"
    by (simp only:)
  have st: "status_string x = ''HEALTHY'' \<longleftrightarrow> x = StatusHealthy" for x by (cases x) simp_all
  have "length (filter (\<lambda>x. dni_Status (snd x) = StatusHealthy) ?xs) = size (filter_mset (\<lambda>x. dni_Status (snd x) = StatusHealthy) (mset (cm_nodes ?cm)))"
    by (metis m mset_filter size_mset)
  then have "length (filter (\<lambda>x. dni_Status (snd x) = StatusHealthy) ?xs) = length (filter (\<lambda>n. dni_Status n = StatusHealthy) (map snd (cm_nodes ?cm)))"
    by (simp add: filter_map comp_def flip: mset_filter)
  moreover have "length (filter (\<lambda>n. nds_Status n = ''HEALTHY'') (hlr_nodes (adm_handleHealth it s))) =
      length (filter (\<lambda>x. dni_Status (snd x) = StatusHealthy) ?xs)"
    by (simp add: adm_handleHealth_def Let_def cm_GetAllNodes_def filter_map comp_def st)
  ultimately show ?thesis
    using ids cluster_stats [OF assms] length_gm_range [OF assms(2), of "cm_nodes ?cm"]
    by (simp add: Let_def adm_handleHealth_def cm_GetAllNodes_def)
qed

theorem health_endpoint_counts_witness:
  "length (hlr_nodes (adm_handleHealth (rotate 1) demo_sv0)) = 3 \<and> hlr_healthy_nodes (adm_handleHealth (rotate 1) demo_sv0) = 3"
proof -
  have i: "cm_inv (sv_chunkMgr demo_sv0)"
    using sv_inv_reachable [of rev "{}", OF _ demo_sv0_reachable] by (simp add: sv_inv_def)
  let ?h = "adm_handleHealth (rotate 1) demo_sv0"
  have n: "length (cm_nodes (sv_chunkMgr demo_sv0)) = 3" by code_simp
  have a: "list_all (\<lambda>n. nds_Status n = ''HEALTHY'') (hlr_nodes ?h)" by code_simp
  note h = health_endpoint_counts [OF i perm_iter_rotate, of 1]
  have "length (hlr_nodes ?h) = length (cm_nodes (sv_chunkMgr demo_sv0))"
    using h by (metis length_map size_mset)
  moreover have "filter (\<lambda>n. nds_Status n = ''HEALTHY'') (hlr_nodes ?h) = hlr_nodes ?h"
    using a by (simp add: list_all_iff)
  ultimately show ?thesis using h n by simp
qed

end
