(* ===== verification/Console.thy ===== *)
theory Console
  imports System
begin

text \<open>
  What the client prints: the commands of \<^verbatim>\<open>internal/client/client.go\<close> that show state (\<open>ls\<close>, \<open>info\<close>,
  \<open>cluster\<close>, \<open>nodes\<close>) and the screen of \<^verbatim>\<open>internal/client/watch.go\<close>.

  A command takes its RPC and the world and returns the world, the text it printed and its result. Go
  strings are bytes, so a symbol is written as the bytes of its UTF-8 encoding; a padding verb (\<open>%-40s\<close>)
  counts characters, which are the bytes that do not continue one (all strings of a response are valid
  UTF-8). \<open>fmt_time\<close> is \<open>time.Unix(t, 0).Format\<close>, which depends on the local time zone; the sizes that
  \<open>formatSize\<close> converts to \<open>float64\<close> are reals.

  The theorems: \<open>info\<close> never panics on what the metadata server answers; what \<open>ls\<close> shows of an empty file;
  the shape of the risk bar and the range of the printed sizes.
\<close>

section \<open>Formatted printing\<close>

abbreviation NL :: string where
  "NL \<equiv> [CHR 0x0A]"

definition rune_count :: "string \<Rightarrow> nat" where
  "rune_count s = length (filter (\<lambda>c. \<not> (0x80 \<le> (of_char c :: nat) \<and> (of_char c :: nat) < 0xC0)) s)"

definition pad_right :: "nat \<Rightarrow> string \<Rightarrow> string" where
  "pad_right n s = s @ replicate (n - rune_count s) CHR '' ''"

definition pad_left :: "nat \<Rightarrow> string \<Rightarrow> string" where
  "pad_left n s = replicate (n - rune_count s) CHR '' '' @ s"

text \<open>The verb \<open>%v\<close> for a slice of strings.\<close>

definition fmt_strings :: "string list \<Rightarrow> string" where
  "fmt_strings xs = ''['' @ Join xs '' '' @ '']''"

definition symbols :: "nat \<Rightarrow> string \<Rightarrow> string" where
  "symbols n c = concat (replicate n c)"

definition thin_line :: string where "thin_line = [CHR 0xE2, CHR 0x94, CHR 0x80]"
definition double_line :: string where "double_line = [CHR 0xE2, CHR 0x95, CHR 0x90]"
definition bar_line :: string where "bar_line = [CHR 0xE2, CHR 0x94, CHR 0x82]"

definition green_dot :: string where "green_dot = [CHR 0xF0, CHR 0x9F, CHR 0x9F, CHR 0xA2]"
definition yellow_dot :: string where "yellow_dot = [CHR 0xF0, CHR 0x9F, CHR 0x9F, CHR 0xA1]"
definition orange_dot :: string where "orange_dot = [CHR 0xF0, CHR 0x9F, CHR 0x9F, CHR 0xA0]"
definition red_dot :: string where "red_dot = [CHR 0xF0, CHR 0x9F, CHR 0x94, CHR 0xB4]"
definition skull :: string where "skull = [CHR 0xF0, CHR 0x9F, CHR 0x92, CHR 0x80]"
definition white_dot :: string where "white_dot = [CHR 0xE2, CHR 0x9A, CHR 0xAA]"

section \<open>client.go\<close>

definition statusColor :: "string \<Rightarrow> string" where
  "statusColor status =
     (if status = ''HEALTHY'' then green_dot
      else if status = ''WARNING'' then yellow_dot
      else if status = ''AT_RISK'' then orange_dot
      else if status = ''CRITICAL'' then red_dot
      else if status = ''DEAD'' then skull
      else white_dot)"

definition formatSize :: "int \<Rightarrow> string" where
  "formatSize bytes =
     (if bytes \<ge> 2 ^ 30 then fmt_f False 1 (real_of_int bytes / 2 ^ 30) @ '' GB''
      else if bytes \<ge> 2 ^ 20 then fmt_f False 1 (real_of_int bytes / 2 ^ 20) @ '' MB''
      else if bytes \<ge> 2 ^ 10 then fmt_f False 1 (real_of_int bytes / 2 ^ 10) @ '' KB''
      else fmt_d bytes @ '' B'')"

definition list_line :: "(string \<Rightarrow> int \<Rightarrow> string) \<Rightarrow> FileInfo \<Rightarrow> string" where
  "list_line fmt_time f =
     (let created = (if fi_CreatedAt f > 0 then fmt_time ''2006-01-02 15:04'' (fi_CreatedAt f) else '''')
      in if fi_ChunkCount f = 0
         then pad_right 40 (fi_Path f @ ''/'') @ '' '' @ pad_left 10 ''DIR'' @ '' '' @ pad_left 8 ''-'' @ '' '' @ NL
         else pad_right 40 (fi_Path f) @ '' '' @ pad_left 10 (formatSize (fi_Size f)) @ '' '' @
              pad_left 8 (fmt_d (fi_ChunkCount f)) @ '' '' @ created @ NL)"

definition cl_ListFiles ::
  "(string \<Rightarrow> int \<Rightarrow> string) \<Rightarrow> (string \<Rightarrow> 'w \<Rightarrow> 'w \<times> (string + ListFilesResponse)) \<Rightarrow> string \<Rightarrow>
   'w \<Rightarrow> 'w \<times> string \<times> (string, unit) outcome" where
  "cl_ListFiles fmt_time meta remotePath w =
     (case meta remotePath w of
        (w', Inl e) \<Rightarrow> (w', '''', Err (''ListFiles RPC: '' @ e))
      | (w', Inr resp) \<Rightarrow>
          if \<not> lfr_Success resp then (w', '''', Err ''ListFiles failed'')
          else if lfr_Files resp = [] then (w', ''(empty)'' @ NL, Ok ())
          else (w', pad_right 40 ''PATH'' @ '' '' @ pad_left 10 ''SIZE'' @ '' '' @ pad_left 8 ''CHUNKS'' @ '' '' @ ''CREATED'' @ NL @
                    symbols 69 thin_line @ NL @ concat (map (list_line fmt_time) (lfr_Files resp)), Ok ()))"

text \<open>The table of \<open>FileInfo\<close>: nil chunks are skipped, and \<open>ch.ChunkId[:16]\<close> panics on a shorter ID.\<close>

fun chunk_lines :: "ChunkInfo option list \<Rightarrow> string \<times> (string, unit) outcome" where
  "chunk_lines [] = ('''', Ok ())"
| "chunk_lines (None # chs) = chunk_lines chs"
| "chunk_lines (Some ch # chs) =
     (if length (ci_ChunkId ch) < 16 then ('''', Panic)
      else case chunk_lines chs of (out, r) \<Rightarrow>
        (''  '' @ pad_right 18 (take 16 (ci_ChunkId ch)) @ '' '' @ pad_left 10 (formatSize (ci_Size ch)) @ '' '' @
           fmt_strings (ci_NodeIds ch) @ NL @ out, r))"

definition cl_FileInfo ::
  "(string \<Rightarrow> int \<Rightarrow> string) \<Rightarrow> (string \<Rightarrow> 'w \<Rightarrow> 'w \<times> (string + GetFileInfoResponse)) \<Rightarrow> string \<Rightarrow>
   'w \<Rightarrow> 'w \<times> string \<times> (string, unit) outcome" where
  "cl_FileInfo fmt_time meta remotePath w =
     (case meta remotePath w of
        (w', Inl e) \<Rightarrow> (w', '''', Err (''GetFileInfo RPC: '' @ e))
      | (w', Inr resp) \<Rightarrow>
          if \<not> gir_Success resp then (w', '''', Err (''file not found: '' @ remotePath))
          else
            case gir_FileInfo resp of
              None \<Rightarrow> (w', '''', Panic)
            | Some f \<Rightarrow>
                (case chunk_lines (fi_Chunks f) of (out, r) \<Rightarrow>
                   (w', ''File:        '' @ fi_Path f @ NL @
                        ''Size:        '' @ formatSize (fi_Size f) @ '' ('' @ fmt_d (fi_Size f) @ '' bytes)'' @ NL @
                        ''Chunks:      '' @ fmt_d (fi_ChunkCount f) @ NL @
                        ''Replication: '' @ fmt_d (fi_ReplicationFactor f) @ NL @
                        ''Created:     '' @ fmt_time ''2006-01-02 15:04:05'' (fi_CreatedAt f) @ NL @ NL @
                        ''  '' @ pad_right 18 ''CHUNK ID'' @ '' '' @ pad_left 10 ''SIZE'' @ '' '' @ ''NODES'' @ NL @
                        ''  '' @ symbols 50 thin_line @ NL @ out, r)))"

definition cl_ClusterInfo ::
  "('w \<Rightarrow> 'w \<times> (string + GetClusterInfoResponse)) \<Rightarrow> 'w \<Rightarrow> 'w \<times> string \<times> (string, unit) outcome" where
  "cl_ClusterInfo meta w =
     (case meta w of
        (w', Inl e) \<Rightarrow> (w', '''', Err (''GetClusterInfo RPC: '' @ e))
      | (w', Inr resp) \<Rightarrow>
          (w', symbols 39 double_line @ NL @ ''       SentinelFS Cluster Status       '' @ NL @ symbols 39 double_line @ NL @
               ''  Nodes:    '' @ fmt_d (gcr_TotalNodes resp) @ '' total ('' @ fmt_d (gcr_HealthyNodes resp) @ '' healthy, '' @
                 fmt_d (gcr_WarningNodes resp) @ '' warning, '' @ fmt_d (gcr_AtRiskNodes resp) @ '' at-risk, '' @
                 fmt_d (gcr_DeadNodes resp) @ '' dead)'' @ NL @
               ''  Storage:  '' @ formatSize (gcr_TotalUsed resp) @ '' / '' @ formatSize (gcr_TotalCapacity resp) @ '' used'' @ NL @
               ''  Files:    '' @ fmt_d (gcr_TotalFiles resp) @ NL @
               ''  Chunks:   '' @ fmt_d (gcr_TotalChunks resp) @ NL @ NL, Ok ()))"

definition node_line :: "NodeInfo \<Rightarrow> string" where
  "node_line n =
     pad_right 10 (ni_NodeId n) @ '' '' @ pad_right 20 (ni_Address n) @ '' '' @ statusColor (ni_Status n) @ '' '' @
     pad_right 10 (ni_Status n) @ '' '' @ pad_left 6 (fmt_f False 2 (ni_RiskScore n)) @ ''   '' @
     pad_left 12 (formatSize (ni_UsedBytes n) @ ''/'' @ formatSize (ni_CapacityBytes n)) @ '' '' @
     pad_left 8 (fmt_d (ni_ChunkCount n)) @ NL"

definition cl_NodeInfo ::
  "('w \<Rightarrow> 'w \<times> (string + NodeInfo list)) \<Rightarrow> 'w \<Rightarrow> 'w \<times> string \<times> (string, unit) outcome" where
  "cl_NodeInfo meta w =
     (case meta w of
        (w', Inl e) \<Rightarrow> (w', '''', Err (''GetNodeInfo RPC: '' @ e))
      | (w', Inr nodes) \<Rightarrow>
          (w', pad_right 10 ''NODE'' @ '' '' @ pad_right 20 ''ADDRESS'' @ '' '' @ pad_right 10 ''STATUS'' @ '' '' @
               pad_left 8 ''RISK'' @ '' '' @ pad_left 12 ''STORAGE'' @ '' '' @ pad_left 8 ''CHUNKS'' @ NL @
               symbols 70 thin_line @ NL @ concat (map node_line nodes), Ok ()))"

section \<open>watch.go\<close>

text \<open>The bar of \<open>width\<close> cells; \<open>int(x)\<close> drops the fraction.\<close>

definition risk_cell :: "real \<Rightarrow> string" where
  "risk_cell risk =
     (if risk \<ge> 0.8 then [CHR 0xF0, CHR 0x9F, CHR 0x9F, CHR 0xA5]
      else if risk \<ge> 0.6 then [CHR 0xF0, CHR 0x9F, CHR 0x9F, CHR 0xA7]
      else if risk \<ge> 0.3 then [CHR 0xF0, CHR 0x9F, CHR 0x9F, CHR 0xA8]
      else [CHR 0xF0, CHR 0x9F, CHR 0x9F, CHR 0xA9])"

definition empty_cell :: string where
  "empty_cell = [CHR 0xE2, CHR 0x96, CHR 0x91]"

definition renderRiskBar :: "real \<Rightarrow> nat \<Rightarrow> string" where
  "renderRiskBar risk width =
     (let filled = int64_of_float (risk * real width);
          filled = (if filled > int width then int width else filled)
      in concat (map (\<lambda>i. if int i < filled then risk_cell risk else empty_cell) [0..<width]))"

definition box_row :: "string \<Rightarrow> string \<Rightarrow> string \<Rightarrow> string" where
  "box_row l m r =
     ''  '' @ l @ symbols 10 thin_line @ m @ symbols 22 thin_line @ m @ symbols 10 thin_line @ m @
     symbols 20 thin_line @ m @ symbols 8 thin_line @ r @ NL"

definition watch_line :: "NodeInfo \<Rightarrow> string" where
  "watch_line n =
     ''  '' @ bar_line @ '' '' @ pad_right 8 (ni_NodeId n) @ '' '' @ bar_line @ '' '' @ pad_right 20 (ni_Address n) @ '' '' @
     bar_line @ '' '' @ statusColor (ni_Status n) @ '' '' @ pad_right 7 (ni_Status n) @ '' '' @ bar_line @ '' '' @
     renderRiskBar (ni_RiskScore n) 15 @ '' '' @ pad_left 4 (fmt_f False 1 (ni_RiskScore n * 100)) @ ''% '' @ bar_line @ '' '' @
     pad_left 6 (fmt_d (ni_ChunkCount n)) @ '' '' @ bar_line @ NL"

definition warning_sign :: string where
  "warning_sign = [CHR 0xE2, CHR 0x9A, CHR 0xA0, CHR 0xEF, CHR 0xB8, CHR 0x8F]"

text \<open>
  One round of the loop of \<open>WatchCluster\<close>, up to the sleep: \<open>now\<close> is the formatted time and \<open>interval\<close>
  the printed interval.
\<close>

definition watch_round ::
  "('w \<Rightarrow> 'w \<times> (string + GetClusterInfoResponse)) \<Rightarrow> ('w \<Rightarrow> 'w \<times> (string + NodeInfo list)) \<Rightarrow>
   string \<Rightarrow> string \<Rightarrow> 'w \<Rightarrow> 'w \<times> string" where
  "watch_round info nodes now interval w =
     (let esc = [CHR 0x1B];
          top = esc @ ''[H'' @ esc @ ''[2J'' @ symbols 67 double_line @ NL @
            ''              SentinelFS '' @ [CHR 0xF0, CHR 0x9F, CHR 0x9B, CHR 0xA1, CHR 0xEF, CHR 0xB8, CHR 0x8F] @
            ''  Live Cluster Monitor                 '' @ NL @ ''              '' @ now @ NL @
            symbols 67 double_line @ NL @ NL
      in case info w of
           (w', Inl e) \<Rightarrow> (w', top @ ''  '' @ warning_sign @ ''  Error fetching cluster info: '' @ e @ NL)
         | (w', Inr c) \<Rightarrow>
             let overview =
                   ''  Nodes:   '' @ fmt_d (gcr_TotalNodes c) @ '' total  '' @ bar_line @ ''  '' @
                     green_dot @ '' '' @ fmt_d (gcr_HealthyNodes c) @ '' healthy  '' @
                     yellow_dot @ '' '' @ fmt_d (gcr_WarningNodes c) @ '' warning  '' @
                     orange_dot @ '' '' @ fmt_d (gcr_AtRiskNodes c) @ '' at-risk  '' @
                     skull @ '' '' @ fmt_d (gcr_DeadNodes c) @ '' dead'' @ NL @
                   ''  Storage: '' @ formatSize (gcr_TotalUsed c) @ '' / '' @ formatSize (gcr_TotalCapacity c) @ NL @
                   ''  Files:   '' @ fmt_d (gcr_TotalFiles c) @ ''  '' @ bar_line @ ''  Chunks: '' @
                     fmt_d (gcr_TotalChunks c) @ NL @ NL
             in case nodes w' of
                  (w'', Inl e) \<Rightarrow>
                    (w'', top @ overview @ ''  '' @ warning_sign @ ''  Error fetching node info: '' @ e @ NL)
                | (w'', Inr ns) \<Rightarrow>
                    (w'', top @ overview @
                      box_row [CHR 0xE2, CHR 0x94, CHR 0x8C] [CHR 0xE2, CHR 0x94, CHR 0xAC] [CHR 0xE2, CHR 0x94, CHR 0x90] @
                      ''  '' @ bar_line @ '' NODE     '' @ bar_line @ '' ADDRESS              '' @ bar_line @ '' STATUS   '' @
                        bar_line @ '' RISK               '' @ bar_line @ '' CHUNKS '' @ bar_line @ NL @
                      box_row [CHR 0xE2, CHR 0x94, CHR 0x9C] [CHR 0xE2, CHR 0x94, CHR 0xBC] [CHR 0xE2, CHR 0x94, CHR 0xA4] @
                      concat (map watch_line ns) @
                      box_row [CHR 0xE2, CHR 0x94, CHR 0x94] [CHR 0xE2, CHR 0x94, CHR 0xB4] [CHR 0xE2, CHR 0x94, CHR 0x98] @ NL @
                      ''  Refreshing every '' @ interval @ ''... (Ctrl+C to stop)'' @ NL))"

text \<open>
  \<open>WatchCluster\<close> never returns: this is what it has printed when the rounds at the given times are done.
\<close>

fun watch_rounds ::
  "('w \<Rightarrow> 'w \<times> (string + GetClusterInfoResponse)) \<Rightarrow> ('w \<Rightarrow> 'w \<times> (string + NodeInfo list)) \<Rightarrow>
   string \<Rightarrow> string list \<Rightarrow> 'w \<Rightarrow> 'w \<times> string" where
  "watch_rounds info nodes interval [] w = (w, '''')"
| "watch_rounds info nodes interval (now # nows) w =
     (case watch_round info nodes now interval w of
        (w', out) \<Rightarrow> (case watch_rounds info nodes interval nows w' of (w'', out') \<Rightarrow> (w'', out @ out')))"

definition WatchCluster ::
  "('w \<Rightarrow> 'w \<times> (string + GetClusterInfoResponse)) \<Rightarrow> ('w \<Rightarrow> 'w \<times> (string + NodeInfo list)) \<Rightarrow>
   string \<Rightarrow> string list \<Rightarrow> 'w \<Rightarrow> 'w \<times> string" where
  "WatchCluster info nodes interval nows w =
     (case watch_rounds info nodes interval nows w of
        (w', out) \<Rightarrow> (w', ''Watching cluster health (Ctrl+C to stop)...'' @ NL @ NL @ out))"


section \<open>What is shown of the server's answers\<close>

definition sys_GetFileInfo :: "string \<Rightarrow> system \<Rightarrow> system \<times> (string + GetFileInfoResponse)" where
  "sys_GetFileInfo path sw =
     (case sv_GetFileInfo path (fst sw) of Some resp \<Rightarrow> (sw, Inr resp) | None \<Rightarrow> (sw, Inl ''connection lost''))"

lemma chunk_lines_ok:
  "(\<And>ch. Some ch \<in> set chs \<Longrightarrow> 16 \<le> length (ci_ChunkId ch)) \<Longrightarrow> snd (chunk_lines chs) = Ok ()"
  by (induction chs rule: chunk_lines.induct) (force split: prod.split)+

lemma chunk_id_length: "length (GenerateChunkID sha p i) = 2 * min 8 (length (sha (chunk_key p i)))"
  by (simp add: GenerateChunkID_def fmt_x_length min.commute)

text \<open>
  C40: the \<open>info\<close> command prints \<open>ch.ChunkId[:16]\<close>, which panics on a shorter ID. A chunk ID has exactly the 16
  characters it needs, so in every state the metadata server can reach, \<open>FileInfo\<close> of any path returns: with
  success for a stored file and with the error that the file was not found for any other path.
\<close>

theorem info_never_panics:
  assumes "inj_on (\<lambda>x. take 8 (sha x)) K" "sv_reachable sha K s" "\<And>x. 8 \<le> length (sha x)"
  shows "snd (snd (cl_FileInfo fmt_time sys_GetFileInfo path (s, w))) =
    (if \<exists>f. ns_GetFile (sv_namespace s) path = Inr (Some f) then Ok () else Err (''file not found: '' @ path))"
proof -
  note inv = sv_inv_reachable [OF assms(1,2)]
  have nsi: "ns_inv (sv_namespace s)" and cmi: "cm_inv (sv_chunkMgr s)" using inv by (simp_all add: sv_inv_def)
  have nn: "ns_GetFile (sv_namespace s) path \<noteq> Inr None" using ns.get_iff [OF nsi] by blast
  show ?thesis
  proof (cases "\<exists>f. ns_GetFile (sv_namespace s) path = Inr (Some f)")
    case True
    then obtain f where f: "ns_GetFile (sv_namespace s) path = Inr (Some f)" by blast
    then have "file_ok sha K (sv_chunkMgr s) (ns_cleanPath path) f"
      using inv ns.get_iff [OF nsi] by (auto simp: sv_inv_def)
    then have ids: "16 \<le> length c" if "c \<in> set (fm_ChunkIDs f)" for c
      using that assms(3) by (auto simp: file_ok_def chunk_ids_def chunk_id_length)
    have "16 \<le> length (ci_ChunkId ch)"
      if q: "Some ch \<in> set (map (\<lambda>cid. map_option chunk_info (cm_GetChunkMeta (sv_chunkMgr s) cid)) (fm_ChunkIDs f))" for ch
    proof -
      obtain c m where c: "c \<in> set (fm_ChunkIDs f)" "map_of (cm_chunks (sv_chunkMgr s)) c = Some m" "ch = chunk_info m"
        using q by (auto simp: cm_GetChunkMeta_def dest!: sym [of "Some ch"])
      then show ?thesis using ids [OF c(1)] inv_parts(4) [OF cmi c(2)] by (simp add: chunk_info_def)
    qed
    then have "snd (chunk_lines (map (\<lambda>cid. map_option chunk_info (cm_GetChunkMeta (sv_chunkMgr s) cid)) (fm_ChunkIDs f))) = Ok ()"
      by (rule chunk_lines_ok)
    then show ?thesis
      using f by (simp add: cl_FileInfo_def sys_GetFileInfo_def sv_GetFileInfo_def file_info_def case_prod_beta)
  next
    case False
    then obtain e where "ns_GetFile (sv_namespace s) path = Inl e"
      using nn by (cases "ns_GetFile (sv_namespace s) path") (auto simp: option.split_sel)
    then show ?thesis using False by (simp add: cl_FileInfo_def sys_GetFileInfo_def sv_GetFileInfo_def)
  qed
qed


text \<open>A server that stored a file of two chunks, with a hash of eight bytes or more.\<close>

definition demo_shown :: Server where
  "demo_shown = fst (sv_PutFile (\<lambda>ks. ks) insertion_sort pad_sha 0 demo_put demo_sv0)"

lemma demo_shown_reachable: "inj_on (\<lambda>s. take 8 (pad_sha s)) demo_K" "sv_reachable pad_sha demo_K demo_shown"
proof -
  have "take 8 (pad_sha (chunk_key ''/f'' 0)) \<noteq> take 8 (pad_sha (chunk_key ''/f'' 1))" by code_simp
  then show "inj_on (\<lambda>s. take 8 (pad_sha s)) demo_K" by (auto simp: demo_K_def inj_on_def)
  have "snd (sv_PutFile (\<lambda>ks. ks) insertion_sort pad_sha 0 demo_put demo_sv0) \<noteq> None" by code_simp
  then obtain resp where "sv_PutFile (\<lambda>ks. ks) insertion_sort pad_sha 0 demo_put demo_sv0 = (demo_shown, Some resp)"
    unfolding demo_shown_def by (metis not_None_eq prod.collapse)
  from sv_step.put [OF perm_iter_id go_sort.sort_slice_axioms demo_put_keys this]
  show "sv_reachable pad_sha demo_K demo_shown" by (rule sv_reachable.step [OF demo_sv0_reachable])
qed

theorem info_never_panics_witness:
  "\<forall>fmt_time w. snd (snd (cl_FileInfo fmt_time sys_GetFileInfo ''/f'' (demo_shown, w))) = Ok () \<and>
     snd (snd (cl_FileInfo fmt_time sys_GetFileInfo ''/g'' (demo_shown, w))) = Err ''file not found: /g''"
proof -
  have "case ns_GetFile (sv_namespace demo_shown) ''/f'' of Inr (Some f) \<Rightarrow> True | _ \<Rightarrow> False" by code_simp
  then have f: "\<exists>f. ns_GetFile (sv_namespace demo_shown) ''/f'' = Inr (Some f)"
    by (auto split: sum.splits option.splits)
  have "case ns_GetFile (sv_namespace demo_shown) ''/g'' of Inr (Some f) \<Rightarrow> False | _ \<Rightarrow> True" by code_simp
  then have g: "\<nexists>f. ns_GetFile (sv_namespace demo_shown) ''/g'' = Inr (Some f)" by auto
  show ?thesis
    using info_never_panics [OF demo_shown_reachable pad_sha_long(2), of _ "''/f''"]
      info_never_panics [OF demo_shown_reachable pad_sha_long(2), of _ "''/g''"] f g by simp
qed

text \<open>
  \<open>ListFiles\<close> shows a stored empty file as a directory. After a put of an empty local file that
  reported success, the entry of the path is a file, and the line that \<open>ls\<close> prints for it is the line it
  prints for a directory of this name.
\<close>

theorem empty_file_listed_as_directory:
  assumes "ns_inv (sv_namespace s)" "plain path" "lf_Open lf localPath = Inr []"
    and "cl_PutFile lf dial sha (sys_PutFile it srt sha now) (sys_StoreChunk env sha) sched localPath path (s, w) =
      (sw', Some (Ok ()))"
    and "path = parent @ ''/'' @ deName e" "deIsDir e"
  shows "\<exists>f. ns_GetFile (sv_namespace (fst sw')) path = Inr (Some f) \<and> fm_Path f = path \<and>
    map (list_line fmt_time) [file_info f []] = map (list_line fmt_time) (list_entry parent e)"
proof -
  obtain chunks fsize ck sw1 resp where rd: "readAndChunkFile sha lf localPath = Inr (chunks, fsize, ck)"
    and m: "sys_PutFile it srt sha now \<lparr>pf_Path = path, pf_FileSize = fsize, pf_ChunkCount = int32 (int (length chunks)),
       pf_Checksum = ck\<rparr> (s, w) = (sw1, Inr resp)" "pfr_Success resp"
    and up: "uploadChunks dial sha (sys_StoreChunk env sha) sched chunks (pfr_Placements resp) sw1 = (sw', Some (Ok ()))"
    by (rule put_file_ok [OF assms(4)]) blast
  have "chunks = []" using chunks_nonempty_bound(1) [OF assms(3) rd] by simp
  then have n: "int32 (int (length chunks)) = 0" by (simp add: int32_id)
  obtain s1 where sv: "sv_PutFile it srt sha now \<lparr>pf_Path = path, pf_FileSize = fsize, pf_ChunkCount = 0,
       pf_Checksum = ck\<rparr> s = (s1, Some resp)" "sw1 = (s1, w)"
    using m(1) n by (auto simp: sys_PutFile_def split: prod.splits option.splits)
  have fst': "fst sw' = s1" using sys_upload_fst [of dial sha env sched chunks "pfr_Placements resp" sw1] up sv(2) by simp
  obtain f where f: "ns_files (sv_namespace s1) (ns_target path) = Some f" "fm_Path f = path" "fm_ChunkCount f = 0"
    and "\<exists>meta. ns_CreateFile (sv_namespace s) path meta = (sv_namespace s1, Inr ())"
    by (rule put_success [OF assms(1) sv(1) m(2)]) auto
  then have "ns_inv (sv_namespace s1)" using ns.create_ok assms(1) by blast
  then have "ns_GetFile (sv_namespace s1) path = Inr (Some f)"
    using ns.get_iff f(1) plain_target(1) [OF assms(2)] by simp
  then show ?thesis
    using f assms(5,6) fst' by (auto simp: list_line_def file_info_def list_entry_def Let_def int32_id)
qed


definition demo_empty :: local_files where
  "demo_empty = demo_lf\<lparr>lf_Open := \<lambda>p. Inr ''''\<rparr>"

definition demo_dir :: DirEntry where
  "demo_dir = DirEntry ''e'' True [] None"

theorem empty_file_listed_as_directory_witness:
  "\<forall>fmt_time. \<exists>sw' f. cl_PutFile demo_empty (\<lambda>_. None) pad_sha (sys_PutFile (\<lambda>ks. ks) insertion_sort pad_sha 0) (sys_StoreChunk good_env pad_sha)
     [] ''/x'' ''/e'' (demo_sv0, demo_nodes) = (sw', Some (Ok ())) \<and>
   ns_GetFile (sv_namespace (fst sw')) ''/e'' = Inr (Some f) \<and> list_line fmt_time (file_info f []) = concat (map (list_line fmt_time) (list_entry '''' demo_dir))"
proof
  fix fmt_time
  have o: "lf_Open demo_empty ''/x'' = Inr []" by (simp add: demo_empty_def)
  have rd: "readAndChunkFile pad_sha demo_empty ''/x'' = Inr ([], 0, fmt_x (pad_sha ''''))"
    by (simp add: readAndChunkFile_def demo_empty_def demo_lf_def int64_id read_loop.simps ChunkSize_def)
  have zero: "int32 (int (length ([] :: bytes list))) = 0" by (simp add: int32_id)
  have "snd (case sys_PutFile (\<lambda>ks. ks) insertion_sort pad_sha 0 \<lparr>pf_Path = ''/e'', pf_FileSize = 0, pf_ChunkCount = 0,
        pf_Checksum = fmt_x (pad_sha '''')\<rparr> (demo_sv0, demo_nodes) of
        (sw, Inl e) \<Rightarrow> (sw, Some (Err (''PutFile RPC: '' @ e)))
      | (sw, Inr resp) \<Rightarrow>
          if \<not> pfr_Success resp then (sw, Some (Err (''PutFile failed: '' @ pfr_Message resp)))
          else case uploadChunks (\<lambda>_. None) pad_sha (sys_StoreChunk good_env pad_sha) [] [] (pfr_Placements resp) sw of
                 (sw', r) \<Rightarrow> (sw', wrap_err ''upload chunks: '' r)) = Some (Ok ())" by code_simp
  then have "snd (cl_PutFile demo_empty (\<lambda>_. None) pad_sha (sys_PutFile (\<lambda>ks. ks) insertion_sort pad_sha 0) (sys_StoreChunk good_env pad_sha)
     [] ''/x'' ''/e'' (demo_sv0, demo_nodes)) = Some (Ok ())"
    unfolding cl_PutFile_def rd sum.case prod.case zero by (simp only:)
  then obtain sw' where put: "cl_PutFile demo_empty (\<lambda>_. None) pad_sha (sys_PutFile (\<lambda>ks. ks) insertion_sort pad_sha 0) (sys_StoreChunk good_env pad_sha)
     [] ''/x'' ''/e'' (demo_sv0, demo_nodes) = (sw', Some (Ok ()))" by (metis prod.collapse)
  have p: "plain ''/e''" by code_simp
  have e: "''/e'' = '''' @ ''/'' @ deName demo_dir" "deIsDir demo_dir" by (simp_all add: demo_dir_def)
  from empty_file_listed_as_directory [where fmt_time = fmt_time, OF demo_sv0_inv(1) p o put e] put
  show "\<exists>sw' f. cl_PutFile demo_empty (\<lambda>_. None) pad_sha (sys_PutFile (\<lambda>ks. ks) insertion_sort pad_sha 0) (sys_StoreChunk good_env pad_sha)
     [] ''/x'' ''/e'' (demo_sv0, demo_nodes) = (sw', Some (Ok ())) \<and>
   ns_GetFile (sv_namespace (fst sw')) ''/e'' = Inr (Some f) \<and> list_line fmt_time (file_info f []) = concat (map (list_line fmt_time) (list_entry '''' demo_dir))"
    by (auto simp: list_entry_def e)
qed

text \<open>
  the risk bar of the watch screen. For a risk between 0 and 1 it has exactly \<open>width\<close> cells: first
  \<open>\<lfloor>risk * width\<rfloor>\<close> filled ones, all of the colour of the risk, then empty ones; and a node at CRITICAL
  risk (0.55 or more) fills at least 8 of the 15 cells.
\<close>

theorem risk_bar_shape:
  assumes "0 \<le> risk" "risk \<le> 1" "width < 2 ^ 63"
  shows "renderRiskBar risk width =
      symbols (nat \<lfloor>risk * real width\<rfloor>) (risk_cell risk) @ symbols (width - nat \<lfloor>risk * real width\<rfloor>) empty_cell \<and>
    rune_count (renderRiskBar risk width) = width \<and> (RiskToStatus risk = StatusCritical \<longrightarrow> 8 \<le> nat \<lfloor>risk * real 15\<rfloor>)"
proof -
  let ?k = "nat \<lfloor>risk * real width\<rfloor>"
  have pos: "0 \<le> \<lfloor>risk * real width\<rfloor>" using assms(1) by simp
  have "risk * real width \<le> 1 * real width" using assms(2) by (intro mult_right_mono) auto
  then have le: "\<lfloor>risk * real width\<rfloor> \<le> int width" by (simp add: floor_le_iff)
  have "is_int64 n" if "0 \<le> n" "n \<le> int width" for n using that assms(3) by simp
  from this [OF pos le] have "is_int64 \<lfloor>risk * real width\<rfloor>" .
  then have i: "int64_of_float (risk * real width) = \<lfloor>risk * real width\<rfloor>"
    using pos by (simp add: int64_of_float_def Let_def)
  have k: "?k \<le> width" using le by simp
  have cells: "concat (map (\<lambda>i. if i < m then a else b) [0..<n]) = symbols m a @ symbols (n - m) b" if "m \<le> n" for m n a b
  proof -
    have "map (\<lambda>i. if i < m then a else b) [0..<n] = replicate m a @ replicate (n - m) b"
      using that by (intro nth_equalityI) (auto simp: nth_append)
    then show ?thesis by (simp add: symbols_def)
  qed
  have bar: "renderRiskBar risk width = symbols ?k (risk_cell risk) @ symbols (width - ?k) empty_cell"
    using cells [OF k] le pos by (simp add: renderRiskBar_def i Let_def zless_nat_eq_int_zless [symmetric] if_distrib)
  have add: "rune_count (x @ y) = rune_count x + rune_count y" for x y by (simp add: rune_count_def)
  have sym: "rune_count c = 1 \<Longrightarrow> rune_count (symbols n c) = n" for n c
    by (induction n) (simp_all add: symbols_def add, simp add: rune_count_def)
  have "rune_count (risk_cell risk) = 1" "rune_count empty_cell = 1"
    unfolding risk_cell_def by (simp_all add: rune_count_def empty_cell_def)
  then have "rune_count (renderRiskBar risk width) = width" using k by (simp add: bar add sym)
  moreover have "8 \<le> nat \<lfloor>risk * real 15\<rfloor>" if "RiskToStatus risk = StatusCritical"
  proof -
    have "0.55 \<le> risk" using that by (auto simp: RiskToStatus_def RiskCritical_def RiskAtRisk_def split: if_splits)
    then have "8 \<le> \<lfloor>risk * real 15\<rfloor>" by (simp add: le_floor_iff)
    then show ?thesis by linarith
  qed
  ultimately show ?thesis using bar by blast
qed


theorem risk_bar_shape_witness:
  "renderRiskBar 0.6 15 = symbols 9 (risk_cell 0.6) @ symbols 6 empty_cell"
proof -
  have "\<lfloor>(0.6 :: real) * real 15\<rfloor> = 9" by simp
  then show ?thesis using risk_bar_shape [of "0.6" 15] by simp
qed

end
