(* ===== verification/Cli.thy ===== *)
theory Cli
  imports Console
begin

text \<open>
  \<^verbatim>\<open>cmd/client/main.go\<close>: the command line. The client's methods are the record of what they do to the
  world, with the text they print and their result; the environment variable, \<open>client.New\<close> and
  \<open>time.ParseDuration\<close> are arguments. A run ends with the world, the standard output, the error output and the
  exit code; a panic exits with code 2.
\<close>

type_synonym 'w action = "'w \<Rightarrow> 'w \<times> string \<times> (string, unit) outcome"

record 'w client_api =
  api_PutFile :: "string \<Rightarrow> string \<Rightarrow> 'w action"
  api_GetFile :: "string \<Rightarrow> string \<Rightarrow> 'w action"
  api_ListFiles :: "string \<Rightarrow> 'w action"
  api_DeleteFile :: "string \<Rightarrow> 'w action"
  api_FileInfo :: "string \<Rightarrow> 'w action"
  api_ClusterInfo :: "'w action"
  api_NodeInfo :: "'w action"
  api_WatchCluster :: "duration \<Rightarrow> 'w action"

definition defaultMetaAddr :: string where
  "defaultMetaAddr = ''localhost:9000''"

definition usage_text :: string where
  "usage_text =
     ''SentinelFS CLI v0.1.0 '' @ [CHR 0xF0, CHR 0x9F, CHR 0x9B, CHR 0xA1, CHR 0xEF, CHR 0xB8, CHR 0x8F] @ NL @ NL @
     ''Usage: sentinelfs <command> [arguments]'' @ NL @ NL @
     ''Commands:'' @ NL @
     ''  put     <local_path> <remote_path>   Upload a file'' @ NL @
     ''  get     <remote_path> <local_path>   Download a file'' @ NL @
     ''  ls      [remote_path]                List files (default: /)'' @ NL @
     ''  rm      <remote_path>                Delete a file'' @ NL @
     ''  info    <remote_path>                Show file chunk details'' @ NL @
     ''  cluster                              Show cluster health overview'' @ NL @
     ''  nodes                                Show per-node health details'' @ NL @
     ''  watch   [interval]                   Live cluster monitor (default: 3s)'' @ NL @ NL @
     ''Environment:'' @ NL @
     ''  SENTINEL_META_ADDR   Metadata server address (default: localhost:9000)'' @ NL"

text \<open>The end of a command: an error goes to the error output and the process exits with code 1.\<close>

definition finish :: "'w \<times> string \<times> (string, unit) outcome \<Rightarrow> 'w \<times> string \<times> string \<times> int" where
  "finish res =
     (case res of (w, out, r) \<Rightarrow>
        (case r of
           Ok _ \<Rightarrow> (w, out, '''', 0)
         | Err e \<Rightarrow> (w, out, ''Error: '' @ e @ NL, 1)
         | Panic \<Rightarrow> (w, out, '''', 2)))"

definition usage_error :: "string \<Rightarrow> 'w \<Rightarrow> 'w \<times> string \<times> string \<times> int" where
  "usage_error msg w = (w, '''', msg @ NL, 1)"

definition run_command ::
  "(string \<Rightarrow> duration option) \<Rightarrow> 'w client_api \<Rightarrow> string \<Rightarrow> string list \<Rightarrow> 'w \<Rightarrow> 'w \<times> string \<times> string \<times> int" where
  "run_command ParseDuration c cmd args w =
     (if cmd = ''put'' then
        (if length args < 2 then usage_error ''Usage: sentinelfs put <local_path> <remote_path>'' w
         else finish (api_PutFile c (args ! 0) (args ! 1) w))
      else if cmd = ''get'' then
        (if length args < 2 then usage_error ''Usage: sentinelfs get <remote_path> <local_path>'' w
         else finish (api_GetFile c (args ! 0) (args ! 1) w))
      else if cmd = ''ls'' then
        (let path = (if length args > 0 then args ! 0 else ''/'') in finish (api_ListFiles c path w))
      else if cmd = ''rm'' then
        (if length args < 1 then usage_error ''Usage: sentinelfs rm <remote_path>'' w
         else finish (api_DeleteFile c (args ! 0) w))
      else if cmd = ''info'' then
        (if length args < 1 then usage_error ''Usage: sentinelfs info <remote_path>'' w
         else finish (api_FileInfo c (args ! 0) w))
      else if cmd = ''cluster'' then finish (api_ClusterInfo c w)
      else if cmd = ''nodes'' then finish (api_NodeInfo c w)
      else if cmd = ''watch'' then
        (let interval = (if length args > 0 then (case ParseDuration (args ! 0) of Some d \<Rightarrow> d | None \<Rightarrow> 3 * Second)
                         else 3 * Second)
         in finish (api_WatchCluster c interval w))
      else (w, usage_text, ''Unknown command: '' @ cmd @ NL, 1))"

text \<open>\<open>os_args\<close> includes the program's name; \<open>New\<close> connects to an address.\<close>

definition cli_main ::
  "(string \<Rightarrow> duration option) \<Rightarrow> string \<Rightarrow> (string \<Rightarrow> string + 'w client_api) \<Rightarrow> string list \<Rightarrow> 'w \<Rightarrow>
   'w \<times> string \<times> string \<times> int" where
  "cli_main ParseDuration env_addr New os_args w =
     (if length os_args < 2 then (w, usage_text, '''', 1)
      else
        let metaAddr = (if env_addr = '''' then defaultMetaAddr else env_addr)
        in case New metaAddr of
             Inl e \<Rightarrow> (w, '''', ''Error: '' @ e @ NL, 1)
           | Inr c \<Rightarrow> run_command ParseDuration c (os_args ! 1) (drop 2 os_args) w)"

end
