(* ===== verification/Processes.thy ===== *)
theory Processes
  imports Membership Meta_Admin Cli
begin

text \<open>
  The processes around the servers: \<^verbatim>\<open>cmd/metaserver/main.go\<close>, \<^verbatim>\<open>cmd/datanode/main.go\<close>, the
  \<open>Start\<close> and \<open>Stop\<close> of both servers, the ticker loops of a data node, the routes of the two admin servers, and
  \<open>New\<close> and \<open>Close\<close> of the client. A process is a machine: \<open>Start\<close> advances from one blocking call to the next,
  and a signal may arrive before each. What a blocking call returns is an argument: \<open>listen\<close> for \<open>net.Listen\<close>,
  \<open>serve\<close> for \<open>grpc.Server.Serve\<close>, \<open>rpc\<close> for a call to the metadata server. Logging is left out.
\<close>

section \<open>client.go: New and Close\<close>

datatype connection = Open | Closed

record Client =
  cn_metaAddr :: string
  cn_conn :: "connection option"

definition cl_New :: "(string \<Rightarrow> string option) \<Rightarrow> string \<Rightarrow> string + Client" where
  "cl_New dial metaAddr =
     (case dial metaAddr of
        Some e \<Rightarrow> Inl (''connect to metadata server: '' @ e)
      | None \<Rightarrow> Inr \<lparr>cn_metaAddr = metaAddr, cn_conn = Some Open\<rparr>)"

definition cl_Close :: "Client \<Rightarrow> Client" where
  "cl_Close c = (if cn_conn c \<noteq> None then c\<lparr>cn_conn := Some Closed\<rparr> else c)"

section \<open>Flags\<close>

text \<open>
  \<open>flag.Parse\<close>: flags up to the first argument that is none, or \<open>--\<close>. The value follows \<open>=\<close> or is the next
  argument; a bad flag ends the process with code 2, \<open>-h\<close> with 0. \<open>setter\<close> finds the flag of a name and stores a value.
\<close>

fun split_eq :: "string \<Rightarrow> string \<times> string option" where
  "split_eq [] = ([], None)"
| "split_eq (c # cs) = (if c = CHR ''='' then ([], Some cs) else (case split_eq cs of (n, v) \<Rightarrow> (c # n, v)))"

definition flag_name :: "string \<Rightarrow> string option" where
  "flag_name s =
     (if length s < 2 \<or> s ! 0 \<noteq> CHR ''-'' then None
      else if s ! 1 = CHR ''-'' then (if length s = 2 then None else Some (drop 2 s)) else Some (drop 1 s))"

fun parse_flags :: "(string \<Rightarrow> ('f \<Rightarrow> string \<Rightarrow> 'f option) option) \<Rightarrow> string list \<Rightarrow> 'f \<Rightarrow> int + 'f" where
  "parse_flags setter [] f = Inr f"
| "parse_flags setter (s # args) f =
     (case flag_name s of
        None \<Rightarrow> Inr f
      | Some name0 \<Rightarrow>
          if name0 ! 0 = CHR ''-'' \<or> name0 ! 0 = CHR ''='' then Inl 2
          else
            case split_eq name0 of (name, value) \<Rightarrow>
              (case setter name of
                 None \<Rightarrow> Inl (if name = ''help'' \<or> name = ''h'' then 0 else 2)
               | Some store \<Rightarrow>
                   (case value of
                      Some v \<Rightarrow> (case store f v of None \<Rightarrow> Inl 2 | Some f' \<Rightarrow> parse_flags setter args f')
                    | None \<Rightarrow>
                        (case args of
                           [] \<Rightarrow> Inl 2
                         | v # rest \<Rightarrow> (case store f v of None \<Rightarrow> Inl 2 | Some f' \<Rightarrow> parse_flags setter rest f')))))"

record MetaFlags =
  mf_port :: int
  mf_adminPort :: int

definition meta_flags :: MetaFlags where
  "meta_flags = \<lparr>mf_port = 9000, mf_adminPort = 9600\<rparr>"

definition meta_flag :: "(string \<Rightarrow> int option) \<Rightarrow> string \<Rightarrow> (MetaFlags \<Rightarrow> string \<Rightarrow> MetaFlags option) option" where
  "meta_flag ParseInt name =
     (if name = ''port'' then Some (\<lambda>f v. map_option (\<lambda>n. f\<lparr>mf_port := n\<rparr>) (ParseInt v))
      else if name = ''admin-port'' then Some (\<lambda>f v. map_option (\<lambda>n. f\<lparr>mf_adminPort := n\<rparr>) (ParseInt v))
      else None)"

record NodeFlags =
  nf_port :: int
  nf_adminPort :: int
  nf_metaAddr :: string
  nf_dataDir :: string
  nf_capacity :: int
  nf_advertiseAddr :: string

definition node_flags :: NodeFlags where
  "node_flags = \<lparr>nf_port = 9001, nf_adminPort = 9501, nf_metaAddr = ''localhost:9000'', nf_dataDir = ''./data/node1'',
     nf_capacity = 10 * 1024 * 1024 * 1024, nf_advertiseAddr = ''''\<rparr>"

definition node_flag :: "(string \<Rightarrow> int option) \<Rightarrow> string \<Rightarrow> (NodeFlags \<Rightarrow> string \<Rightarrow> NodeFlags option) option" where
  "node_flag ParseInt name =
     (if name = ''port'' then Some (\<lambda>f v. map_option (\<lambda>n. f\<lparr>nf_port := n\<rparr>) (ParseInt v))
      else if name = ''admin-port'' then Some (\<lambda>f v. map_option (\<lambda>n. f\<lparr>nf_adminPort := n\<rparr>) (ParseInt v))
      else if name = ''meta-addr'' then Some (\<lambda>f v. Some (f\<lparr>nf_metaAddr := v\<rparr>))
      else if name = ''data-dir'' then Some (\<lambda>f v. Some (f\<lparr>nf_dataDir := v\<rparr>))
      else if name = ''capacity'' then Some (\<lambda>f v. map_option (\<lambda>n. f\<lparr>nf_capacity := n\<rparr>) (ParseInt v))
      else if name = ''address'' then Some (\<lambda>f v. Some (f\<lparr>nf_advertiseAddr := v\<rparr>))
      else None)"

section \<open>Admin servers\<close>

text \<open>\<open>http.ServeMux\<close> on patterns without a trailing slash: the handler of exactly this path, or 404.\<close>

datatype node_route = Degrade | Recover | Status

record NodeAdmin =
  na_port :: int
  na_nodeID :: string

definition na_New :: "int \<Rightarrow> string \<Rightarrow> NodeAdmin" where
  "na_New port nodeID = \<lparr>na_port = port, na_nodeID = nodeID\<rparr>"

definition na_routes :: "string \<Rightarrow> node_route option" where
  "na_routes = [''/degrade'' \<mapsto> Degrade, ''/recover'' \<mapsto> Recover, ''/status'' \<mapsto> Status]"

definition not_found :: http_reply where
  "not_found = HttpError ''404 page not found'' 404"

definition na_serve ::
  "(string \<Rightarrow> real option) \<Rightarrow> (nat \<Rightarrow> real) \<Rightarrow> nat \<Rightarrow> nat \<Rightarrow> time \<Rightarrow> NodeAdmin \<Rightarrow> string \<Rightarrow> string \<Rightarrow> string \<Rightarrow>
   DataServer \<Rightarrow> DataServer \<times> http_reply" where
  "na_serve ParseFloat rnd alloc sys now a httpMethod path speed s =
     (case na_routes path of
        None \<Rightarrow> (s, not_found)
      | Some r \<Rightarrow>
          (case (case r of
                   Degrade \<Rightarrow> ad_handleDegrade ParseFloat now (na_nodeID a) httpMethod speed (ds_health s)
                 | Recover \<Rightarrow> ad_handleRecover (na_nodeID a) httpMethod (ds_health s)
                 | Status \<Rightarrow> ad_handleStatus rnd alloc sys now (na_nodeID a) (ds_health s)) of
             (hc, reply) \<Rightarrow> (s\<lparr>ds_health := hc\<rparr>, reply)))"

record MetaAdmin =
  ma_port :: int

definition ma_New :: "int \<Rightarrow> MetaAdmin" where
  "ma_New port = \<lparr>ma_port = port\<rparr>"

datatype meta_reply = Migrations migrations_reply | Health health_reply | NotFound

definition ma_serve :: "iter \<Rightarrow> (duration \<Rightarrow> string) \<Rightarrow> (time \<Rightarrow> string) \<Rightarrow> string \<Rightarrow> Server \<Rightarrow> meta_reply" where
  "ma_serve it fmt_dur fmt_time path s =
     (if path = ''/migrations'' then Migrations (adm_handleMigrations fmt_dur fmt_time s)
      else if path = ''/health'' then Health (adm_handleHealth it s)
      else NotFound)"

section \<open>Ticker loops of a data node\<close>

text \<open>One entry per tick: what dialling finds, and the state of the node then. The errors are logged.\<close>

fun ds_heartbeatLoop ::
  "(HeartbeatRequest \<Rightarrow> 'w \<Rightarrow> 'w \<times> string option) \<Rightarrow> (string option \<times> DataServer) list \<Rightarrow> 'w \<Rightarrow> 'w \<times> string list" where
  "ds_heartbeatLoop rpc [] w = (w, [])"
| "ds_heartbeatLoop rpc ((dial, s) # ticks) w =
     (case ds_sendHeartbeat dial rpc s w of
        (w', err) \<Rightarrow>
          (case ds_heartbeatLoop rpc ticks w' of
             (w'', logged) \<Rightarrow> (w'', (case err of None \<Rightarrow> logged | Some e \<Rightarrow> (''heartbeat failed: '' @ e) # logged))))"

text \<open>A report changes the collector, which goes on to the next tick.\<close>

record report_tick =
  tk_rnd :: "nat \<Rightarrow> real"
  tk_alloc :: nat
  tk_sys :: nat
  tk_now :: time
  tk_dial :: "string option"

fun ds_healthReportLoop ::
  "(HealthMetrics \<Rightarrow> 'w \<Rightarrow> 'w \<times> string option) \<Rightarrow> report_tick list \<Rightarrow> DataServer \<Rightarrow> 'w \<Rightarrow> DataServer \<times> 'w \<times> string list" where
  "ds_healthReportLoop rpc [] s w = (s, w, [])"
| "ds_healthReportLoop rpc (t # ticks) s w =
     (case ds_sendHealthReport (tk_rnd t) (tk_alloc t) (tk_sys t) (tk_now t) (tk_dial t) rpc s w of
        (s', w', err) \<Rightarrow>
          (case ds_healthReportLoop rpc ticks s' w' of
             (s'', w'', logged) \<Rightarrow> (s'', w'', (case err of None \<Rightarrow> logged | Some e \<Rightarrow> (''health report failed: '' @ e) # logged))))"

section \<open>Start, Stop and main\<close>

datatype loop = HeartbeatLoop | HealthReportLoop | DeadNodeChecker | PredictionLoop | AdminLoop int string

datatype phase = Registering | Listening | Serving | Exited int

text \<open>
  \<open>ps_grpc\<close>: the field \<open>grpcServer\<close> is set; \<open>ps_stopped\<close>: \<open>GracefulStop\<close> was called on it; \<open>ps_waiting\<close>: the
  goroutine of \<open>main\<close> still waits for its one signal.
\<close>

record 's process =
  ps_server :: 's
  ps_phase :: phase
  ps_grpc :: bool
  ps_stopped :: bool
  ps_loops :: "loop list"
  ps_waiting :: bool

definition new_process :: "phase \<Rightarrow> 's \<Rightarrow> 's process" where
  "new_process ph s = \<lparr>ps_server = s, ps_phase = ph, ps_grpc = False, ps_stopped = False, ps_loops = [], ps_waiting = True\<rparr>"

definition ds_Stop :: "DataServer process \<Rightarrow> DataServer process" where
  "ds_Stop p = (if ps_grpc p then p\<lparr>ps_stopped := True\<rparr> else p)"

definition sv_Stop :: "Server process \<Rightarrow> Server process" where
  "sv_Stop p = (if ps_grpc p then p\<lparr>ps_stopped := True\<rparr> else p)"

definition ds_GetHealthCollector :: "DataServer \<Rightarrow> HealthCollector" where
  "ds_GetHealthCollector s = ds_health s"

definition sv_GetChunkManager :: "Server \<Rightarrow> ChunkManager" where
  "sv_GetChunkManager s = sv_chunkMgr s"

definition sv_GetNamespace :: "Server \<Rightarrow> DirEntry" where
  "sv_GetNamespace s = sv_namespace s"

definition listen_addr :: "int \<Rightarrow> string" where
  "listen_addr port = CHR '':'' # fmt_d port"

text \<open>
  The rest of \<open>main\<close> when \<open>Start\<close> returns: code 1 for an error, else 0. \<open>serve\<close> is what \<open>Serve\<close> returns for a
  server that was stopped or not: still blocked, \<open>nil\<close>, or an error.
\<close>

definition leave :: "string option \<Rightarrow> 's process \<Rightarrow> 's process" where
  "leave err p = p\<lparr>ps_phase := Exited (if err = None then 0 else 1)\<rparr>"

definition ds_Start ::
  "string option \<Rightarrow> (string \<Rightarrow> int \<Rightarrow> 'w \<Rightarrow> 'w \<times> (string + RegisterNodeResponse)) \<Rightarrow> (string \<Rightarrow> string option) \<Rightarrow>
   (bool \<Rightarrow> string option option) \<Rightarrow> DataServer process \<times> 'w \<Rightarrow> DataServer process \<times> 'w" where
  "ds_Start dial rpc listen serve pw =
     (case pw of (p, w) \<Rightarrow>
        (case ps_phase p of
           Registering \<Rightarrow>
             (case ds_register dial rpc (ps_server p) w of
                (s', w', Some e) \<Rightarrow> (leave (Some (''register with metadata server: '' @ e)) (p\<lparr>ps_server := s'\<rparr>), w')
              | (s', w', None) \<Rightarrow> (p\<lparr>ps_server := s', ps_phase := Listening\<rparr>, w'))
         | Listening \<Rightarrow>
             (case listen (listen_addr (ds_port (ps_server p))) of
                Some e \<Rightarrow> (leave (Some (''listen: '' @ e)) p, w)
              | None \<Rightarrow>
                  (p\<lparr>ps_grpc := True,
                     ps_loops := [HeartbeatLoop, HealthReportLoop,
                       AdminLoop (na_port (na_New (ds_adminPort (ps_server p)) (ds_nodeID (ps_server p))))
                         (na_nodeID (na_New (ds_adminPort (ps_server p)) (ds_nodeID (ps_server p))))],
                     ps_phase := Serving\<rparr>, w))
         | Serving \<Rightarrow> (case serve (ps_stopped p) of None \<Rightarrow> (p, w) | Some err \<Rightarrow> (leave err p, w))
         | Exited code \<Rightarrow> (p, w)))"

definition sv_Start ::
  "int \<Rightarrow> int \<Rightarrow> (string \<Rightarrow> string option) \<Rightarrow> (bool \<Rightarrow> string option option) \<Rightarrow> Server process \<Rightarrow> Server process" where
  "sv_Start port adminPort listen serve p =
     (case ps_phase p of
        Registering \<Rightarrow> p
      | Listening \<Rightarrow>
          (case listen (listen_addr port) of
             Some e \<Rightarrow> leave (Some (''listen: '' @ e)) p
           | None \<Rightarrow> p\<lparr>ps_grpc := True, ps_loops := [DeadNodeChecker, PredictionLoop, AdminLoop (ma_port (ma_New adminPort)) ''''],
                ps_phase := Serving\<rparr>)
      | Serving \<Rightarrow> (case serve (ps_stopped p) of None \<Rightarrow> p | Some err \<Rightarrow> leave err p)
      | Exited code \<Rightarrow> p)"

text \<open>
  A signal once \<open>signal.Notify\<close> has run: the goroutine of \<open>main\<close> takes the first one, calls \<open>Stop\<close> and ends; the
  others go to the channel that nobody reads any more. (A signal before that kills the process.)
\<close>

definition on_signal :: "('s process \<Rightarrow> 's process) \<Rightarrow> 's process \<Rightarrow> 's process" where
  "on_signal stop p =
     (case ps_phase p of
        Exited code \<Rightarrow> p
      | _ \<Rightarrow> if \<not> ps_waiting p then p else (stop p)\<lparr>ps_waiting := False\<rparr>)"

definition metaserver_main :: "(string \<Rightarrow> int option) \<Rightarrow> string list \<Rightarrow> int + MetaFlags \<times> Server process" where
  "metaserver_main ParseInt args =
     (case parse_flags (meta_flag ParseInt) args meta_flags of
        Inl code \<Rightarrow> Inl code
      | Inr f \<Rightarrow> Inr (f, new_process Listening NewServer))"

definition datanode_main ::
  "(string \<Rightarrow> int option) \<Rightarrow> (int \<Rightarrow> int \<Rightarrow> string \<Rightarrow> string \<Rightarrow> int \<Rightarrow> string \<Rightarrow> string + DataServer) \<Rightarrow> string list \<Rightarrow>
   int + DataServer process" where
  "datanode_main ParseInt New args =
     (case parse_flags (node_flag ParseInt) args node_flags of
        Inl code \<Rightarrow> Inl code
      | Inr f \<Rightarrow>
          (case New (nf_port f) (nf_adminPort f) (nf_metaAddr f) (nf_dataDir f) (nf_capacity f) (nf_advertiseAddr f) of
             Inl e \<Rightarrow> Inl 1
           | Inr s \<Rightarrow> Inr (new_process Registering s)))"

section \<open>Runs of a data node\<close>

text \<open>
  What the gRPC library documents of \<open>Serve\<close>: it returns \<open>nil\<close> only when the server was stopped.
  While a node serves, its handlers and loops change its state in any way.
\<close>

definition serve_ok :: "(bool \<Rightarrow> string option option) \<Rightarrow> bool" where
  "serve_ok serve \<longleftrightarrow> serve False \<noteq> Some None"

inductive node_step :: "DataServer process \<times> 'w \<Rightarrow> DataServer process \<times> 'w \<Rightarrow> bool" where
  start: "serve_ok serve \<Longrightarrow> node_step x (ds_Start dial rpc listen serve x)"
| signal: "node_step (p, w) (on_signal ds_Stop p, w)"
| handler: "ps_phase p = Serving \<Longrightarrow> node_step (p, w) (p\<lparr>ps_server := s\<rparr>, w')"

text \<open>What holds of every process: the gRPC server is there exactly from serving on, and only a signal stops it.\<close>

definition process_ok :: "'s process \<Rightarrow> bool" where
  "process_ok p \<longleftrightarrow> (ps_stopped p \<longrightarrow> ps_grpc p \<and> \<not> ps_waiting p) \<and>
     (ps_phase p = Serving \<longrightarrow> ps_grpc p) \<and> (ps_phase p \<in> {Registering, Listening} \<longrightarrow> \<not> ps_grpc p) \<and>
     (ps_phase p = Exited 0 \<longrightarrow> ps_stopped p)"

lemma process_ok_step:
  assumes "node_step x y" "process_ok (fst x)"
  shows "process_ok (fst y)"
  using assms
proof cases
  case (start serve dial rpc listen)
  obtain p w where x: "x = (p, w)" by force
  have ok: "process_ok p" using assms(2) x by simp
  show ?thesis
  proof (cases "ps_phase p")
    case Registering
    then show ?thesis using ok
      by (auto simp: start(1) x ds_Start_def leave_def process_ok_def split: prod.split option.split)
  next
    case Serving
    have "serve False = Some r \<Longrightarrow> r \<noteq> None" for r using start(2) by (auto simp: serve_ok_def)
    then show ?thesis using ok Serving start(2)
      by (cases "ps_stopped p") (auto simp: start(1) x ds_Start_def leave_def process_ok_def serve_ok_def split: option.split)
  qed (use ok in \<open>auto simp: start(1) x ds_Start_def leave_def process_ok_def split: option.split\<close>)
qed (use assms(2) in \<open>auto simp: process_ok_def on_signal_def ds_Stop_def split: phase.split\<close>)

lemma process_ok_run: "node_step\<^sup>*\<^sup>* x y \<Longrightarrow> process_ok (fst x) \<Longrightarrow> process_ok (fst y)"
  by (induction rule: rtranclp_induct) (auto intro: process_ok_step)

lemma lost_step:
  assumes "node_step x y" "process_ok (fst x)" "\<not> ps_waiting (fst x)" "\<not> ps_stopped (fst x)"
  shows "\<not> ps_waiting (fst y) \<and> \<not> ps_stopped (fst y)"
  using assms
proof cases
  case (start serve dial rpc listen)
  obtain p w where x: "x = (p, w)" by force
  then show ?thesis using assms(3,4) start(1)
    by (cases "ps_phase p") (auto simp: ds_Start_def leave_def split: prod.split option.split)
qed (use assms(3,4) in \<open>auto simp: on_signal_def split: phase.split\<close>)

text \<open>
  C35: a signal can be lost. A SIGINT or SIGTERM that reaches a data node before its gRPC server exists, while it
  registers or opens its port, is consumed without effect, and so is every later one: whatever happens next, the
  node's server is never stopped and the process never ends with code 0; it can only be killed.
\<close>

theorem early_signal_is_lost:
  assumes "datanode_main ParseInt New args = Inr p0" "node_step\<^sup>*\<^sup>* (p0, w0) (p, w)"
    and "ps_phase p \<in> {Registering, Listening}" "node_step\<^sup>*\<^sup>* (on_signal ds_Stop p, w) (p', w')"
  shows "\<not> ps_stopped p' \<and> ps_phase p' \<noteq> Exited 0 \<and> on_signal ds_Stop p' = p'"
proof -
  have "process_ok p0" using assms(1) by (auto simp: datanode_main_def new_process_def process_ok_def split: sum.splits)
  then have p: "process_ok p" using process_ok_run [OF assms(2)] by simp
  have q: "process_ok (on_signal ds_Stop p)" using process_ok_step [OF node_step.signal, of p] p by simp
  have "\<not> ps_waiting (on_signal ds_Stop p)" "\<not> ps_stopped (on_signal ds_Stop p)"
    using p assms(3) by (auto simp: on_signal_def ds_Stop_def process_ok_def)
  moreover have "process_ok (fst y) \<and> \<not> ps_waiting (fst y) \<and> \<not> ps_stopped (fst y)"
    if "node_step\<^sup>*\<^sup>* x y" "process_ok (fst x)" "\<not> ps_waiting (fst x)" "\<not> ps_stopped (fst x)" for x y :: "DataServer process \<times> 'a"
    using that by (induction rule: rtranclp_induct) (auto intro: process_ok_step dest: lost_step)
  ultimately have "process_ok p' \<and> \<not> ps_waiting p' \<and> \<not> ps_stopped p'" using assms(4) q by fastforce
  then show ?thesis by (auto simp: process_ok_def on_signal_def split: phase.split)
qed

text \<open>
  A signal while the node serves does what it should. (\<open>Serve\<close> returns \<open>nil\<close> for a server stopped while it runs;
  for one stopped just before it is called it returns an error, and the process ends with code 1.)
\<close>

lemma signal_shuts_down:
  assumes "ps_phase p = Serving" "ps_grpc p" "ps_waiting p" "serve True = Some None"
  shows "ps_phase (fst (ds_Start dial rpc listen serve (on_signal ds_Stop p, w))) = Exited 0"
  using assms by (simp add: ds_Start_def on_signal_def ds_Stop_def leave_def)

text \<open>A node that is told to stop while it waits for the metadata server.\<close>

definition demo_args :: "string list" where
  "demo_args = [''-port'', ''9002'', ''--data-dir=/d'']"

definition demo_New :: "int \<Rightarrow> int \<Rightarrow> string \<Rightarrow> string \<Rightarrow> int \<Rightarrow> string \<Rightarrow> string + DataServer" where
  "demo_New port adminPort metaAddr dataDir capacity addr =
     ds_NewServer None (\<lambda>_. None) pad_sha (Inr []) (\<lambda>_. 0) port adminPort metaAddr dataDir capacity addr []"

definition demo_serve :: "bool \<Rightarrow> string option option" where
  "demo_serve stopped = (if stopped then Some None else None)"

definition demo_start :: "DataServer process \<times> system \<Rightarrow> DataServer process \<times> system" where
  "demo_start = ds_Start None (sys_RegisterNode (\<lambda>ks. ks) 0) (\<lambda>_. None) demo_serve"

lemma demo_process:
  "\<exists>s. datanode_main (\<lambda>_. Some 9002) demo_New demo_args = Inr (new_process Registering s) \<and> ds_port s = 9002"
proof -
  have f: "parse_flags (node_flag (\<lambda>_. Some 9002)) demo_args node_flags = Inr (node_flags\<lparr>nf_port := 9002, nf_dataDir := ''/d''\<rparr>)"
    by code_simp
  have "\<exists>s. demo_New 9002 9501 ''localhost:9000'' ''/d'' (10 * 1024 * 1024 * 1024) '''' = Inr s \<and> ds_port s = 9002"
    by (simp add: demo_New_def ds_NewServer_def NewChunkStore_def cs_loadExisting_def Let_def)
  then show ?thesis unfolding datanode_main_def f by (auto simp: node_flags_def)
qed

theorem early_signal_is_lost_witness:
  "\<exists>p0 p' w'. datanode_main (\<lambda>_. Some 9002) demo_New demo_args = Inr p0 \<and>
     demo_start (demo_start (on_signal ds_Stop p0, (NewServer, demo_nodes))) = (p', w') \<and>
     ps_phase p' = Serving \<and> ds_port (ps_server p') = 9002 \<and> on_signal ds_Stop p' = p'"
proof -
  obtain s0 where p0: "datanode_main (\<lambda>_. Some 9002) demo_New demo_args = Inr (new_process Registering s0)" "ds_port s0 = 9002"
    using demo_process by blast
  let ?p0 = "new_process Registering s0"
  obtain p' w' where r: "demo_start (demo_start (on_signal ds_Stop ?p0, (NewServer, demo_nodes))) = (p', w')" by (metis prod.exhaust)
  obtain s1 w1 e where reg: "ds_register None (sys_RegisterNode (\<lambda>ks. ks) 0) s0 (NewServer, demo_nodes) = (s1, w1, e)" by (metis prod_cases3)
  then have s1: "e = None" "ds_port s1 = 9002"
    using p0(2) by (auto simp: ds_register_def sys_RegisterNode_def sv_RegisterNode_def cm_RegisterNode_def Let_def
        split: option.splits prod.splits if_splits)
  have v: "ps_phase p' = Serving \<and> ds_port (ps_server p') = 9002"
    using r reg s1 by (auto simp: demo_start_def ds_Start_def on_signal_def ds_Stop_def new_process_def)
  have s: "serve_ok demo_serve" by (simp add: serve_ok_def demo_serve_def)
  have st: "node_step x (demo_start x)" for x unfolding demo_start_def by (rule node_step.start [OF s])
  have run: "node_step\<^sup>*\<^sup>* (on_signal ds_Stop ?p0, (NewServer, demo_nodes)) (p', w')"
    unfolding r [symmetric] by (blast intro: rtranclp.rtrancl_into_rtrancl st)
  have ph: "ps_phase ?p0 \<in> {Registering, Listening}" by (simp add: new_process_def)
  from early_signal_is_lost [OF p0(1) rtranclp.rtrancl_refl ph run] show ?thesis using p0(1) r v by blast
qed

section \<open>Heartbeats get lost\<close>

text \<open>
  The ticks of a node's heartbeat loop, the first at \<open>t0\<close>, against the rest of the system. A state
  \<open>(s, k, m)\<close>: the server, the ticks after the first whose fate is known, and how many of the last ones were lost. Between two
  ticks the server does anything. A tick finds the node in any state; its heartbeat arrives with a delay of at most \<open>D\<close>
  (\<open>beat\<close>), or the call fails (\<open>miss\<close>), or the ticker drops the tick because an earlier call has not returned (\<open>drop\<close>).
  At most \<open>L\<close> ticks in a row are lost.
\<close>

definition tick_at :: "time \<Rightarrow> nat \<Rightarrow> time" where
  "tick_at t0 k = t0 + int k * HeartbeatInterval"

inductive hb_step ::
  "(bytes \<Rightarrow> bytes) \<Rightarrow> bytes set \<Rightarrow> string \<Rightarrow> time \<Rightarrow> time \<Rightarrow> nat \<Rightarrow> Server \<times> nat \<times> nat \<Rightarrow> Server \<times> nat \<times> nat \<Rightarrow> bool"
  for sha K nodeID t0 D L where
  server: "paced_step sha K (\<lambda>t. tick_at t0 k \<le> t) (\<lambda>t. t \<le> tick_at t0 (Suc k) + D) s s' \<Longrightarrow>
    hb_step sha K nodeID t0 D L (s, k, m) (s', k, m)"
| beat: "ds_nodeID d = nodeID \<Longrightarrow> tick_at t0 (Suc k) \<le> t \<Longrightarrow> t \<le> tick_at t0 (Suc k) + D \<Longrightarrow>
    ds_heartbeatLoop (sys_Heartbeat t) [(None, d)] (s, w) = ((s', w'), logged) \<Longrightarrow>
    hb_step sha K nodeID t0 D L (s, k, m) (s', Suc k, 0)"
| miss: "m < L \<Longrightarrow> ds_heartbeatLoop rpc [(Some e, d)] (s, w :: World) = ((s, w), logged) \<Longrightarrow>
    hb_step sha K nodeID t0 D L (s, k, m) (s, Suc k, Suc m)"
| drop: "m < L \<Longrightarrow> hb_step sha K nodeID t0 D L (s, k, m) (s, Suc k, Suc m)"

lemma heartbeat_once:
  assumes "ds_heartbeatLoop (sys_Heartbeat t) [(None, d)] (s, w) = ((s', w'), logged)"
  shows "ds_sendHeartbeat None (sys_Heartbeat t) d (s, w) = ((s', w'), None)"
  using assms by (auto simp: ds_sendHeartbeat_def sys_Heartbeat_def split: prod.splits)

lemma heartbeats_keep:
  assumes inj: "inj_on (\<lambda>x. take 8 (sha x)) K" and run: "(hb_step sha K nodeID t0 D L)\<^sup>*\<^sup>* x y"
    and fit: "int (Suc L) * HeartbeatInterval + D \<le> DeadNodeTimeout"
    and x: "sv_inv sha K (fst x)" "fst (snd x) = 0" "snd (snd x) = 0" "map_of (cm_nodes (sv_chunkMgr (fst x))) nodeID = Some n"
      "dni_Address n = a" "dni_Status n \<noteq> StatusDead" "t0 \<le> dni_LastHeartbeat n"
  shows "\<exists>s k m. y = (s, k, m) \<and> sv_inv sha K s \<and> m \<le> L \<and> m \<le> k \<and> (\<exists>n. map_of (cm_nodes (sv_chunkMgr s)) nodeID = Some n \<and>
    dni_Address n = a \<and> dni_Status n \<noteq> StatusDead \<and> tick_at t0 (k - m) \<le> dni_LastHeartbeat n)"
  using run
proof (induction rule: rtranclp_induct)
  case base
  then show ?case using x by (cases x) (auto simp: tick_at_def)
next
  case (step y z)
  then obtain s k m n where y: "y = (s, k, m)" and I: "sv_inv sha K s" "m \<le> L" "m \<le> k"
    and n: "map_of (cm_nodes (sv_chunkMgr s)) nodeID = Some n" "dni_Address n = a" "dni_Status n \<noteq> StatusDead"
      "tick_at t0 (k - m) \<le> dni_LastHeartbeat n" by blast
  show ?case
    using step(2) unfolding y
  proof cases
    case (server s')
    let ?Q = "\<lambda>n. dni_Address n = a \<and> dni_Status n \<noteq> StatusDead \<and> tick_at t0 (k - m) \<le> dni_LastHeartbeat n"
    have "int (Suc m) * HeartbeatInterval \<le> int (Suc L) * HeartbeatInterval"
      using I(2) by (intro mult_right_mono) (simp_all add: HeartbeatInterval_def Second_def)
    then have late: "tick_at t0 (k - m) \<le> tick_at t0 k" "tick_at t0 (Suc k) + D \<le> tick_at t0 (k - m) + DeadNodeTimeout"
      using I(3) fit by (auto simp: tick_at_def HeartbeatInterval_def Second_def of_nat_diff algebra_simps)
    have "paced_pred (\<lambda>t. tick_at t0 k \<le> t) (\<lambda>t. t \<le> tick_at t0 (Suc k) + D) ?Q"
      using late by (auto simp: paced_pred_def core_pred_def cm_stale_def)
    then have "keeps ?Q (sv_chunkMgr s) (sv_chunkMgr s')" using paced_keeps [OF server(2)] I(1) by (simp add: sv_inv_def)
    moreover have "sv_inv sha K s'" by (rule sv_inv_step [OF inj paced_sv_step [OF server(2)] I(1)])
    ultimately show ?thesis using n I server(1) unfolding keeps_def by blast
  next
    case (beat d t w s' w' logged)
    have hb: "ds_sendHeartbeat None (sys_Heartbeat t) d (s, w) = ((s', w'), None)"
      using heartbeat_once beat(5) by blast
    have "map_of (cm_nodes (sv_chunkMgr s)) (ds_nodeID d) = Some n" using n(1) beat(2) by simp
    note hbd = heartbeat_done [OF hb this]
    have "sv_inv sha K s'" using sv_inv_step [OF inj sv_step.heartbeat I(1)] hbd(1) by simp
    then show ?thesis using hbd(2) n(2) beat(1-3) by fastforce
  next
    case (miss rpc e d w logged)
    then show ?thesis using n I by (auto simp: Suc_diff_le)
  next
    case drop
    then show ?thesis using n I by (auto simp: Suc_diff_le)
  qed
qed

text \<open>
  C29: lost heartbeats do no harm, up to a bound. A node registers, the server does anything, the heartbeat of a tick of its
  loop arrives; from then on at most \<open>L\<close> ticks in a row are lost, and each heartbeat that is not lost arrives within
  \<open>D\<close> of its tick, where \<open>L + 1\<close> intervals of three seconds and \<open>D\<close> are at most the fifteen seconds of
  \<open>DeadNodeTimeout\<close>: so three in a row if a heartbeat may take the three seconds of the call's timeout, and four only if there is no
  delay at all. While the server does anything else, dead-node checks at any time included, it always lists the node
  under the ID it handed out, at the node's address, and not as dead.
\<close>

theorem lost_heartbeats_do_no_harm:
  assumes "inj_on (\<lambda>x. take 8 (sha x)) K" "sv_reachable sha K s" "perm_iter it"
    and "ds_register None (sys_RegisterNode it t) d (s, w) = (d', (s1, w1), None)"
    and "(paced_step sha K (\<lambda>_. True) (\<lambda>_. True))\<^sup>*\<^sup>* s1 s2"
    and "t0 \<le> t1" "ds_heartbeatLoop (sys_Heartbeat t1) [(None, d')] (s2, w2) = ((s3, w3), logged)"
    and "int (Suc L) * HeartbeatInterval + D \<le> DeadNodeTimeout" "(hb_step sha K (ds_nodeID d') t0 D L)\<^sup>*\<^sup>* (s3, 0, 0) (s4, k, m)"
  shows "\<exists>n. map_of (cm_nodes (sv_chunkMgr s4)) (ds_nodeID d') = Some n \<and> dni_Address n = ds_address d \<and>
    dni_Status n \<noteq> StatusDead"
proof -
  have inv: "sv_inv sha K s" by (rule sv_inv_reachable [OF assms(1,2)])
  then have "cm_inv (sv_chunkMgr s)" by (simp add: sv_inv_def)
  note reg = register_done [OF this assms(3,4)]
  have "sv_inv sha K s1" using sv_inv_step [OF assms(1) sv_step.register [OF assms(3)] inv] reg(1) by simp
  moreover have "paced_pred (\<lambda>_. True) (\<lambda>_. True) (\<lambda>n. dni_Address n = ds_address d)"
    by (simp add: paced_pred_def core_pred_def)
  ultimately have two: "sv_inv sha K s2" "keeps (\<lambda>n. dni_Address n = ds_address d) (sv_chunkMgr s1) (sv_chunkMgr s2)"
    using paced_run_keeps [OF assms(1,5)] by blast+
  obtain n2 where n2: "map_of (cm_nodes (sv_chunkMgr s2)) (ds_nodeID d') = Some n2" "dni_Address n2 = ds_address d"
    using two(2) reg(4) unfolding keeps_def by blast
  note hb = heartbeat_done [OF heartbeat_once [OF assms(7)] n2(1)]
  obtain n3 where n3: "map_of (cm_nodes (sv_chunkMgr s3)) (ds_nodeID d') = Some n3" "dni_Address n3 = ds_address d"
    "dni_Status n3 \<noteq> StatusDead" "t0 \<le> dni_LastHeartbeat n3" using hb(2) n2(2) assms(6) by auto
  have "sv_inv sha K s3" using sv_inv_step [OF assms(1) sv_step.heartbeat two(1)] hb(1) by simp
  then show ?thesis using heartbeats_keep [OF assms(1,9,8), of n3 "ds_address d"] n3 by auto
qed

theorem lost_heartbeats_do_no_harm_witness:
  "\<exists>d' s1 s3 n. ds_register None (sys_RegisterNode (\<lambda>ks. ks) 0) demo_member (demo_sv0, demo_nodes) = (d', (s1, demo_nodes), None) \<and>
     fst (fst (ds_heartbeatLoop (sys_Heartbeat (31 * Second)) [(None, d')] (s1, demo_nodes))) = s3 \<and>
     map_of (cm_nodes (sv_chunkMgr (deadNodeChecker_tick (\<lambda>ks. ks) (45 * Second) s3))) (ds_nodeID d') = Some n \<and>
     dni_Status n \<noteq> StatusDead"
proof -
  obtain d' s1 w1 r where reg0: "ds_register None (sys_RegisterNode (\<lambda>ks. ks) 0) demo_member (demo_sv0, demo_nodes) = (d', (s1, w1), r)"
    by (metis prod.exhaust)
  have r: "r = None" "w1 = demo_nodes"
    using reg0 by (auto simp: ds_register_def sys_RegisterNode_def sv_RegisterNode_def cm_RegisterNode_def Let_def
        split: option.splits prod.splits if_splits)
  note reg = reg0 [unfolded r]
  obtain s3 w3 l where hb: "ds_heartbeatLoop (sys_Heartbeat (31 * Second)) [(None, d')] (s1, demo_nodes) = ((s3, w3), l)"
    by (metis prod.exhaust)
  let ?R = "hb_step rev {} (ds_nodeID d') (30 * Second) (3 * Second) 3"
  have i: "inj_on (\<lambda>x. take 8 (rev x)) {}" by simp
  have miss: "?R (s3, k, k) (s3, Suc k, Suc k)" if "k < 3" for k
  proof -
    have "ds_heartbeatLoop (sys_Heartbeat 0) [(Some ''down'', d')] (s3, w3) = ((s3, w3), [''heartbeat failed: down''])"
      by (simp add: ds_sendHeartbeat_def)
    from hb_step.miss [OF that this] show ?thesis .
  qed
  have "?R\<^sup>*\<^sup>* (s3, 0, 0) (s3, k, k)" if "k \<le> 3" for k
    using that
  proof (induction k)
    case (Suc k)
    then show ?case using miss [of k] by (auto intro: rtranclp.rtrancl_into_rtrancl)
  qed simp
  then have "?R\<^sup>*\<^sup>* (s3, 0, 0) (s3, 3, 3)" by simp
  moreover have "?R (s3, 3, 3) (deadNodeChecker_tick (\<lambda>ks. ks) (45 * Second) s3, 3, 3)"
    by (intro hb_step.server paced_step.dead_check) (simp add: tick_at_def HeartbeatInterval_def Second_def)
  ultimately have run: "?R\<^sup>*\<^sup>* (s3, 0, 0) (deadNodeChecker_tick (\<lambda>ks. ks) (45 * Second) s3, 3, 3)" by (rule rtranclp.rtrancl_into_rtrancl)
  have "30 * Second \<le> 31 * Second" "int (Suc 3) * HeartbeatInterval + 3 * Second \<le> DeadNodeTimeout"
    by (simp_all add: HeartbeatInterval_def DeadNodeTimeout_def Second_def)
  then have "\<exists>n. map_of (cm_nodes (sv_chunkMgr (deadNodeChecker_tick (\<lambda>ks. ks) (45 * Second) s3))) (ds_nodeID d') = Some n \<and>
      dni_Address n = ds_address demo_member \<and> dni_Status n \<noteq> StatusDead"
    using lost_heartbeats_do_no_harm [OF i demo_sv0_reachable perm_iter_id reg rtranclp.rtrancl_refl _ hb _ run] by blast
  then show ?thesis using reg hb by auto
qed

end
