(* ===== verification/Well_Typed.thy ===== *)
theory Well_Typed
  imports Meta_Server
begin

text \<open>
  The metadata server as a program that may go wrong: \<open>make\<close> with a negative capacity, or a nil dereference in
  \<open>PutFile\<close>, \<open>GetFile\<close>, \<open>GetFileInfo\<close> or \<open>DeleteFile\<close>. Its state has a shape that every operation keeps, whatever the
  hash function, and in a state of this shape no request goes wrong, except one with a negative chunk count.
\<close>

section \<open>The shape of the state\<close>

text \<open>A directory has no file metadata; a file has some, and no children; entries are filed under their names.\<close>

definition entry_typed :: "string list \<Rightarrow> DirEntry \<Rightarrow> bool" where
  "entry_typed ps e \<longleftrightarrow> (if deIsDir e then deFile e = None else deFile e \<noteq> None \<and> deChildren e = []) \<and>
     (ps \<noteq> [] \<longrightarrow> deName e = last ps)"

definition sv_typed :: "Server \<Rightarrow> bool" where
  "sv_typed s \<longleftrightarrow> deIsDir (sv_namespace s) \<and> (\<forall>ps e. walk ps (sv_namespace s) = Some e \<longrightarrow> entry_typed ps e) \<and>
     cm_inv (sv_chunkMgr s)"

lemma wf_walk: "ns_wf e0 \<Longrightarrow> walk ps e0 = Some e \<Longrightarrow> ns_wf e \<and> (ps \<noteq> [] \<longrightarrow> deName e = last ps)"
proof (induction ps arbitrary: e0)
  case (Cons p ps)
  obtain n d ch f where e0: "e0 = DirEntry n d ch f" by (cases e0)
  then obtain c where c: "map_of ch p = Some c" "walk ps c = Some e" using Cons.prems(2) by (auto split: option.splits)
  then have "ns_wf c" "deName c = p" using Cons.prems(1) e0 by (auto dest!: map_of_SomeD)
  then show ?case using Cons.IH [OF _ c(2)] c(2) by (cases ps) auto
qed simp

lemma wf_typed: "ns_inv (sv_namespace s) \<Longrightarrow> cm_inv (sv_chunkMgr s) \<Longrightarrow> sv_typed s"
  unfolding sv_typed_def
proof (intro conjI allI impI)
  fix ps e assume "ns_inv (sv_namespace s)" "walk ps (sv_namespace s) = Some e"
  then have "ns_wf e" "ps \<noteq> [] \<longrightarrow> deName e = last ps" using wf_walk by blast+
  then show "entry_typed ps e" by (cases e) (auto simp: entry_typed_def split: if_splits)
qed auto

section \<open>Preservation and progress\<close>

lemma shape_step:
  assumes "sv_step sha K s s'" "ns_inv (sv_namespace s)" "cm_inv (sv_chunkMgr s)"
  shows "ns_inv (sv_namespace s') \<and> cm_inv (sv_chunkMgr s')"
  using assms(1)
proof cases
  case (put it srt req now resp)
  let ?r = "cm_AllocateChunks it srt sha now (pf_Path req) (pf_ChunkCount req) (pf_FileSize req) (sv_chunkMgr s)"
  have "cm_inv (fst ?r)" by (rule inv_allocate [OF assms(3) put(1,2)])
  moreover have "ns_inv (fst (ns_CreateFile (sv_namespace s) p m))" for p m using ns.create_inv [OF assms(2)] .
  ultimately show ?thesis
    using put(4) assms(2) by (auto simp: sv_PutFile_def Let_def split: prod.splits outcome.splits sum.splits) (metis fst_conv)+
next
  case (delete it path resp)
  have "ns_inv (fst (ns_DeleteFile (sv_namespace s) path))" using ns.remove_inv [OF assms(2)] .
  then show ?thesis
    using delete inv_remove [OF assms(3)] assms(3) by (auto simp: sv_DeleteFile_def split: prod.splits sum.splits option.splits)
next
  case (register it now address capacity)
  then show ?thesis using assms(2) inv_register [OF assms(3)] by (simp add: server_views)
next
  case (heartbeat now hb)
  then show ?thesis using assms(2) inv_heartbeat [OF assms(3)] by (simp add: server_views)
next
  case (report metrics)
  then show ?thesis using assms(2,3) by (simp add: server_views)
next
  case (predict it now)
  then show ?thesis using assms(2) inv_predict [OF assms(3)] by (simp add: server_views)
next
  case (migrated_to n c)
  then show ?thesis using assms(2) inv_AddChunkToNode [OF assms(3)] by (simp add: cm_registered_def)
qed (use assms(2,3) inv_check_dead inv_RemoveChunkFromNode in \<open>simp_all add: server_views\<close>)

lemma shape_reachable: "sv_reachable sha K s \<Longrightarrow> ns_inv (sv_namespace s) \<and> cm_inv (sv_chunkMgr s)"
proof (induction rule: sv_reachable.induct)
  case new
  then show ?case using sv_inv_new [of sha "{}"] by (simp add: sv_inv_def)
qed (use shape_step in blast)

lemma located_meta: "cm_inv cm \<Longrightarrow> cm_GetChunkLocations cm cs = Inr locs \<Longrightarrow> l \<in> set locs \<Longrightarrow> cm_GetChunkMeta cm (lo_ChunkID l) \<noteq> None"
proof -
  assume cm: "cm_inv cm" and l: "cm_GetChunkLocations cm cs = Inr locs" "l \<in> set locs"
  then have "Inr l \<in> set (map (locate_chunk cm) cs)" by (simp add: GetChunkLocations_all)
  then obtain c where c: "locate_chunk cm c = Inr l" by auto
  then obtain m where m: "map_of (cm_chunks cm) c = Some m" by (auto simp: locate_chunk_def split: option.splits)
  have "lo_ChunkID l = c" using locate_ok(2) [OF m inv_parts(4) [OF cm m] c] .
  then show ?thesis using m by (simp add: cm_GetChunkMeta_def)
qed

section \<open>Property\<close>

text \<open>
  C16: the server's state is well typed and well-typed states do not go wrong. In every state the metadata server can
  reach, for every hash function (colliding ones too), each path of the tree leads to a directory without metadata or
  to a file with metadata and no children, filed under its name, and the chunk map is consistent; every \<open>GetFile\<close>,
  \<open>GetFileInfo\<close> and \<open>DeleteFile\<close> is answered without a panic, and \<open>PutFile\<close> too unless its chunk count is negative.
\<close>

theorem requests_do_not_go_wrong:
  assumes "sv_reachable sha UNIV s"
  shows "sv_typed s \<and> sv_GetFile path s \<noteq> None \<and> sv_GetFileInfo path s \<noteq> None \<and> snd (sv_DeleteFile it path s) \<noteq> None \<and>
    (0 \<le> pf_ChunkCount req \<longrightarrow> snd (sv_PutFile it srt sha' now req s) \<noteq> None)"
proof -
  have ns: "ns_inv (sv_namespace s)" and cm: "cm_inv (sv_chunkMgr s)" using shape_reachable [OF assms] by auto
  have nil: "ns_GetFile (sv_namespace s) path \<noteq> Inr None" using ns.get_iff [OF ns] by blast
  have "None \<notin> set (map (\<lambda>l. cm_GetChunkMeta (sv_chunkMgr s) (lo_ChunkID l)) locs)"
    if "cm_GetChunkLocations (sv_chunkMgr s) cs = Inr locs" for cs locs
    using located_meta [OF cm that] by force
  then have "sv_GetFile path s \<noteq> None"
    using nil by (auto simp: sv_GetFile_def Let_def split: sum.splits option.splits)
  moreover have "sv_GetFileInfo path s \<noteq> None" using nil by (auto simp: sv_GetFileInfo_def split: sum.splits option.splits)
  moreover have "snd (sv_DeleteFile it path s) \<noteq> None"
    using ns.remove_ok [OF _ ns] by (auto simp: sv_DeleteFile_def split: prod.splits sum.splits option.splits)
  moreover have "snd (sv_PutFile it srt sha' now req s) \<noteq> None" if "0 \<le> pf_ChunkCount req"
    using that by (auto simp: sv_PutFile_def cm_AllocateChunks_def Let_def split: prod.splits sum.splits if_splits)
  ultimately show ?thesis using wf_typed [OF ns cm] by blast
qed

theorem requests_do_not_go_wrong_witness:
  "sv_typed demo_sv \<and> sv_GetFile ''/nowhere'' demo_sv \<noteq> None \<and> snd (sv_DeleteFile (\<lambda>ks. ks) ''/f'' demo_sv) \<noteq> None \<and>
   snd (sv_PutFile (\<lambda>ks. ks) insertion_sort rev 0 demo_put demo_sv) \<noteq> None"
proof -
  have k: "\<forall>i<nat (pf_ChunkCount demo_put). chunk_key (pf_Path demo_put) (int i) \<in> UNIV" by simp
  obtain resp where "sv_PutFile (\<lambda>ks. ks) insertion_sort rev 0 demo_put demo_sv0 = (demo_sv, Some resp)"
    using demo_put_ok by blast
  from sv_step.put [OF perm_iter_id go_sort.sort_slice_axioms k this]
  have "sv_reachable rev UNIV demo_sv" by (rule sv_reachable.step [OF demo_sv0_reachable])
  moreover have "0 \<le> pf_ChunkCount demo_put" by (simp add: demo_put_def)
  ultimately show ?thesis using requests_do_not_go_wrong by blast
qed

end
