(* ===== verification/Handlers.thy ===== *)
theory Handlers
  imports Well_Typed
begin

text \<open>
  The file handlers of \<^verbatim>\<open>internal/metaserver/server.go\<close> lock by lock. gRPC runs every request in a goroutine of
  its own, and the namespace and the chunk manager have one mutex each, so other requests run between any two
  calls that one handler makes. Here one step is one such call. A handler that runs alone is the handler of
  \<open>Meta_Server\<close> (\<open>handlers_alone\<close>). A delete that races with a \<open>GetFile\<close> or a \<open>PutFile\<close> of the same path does
  harm (\<open>get_delete_race_panics\<close>, \<open>put_delete_race_loses_file\<close>); with a lock per path no interleaving does
  (\<open>path_locks_suffice\<close>).
\<close>

section \<open>Requests and handlers\<close>

datatype request = RqPut PutFileRequest | RqGet string | RqDelete string | RqInfo string

datatype reply =
    PutReply PutFileResponse
  | GetReply GetFileResponse
  | DeleteReply DeleteFileResponse
  | InfoReply GetFileInfoResponse

text \<open>What a handler does next, with its local variables.\<close>

datatype handler =
    PutEnter PutFileRequest
  | PutCreate PutFileRequest "ChunkPlacementInfo list"
  | GetEnter string
  | GetLocate FileMeta
  | GetDescribe FileMeta "ChunkLocationInfo list" "ChunkLocationInfo list" "ChunkInfo list"
  | DeleteEnter string
  | DeleteForget FileMeta
  | InfoEnter string
  | InfoCollect FileMeta "string list" "ChunkInfo option list"
  | Answered reply
  | Panicked

definition start_handler :: "request \<Rightarrow> handler" where
  "start_handler r = (case r of RqPut req \<Rightarrow> PutEnter req | RqGet p \<Rightarrow> GetEnter p | RqDelete p \<Rightarrow> DeleteEnter p | RqInfo p \<Rightarrow> InfoEnter p)"

subsection \<open>PutFile\<close>

definition put_enter ::
  "iter \<Rightarrow> sorter \<Rightarrow> (bytes \<Rightarrow> bytes) \<Rightarrow> time \<Rightarrow> PutFileRequest \<Rightarrow> Server \<Rightarrow> handler \<times> Server" where
  "put_enter it srt sha now req s =
     (case cm_AllocateChunks it srt sha now (pf_Path req) (pf_ChunkCount req) (pf_FileSize req) (sv_chunkMgr s) of
        (cm, Panic) \<Rightarrow> (Panicked, s\<lparr>sv_chunkMgr := cm\<rparr>)
      | (cm, Err e) \<Rightarrow>
          (Answered (PutReply \<lparr>pfr_Success = False, pfr_Message = cm_Error e, pfr_Placements = []\<rparr>), s\<lparr>sv_chunkMgr := cm\<rparr>)
      | (cm, Ok placements) \<Rightarrow> (PutCreate req placements, s\<lparr>sv_chunkMgr := cm\<rparr>))"

definition put_meta :: "time \<Rightarrow> PutFileRequest \<Rightarrow> ChunkPlacementInfo list \<Rightarrow> FileMeta" where
  "put_meta now req placements = \<lparr>fm_Path = pf_Path req, fm_Size = pf_FileSize req, fm_ChunkCount = pf_ChunkCount req,
     fm_ReplicationFactor = DefaultReplicationFactor, fm_Checksum = pf_Checksum req,
     fm_ChunkIDs = map pl_ChunkID placements, fm_CreatedAt = now\<rparr>"

definition put_create :: "time \<Rightarrow> PutFileRequest \<Rightarrow> ChunkPlacementInfo list \<Rightarrow> Server \<Rightarrow> handler \<times> Server" where
  "put_create now req placements s =
     (case ns_CreateFile (sv_namespace s) (pf_Path req) (put_meta now req placements) of
        (ns, Inl e) \<Rightarrow>
          (Answered (PutReply \<lparr>pfr_Success = False, pfr_Message = ns_Error e, pfr_Placements = []\<rparr>), s\<lparr>sv_namespace := ns\<rparr>)
      | (ns, Inr _) \<Rightarrow>
          (Answered (PutReply \<lparr>pfr_Success = True, pfr_Message = ''file registered'',
             pfr_Placements = map (\<lambda>p. \<lparr>cp_ChunkId = pl_ChunkID p, cp_ChunkIndex = int32 (pl_ChunkIndex p),
               cp_NodeAddresses = pl_NodeAddresses p, cp_NodeIds = pl_NodeIDs p\<rparr>) placements\<rparr>), s\<lparr>sv_namespace := ns\<rparr>))"

subsection \<open>GetFile\<close>

definition get_failed :: "string \<Rightarrow> handler" where
  "get_failed msg = Answered (GetReply \<lparr>gfr_Success = False, gfr_Message = msg, gfr_FileInfo = None, gfr_ChunkLocations = []\<rparr>)"

definition get_enter :: "string \<Rightarrow> Server \<Rightarrow> handler" where
  "get_enter path s =
     (case ns_GetFile (sv_namespace s) path of
        Inl e \<Rightarrow> get_failed (ns_Error e)
      | Inr None \<Rightarrow> Panicked
      | Inr (Some meta) \<Rightarrow> GetLocate meta)"

definition get_locate :: "FileMeta \<Rightarrow> Server \<Rightarrow> handler" where
  "get_locate meta s =
     (case cm_GetChunkLocations (sv_chunkMgr s) (fm_ChunkIDs meta) of
        Inl e \<Rightarrow> get_failed (cm_Error e)
      | Inr locs \<Rightarrow> GetDescribe meta locs locs [])"

definition get_answer :: "FileMeta \<Rightarrow> ChunkLocationInfo list \<Rightarrow> ChunkInfo list \<Rightarrow> handler" where
  "get_answer meta locs infos =
     Answered (GetReply \<lparr>gfr_Success = True, gfr_Message = '''', gfr_FileInfo = Some (file_info meta (map Some infos)),
       gfr_ChunkLocations = map (\<lambda>loc. \<lparr>cl_ChunkId = lo_ChunkID loc, cl_ChunkIndex = int32 (lo_ChunkIndex loc),
         cl_NodeAddresses = lo_NodeAddresses loc, cl_NodeIds = lo_NodeIDs loc\<rparr>) locs\<rparr>)"

text \<open>The loop over the locations: \<open>todo\<close> is what is left of them. The pointer from \<open>GetChunkMeta\<close> is used unchecked.\<close>

definition get_describe ::
  "FileMeta \<Rightarrow> ChunkLocationInfo list \<Rightarrow> ChunkLocationInfo list \<Rightarrow> ChunkInfo list \<Rightarrow> Server \<Rightarrow> handler" where
  "get_describe meta locs todo infos s =
     (case todo of
        [] \<Rightarrow> get_answer meta locs infos
      | loc # rest \<Rightarrow>
          (case cm_GetChunkMeta (sv_chunkMgr s) (lo_ChunkID loc) of
             None \<Rightarrow> Panicked
           | Some cm \<Rightarrow> GetDescribe meta locs rest (infos @ [chunk_info cm])))"

subsection \<open>DeleteFile\<close>

definition delete_enter :: "string \<Rightarrow> Server \<Rightarrow> handler \<times> Server" where
  "delete_enter path s =
     (case ns_DeleteFile (sv_namespace s) path of
        (ns, Inl e) \<Rightarrow> (Answered (DeleteReply \<lparr>dfr_Success = False, dfr_Message = ns_Error e\<rparr>), s\<lparr>sv_namespace := ns\<rparr>)
      | (ns, Inr None) \<Rightarrow> (Panicked, s\<lparr>sv_namespace := ns\<rparr>)
      | (ns, Inr (Some meta)) \<Rightarrow> (DeleteForget meta, s\<lparr>sv_namespace := ns\<rparr>))"

definition delete_forget :: "iter \<Rightarrow> FileMeta \<Rightarrow> Server \<Rightarrow> handler \<times> Server" where
  "delete_forget it meta s =
     (Answered (DeleteReply \<lparr>dfr_Success = True, dfr_Message = ''file deleted''\<rparr>),
      s\<lparr>sv_chunkMgr := fst (cm_RemoveChunks it (fm_ChunkIDs meta) (sv_chunkMgr s))\<rparr>)"

subsection \<open>GetFileInfo\<close>

definition info_enter :: "string \<Rightarrow> Server \<Rightarrow> handler" where
  "info_enter path s =
     (case ns_GetFile (sv_namespace s) path of
        Inl e \<Rightarrow> Answered (InfoReply \<lparr>gir_Success = False, gir_FileInfo = None\<rparr>)
      | Inr None \<Rightarrow> Panicked
      | Inr (Some meta) \<Rightarrow> InfoCollect meta (fm_ChunkIDs meta) [])"

definition info_collect :: "FileMeta \<Rightarrow> string list \<Rightarrow> ChunkInfo option list \<Rightarrow> Server \<Rightarrow> handler" where
  "info_collect meta todo infos s =
     (case todo of
        [] \<Rightarrow> Answered (InfoReply \<lparr>gir_Success = True, gir_FileInfo = Some (file_info meta infos)\<rparr>)
      | cid # rest \<Rightarrow> InfoCollect meta rest (infos @ [map_option chunk_info (cm_GetChunkMeta (sv_chunkMgr s) cid)]))"

subsection \<open>One step\<close>

definition h_step :: "iter \<Rightarrow> sorter \<Rightarrow> (bytes \<Rightarrow> bytes) \<Rightarrow> time \<Rightarrow> handler \<times> Server \<Rightarrow> handler \<times> Server" where
  "h_step it srt sha now hs =
     (case hs of (h, s) \<Rightarrow>
        (case h of
           PutEnter req \<Rightarrow> put_enter it srt sha now req s
         | PutCreate req placements \<Rightarrow> put_create now req placements s
         | GetEnter path \<Rightarrow> (get_enter path s, s)
         | GetLocate meta \<Rightarrow> (get_locate meta s, s)
         | GetDescribe meta locs todo infos \<Rightarrow> (get_describe meta locs todo infos s, s)
         | DeleteEnter path \<Rightarrow> delete_enter path s
         | DeleteForget meta \<Rightarrow> delete_forget it meta s
         | InfoEnter path \<Rightarrow> (info_enter path s, s)
         | InfoCollect meta todo infos \<Rightarrow> (info_collect meta todo infos s, s)
         | Answered a \<Rightarrow> (h, s)
         | Panicked \<Rightarrow> (h, s)))"

section \<open>A handler that runs alone\<close>

text \<open>The handlers of \<open>Meta_Server\<close> side by side; \<open>None\<close> is a panic.\<close>

definition atomic_handler ::
  "iter \<Rightarrow> sorter \<Rightarrow> (bytes \<Rightarrow> bytes) \<Rightarrow> time \<Rightarrow> request \<Rightarrow> Server \<Rightarrow> handler \<times> Server" where
  "atomic_handler it srt sha now r s =
     (let ended = (\<lambda>a. case a of None \<Rightarrow> Panicked | Some a \<Rightarrow> Answered a)
      in case r of
           RqPut req \<Rightarrow> (case sv_PutFile it srt sha now req s of (s', a) \<Rightarrow> (ended (map_option PutReply a), s'))
         | RqGet path \<Rightarrow> (ended (map_option GetReply (sv_GetFile path s)), s)
         | RqDelete path \<Rightarrow> (case sv_DeleteFile it path s of (s', a) \<Rightarrow> (ended (map_option DeleteReply a), s'))
         | RqInfo path \<Rightarrow> (ended (map_option InfoReply (sv_GetFileInfo path s)), s))"

abbreviation h_steps :: "iter \<Rightarrow> sorter \<Rightarrow> (bytes \<Rightarrow> bytes) \<Rightarrow> time \<Rightarrow> handler \<times> Server \<Rightarrow> handler \<times> Server \<Rightarrow> bool" where
  "h_steps it srt sha now \<equiv> (\<lambda>x y. h_step it srt sha now x = y)\<^sup>*\<^sup>*"

lemma h_steps_step: "h_steps it srt sha now (h_step it srt sha now x) y \<Longrightarrow> h_steps it srt sha now x y"
  by (rule converse_rtranclp_into_rtranclp) simp_all

lemma h_step_simps [simp]:
  "h_step it srt sha now (PutEnter req, s) = put_enter it srt sha now req s"
  "h_step it srt sha now (PutCreate req ps, s) = put_create now req ps s"
  "h_step it srt sha now (GetEnter path, s) = (get_enter path s, s)"
  "h_step it srt sha now (GetLocate meta, s) = (get_locate meta s, s)"
  "h_step it srt sha now (GetDescribe meta locs todo infos, s) = (get_describe meta locs todo infos s, s)"
  "h_step it srt sha now (DeleteEnter path, s) = delete_enter path s"
  "h_step it srt sha now (DeleteForget meta, s) = delete_forget it meta s"
  "h_step it srt sha now (InfoEnter path, s) = (info_enter path s, s)"
  "h_step it srt sha now (InfoCollect meta ids cs, s) = (info_collect meta ids cs s, s)"
  "h_step it srt sha now (Answered a, s) = (Answered a, s)"
  "h_step it srt sha now (Panicked, s) = (Panicked, s)"
  by (simp_all add: h_step_def)

lemma describe_alone:
  "h_steps it srt sha now (GetDescribe meta locs todo infos, s)
     (let cms = map (\<lambda>l. cm_GetChunkMeta (sv_chunkMgr s) (lo_ChunkID l)) todo
      in if None \<in> set cms then Panicked
         else get_answer meta locs (infos @ map (\<lambda>m. chunk_info (the m)) cms), s)"
proof (induction todo arbitrary: infos)
  case Nil
  show ?case by (rule h_steps_step) (simp add: get_describe_def)
next
  case (Cons l todo)
  show ?case
  proof (cases "cm_GetChunkMeta (sv_chunkMgr s) (lo_ChunkID l)")
    case None
    then show ?thesis by (intro r_into_rtranclp) (simp add: get_describe_def Let_def)
  next
    case (Some m)
    show ?thesis
      by (rule h_steps_step) (use Cons.IH [of "infos @ [chunk_info m]"] Some in \<open>auto simp: get_describe_def Let_def comp_def split: if_splits\<close>)
  qed
qed

lemma collect_alone:
  "h_steps it srt sha now (InfoCollect meta todo infos, s)
     (info_collect meta [] (infos @ map (\<lambda>c. map_option chunk_info (cm_GetChunkMeta (sv_chunkMgr s) c)) todo) s, s)"
proof (induction todo arbitrary: infos)
  case Nil
  show ?case by (rule h_steps_step) simp
next
  case (Cons c todo)
  show ?case
    by (rule h_steps_step)
      (use Cons.IH [of "infos @ [map_option chunk_info (cm_GetChunkMeta (sv_chunkMgr s) c)]"] in \<open>simp add: info_collect_def\<close>)
qed

lemma put_alone: "h_steps it srt sha now (start_handler (RqPut req), s) (atomic_handler it srt sha now (RqPut req) s)"
proof -
  let ?a = "cm_AllocateChunks it srt sha now (pf_Path req) (pf_ChunkCount req) (pf_FileSize req) (sv_chunkMgr s)"
  obtain cm res where a: "?a = (cm, res)" by force
  show ?thesis
  proof (cases res)
    case (Ok ps)
    obtain ns rc where c: "ns_CreateFile (sv_namespace s) (pf_Path req) (put_meta now req ps) = (ns, rc)" by force
    show ?thesis
      by (rule h_steps_step, rule h_steps_step)
        (use a Ok c in \<open>auto simp: start_handler_def atomic_handler_def put_enter_def put_create_def sv_PutFile_def
          put_meta_def Let_def split: sum.splits\<close>)
  qed (rule h_steps_step, use a in \<open>simp add: start_handler_def atomic_handler_def put_enter_def sv_PutFile_def\<close>)+
qed

lemma get_alone: "h_steps it srt sha now (start_handler (RqGet path), s) (atomic_handler it srt sha now (RqGet path) s)"
proof (cases "\<exists>meta locs. ns_GetFile (sv_namespace s) path = Inr (Some meta) \<and>
    cm_GetChunkLocations (sv_chunkMgr s) (fm_ChunkIDs meta) = Inr locs")
  case True
  then obtain meta locs where m: "ns_GetFile (sv_namespace s) path = Inr (Some meta)"
    "cm_GetChunkLocations (sv_chunkMgr s) (fm_ChunkIDs meta) = Inr locs" by blast
  let ?cms = "map (\<lambda>l. cm_GetChunkMeta (sv_chunkMgr s) (lo_ChunkID l)) locs"
  have infos: "map Some (map (\<lambda>m. chunk_info (the m)) ?cms) = map (map_option chunk_info) ?cms" if "None \<notin> set ?cms"
    using that by (auto simp: image_iff) (metis option.exhaust_sel option.simps(9))
  have "atomic_handler it srt sha now (RqGet path) s =
      (if None \<in> set ?cms then Panicked else get_answer meta locs (map (\<lambda>m. chunk_info (the m)) ?cms), s)"
  proof (cases "None \<in> set ?cms")
    case True
    then show ?thesis using m by (simp add: atomic_handler_def sv_GetFile_def)
  next
    case False
    show ?thesis
      unfolding get_answer_def infos [OF False] using False m by (simp add: atomic_handler_def sv_GetFile_def)
  qed
  moreover have "h_steps it srt sha now (GetDescribe meta locs locs [], s)
      (if None \<in> set ?cms then Panicked else get_answer meta locs (map (\<lambda>m. chunk_info (the m)) ?cms), s)"
    using describe_alone [of it srt sha now meta locs locs "[]" s] unfolding Let_def append_Nil .
  ultimately have "h_steps it srt sha now (GetDescribe meta locs locs [], s) (atomic_handler it srt sha now (RqGet path) s)" by simp
  then show ?thesis
    by (intro h_steps_step [of it srt sha now "(start_handler (RqGet path), s)"])
      (rule h_steps_step, use m in \<open>simp add: start_handler_def get_enter_def get_locate_def\<close>)
next
  case False
  show ?thesis
  proof (cases "ns_GetFile (sv_namespace s) path")
    case (Inr fo)
    show ?thesis
      by (rule h_steps_step, rule h_steps_step)
        (use False Inr in \<open>auto simp: start_handler_def atomic_handler_def get_enter_def get_locate_def get_failed_def
          sv_GetFile_def Let_def split: option.splits sum.splits\<close>)
  qed (rule h_steps_step, simp add: start_handler_def atomic_handler_def get_enter_def get_failed_def sv_GetFile_def)
qed

lemma delete_alone: "h_steps it srt sha now (start_handler (RqDelete path), s) (atomic_handler it srt sha now (RqDelete path) s)"
  by (rule h_steps_step, rule h_steps_step)
      (auto simp: start_handler_def atomic_handler_def delete_enter_def delete_forget_def sv_DeleteFile_def
        split: prod.splits sum.splits option.splits)

lemma info_alone: "h_steps it srt sha now (start_handler (RqInfo path), s) (atomic_handler it srt sha now (RqInfo path) s)"
proof (cases "ns_GetFile (sv_namespace s) path")
  case (Inr fo)
  show ?thesis
  proof (cases fo)
    case (Some meta)
    show ?thesis
      by (rule h_steps_step)
        (use collect_alone [of it srt sha now meta "fm_ChunkIDs meta" "[]" s] Inr Some in
          \<open>simp add: start_handler_def atomic_handler_def info_enter_def info_collect_def sv_GetFileInfo_def\<close>)
  qed (rule h_steps_step, use Inr in \<open>simp add: start_handler_def atomic_handler_def info_enter_def sv_GetFileInfo_def\<close>)
qed (rule h_steps_step, simp add: start_handler_def atomic_handler_def info_enter_def sv_GetFileInfo_def)

text \<open>
  a handler that nobody interrupts is the handler of the server: the steps of \<open>PutFile\<close>, \<open>GetFile\<close>,
  \<open>DeleteFile\<close> and \<open>GetFileInfo\<close>, one call of the namespace or the chunk manager each, end in the reply, or the
  panic, and in the state of the handler as one step.
\<close>

theorem handlers_alone:
  "h_steps it srt sha now (start_handler r, s) (atomic_handler it srt sha now r s)"
  using put_alone get_alone delete_alone info_alone by (cases r) simp_all

section \<open>Two handlers at once\<close>

text \<open>A schedule is a list of handler numbers; each entry is one step of that handler.\<close>

definition advance ::
  "iter \<Rightarrow> sorter \<Rightarrow> (bytes \<Rightarrow> bytes) \<Rightarrow> time \<Rightarrow> nat \<Rightarrow> handler list \<times> Server \<Rightarrow> handler list \<times> Server" where
  "advance it srt sha now j x =
     (case x of (hs, s) \<Rightarrow>
        if j < length hs then (case h_step it srt sha now (hs ! j, s) of (h, s') \<Rightarrow> (hs[j := h], s')) else x)"

definition run_handlers ::
  "iter \<Rightarrow> sorter \<Rightarrow> (bytes \<Rightarrow> bytes) \<Rightarrow> time \<Rightarrow> nat list \<Rightarrow> request list \<Rightarrow> Server \<Rightarrow> handler list \<times> Server" where
  "run_handlers it srt sha now sched rs s = fold (advance it srt sha now) sched (map start_handler rs, s)"

definition deleted :: handler where
  "deleted = Answered (DeleteReply \<lparr>dfr_Success = True, dfr_Message = ''file deleted''\<rparr>)"

text \<open>A delete of an existing file, in its two steps.\<close>

lemma delete_steps:
  assumes "ns_inv (sv_namespace s)" "plain path" "ns_GetFile (sv_namespace s) path = Inr (Some f)"
  obtains ns where "ns_DeleteFile (sv_namespace s) path = (ns, Inr (Some f))"
    "delete_enter path s = (DeleteForget f, s\<lparr>sv_namespace := ns\<rparr>)"
proof -
  have "ns_files (sv_namespace s) (ns_target path) = Some f"
    using ns.get_iff [OF assms(1)] assms(3) plain_target(1) [OF assms(2)] by simp
  moreover obtain ns r where d: "ns_DeleteFile (sv_namespace s) path = (ns, r)" by force
  ultimately have "r = Inr (Some f)"
    using ns.remove_ok [OF _ assms(1)] ns.remove_err [OF _ assms(1)] by (cases r) fastforce+
  then show thesis using that d by (simp add: delete_enter_def)
qed

lemma forgotten: "c \<in> set cs \<Longrightarrow> map_of (cm_chunks (fst (cm_RemoveChunks it cs cm))) c = None"
  using path_remove [of it cs cm c] by (simp add: chunk_path_def)

text \<open>
  C8: a \<open>GetFile\<close> and a \<open>DeleteFile\<close> of one file can crash the metadata server. In every reachable state, for
  every file with a chunk that \<open>GetFile\<close> would serve: if the delete runs after \<open>GetFile\<close> has located the
  chunks and before it describes them, \<open>GetFile\<close> dereferences the nil that \<open>GetChunkMeta\<close> returns.
\<close>

theorem get_delete_race_panics:
  assumes "sv_reachable sha' K s" "plain path" "ns_GetFile (sv_namespace s) path = Inr (Some f)" "fm_ChunkIDs f \<noteq> []"
    and "sv_GetFile path s = Some resp" "gfr_Success resp"
  shows "fst (run_handlers it srt sha now [0, 0, 1, 1, 0] [RqGet path, RqDelete path] s) = [Panicked, deleted]"
proof -
  have inv: "ns_inv (sv_namespace s)" "cm_inv (sv_chunkMgr s)" using shape_reachable [OF assms(1)] by auto
  obtain locs where locs: "cm_GetChunkLocations (sv_chunkMgr s) (fm_ChunkIDs f) = Inr locs"
    using assms(3,5,6) by (auto simp: sv_GetFile_def Let_def split: sum.splits)
  then have m: "map (locate_chunk (sv_chunkMgr s)) (fm_ChunkIDs f) = map Inr locs" by (simp add: GetChunkLocations_all)
  obtain c cs l ls where c: "fm_ChunkIDs f = c # cs" "locs = l # ls" "locate_chunk (sv_chunkMgr s) c = Inr l"
    using m assms(4) by (cases "fm_ChunkIDs f"; cases locs) auto
  obtain cmeta where "map_of (cm_chunks (sv_chunkMgr s)) c = Some cmeta"
    using c(3) by (auto simp: locate_chunk_def split: option.splits)
  then have l: "lo_ChunkID l = c" using locate_ok(2) [OF _ _ c(3)] inv_parts(4) [OF inv(2)] by blast
  obtain ns where d: "ns_DeleteFile (sv_namespace s) path = (ns, Inr (Some f))"
    "delete_enter path s = (DeleteForget f, s\<lparr>sv_namespace := ns\<rparr>)"
    by (rule delete_steps [OF inv(1) assms(2,3)])
  have "cm_GetChunkMeta (fst (cm_RemoveChunks it (fm_ChunkIDs f) (sv_chunkMgr s))) c = None"
    unfolding cm_GetChunkMeta_def by (rule forgotten) (simp add: c(1))
  then show ?thesis
    using assms(3) locs c(2) l d
    by (simp add: run_handlers_def advance_def start_handler_def get_enter_def get_locate_def delete_forget_def deleted_def
        get_describe_def)
qed

theorem get_delete_race_panics_witness:
  "fst (run_handlers (\<lambda>ks. ks) insertion_sort rev 0 [0, 0, 1, 1, 0] [RqGet ''/f'', RqDelete ''/f''] demo_sv) = [Panicked, deleted]"
proof -
  have "case ns_GetFile (sv_namespace demo_sv) ''/f'' of Inr (Some f) \<Rightarrow> fm_ChunkIDs f \<noteq> [] | _ \<Rightarrow> False" by code_simp
  then obtain f where f: "ns_GetFile (sv_namespace demo_sv) ''/f'' = Inr (Some f)" "fm_ChunkIDs f \<noteq> []"
    by (auto split: sum.splits option.splits)
  have "case sv_GetFile ''/f'' demo_sv of Some resp \<Rightarrow> gfr_Success resp | None \<Rightarrow> False" by code_simp
  then obtain resp where r: "sv_GetFile ''/f'' demo_sv = Some resp" "gfr_Success resp" by (auto split: option.splits)
  have "plain ''/f''" by code_simp
  from get_delete_race_panics [OF demo_sv_reachable this f r] show ?thesis .
qed

text \<open>
  C9: a \<open>PutFile\<close> and a \<open>DeleteFile\<close> of one path can lose an acknowledged file. In every reachable state with
  a healthy node, for every stored file with chunks: if a put of the same path, of at least one chunk, runs between
  the two steps of the delete, both are answered with success and the path has the new file, but the delete has
  removed its chunks, whose IDs are those of the old file, from the chunk map: \<open>GetFile\<close> fails.
\<close>

theorem put_delete_race_loses_file:
  assumes "inj_on (\<lambda>x. take 8 (sha x)) K" "sv_reachable sha K s" "perm_iter it" "sort_slice srt"
    and "plain path" "ns_GetFile (sv_namespace s) path = Inr (Some f)" "fm_Path f = path" "0 < fm_ChunkCount f"
    and "pf_Path req = path" "0 < pf_ChunkCount req" "cm_healthyNodes it now (sv_chunkMgr s) \<noteq> []"
  shows "\<exists>r s'. run_handlers it srt sha now [1, 0, 0, 1] [RqPut req, RqDelete path] s = ([Answered (PutReply r), deleted], s') \<and>
    pfr_Success r \<and> (\<exists>f'. ns_GetFile (sv_namespace s') path = Inr (Some f') \<and> fm_ChunkCount f' = pf_ChunkCount req) \<and>
    (\<exists>a. sv_GetFile path s' = Some a \<and> \<not> gfr_Success a)"
proof -
  have inv: "sv_inv sha K s" by (rule sv_inv_reachable [OF assms(1,2)])
  then have nsi: "ns_inv (sv_namespace s)" and cmi: "cm_inv (sv_chunkMgr s)" by (auto simp: sv_inv_def)
  have "ns_files (sv_namespace s) (ns_cleanPath path) = Some f" using ns.get_iff [OF nsi] assms(6) by blast
  then have ids: "fm_ChunkIDs f = chunk_ids sha path (fm_ChunkCount f)" using inv assms(7) by (auto simp: sv_inv_def file_ok_def)
  obtain ns where d: "ns_DeleteFile (sv_namespace s) path = (ns, Inr (Some f))"
    "delete_enter path s = (DeleteForget f, s\<lparr>sv_namespace := ns\<rparr>)"
    by (rule delete_steps [OF nsi assms(5,6)])
  obtain cm ps where a: "cm_AllocateChunks it srt sha now path (pf_ChunkCount req) (pf_FileSize req) (sv_chunkMgr s) = (cm, Ok ps)"
    by (rule allocate_ok [OF cmi assms(3,4) refl assms(11), of "pf_ChunkCount req" sha path "pf_FileSize req"]) (use assms(10) in auto)
  obtain ns' where c: "ns_CreateFile ns path (put_meta now req ps) = (ns', Inr ())" using delete_then_create [OF nsi d(1)] by blast
  have f': "ns_GetFile ns' path = Inr (Some (put_meta now req ps))"
    using ns.get_create(1) [OF c] ns.remove_ok [OF d(1) nsi] plain_target(1) [OF assms(5)] by simp
  let ?s = "s\<lparr>sv_namespace := ns', sv_chunkMgr := fst (cm_RemoveChunks it (fm_ChunkIDs f) cm)\<rparr>" and ?c = "GenerateChunkID sha path 0"
  have "?c \<in> set (chunk_ids sha path n)" if "0 < n" for n using that by (auto simp: chunk_ids_def intro!: image_eqI [where x = 0])
  then have "?c \<in> set (map pl_ChunkID ps)" "?c \<in> set (fm_ChunkIDs f)"
    using allocate_paths(2) [OF cmi assms(3,4) a] assms(8,10) ids by simp_all
  then have "\<exists>c\<in>set (map pl_ChunkID ps). \<forall>l. locate_chunk (fst (cm_RemoveChunks it (fm_ChunkIDs f) cm)) c \<noteq> Inr l"
    by (intro bexI [of _ ?c]) (simp_all add: locate_chunk_def forgotten)
  then have "\<nexists>locs. cm_GetChunkLocations (fst (cm_RemoveChunks it (fm_ChunkIDs f) cm)) (map pl_ChunkID ps) = Inr locs"
    unfolding GetChunkLocations_succeeds by blast
  then have "\<exists>a. sv_GetFile path ?s = Some a \<and> \<not> gfr_Success a"
    using f' by (auto simp: sv_GetFile_def put_meta_def Let_def split: sum.splits)
  moreover have "\<exists>r. run_handlers it srt sha now [1, 0, 0, 1] [RqPut req, RqDelete path] s = ([Answered (PutReply r), deleted], ?s) \<and>
      pfr_Success r"
    using d(2) a c assms(9)
    by (simp add: run_handlers_def advance_def start_handler_def put_enter_def put_create_def delete_forget_def deleted_def)
  ultimately show ?thesis using f' by (fastforce simp: put_meta_def)
qed

theorem put_delete_race_loses_file_witness:
  "\<exists>r s' a. run_handlers (\<lambda>ks. ks) insertion_sort rev 0 [1, 0, 0, 1] [RqPut demo_put, RqDelete ''/f''] demo_sv =
     ([Answered (PutReply r), deleted], s') \<and> pfr_Success r \<and> sv_GetFile ''/f'' s' = Some a \<and> \<not> gfr_Success a"
proof -
  have "case ns_GetFile (sv_namespace demo_sv) ''/f'' of Inr (Some f) \<Rightarrow> fm_Path f = ''/f'' \<and> fm_ChunkCount f = 2 | _ \<Rightarrow> False"
    by code_simp
  then obtain f where f: "ns_GetFile (sv_namespace demo_sv) ''/f'' = Inr (Some f)" "fm_Path f = ''/f''" "0 < fm_ChunkCount f"
    by (auto split: sum.splits option.splits)
  have p: "plain ''/f''" "cm_healthyNodes (\<lambda>ks. ks) 0 (sv_chunkMgr demo_sv) \<noteq> []" by code_simp+
  have r: "pf_Path demo_put = ''/f''" "0 < pf_ChunkCount demo_put" by (simp_all add: demo_put_def)
  from put_delete_race_loses_file [OF demo_K_inj demo_sv_reachable perm_iter_id go_sort.sort_slice_axioms p(1) f r p(2)]
  show ?thesis by blast
qed

section \<open>A lock per path\<close>

text \<open>
  The missing synchronisation: a request waits until no other request for the same path is at work, unless both
  only read. Any number of requests for other paths, and every background activity of the server, may still run
  between any two of its steps.
\<close>

definition key :: "request \<Rightarrow> string list" where
  "key r = (case r of RqPut req \<Rightarrow> ns_target (pf_Path req) | RqDelete p \<Rightarrow> ns_target p | RqGet p \<Rightarrow> ns_cleanPath p | RqInfo p \<Rightarrow> ns_cleanPath p)"

definition reads :: "request \<Rightarrow> bool" where
  "reads r = (case r of RqGet p \<Rightarrow> True | RqInfo p \<Rightarrow> True | _ \<Rightarrow> False)"

definition compatible :: "request \<Rightarrow> request \<Rightarrow> bool" where
  "compatible q r \<longleftrightarrow> key q \<noteq> key r \<or> reads q \<and> reads r"

definition finished :: "handler \<Rightarrow> bool" where
  "finished h \<longleftrightarrow> (case h of Answered a \<Rightarrow> True | Panicked \<Rightarrow> True | _ \<Rightarrow> False)"

inductive background :: "Server \<Rightarrow> Server \<Rightarrow> bool" where
  register: "perm_iter it \<Longrightarrow> background s (fst (sv_RegisterNode it now address capacity s))"
| heartbeat: "background s (fst (sv_Heartbeat now hb s))"
| report: "background s (fst (sv_ReportHealth metrics s))"
| dead_check: "background s (deadNodeChecker_tick it now s)"
| predict: "background s (fst (predictionLoop_tick it now s))"
| migrated_to: "cm_registered (sv_chunkMgr s) n \<Longrightarrow> background s (s\<lparr>sv_chunkMgr := cm_AddChunkToNode c n (sv_chunkMgr s)\<rparr>)"
| migrated_from: "background s (s\<lparr>sv_chunkMgr := cm_RemoveChunkFromNode c n (sv_chunkMgr s)\<rparr>)"
| migrator: "background s (s\<lparr>sv_migrator := m\<rparr>)"

definition request_ok :: "bytes set \<Rightarrow> request \<Rightarrow> bool" where
  "request_ok K r = (case r of
     RqPut req \<Rightarrow> 0 \<le> pf_ChunkCount req \<and> (\<forall>i<nat (pf_ChunkCount req). chunk_key (pf_Path req) (int i) \<in> K)
   | _ \<Rightarrow> True)"

inductive locked_step ::
  "(bytes \<Rightarrow> bytes) \<Rightarrow> bytes set \<Rightarrow> Server \<times> (request \<times> handler) list \<Rightarrow> Server \<times> (request \<times> handler) list \<Rightarrow> bool" for sha K where
  arrive: "request_ok K r \<Longrightarrow> \<forall>(q, h)\<in>set ts. finished h \<or> compatible q r \<Longrightarrow>
    locked_step sha K (s, ts) (s, ts @ [(r, start_handler r)])"
| advance: "perm_iter it \<Longrightarrow> sort_slice srt \<Longrightarrow> j < length ts \<Longrightarrow> ts ! j = (r, h) \<Longrightarrow> h_step it srt sha now (h, s) = (h', s') \<Longrightarrow>
    locked_step sha K (s, ts) (s', ts[j := (r, h')])"
| background: "background s s' \<Longrightarrow> locked_step sha K (s, ts) (s', ts)"

subsection \<open>What a handler at work relies on\<close>

text \<open>The chunk map has the chunks of a path, under this path.\<close>

definition owned :: "(bytes \<Rightarrow> bytes) \<Rightarrow> bytes set \<Rightarrow> ChunkManager \<Rightarrow> string \<Rightarrow> int \<Rightarrow> bool" where
  "owned sha K cm path n \<longleftrightarrow> (\<forall>i<nat n. chunk_key path (int i) \<in> K) \<and> (\<forall>c\<in>set (chunk_ids sha path n). chunk_path cm c = Some path)"

lemma file_ok_owned:
  "file_ok sha K cm ps f \<longleftrightarrow> ns_target (fm_Path f) = ps \<and> fm_ChunkIDs f = chunk_ids sha (fm_Path f) (fm_ChunkCount f) \<and>
     owned sha K cm (fm_Path f) (fm_ChunkCount f)"
  by (auto simp: file_ok_def owned_def)

lemma owned_allocate:
  assumes "inj_on (\<lambda>x. take 8 (sha x)) K" "owned sha K cm p n" "\<forall>i<nat m. chunk_key q (int i) \<in> K"
    and "\<And>c. chunk_path cm' c = (if c \<in> set (chunk_ids sha q m) then Some q else chunk_path cm c)"
  shows "owned sha K cm' p n"
  using assms chunk_ids_path [OF assms(1), of _ p n q m] by (auto simp: owned_def)

lemma owned_forget:
  assumes "inj_on (\<lambda>x. take 8 (sha x)) K" "owned sha K cm p n" "\<forall>i<nat m. chunk_key q (int i) \<in> K" "p \<noteq> q"
  shows "owned sha K (fst (cm_RemoveChunks it (chunk_ids sha q m) cm)) p n"
  using assms chunk_ids_path [OF assms(1), of _ p n q m] by (auto simp: owned_def path_remove)

definition file_of :: "(bytes \<Rightarrow> bytes) \<Rightarrow> bytes set \<Rightarrow> string list \<Rightarrow> FileMeta \<Rightarrow> bool" where
  "file_of sha K ps f \<longleftrightarrow> ns_target (fm_Path f) = ps \<and> fm_ChunkIDs f = chunk_ids sha (fm_Path f) (fm_ChunkCount f) \<and>
     (\<forall>i<nat (fm_ChunkCount f). chunk_key (fm_Path f) (int i) \<in> K)"

definition task_ok :: "(bytes \<Rightarrow> bytes) \<Rightarrow> bytes set \<Rightarrow> Server \<Rightarrow> request \<times> handler \<Rightarrow> bool" where
  "task_ok sha K s t = (case t of (r, h) \<Rightarrow> request_ok K r \<and>
     (case h of
        PutEnter req \<Rightarrow> r = RqPut req
      | PutCreate req ps \<Rightarrow> r = RqPut req \<and> map pl_ChunkID ps = chunk_ids sha (pf_Path req) (pf_ChunkCount req) \<and>
          owned sha K (sv_chunkMgr s) (pf_Path req) (pf_ChunkCount req)
      | GetEnter p \<Rightarrow> r = RqGet p
      | GetLocate f \<Rightarrow> reads r \<and> file_ok sha K (sv_chunkMgr s) (key r) f
      | GetDescribe f locs todo infos \<Rightarrow> reads r \<and> file_ok sha K (sv_chunkMgr s) (key r) f \<and>
          (\<forall>l\<in>set todo. lo_ChunkID l \<in> set (fm_ChunkIDs f))
      | DeleteEnter p \<Rightarrow> r = RqDelete p
      | DeleteForget f \<Rightarrow> \<not> reads r \<and> file_of sha K (key r) f \<and> ns_files (sv_namespace s) (key r) = None
      | InfoEnter p \<Rightarrow> r = RqInfo p
      | InfoCollect f todo infos \<Rightarrow> True
      | Answered a \<Rightarrow> True
      | Panicked \<Rightarrow> False))"

definition locked_inv :: "(bytes \<Rightarrow> bytes) \<Rightarrow> bytes set \<Rightarrow> Server \<times> (request \<times> handler) list \<Rightarrow> bool" where
  "locked_inv sha K x = (case x of (s, ts) \<Rightarrow> sv_inv sha K s \<and> (\<forall>t\<in>set ts. task_ok sha K s t) \<and>
     (\<forall>i j. i < length ts \<longrightarrow> j < length ts \<longrightarrow> i \<noteq> j \<longrightarrow>
        finished (snd (ts ! i)) \<or> finished (snd (ts ! j)) \<or> compatible (fst (ts ! i)) (fst (ts ! j))))"

text \<open>A change of the server that leaves a task what it relies on.\<close>

definition spares :: "(bytes \<Rightarrow> bytes) \<Rightarrow> bytes set \<Rightarrow> request \<Rightarrow> Server \<Rightarrow> Server \<Rightarrow> bool" where
  "spares sha K r s s' \<longleftrightarrow>
     (\<forall>p n. ns_target p = key r \<longrightarrow> owned sha K (sv_chunkMgr s) p n \<longrightarrow> owned sha K (sv_chunkMgr s') p n) \<and>
     (\<not> reads r \<longrightarrow> ns_files (sv_namespace s) (key r) = None \<longrightarrow> ns_files (sv_namespace s') (key r) = None)"

lemma task_ok_spared:
  assumes "task_ok sha K s (r, h)" "finished h \<or> spares sha K r s s'"
  shows "task_ok sha K s' (r, h)"
  using assms by (cases h) (auto simp: task_ok_def spares_def file_ok_owned finished_def key_def)

lemma spares_same:
  "ns_files (sv_namespace s') = ns_files (sv_namespace s) \<Longrightarrow> chunk_path (sv_chunkMgr s') = chunk_path (sv_chunkMgr s) \<Longrightarrow>
   spares sha K r s s'"
  by (simp add: spares_def owned_def)

lemma background_spares:
  assumes "background s s'"
  shows "spares sha K r s s' \<and> sv_step sha K s s'"
  using assms
proof cases
  case (register it now address capacity)
  then show ?thesis using sv_step.register by (simp add: server_views spares_same)
next
  case (heartbeat now hb)
  then show ?thesis using sv_step.heartbeat by (simp add: server_views spares_same)
next
  case (report metrics)
  then show ?thesis using sv_step.report by (simp add: server_views spares_same)
next
  case (predict it now)
  then show ?thesis using sv_step.predict by (simp add: server_views spares_same path_predict)
next
  case (dead_check it now)
  then show ?thesis using sv_step.dead_check by (simp add: server_views spares_same)
qed (auto intro: sv_step.intros intro!: spares_same)

subsection \<open>Steps under the locks\<close>

lemma put_enter_safe:
  assumes inj: "inj_on (\<lambda>x. take 8 (sha x)) K" and it: "perm_iter it" "sort_slice srt" and inv: "sv_inv sha K s"
    and ok: "request_ok K (RqPut req)" and st: "put_enter it srt sha now req s = (h', s')"
  shows "sv_inv sha K s' \<and> task_ok sha K s' (RqPut req, h') \<and> spares sha K q s s'"
proof -
  have cmi: "cm_inv (sv_chunkMgr s)" using inv by (simp add: sv_inv_def)
  have n: "0 \<le> pf_ChunkCount req" and K: "\<forall>i<nat (pf_ChunkCount req). chunk_key (pf_Path req) (int i) \<in> K"
    using ok by (auto simp: request_ok_def)
  obtain cm r where a: "cm_AllocateChunks it srt sha now (pf_Path req) (pf_ChunkCount req) (pf_FileSize req) (sv_chunkMgr s) = (cm, r)"
    by force
  show ?thesis
  proof (cases r)
    case (Ok ps)
    note al = allocate_paths [OF cmi it a [unfolded Ok]]
    have s': "s' = s\<lparr>sv_chunkMgr := cm\<rparr>" "h' = PutCreate req ps" using st a Ok by (auto simp: put_enter_def)
    have "owned sha K (sv_chunkMgr s) p m \<Longrightarrow> owned sha K cm p m" for p m using owned_allocate [OF inj _ K] al(3) by blast
    then have "sv_inv sha K s'" "spares sha K q s s'" using inv al(1) unfolding s' sv_inv_def file_ok_owned spares_def by auto
    moreover have "owned sha K cm (pf_Path req) (pf_ChunkCount req)" using al(3) K by (simp add: owned_def)
    ultimately show ?thesis using al(2) ok by (simp add: s' task_ok_def)
  next
    case (Err e)
    then have "s' = s" "finished h'" "h' \<noteq> Panicked" using st a allocate_failed [OF a [unfolded Err]] by (auto simp: put_enter_def finished_def)
    then show ?thesis using inv ok by (cases h') (auto simp: task_ok_def spares_def finished_def)
  next
    case Panic
    then show ?thesis using a n by (auto simp: cm_AllocateChunks_def Let_def split: if_splits prod.splits)
  qed
qed

lemma put_create_safe:
  assumes inv: "sv_inv sha K s" and t: "task_ok sha K s (r, PutCreate req ps)" and st: "put_create now req ps s = (h', s')"
  shows "sv_inv sha K s' \<and> task_ok sha K s' (r, h') \<and> (compatible q r \<longrightarrow> spares sha K q s s')"
proof -
  have r: "r = RqPut req" "request_ok K r" "map pl_ChunkID ps = chunk_ids sha (pf_Path req) (pf_ChunkCount req)"
    "owned sha K (sv_chunkMgr s) (pf_Path req) (pf_ChunkCount req)" using t by (auto simp: task_ok_def)
  have nsi: "ns_inv (sv_namespace s)" using inv by (simp add: sv_inv_def)
  have q: "key q \<noteq> ns_target (pf_Path req)" if "compatible q r" using that r(1) by (auto simp: compatible_def reads_def key_def)
  obtain ns c where c: "ns_CreateFile (sv_namespace s) (pf_Path req) (put_meta now req ps) = (ns, c)" by force
  show ?thesis
  proof (cases c)
    case (Inl e)
    then have "s' = s" "finished h'" "h' \<noteq> Panicked"
      using st c ns.create_err [OF c [unfolded Inl] nsi] by (auto simp: put_create_def finished_def)
    then show ?thesis using inv r(2) by (cases h') (auto simp: task_ok_def spares_def finished_def)
  next
    case (Inr u)
    note cr = ns.create_ok [OF c [unfolded Inr] nsi]
    have s': "s' = s\<lparr>sv_namespace := ns\<rparr>" using st c Inr by (auto simp: put_create_def)
    have "file_ok sha K (sv_chunkMgr s) (ns_target (pf_Path req)) (put_meta now req ps)"
      using r(3,4) by (simp add: file_ok_owned put_meta_def)
    then have "sv_inv sha K s'" using cr inv unfolding s' sv_inv_def by auto
    moreover have "spares sha K q s s'" if "compatible q r" using cr q [OF that] unfolding s' spares_def by auto
    moreover have "task_ok sha K s' (r, h')" using st c Inr r(2) by (auto simp: put_create_def task_ok_def)
    ultimately show ?thesis by blast
  qed
qed

lemma get_safe:
  assumes inv: "sv_inv sha K s" and t: "task_ok sha K s (r, h)"
    and h: "h = GetEnter p \<and> h' = get_enter p s \<or> h = GetLocate f \<and> h' = get_locate f s \<or>
      h = GetDescribe f locs todo infos \<and> h' = get_describe f locs todo infos s \<or>
      h = InfoEnter p \<and> h' = info_enter p s \<or> h = InfoCollect f ids cs \<and> h' = info_collect f ids cs s"
  shows "task_ok sha K s (r, h')"
proof -
  have nsi: "ns_inv (sv_namespace s)" and cmi: "cm_inv (sv_chunkMgr s)" using inv by (auto simp: sv_inv_def)
  have rq: "request_ok K r" using t by (simp add: task_ok_def)
  have stored: "r \<noteq> None \<and> (\<forall>g. r = Some g \<longrightarrow> file_ok sha K (sv_chunkMgr s) (ns_cleanPath p) g)"
    if "ns_GetFile (sv_namespace s) p = Inr r" for r
    using ns.get_iff [OF nsi] that inv by (auto simp: sv_inv_def)
  from h show ?thesis
  proof (elim disjE conjE)
    assume "h = GetEnter p" "h' = get_enter p s"
    then show ?thesis using t stored
      by (auto simp: task_ok_def get_enter_def get_failed_def reads_def key_def split: sum.splits option.splits)
  next
    assume h: "h = GetLocate f" "h' = get_locate f s"
    then have f: "reads r" "file_ok sha K (sv_chunkMgr s) (key r) f" using t by (auto simp: task_ok_def)
    have "lo_ChunkID l \<in> set (fm_ChunkIDs f)"
      if "cm_GetChunkLocations (sv_chunkMgr s) (fm_ChunkIDs f) = Inr ls" "l \<in> set ls" for ls l
    proof -
      have "Inr l \<in> set (map (locate_chunk (sv_chunkMgr s)) (fm_ChunkIDs f))" using that by (simp add: GetChunkLocations_all)
      then obtain c where c: "c \<in> set (fm_ChunkIDs f)" "locate_chunk (sv_chunkMgr s) c = Inr l" by auto
      then obtain m where m: "map_of (cm_chunks (sv_chunkMgr s)) c = Some m" by (auto simp: locate_chunk_def split: option.splits)
      show ?thesis using locate_ok(2) [OF m inv_parts(4) [OF cmi m] c(2)] c(1) by simp
    qed
    then show ?thesis using f rq h(2) by (auto simp: task_ok_def get_locate_def get_failed_def split: sum.splits)
  next
    assume h: "h = GetDescribe f locs todo infos" "h' = get_describe f locs todo infos s"
    then have f: "reads r" "file_ok sha K (sv_chunkMgr s) (key r) f" "\<forall>l\<in>set todo. lo_ChunkID l \<in> set (fm_ChunkIDs f)"
      using t by (auto simp: task_ok_def)
    have "cm_GetChunkMeta (sv_chunkMgr s) (lo_ChunkID l) \<noteq> None" if "l \<in> set todo" for l
    proof -
      have "chunk_path (sv_chunkMgr s) (lo_ChunkID l) = Some (fm_Path f)" using f(2,3) that by (simp add: file_ok_def)
      then show ?thesis by (auto simp: chunk_path_def cm_GetChunkMeta_def)
    qed
    then show ?thesis using f rq h(2) by (cases todo) (auto simp: task_ok_def get_describe_def get_answer_def split: option.splits)
  next
    assume "h = InfoEnter p" "h' = info_enter p s"
    then show ?thesis using t stored by (auto simp: task_ok_def info_enter_def split: sum.splits option.splits)
  next
    assume "h = InfoCollect f ids cs" "h' = info_collect f ids cs s"
    then show ?thesis using rq by (cases ids) (auto simp: task_ok_def info_collect_def)
  qed
qed

lemma delete_enter_safe:
  assumes inv: "sv_inv sha K s" and st: "delete_enter p s = (h', s')"
  shows "sv_inv sha K s' \<and> task_ok sha K s' (RqDelete p, h') \<and> spares sha K q s s'"
proof -
  have nsi: "ns_inv (sv_namespace s)" using inv by (simp add: sv_inv_def)
  obtain ns r where d: "ns_DeleteFile (sv_namespace s) p = (ns, r)" by force
  show ?thesis
  proof (cases r)
    case (Inl e)
    then have "ns = sv_namespace s" using ns.remove_err [OF d [unfolded Inl] nsi] by blast
    then show ?thesis using st d Inl inv by (auto simp: delete_enter_def task_ok_def request_ok_def spares_def)
  next
    case (Inr fo)
    note rm = ns.remove_ok [OF d [unfolded Inr] nsi]
    then obtain f where f: "fo = Some f" "ns_files (sv_namespace s) (ns_target p) = Some f" by auto
    have s': "s' = s\<lparr>sv_namespace := ns\<rparr>" "h' = DeleteForget f" using st d Inr f by (auto simp: delete_enter_def)
    have "file_of sha K (ns_target p) f" using f(2) inv by (auto simp: sv_inv_def file_ok_def file_of_def)
    then have "task_ok sha K s' (RqDelete p, h')" using rm by (simp add: s' task_ok_def request_ok_def reads_def key_def)
    moreover have "sv_inv sha K s'" using inv rm unfolding s' sv_inv_def by auto
    moreover have "spares sha K q s s'" using rm unfolding s' spares_def by auto
    ultimately show ?thesis by blast
  qed
qed

lemma delete_forget_safe:
  assumes inj: "inj_on (\<lambda>x. take 8 (sha x)) K" and inv: "sv_inv sha K s" and t: "task_ok sha K s (r, DeleteForget f)"
    and st: "delete_forget it f s = (h', s')"
  shows "sv_inv sha K s' \<and> task_ok sha K s' (r, h') \<and> (compatible q r \<longrightarrow> spares sha K q s s')"
proof -
  have f: "\<not> reads r" "request_ok K r" "ns_target (fm_Path f) = key r" "fm_ChunkIDs f = chunk_ids sha (fm_Path f) (fm_ChunkCount f)"
    "\<forall>i<nat (fm_ChunkCount f). chunk_key (fm_Path f) (int i) \<in> K" "ns_files (sv_namespace s) (key r) = None"
    using t by (auto simp: task_ok_def file_of_def)
  let ?cm = "fst (cm_RemoveChunks it (fm_ChunkIDs f) (sv_chunkMgr s))"
  have s': "s' = s\<lparr>sv_chunkMgr := ?cm\<rparr>" using st by (auto simp: delete_forget_def)
  have keep: "owned sha K ?cm p n" if "owned sha K (sv_chunkMgr s) p n" "ns_target p \<noteq> key r" for p n
    unfolding f(4) by (rule owned_forget [OF inj that(1) f(5)]) (use that(2) f(3) in auto)
  have "cm_inv ?cm" using inv inv_remove by (simp add: sv_inv_def)
  moreover have "file_ok sha K ?cm ps g" if "ns_files (sv_namespace s) ps = Some g" for ps g
  proof -
    have "ps \<noteq> key r" "file_ok sha K (sv_chunkMgr s) ps g" using that f(6) inv by (auto simp: sv_inv_def)
    then show ?thesis using keep by (auto simp: file_ok_owned)
  qed
  ultimately have "sv_inv sha K s'" using inv unfolding s' sv_inv_def by auto
  moreover have "spares sha K q s s'" if "compatible q r" using keep that f(1) unfolding s' spares_def by (auto simp: compatible_def)
  moreover have "task_ok sha K s' (r, h')" using st f(2) by (auto simp: delete_forget_def task_ok_def)
  ultimately show ?thesis by blast
qed

lemma h_step_safe:
  assumes "inj_on (\<lambda>x. take 8 (sha x)) K" "perm_iter it" "sort_slice srt" "sv_inv sha K s" "task_ok sha K s (r, h)"
    and "h_step it srt sha now (h, s) = (h', s')"
  shows "sv_inv sha K s' \<and> task_ok sha K s' (r, h') \<and> (\<forall>q. finished h \<or> compatible q r \<longrightarrow> spares sha K q s s') \<and>
    (finished h' \<or> \<not> finished h)"
proof -
  have same: "spares sha K q s s" for q by (simp add: spares_def)
  have rq: "request_ok K r" using assms(5) by (simp add: task_ok_def)
  show ?thesis
  proof (cases h)
    case (PutEnter req)
    then have "r = RqPut req" "put_enter it srt sha now req s = (h', s')" using assms(5,6) by (auto simp: task_ok_def)
    then show ?thesis using put_enter_safe [OF assms(1-4), of req now h' s'] rq PutEnter by (auto simp: finished_def)
  next
    case (PutCreate req ps)
    then show ?thesis using put_create_safe [OF assms(4), of r req ps now h' s'] assms(5,6) by (auto simp: finished_def)
  next
    case (DeleteEnter p)
    then have "r = RqDelete p" "delete_enter p s = (h', s')" using assms(5,6) by (auto simp: task_ok_def)
    then show ?thesis using delete_enter_safe [OF assms(4)] DeleteEnter by (auto simp: finished_def)
  next
    case (DeleteForget f)
    then show ?thesis using delete_forget_safe [OF assms(1,4), of r f it h' s'] assms(5,6) by (auto simp: finished_def)
  qed (use get_safe [OF assms(4,5)] assms(4-6) same in \<open>auto simp: finished_def\<close>)
qed

lemma start_ok: "request_ok K r \<Longrightarrow> task_ok sha K s (r, start_handler r) \<and> \<not> finished (start_handler r)"
  by (cases r) (auto simp: task_ok_def start_handler_def finished_def)

lemma arrive_inv:
  assumes inv: "locked_inv sha K (s, ts)" and ok: "request_ok K r" and free: "\<forall>(q, h)\<in>set ts. finished h \<or> compatible q r"
  shows "locked_inv sha K (s, ts @ [(r, start_handler r)])"
proof -
  have old: "sv_inv sha K s" "\<forall>t\<in>set ts. task_ok sha K s t" using inv unfolding locked_inv_def by auto
  have excl: "finished (snd (ts ! i)) \<or> finished (snd (ts ! j)) \<or> compatible (fst (ts ! i)) (fst (ts ! j))"
    if "i < length ts" "j < length ts" "i \<noteq> j" for i j using inv that unfolding locked_inv_def by auto
  have other: "finished (snd (ts ! i)) \<or> compatible (fst (ts ! i)) r" if "i < length ts" for i
    using free nth_mem [OF that] by (auto simp: case_prod_beta)
  have sym: "compatible q r \<longleftrightarrow> compatible r q" for q by (auto simp: compatible_def)
  let ?ts = "ts @ [(r, start_handler r)]"
  have "finished (snd (?ts ! i)) \<or> finished (snd (?ts ! k)) \<or> compatible (fst (?ts ! i)) (fst (?ts ! k))"
    if "i < length ?ts" "k < length ?ts" "i \<noteq> k" for i k
  proof (cases "i < length ts")
    case True
    then show ?thesis using that excl [OF True, of k] other [OF True] by (cases "k < length ts") (auto simp: nth_append)
  next
    case False
    then have "i = length ts" "k < length ts" using that by auto
    then show ?thesis using other [of k] sym [of "fst (ts ! k)"] by (auto simp: nth_append)
  qed
  moreover have "\<forall>t\<in>set ?ts. task_ok sha K s t" using old(2) start_ok [OF ok, of sha s] by simp
  ultimately show ?thesis using old(1) unfolding locked_inv_def by simp
qed

lemma advance_inv:
  assumes inj: "inj_on (\<lambda>x. take 8 (sha x)) K" and inv: "locked_inv sha K (s, ts)" and it: "perm_iter it" "sort_slice srt"
    and j: "j < length ts" and h: "ts ! j = (r, h)" and st: "h_step it srt sha now (h, s) = (h', s')"
  shows "locked_inv sha K (s', ts[j := (r, h')])"
proof -
  have old: "sv_inv sha K s" "\<forall>t\<in>set ts. task_ok sha K s t" using inv unfolding locked_inv_def by auto
  have excl: "finished (snd (ts ! i)) \<or> finished (snd (ts ! k)) \<or> compatible (fst (ts ! i)) (fst (ts ! k))"
    if "i < length ts" "k < length ts" "i \<noteq> k" for i k using inv that unfolding locked_inv_def by auto
  have "task_ok sha K s (r, h)" using old(2) nth_mem [OF j] h by simp
  note safe = h_step_safe [OF inj it old(1) this st]
  have "task_ok sha K s' (ts[j := (r, h')] ! i)" if i: "i < length ts" for i
  proof (cases "i = j")
    case False
    obtain q g where t: "ts ! i = (q, g)" by force
    then have "task_ok sha K s (q, g)" using old(2) nth_mem [OF i] by simp
    moreover have "finished g \<or> spares sha K q s s'" using excl [OF i j False] safe t h by auto
    ultimately show ?thesis using task_ok_spared False t by simp
  qed (use safe i in simp)
  then have tasks: "\<forall>t\<in>set (ts[j := (r, h')]). task_ok sha K s' t" by (metis in_set_conv_nth length_list_update)
  have same: "fst (ts[j := (r, h')] ! i) = fst (ts ! i)" "finished (snd (ts ! i)) \<Longrightarrow> finished (snd (ts[j := (r, h')] ! i))"
    if "i < length ts" for i using safe h that by (cases "i = j"; simp)+
  have "finished (snd (ts[j := (r, h')] ! i)) \<or> finished (snd (ts[j := (r, h')] ! k)) \<or>
      compatible (fst (ts[j := (r, h')] ! i)) (fst (ts[j := (r, h')] ! k))"
    if "i < length ts" "k < length ts" "i \<noteq> k" for i k
    using excl [OF that] same(2) [OF that(1)] same(2) [OF that(2)] unfolding same(1) [OF that(1)] same(1) [OF that(2)] by blast
  then show ?thesis using safe tasks unfolding locked_inv_def by simp
qed

lemma locked_inv_step:
  assumes inj: "inj_on (\<lambda>x. take 8 (sha x)) K" and st: "locked_step sha K x y" and inv: "locked_inv sha K x"
  shows "locked_inv sha K y"
  using st
proof cases
  case (arrive r ts s)
  then show ?thesis using arrive_inv inv by blast
next
  case (advance it srt j ts r h now s h' s')
  then show ?thesis using advance_inv [OF inj _ advance(3-7)] inv by simp
next
  case (background s s' ts)
  have old: "sv_inv sha K s" "\<forall>t\<in>set ts. task_ok sha K s t" using inv unfolding background(1) locked_inv_def by auto
  have "task_ok sha K s' t" if "t \<in> set ts" for t
    using task_ok_spared [of sha K s "fst t" "snd t" s'] background_spares [OF background(3)] old(2) that by simp
  moreover have "sv_inv sha K s'" using sv_inv_step [OF inj _ old(1)] background_spares [OF background(3)] by blast
  ultimately show ?thesis using inv unfolding background(1,2) locked_inv_def by auto
qed

lemma locked_inv_run:
  assumes "inj_on (\<lambda>x. take 8 (sha x)) K" "(locked_step sha K)\<^sup>*\<^sup>* (NewServer, []) x"
  shows "locked_inv sha K x"
  using assms(2)
proof (induction rule: rtranclp_induct)
  case base
  then show ?case using sv_inv_new by (simp add: locked_inv_def)
qed (use locked_inv_step [OF assms(1)] in blast)

text \<open>
  C7: with a lock per path no interleaving does harm. Let any number of requests run at once, one call of the
  namespace or the chunk manager at a time, with registrations, heartbeats, reports, checks, predictions and
  migrations in between, so that no two work on one path unless both read, and that no put announces a negative chunk
  count (on which \<open>PutFile\<close> panics by itself, \<open>Meta_Server.negative_chunk_count_panics\<close>) or has chunk IDs that
  collide with those of another path. Then no handler ever panics, and at
  every moment each file of the namespace is fully described by the chunk map, so that a \<open>GetFile\<close> of it
  succeeds exactly if every chunk has a registered node that is not dead.
\<close>

theorem path_locks_suffice:
  assumes "inj_on (\<lambda>x. take 8 (sha x)) K" "(locked_step sha K)\<^sup>*\<^sup>* (NewServer, []) (s, ts)"
  shows "(\<forall>(r, h)\<in>set ts. h \<noteq> Panicked) \<and>
    (\<forall>path f. ns_GetFile (sv_namespace s) path = Inr (Some f) \<longrightarrow>
       fm_ChunkIDs f = chunk_ids sha (fm_Path f) (fm_ChunkCount f) \<and>
       (\<forall>c\<in>set (fm_ChunkIDs f). \<exists>m. cm_GetChunkMeta (sv_chunkMgr s) c = Some m \<and> ck_FilePath m = fm_Path f) \<and>
       (\<exists>resp. sv_GetFile path s = Some resp \<and>
         (gfr_Success resp \<longleftrightarrow> (\<forall>c\<in>set (fm_ChunkIDs f). \<exists>nid\<in>set (replicas (sv_chunkMgr s) c). \<exists>n.
            map_of (cm_nodes (sv_chunkMgr s)) nid = Some n \<and> dni_Status n \<noteq> StatusDead))))"
proof -
  have inv: "sv_inv sha K s" "\<forall>t\<in>set ts. task_ok sha K s t" using locked_inv_run [OF assms] by (auto simp: locked_inv_def)
  then have nsi: "ns_inv (sv_namespace s)" and cmi: "cm_inv (sv_chunkMgr s)" by (auto simp: sv_inv_def)
  have stored: "file_ok sha K (sv_chunkMgr s) (ns_cleanPath path) f" if "ns_GetFile (sv_namespace s) path = Inr (Some f)" for path f
    using ns.get_iff [OF nsi] that inv(1) by (auto simp: sv_inv_def)
  have known: "\<exists>m. cm_GetChunkMeta (sv_chunkMgr s) c = Some m \<and> ck_FilePath m = fm_Path f"
    if "ns_GetFile (sv_namespace s) path = Inr (Some f)" "c \<in> set (fm_ChunkIDs f)" for path f c
    using stored [OF that(1)] that(2) by (auto simp: file_ok_def chunk_path_def cm_GetChunkMeta_def)
  have meta: "\<exists>m. map_of (cm_chunks (sv_chunkMgr s)) c = Some m \<and> ck_ChunkID m = c"
    if "ns_GetFile (sv_namespace s) path = Inr (Some f)" "c \<in> set (fm_ChunkIDs f)" for path f c
    using known [OF that] inv_parts(4) [OF cmi, of c] by (auto simp: cm_GetChunkMeta_def)
  have ids: "fm_ChunkIDs f = chunk_ids sha (fm_Path f) (fm_ChunkCount f)" if "ns_GetFile (sv_namespace s) path = Inr (Some f)" for path f
    using stored [OF that] by (simp add: file_ok_def)
  have "h \<noteq> Panicked" if "(r, h) \<in> set ts" for r h using inv(2) that by (force simp: task_ok_def)
  moreover note GetFile_live [OF _ meta]
  ultimately show ?thesis using ids known by (auto simp: case_prod_beta)
qed

lemma demo_locked:
  "\<exists>a. (locked_step rev demo_K)\<^sup>*\<^sup>* (NewServer, []) (demo_sv, [(RqPut demo_put, Answered a), (RqGet ''/f'', GetEnter ''/f'')])"
proof -
  let ?L = "locked_step rev demo_K"
  have reg: "?L\<^sup>*\<^sup>* x (s, []) \<Longrightarrow> ?L\<^sup>*\<^sup>* x (demo_reg a s, [])" for x s a
    unfolding demo_reg_def by (rule rtranclp.rtrancl_into_rtrancl, assumption, rule locked_step.background, rule background.register, rule perm_iter_id)
  have start: "?L\<^sup>*\<^sup>* (NewServer, []) (demo_sv0, [])" unfolding demo_sv0_def by (intro reg rtranclp.rtrancl_refl)
  obtain resp where put: "sv_PutFile (\<lambda>ks. ks) insertion_sort rev 0 demo_put demo_sv0 = (demo_sv, Some resp)" "pfr_Success resp"
    using demo_put_ok by blast
  obtain ps s1 where enter: "put_enter (\<lambda>ks. ks) insertion_sort rev 0 demo_put demo_sv0 = (PutCreate demo_put ps, s1)"
    and create: "put_create 0 demo_put ps s1 = (Answered (PutReply resp), demo_sv)"
    using put by (auto simp: sv_PutFile_def put_enter_def put_create_def put_meta_def Let_def split: prod.splits outcome.splits sum.splits)
  have ok: "request_ok demo_K (RqPut demo_put)" using demo_put_keys by (simp add: request_ok_def demo_put_def)
  have "?L (demo_sv0, []) (demo_sv0, [(RqPut demo_put, PutEnter demo_put)])"
    using locked_step.arrive [OF ok, of "[]" rev demo_sv0] by (simp add: start_handler_def)
  moreover have "?L (demo_sv0, [(RqPut demo_put, PutEnter demo_put)]) (s1, [(RqPut demo_put, PutCreate demo_put ps)])"
    using locked_step.advance [OF perm_iter_id go_sort.sort_slice_axioms, of 0 "[(RqPut demo_put, PutEnter demo_put)]" "RqPut demo_put"
      "PutEnter demo_put" rev 0 demo_sv0 "PutCreate demo_put ps" s1 demo_K] enter by simp
  moreover have "?L (s1, [(RqPut demo_put, PutCreate demo_put ps)]) (demo_sv, [(RqPut demo_put, Answered (PutReply resp))])"
    using locked_step.advance [OF perm_iter_id go_sort.sort_slice_axioms, of 0 "[(RqPut demo_put, PutCreate demo_put ps)]" "RqPut demo_put"
      "PutCreate demo_put ps" rev 0 s1 "Answered (PutReply resp)" demo_sv demo_K] create by simp
  moreover have "?L (demo_sv, [(RqPut demo_put, Answered (PutReply resp))])
      (demo_sv, [(RqPut demo_put, Answered (PutReply resp)), (RqGet ''/f'', GetEnter ''/f'')])"
    using locked_step.arrive [of demo_K "RqGet ''/f''" "[(RqPut demo_put, Answered (PutReply resp))]" rev demo_sv]
    by (simp add: start_handler_def request_ok_def finished_def)
  ultimately show ?thesis using start by (meson rtranclp.rtrancl_into_rtrancl)
qed

theorem path_locks_suffice_witness:
  "\<exists>ts resp. (locked_step rev demo_K)\<^sup>*\<^sup>* (NewServer, []) (demo_sv, ts) \<and> length ts = 2 \<and> (\<forall>(r, h)\<in>set ts. h \<noteq> Panicked) \<and>
     sv_GetFile ''/f'' demo_sv = Some resp"
proof -
  obtain a where run: "(locked_step rev demo_K)\<^sup>*\<^sup>* (NewServer, []) (demo_sv, [(RqPut demo_put, Answered a), (RqGet ''/f'', GetEnter ''/f'')])"
    using demo_locked by blast
  have "case ns_GetFile (sv_namespace demo_sv) ''/f'' of Inr (Some f) \<Rightarrow> True | _ \<Rightarrow> False" by code_simp
  then obtain f where f: "ns_GetFile (sv_namespace demo_sv) ''/f'' = Inr (Some f)" by (auto split: sum.splits option.splits)
  from path_locks_suffice [OF demo_K_inj run] f run show ?thesis by fastforce
qed

end
