(* ===== verification/Evacuation.thy ===== *)
theory Evacuation
  imports Cluster
begin

text \<open>
  The purpose of the system, from one end to the other: a node whose metrics are bad is predicted to fail
  (\<^verbatim>\<open>internal/health/predictor.go\<close>), the prediction loop of \<^verbatim>\<open>internal/metaserver/server.go\<close> starts a migration, and the
  migrator (\<^verbatim>\<open>internal/health/migrator.go\<close>) moves the chunks of the node away while it still answers.
\<close>

section \<open>Nodes that take chunks\<close>

text \<open>The nodes that \<open>GetHealthyNodeAddresses\<close> offers, whatever it is told to exclude.\<close>

definition takes_chunks :: "ChunkManager \<Rightarrow> string \<Rightarrow> bool" where
  "takes_chunks cm n \<longleftrightarrow> (\<exists>d. map_of (cm_nodes cm) n = Some d \<and> dni_Status d \<le> StatusWarning)"

lemma targets_iff:
  assumes "cm_inv cm" "perm_iter it"
  shows "t \<in> set (ad_GetHealthyNodeAddresses it cm ex) \<longleftrightarrow>
    nt_NodeID t \<notin> set ex \<and> takes_chunks cm (nt_NodeID t) \<and> addr_of cm (nt_NodeID t) = Some (nt_Address t)"
proof -
  have wf: "gm_wf (cm_nodes cm)" by (rule inv_nodes_wf [OF assms(1)])
  have all: "d \<in> set (cm_GetAllNodes it cm) \<longleftrightarrow> map_of (cm_nodes cm) (dni_NodeID d) = Some d" for d
  proof
    assume "d \<in> set (cm_GetAllNodes it cm)"
    then obtain k where "map_of (cm_nodes cm) k = Some d" using set_gm_range [OF assms(2) wf] wf by (auto simp: cm_GetAllNodes_def)
    then show "map_of (cm_nodes cm) (dni_NodeID d) = Some d" using inv_node_id [OF assms(1)] by auto
  next
    assume "map_of (cm_nodes cm) (dni_NodeID d) = Some d"
    then have "(dni_NodeID d, d) \<in> set (gm_range it (cm_nodes cm))" using set_gm_range [OF assms(2) wf] by (simp add: map_of_SomeD)
    then show "d \<in> set (cm_GetAllNodes it cm)" by (force simp: cm_GetAllNodes_def)
  qed
  have off: "t \<in> set (ad_GetHealthyNodeAddresses it cm ex) \<longleftrightarrow> (\<exists>d. map_of (cm_nodes cm) (dni_NodeID d) = Some d \<and>
      dni_NodeID d \<notin> set ex \<and> dni_Status d \<le> StatusWarning \<and> t = \<lparr>nt_NodeID = dni_NodeID d, nt_Address = dni_Address d\<rparr>)"
    by (simp add: ad_GetHealthyNodeAddresses_def exclude_set status_le_Warning image_iff Bex_def all) blast
  show ?thesis
  proof
    assume "t \<in> set (ad_GetHealthyNodeAddresses it cm ex)"
    then show "nt_NodeID t \<notin> set ex \<and> takes_chunks cm (nt_NodeID t) \<and> addr_of cm (nt_NodeID t) = Some (nt_Address t)"
      unfolding off by (auto simp: takes_chunks_def addr_of_def)
  next
    assume r: "nt_NodeID t \<notin> set ex \<and> takes_chunks cm (nt_NodeID t) \<and> addr_of cm (nt_NodeID t) = Some (nt_Address t)"
    then obtain d where d: "map_of (cm_nodes cm) (nt_NodeID t) = Some d" "dni_Status d \<le> StatusWarning" "dni_Address d = nt_Address t"
      by (auto simp: takes_chunks_def addr_of_def)
    then have "dni_NodeID d = nt_NodeID t" using inv_node_id [OF assms(1)] by simp
    then show "t \<in> set (ad_GetHealthyNodeAddresses it cm ex)" unfolding off using r d by (intro exI [of _ d]) simp
  qed
qed

lemma takes_add_remove:
  "takes_chunks (cm_AddChunkToNode c n cm) = takes_chunks cm" "takes_chunks (cm_RemoveChunkFromNode c n cm) = takes_chunks cm"
  unfolding AddChunkToNode_eq RemoveChunkFromNode_eq by (auto simp: takes_chunks_def fun_eq_iff cm_simps)

section \<open>A transfer between nodes that work\<close>

lemma net_transfer_present:
  assumes "net_inv w" "no_slash c" "net_TransferChunk env sha src c tgt w = (w', r)"
  shows "net_present w' = net_present w"
proof -
  have keep: "net_present w2 = net_present w1" if "net_inv w1" "net_StoreChunk env sha a \<lparr>sc_ChunkId = c, sc_Data = x, sc_Checksum = y\<rparr> w1 = (w2, v)"
    for w1 w2 a x y v using dn.store_inv [OF that(1) _ that(2)] assms(2) by simp
  have "net_inv (w\<lparr>w_calls := t\<rparr>)" "net_present (w\<lparr>w_calls := t\<rparr>) = net_present w" for t
    using assms(1) by (simp_all add: net_inv_def net_present_def fun_eq_iff)
  then show ?thesis using assms(3) keep
    by (fastforce simp: net_TransferChunk_def ds_TransferChunk_def Let_def
        split: option.splits rpc_fault.splits prod.splits sum.splits if_splits)
qed

lemma net_transfer_works:
  assumes "net_inv w" "net_alive env src" "net_alive env tgt" "net_present w tgt" "net_holds sha w src c = Some data" "en_fits env (length data)"
    and "net_TransferChunk env sha src c tgt w = (w', r)"
  shows "\<exists>msg. r = Inr (True, msg)"
proof -
  obtain s d where n: "map_of (w_nodes w) src = Some (s, d)" "cs_holds sha (ds_store s, d) c = Some data"
    using assms(5) by (auto simp: net_holds_def split: option.splits)
  define w1 where "w1 = w\<lparr>w_calls := w_calls w + 1\<rparr>"
  have i: "net_inv w1" using assms(1) by (simp add: w1_def net_inv_def)
  have p: "net_present w1 tgt" using assms(4) by (simp add: w1_def net_present_def)
  have g: "cs_GetChunk None sha (ds_store s, d) c = Inr (data, DataChecksum sha data)" using n(2) by (simp add: GetChunk_None)
  obtain w2 v where st: "net_StoreChunk env sha tgt \<lparr>sc_ChunkId = c, sc_Data = data, sc_Checksum = DataChecksum sha data\<rparr> w1 = (w2, v)"
    by (metis prod.exhaust)
  have "\<exists>resp. v = Inr resp \<and> scr_Success resp"
    by (rule dn.store_alive [OF i assms(3) p _ _ st]) (simp_all add: assms(6))
  then show ?thesis using assms(2,7) n(1) g st
    by (auto simp: net_TransferChunk_def ds_TransferChunk_def Let_def w1_def net_alive_def)
qed

section \<open>A node that answers loses its chunks\<close>

definition peers_work :: "env \<Rightarrow> ChunkManager \<Rightarrow> World \<Rightarrow> bool" where
  "peers_work env cm w \<longleftrightarrow>
     (\<forall>m a. takes_chunks cm m \<longrightarrow> addr_of cm m = Some a \<longrightarrow> net_alive env a \<and> net_present w a)"

definition movable :: "(bytes \<Rightarrow> bytes) \<Rightarrow> env \<Rightarrow> ChunkManager \<Rightarrow> World \<Rightarrow> string \<Rightarrow> string \<Rightarrow> bytes \<Rightarrow> bool" where
  "movable sha env cm w src c data \<longleftrightarrow> net_holds sha w src c = Some data \<and> en_fits env (length data) \<and>
     (\<exists>m. takes_chunks cm m \<and> m \<notin> set (replicas cm c))"

text \<open>Another node took the place of \<open>n\<close> among the replicas of \<open>c\<close>, and it has the data.\<close>

definition relocated ::
  "(bytes \<Rightarrow> bytes) \<Rightarrow> string \<Rightarrow> ChunkManager \<Rightarrow> ChunkManager \<Rightarrow> World \<Rightarrow> string \<Rightarrow> bytes \<Rightarrow> bool" where
  "relocated sha n cm cm' w' c data \<longleftrightarrow>
     (\<exists>t a. takes_chunks cm t \<and> t \<notin> set (replicas cm c) \<and> addr_of cm t = Some a \<and>
        replicas cm' c = remove1 n (replicas cm c) @ [t] \<and> net_holds sha w' a c = Some data)"

lemma migrateChunk_others:
  assumes "mig_ok cm w" "perm_iter it" "c \<in> holdings cm n"
    and m: "migrateChunk (ChunkManagerAdapter it) dial (net_TransferChunk env sha) clock c n src cm w = (cm', w', ev)"
  shows "takes_chunks cm' = takes_chunks cm" "net_present w' = net_present w"
    and "d \<noteq> c \<Longrightarrow> replicas cm' d = replicas cm d" "d \<noteq> c \<Longrightarrow> net_holds sha w' a d = net_holds sha w a d"
proof -
  have inv: "cm_inv cm" "cm_exact cm" "net_inv w" and ns: "no_slash c"
    using assms(1,3) by (auto simp: mig_ok_def ids_plain_def)
  show "d \<noteq> c \<Longrightarrow> replicas cm' d = replicas cm d"
    using chunk_locator.migrate_step(5) [OF adapter_contract [OF assms(2)] inv(1) _ assms(3) m] inv(2) exact_iff [OF assms(2)] by simp
  have out: "cm' = cm \<or> (\<exists>t. cm' = cm_RemoveChunkFromNode c n (cm_AddChunkToNode c t cm))"
    "w' = w \<or> (\<exists>t a. net_TransferChunk env sha src c t w = (w', a))"
    using migrate_outcome [OF m] by (auto simp: ChunkManagerAdapter_def ad_AddChunkToNode_def ad_RemoveChunkFromNode_def)
  show "takes_chunks cm' = takes_chunks cm" using out(1) by (auto simp: takes_add_remove)
  show "net_present w' = net_present w" using out(2) net_transfer_present [OF inv(3) ns] by blast
  show "d \<noteq> c \<Longrightarrow> net_holds sha w' a d = net_holds sha w a d" using out(2) net_transfer [OF inv(3) ns] by blast
qed

lemma migrateChunk_moves:
  assumes "mig_ok cm w" "perm_iter it" "c \<in> holdings cm n"
    and works: "dial src = None" "net_alive env src" "peers_work env cm w" "movable sha env cm w src c data"
    and m: "migrateChunk (ChunkManagerAdapter it) dial (net_TransferChunk env sha) clock c n src cm w = (cm', w', ev)"
  shows "me_Success ev" "relocated sha n cm cm' w' c data"
proof -
  let ?L = "ChunkManagerAdapter it"
  have inv: "cm_inv cm" "cm_exact cm" "net_inv w" and ns: "no_slash c"
    using assms(1,3) by (auto simp: mig_ok_def ids_plain_def)
  have n: "n \<in> set (replicas cm c)" using inv(2) assms(3) by (auto simp: cm_exact_def)
  then have known: "cm_known cm c" by (rule replica_known)
  then have meta: "ad_GetChunkMeta cm c = Some (replicas cm c)"
    by (auto simp: cm_known_def ad_GetChunkMeta_def cm_GetChunkMeta_def replicas_def)
  note tg = targets_iff [OF inv(1) assms(2), where ex = "replicas cm c"]
  obtain k where k: "takes_chunks cm k" "k \<notin> set (replicas cm c)" using works(4) by (auto simp: movable_def)
  then obtain b where "addr_of cm k = Some b" by (auto simp: takes_chunks_def addr_of_def)
  then have "\<lparr>nt_NodeID = k, nt_Address = b\<rparr> \<in> set (ad_GetHealthyNodeAddresses it cm (replicas cm c))" using tg k by simp
  then obtain t ts where t: "ad_GetHealthyNodeAddresses it cm (replicas cm c) = t # ts"
    by (cases "ad_GetHealthyNodeAddresses it cm (replicas cm c)") auto
  then have tt: "nt_NodeID t \<notin> set (replicas cm c)" "takes_chunks cm (nt_NodeID t)" "addr_of cm (nt_NodeID t) = Some (nt_Address t)"
    using tg [of t] by simp_all
  obtain w1 r where tr: "net_TransferChunk env sha src c (nt_Address t) w = (w1, r)" by (metis prod.exhaust)
  have "\<exists>msg. r = Inr (True, msg)"
    using net_transfer_works [OF inv(3) works(2) _ _ _ _ tr] works(3,4) tt(2,3) by (simp add: peers_work_def movable_def)
  then have ok: "me_Success ev" "w' = w1" "cm' = cl_RemoveChunkFromNode ?L c n (cl_AddChunkToNode ?L c (nt_NodeID t) cm)"
    using m meta t tr works(1)
    by (auto simp: migrateChunk_def transferChunk_def ChunkManagerAdapter_def Let_def)
  then show "me_Success ev" by simp
  have "nt_NodeID t \<noteq> n" "cm_registered cm (nt_NodeID t)" using n tt(1,2) by (auto simp: takes_chunks_def cm_registered_def)
  then have "replicas cm' c = remove1 n (replicas cm c) @ [nt_NodeID t]"
    using chunk_locator.moved_facts(3) [OF adapter_contract [OF assms(2)] inv(1) known tt(1) _ _ ok(3), of c] by simp
  moreover have "net_holds sha w' (nt_Address t) c = Some data"
    using net_transfer [OF inv(3) ns tr] \<open>\<exists>msg. r = Inr (True, msg)\<close> works(4) ok(2) by (auto simp: movable_def)
  ultimately show "relocated sha n cm cm' w' c data" using tt by (auto simp: relocated_def)
qed

lemma migrate_loop_moves:
  assumes "mig_ok cm w" "perm_iter it" "distinct cs" "set cs \<subseteq> holdings cm n" "addr_of cm n = Some src"
    and works: "dial src = None" "net_alive env src" "peers_work env cm w"
    and "migrate_loop (ChunkManagerAdapter it) dial (net_TransferChunk env sha) clock n src cs cm w rep = (cm', w', rep')"
  shows "(\<forall>c\<in>set cs. \<forall>data. movable sha env cm w src c data \<longrightarrow> relocated sha n cm cm' w' c data) \<and>
    (\<forall>d. d \<notin> set cs \<longrightarrow> replicas cm' d = replicas cm d \<and> (\<forall>a. net_holds sha w' a d = net_holds sha w a d))"
  using assms
proof (induction cs arbitrary: cm w rep)
  case (Cons c cs)
  obtain cm1 w1 ev where m: "migrateChunk (ChunkManagerAdapter it) dial (net_TransferChunk env sha) clock c n src cm w = (cm1, w1, ev)"
    by (metis prod_cases3)
  obtain rep1 where l: "migrate_loop (ChunkManagerAdapter it) dial (net_TransferChunk env sha) clock n src cs cm1 w1 rep1 = (cm', w', rep')"
    using Cons.prems(9) m by (auto simp: Let_def)
  have c: "c \<in> holdings cm n" "c \<notin> set cs" using Cons.prems(3,4) by auto
  note st = migrateChunk_good [OF Cons.prems(1,2) c(1) Cons.prems(5) m]
  note ot = migrateChunk_others [OF Cons.prems(1,2) c(1) m]
  have sub: "set cs \<subseteq> holdings cm1 n" using Cons.prems(3,4) unfolding st(4) by auto
  have d: "distinct cs" and a: "addr_of cm1 n = Some src" and p: "peers_work env cm1 w1"
    using Cons.prems(3,5,8) st(2) ot(1,2) by (simp_all add: peers_work_def)
  have IH: "(\<forall>c\<in>set cs. \<forall>data. movable sha env cm1 w1 src c data \<longrightarrow> relocated sha n cm1 cm' w' c data) \<and>
    (\<forall>d. d \<notin> set cs \<longrightarrow> replicas cm' d = replicas cm1 d \<and> (\<forall>a. net_holds sha w' a d = net_holds sha w1 a d))"
    by (rule Cons.IH [OF st(1) Cons.prems(2) d sub a Cons.prems(6,7) p l])
  have first: "relocated sha n cm cm' w' c data" if "movable sha env cm w src c data" for data
    using migrateChunk_moves(2) [OF Cons.prems(1,2) c(1) Cons.prems(6-8) that m] IH c(2) by (simp add: relocated_def)
  have rest: "relocated sha n cm cm' w' e data" if "e \<in> set cs" "movable sha env cm w src e data" for e data
  proof -
    have "e \<noteq> c" using that(1) c(2) by auto
    then have "movable sha env cm1 w1 src e data" using that(2) ot by (simp add: movable_def)
    then have "relocated sha n cm1 cm' w' e data" using IH that(1) by blast
    then show ?thesis using ot \<open>e \<noteq> c\<close> st(2) by (simp add: relocated_def)
  qed
  show ?case using first rest IH ot(3,4) by auto
qed simp

text \<open>The goroutine of the prediction loop, on a node that no other goroutine migrates.\<close>

lemma sv_migrate_moves:
  assumes "mig_ok (sv_chunkMgr s) w" "perm_iter it" "addr_of (sv_chunkMgr s) (pr_NodeID p) = Some src"
    and idle: "\<not> IsMigrating (sv_migrator s) (pr_NodeID p)"
    and works: "dial src = None" "net_alive env src" "peers_work env (sv_chunkMgr s) w"
    and m: "sv_migrate it dial (net_TransferChunk env sha) clock p s w = (s', w')"
  shows "c \<in> holdings (sv_chunkMgr s) (pr_NodeID p) \<Longrightarrow> movable sha env (sv_chunkMgr s) w src c data \<Longrightarrow>
      relocated sha (pr_NodeID p) (sv_chunkMgr s) (sv_chunkMgr s') w' c data"
    and "c \<notin> holdings (sv_chunkMgr s) (pr_NodeID p) \<Longrightarrow> replicas (sv_chunkMgr s') c = replicas (sv_chunkMgr s) c"
proof -
  let ?L = "ChunkManagerAdapter it" and ?cm = "sv_chunkMgr s" and ?n = "pr_NodeID p"
  define cs where "cs = cl_GetChunksOnNode ?L ?cm ?n"
  have cs: "distinct cs" "set cs = holdings ?cm ?n"
    using chunk_locator.on_node [OF adapter_contract [OF assms(2)]] assms(1) by (simp_all add: mig_ok_def cs_def)
  have a: "cl_GetNodeAddress ?L ?cm ?n = Some src" using assms(3) by (simp add: ChunkManagerAdapter_def ad_addr)
  have "sv_chunkMgr s' = ?cm \<and> w' = w \<and> cs = [] \<or>
    (\<exists>rep rep'. migrate_loop ?L dial (net_TransferChunk env sha) clock ?n src cs ?cm w rep = (sv_chunkMgr s', w', rep'))"
    using m idle a by (fastforce simp: sv_migrate_def MigrateNode_def mig_begin_def IsMigrating_def mig_body_def Let_def cs_def [symmetric]
        split: prod.splits if_splits)
  then have all: "(\<forall>c\<in>holdings ?cm ?n. \<forall>data. movable sha env ?cm w src c data \<longrightarrow> relocated sha ?n ?cm (sv_chunkMgr s') w' c data) \<and>
    (\<forall>d. d \<notin> holdings ?cm ?n \<longrightarrow> replicas (sv_chunkMgr s') d = replicas ?cm d)"
  proof (elim disjE exE conjE)
    assume "sv_chunkMgr s' = ?cm" "cs = []"
    then show ?thesis using cs(2) by simp
  next
    fix rep rep'
    assume "migrate_loop ?L dial (net_TransferChunk env sha) clock ?n src cs ?cm w rep = (sv_chunkMgr s', w', rep')"
    from migrate_loop_moves [where dial = dial, OF assms(1,2) cs(1) _ assms(3) works this] show ?thesis using cs(2) by simp
  qed
  show "c \<in> holdings ?cm ?n \<Longrightarrow> movable sha env ?cm w src c data \<Longrightarrow> relocated sha ?n ?cm (sv_chunkMgr s') w' c data"
    and "c \<notin> holdings ?cm ?n \<Longrightarrow> replicas (sv_chunkMgr s') c = replicas ?cm c" using all by blast+
qed

section \<open>The round that finds the node\<close>

lemma predict_addr:
  "addr_of (fold (\<lambda>r. cm_UpdateNodeHealth (pr_NodeID r) (pr_Status r) (pr_OverallRisk r)) rs cm) = addr_of cm"
proof (induction rs arbitrary: cm)
  case (Cons r rs)
  have "addr_of (cm_UpdateNodeHealth n st x cm) = addr_of cm" for n st x
    by (auto simp: cm_UpdateNodeHealth_def addr_of_def fun_eq_iff cm_simps split: option.splits)
  then show ?case using Cons by simp
qed simp

lemma tick_keeps:
  assumes "predictionLoop_tick it now s = (s', started)"
  shows "sv_namespace s' = sv_namespace s" "sv_migrator s' = sv_migrator s"
    "replicas (sv_chunkMgr s') = replicas (sv_chunkMgr s)" "addr_of (sv_chunkMgr s') = addr_of (sv_chunkMgr s)"
  using assms quiet_replicas [OF quiet_predict] predict_addr by (auto simp: predictionLoop_tick_def Let_def)

lemma predict_fold_other:
  "\<forall>q\<in>set rs. pr_NodeID q \<noteq> n \<Longrightarrow>
    map_of (cm_nodes (fold (\<lambda>r. cm_UpdateNodeHealth (pr_NodeID r) (pr_Status r) (pr_OverallRisk r)) rs cm)) n = map_of (cm_nodes cm) n"
  by (induction rs arbitrary: cm) (auto simp: cm_UpdateNodeHealth_def cm_simps split: option.split)

text \<open>A node with all metrics over their thresholds: a migration is started and the node gets no chunk any more.\<close>

lemma tick_finds:
  assumes "mon_GetNodeMetrics (sv_monitor s) n = Some nm"
    and "\<forall>mt\<in>set AllMetricTypes. \<exists>win. nm_GetWindow nm mt ''short'' = Some win \<and> 2 \<le> sw_Len win \<and>
      lookup0 MetricThreshold mt \<le> sw_Latest win"
    and "perm_iter it" "predictionLoop_tick it now s = (s', started)"
  shows "\<exists>p\<in>set started. pr_NodeID p = n \<and> pr_Status p = StatusCritical" "\<not> takes_chunks (sv_chunkMgr s') n"
proof -
  let ?rs = "PredictAll it now (sv_monitor s)"
  obtain p where p: "PredictNode now (sv_monitor s) n = Some p" "pr_Status p = StatusCritical"
    using over_threshold_critical [OF assms(1,2)] by blast
  then have r: "pr_NodeID p = n" "p \<in> set ?rs" using PredictAll_complete [OF assms(3,1), of now] by auto
  then show "\<exists>p\<in>set started. pr_NodeID p = n \<and> pr_Status p = StatusCritical"
    using assms(4) p(2) by (auto simp: predictionLoop_tick_def Let_def)
  have uniq: "\<forall>q\<in>set ?rs. pr_NodeID q = n \<longrightarrow> q = p" using PredictAll_sound [of it now "sv_monitor s"] p(1) by auto
  show "\<not> takes_chunks (sv_chunkMgr s') n"
  proof (cases "map_of (cm_nodes (sv_chunkMgr s)) n")
    case None
    then have "addr_of (sv_chunkMgr s') n = None" using tick_keeps(4) [OF assms(4)] by (simp add: addr_of_def)
    then show ?thesis by (auto simp: addr_of_def takes_chunks_def)
  next
    case (Some d)
    then have "map_of (cm_nodes (sv_chunkMgr s')) n = Some (d\<lparr>dni_Status := pr_Status p, dni_RiskScore := pr_OverallRisk p\<rparr>)"
      using predict_fold_node [OF uniq r(2,1)] assms(4) by (auto simp: predictionLoop_tick_def Let_def)
    then show ?thesis using p(2) by (simp add: takes_chunks_def less_eq_NodeStatus_def)
  qed
qed

lemma relocated_away:
  assumes "cm_inv cm" "n \<in> set (replicas cm c)" "relocated sha n cm cm' w' c data"
  shows "n \<notin> set (replicas cm' c)"
  using assms replicas_distinct [OF assms(1), of c] by (auto simp: relocated_def set_remove1_eq)

text \<open>Both together, for one chunk of a file.\<close>

lemma tick_migrate_away:
  assumes "mig_ok (sv_chunkMgr s) w" "predictionLoop_tick it now s = (s1, started)" "mig_ok (sv_chunkMgr s1) w"
    and node: "addr_of (sv_chunkMgr s) (pr_NodeID p) = Some src" "dial src = None" "net_alive env src"
      "\<not> IsMigrating (sv_migrator s) (pr_NodeID p)" "peers_work env (sv_chunkMgr s1) w"
    and c: "chunk_good sha (sv_chunkMgr s) w c i r data" "en_fits env (length data)"
      "pr_NodeID p \<in> set (replicas (sv_chunkMgr s) c) \<Longrightarrow>
        \<exists>m. takes_chunks (sv_chunkMgr s1) m \<and> m \<notin> set (replicas (sv_chunkMgr s) c)"
    and m: "perm_iter it2" "sv_migrate it2 dial (net_TransferChunk env sha) clock p s1 w = (s2, w2)"
  shows "pr_NodeID p \<notin> set (replicas (sv_chunkMgr s2) c)"
proof -
  let ?n = "pr_NodeID p"
  note k = tick_keeps [OF assms(2)]
  have i1: "cm_inv (sv_chunkMgr s1)" "cm_exact (sv_chunkMgr s1)" using assms(3) by (simp_all add: mig_ok_def)
  have a1: "addr_of (sv_chunkMgr s1) ?n = Some src" "\<not> IsMigrating (sv_migrator s1) ?n" using node(1,4) k by simp_all
  note mv = sv_migrate_moves [OF assms(3) m(1) a1 node(2,3,5) m(2)]
  show ?thesis
  proof (cases "?n \<in> set (replicas (sv_chunkMgr s) c)")
    case True
    then have "movable sha env (sv_chunkMgr s1) w src c data" using c node(1) by (auto simp: movable_def chunk_good_def k(3))
    moreover have "c \<in> holdings (sv_chunkMgr s1) ?n" using replica_registered(2) [OF i1(1)] True k(3) by simp
    ultimately show ?thesis using relocated_away [OF i1(1) _ mv(1)] True k(3) by simp
  next
    case False
    then have "c \<notin> holdings (sv_chunkMgr s1) ?n" using i1(2) k(3) by (auto simp: cm_exact_def)
    then show ?thesis using mv(2) False k(3) by simp
  qed
qed

end
