(* ===== verification/Migration_Hazards.thy ===== *)
theory Migration_Hazards
  imports Evacuation Migrate_Steps
begin

text \<open>
  What a migration can do to the replicas of a chunk (\<^verbatim>\<open>internal/health/migrator.go\<close> on the chunk manager of
  \<^verbatim>\<open>internal/metaserver/chunk_manager.go\<close> and the data nodes), where the code takes no precaution: two migrations of one chunk at
  once, step by step, and the migration of a node whose list still names a chunk that was allocated anew.
\<close>

section \<open>Two migrations of one chunk\<close>

text \<open>Two goroutines in \<open>MigrateNode\<close>; each visits the map of nodes in an order of its own.\<close>

definition race_step ::
  "ChunkManager ChunkLocator \<Rightarrow> ChunkManager ChunkLocator \<Rightarrow> (string \<Rightarrow> string option) \<Rightarrow> World transfer_rpc \<Rightarrow> (World \<Rightarrow> time) \<Rightarrow> bool \<Rightarrow>
   mig_task \<times> mig_task \<times> Migrator \<times> ChunkManager \<times> World \<Rightarrow> mig_task \<times> mig_task \<times> Migrator \<times> ChunkManager \<times> World" where
  "race_step La Lb dial rpc clock first x =
     (case x of (ta, tb, m, cm, w) \<Rightarrow>
        if first then (case mig_step La dial rpc clock (ta, m, cm, w) of (ta', m', cm', w') \<Rightarrow> (ta', tb, m', cm', w'))
        else (case mig_step Lb dial rpc clock (tb, m, cm, w) of (tb', m', cm', w') \<Rightarrow> (ta, tb', m', cm', w')))"

lemma race_step_simps [simp]:
  "race_step La Lb dial rpc clock True (ta, tb, m, cm, w) =
     (case mig_step La dial rpc clock (ta, m, cm, w) of (ta', m', cm', w') \<Rightarrow> (ta', tb, m', cm', w'))"
  "race_step La Lb dial rpc clock False (ta, tb, m, cm, w) =
     (case mig_step Lb dial rpc clock (tb, m, cm, w) of (tb', m', cm', w') \<Rightarrow> (ta, tb', m', cm', w'))"
  by (simp_all add: race_step_def split: prod.split)

text \<open>A task that has read the replicas \<open>old\<close> of \<open>c\<close> and made \<open>i\<close> more steps of \<open>migrateChunk\<close>, towards \<open>tg\<close>.\<close>

definition moving :: "string \<Rightarrow> string \<Rightarrow> string \<Rightarrow> string list \<Rightarrow> NodeTarget \<Rightarrow> nat \<Rightarrow> mig_task \<Rightarrow> bool" where
  "moving n src c old tg i t \<longleftrightarrow> mt_Node t = n \<and> mt_Source t = src \<and>
     (if i < 4
      then mt_Chunks t \<noteq> [] \<and> hd (mt_Chunks t) = c \<and> mt_Pc t = [Picking old, Sending tg, Adding tg, Removing tg] ! i \<and>
        (0 < i \<longrightarrow> me_ToNodeID (mt_Event t) = nt_NodeID tg)
      else mt_Pc t = Checking \<and> rp_Events (mt_Report t) \<noteq> [] \<and> me_Success (last (rp_Events (mt_Report t))) \<and>
        me_ToNodeID (last (rp_Events (mt_Report t))) = nt_NodeID tg)"

text \<open>What the steps keep: where the nodes are and what they take, and that both sources serve the chunk.\<close>

definition race_ok ::
  "(bytes \<Rightarrow> bytes) \<Rightarrow> string \<Rightarrow> bytes \<Rightarrow> string set \<Rightarrow> NodeTarget \<Rightarrow> ChunkManager \<Rightarrow> ChunkManager \<Rightarrow> World \<Rightarrow> bool" where
  "race_ok sha c data srcs tg cm0 cm w \<longleftrightarrow> cm_inv cm \<and> cm_known cm c \<and> takes_chunks cm = takes_chunks cm0 \<and> addr_of cm = addr_of cm0 \<and>
     net_inv w \<and> net_present w (nt_Address tg) \<and> (\<forall>x\<in>srcs. net_holds sha w x c = Some data)"

lemmas add_remove_keep = takes_add_remove addr_add_remove known_add_remove

text \<open>If one node only can take the chunk, every map order offers this one.\<close>

lemma only_target:
  assumes "cm_inv cm" "perm_iter it" "{k. takes_chunks cm k \<and> k \<notin> set old} = {nt_NodeID tg}" "addr_of cm (nt_NodeID tg) = Some (nt_Address tg)"
  shows "\<exists>ts. ad_GetHealthyNodeAddresses it cm old = tg # ts"
proof -
  note off = targets_iff [OF assms(1,2), where ex = old]
  have "x = tg" if x: "x \<in> set (ad_GetHealthyNodeAddresses it cm old)" for x
  proof -
    have "nt_NodeID x \<in> {nt_NodeID tg}" unfolding assms(3) [symmetric] using x off by blast
    then show ?thesis using x off [of x] assms(4) by (cases x; cases tg) simp
  qed
  then have one: "set (ad_GetHealthyNodeAddresses it cm old) \<subseteq> {tg}" by blast
  moreover have "tg \<in> set (ad_GetHealthyNodeAddresses it cm old)" using off [of tg] assms(3,4) by blast
  ultimately show ?thesis using one by (cases "ad_GetHealthyNodeAddresses it cm old") simp_all
qed

text \<open>One step of one of the two tasks.\<close>

lemma race_move:
  assumes t: "moving n src c old tg i t" "i < 4" and ok: "race_ok sha c data srcs tg cm0 cm w" "src \<in> srcs" and it: "perm_iter it"
    and tg: "{k. takes_chunks cm0 k \<and> k \<notin> set old} = {nt_NodeID tg}" "addr_of cm0 (nt_NodeID tg) = Some (nt_Address tg)"
    and works: "no_slash c" "dial src = None" "net_alive env src" "net_alive env (nt_Address tg)" "en_fits env (length data)"
    and st: "mig_step (ChunkManagerAdapter it) dial (net_TransferChunk env sha) clock (t, m, cm, w) = (t', m', cm', w')"
  shows "moving n src c old tg (Suc i) t' \<and> race_ok sha c data srcs tg cm0 cm' w' \<and>
    set (replicas cm' c) = (if i = 2 then insert (nt_NodeID tg) (set (replicas cm c))
      else if i = 3 then set (replicas cm c) - {n} else set (replicas cm c)) \<and>
    (i = 1 \<or> net_holds sha w (nt_Address tg) c = Some data \<longrightarrow> net_holds sha w' (nt_Address tg) c = Some data)"
proof -
  have inv: "cm_inv cm" "cm_known cm c" "net_inv w" and views: "takes_chunks cm = takes_chunks cm0" "addr_of cm = addr_of cm0"
    using ok(1) by (simp_all add: race_ok_def)
  have ci: "i = 0 \<or> i = 1 \<or> i = 2 \<or> i = 3" using t(2) by linarith
  have hd: "mt_Chunks t \<noteq> []" "hd (mt_Chunks t) = c" "mt_Source t = src" "mt_Node t = n" using t by (simp_all add: moving_def)
  show ?thesis
    using ci
  proof (elim disjE)
    assume i: "i = 0"
    obtain ts where "ad_GetHealthyNodeAddresses it cm old = tg # ts"
      using only_target [OF inv(1) it, of old tg] tg views by auto
    then show ?thesis using t ok(1) st by (auto simp: i moving_def mig_step_def ChunkManagerAdapter_def mt_Node_def)
  next
    assume i: "i = 1"
    obtain w1 r where tr: "net_TransferChunk env sha src c (nt_Address tg) w = (w1, r)" by force
    have h: "net_holds sha w src c = Some data" "net_present w (nt_Address tg)" using ok by (simp_all add: race_ok_def)
    obtain msg where r: "r = Inr (True, msg)" using net_transfer_works [OF inv(3) works(3,4) h(2,1) works(5) tr] by blast
    note nt = net_transfer [OF inv(3) works(1) tr]
    have there: "net_holds sha w1 (nt_Address tg) c = Some data" using nt r h(1) by auto
    then have "net_holds sha w1 x c = Some data" if "net_holds sha w x c = Some data" for x
      using nt that by (cases "x = nt_Address tg") auto
    moreover have "cm' = cm" "w' = w1" "t' = t\<lparr>mt_Pc := Adding tg\<rparr>"
      using t st tr r works(2) by (auto simp: i moving_def mig_step_def transferChunk_def)
    ultimately show ?thesis
      using t ok(1) nt there net_transfer_present [OF inv(3) works(1) tr] by (simp add: i moving_def race_ok_def mt_Node_def)
  next
    assume i: "i = 2"
    have eq: "cm' = cm_AddChunkToNode c (nt_NodeID tg) cm" "w' = w" "t' = t\<lparr>mt_Pc := Removing tg\<rparr>"
      using t st by (auto simp: i moving_def mig_step_def ChunkManagerAdapter_def ad_AddChunkToNode_def)
    have "addr_of cm (nt_NodeID tg) \<noteq> None" using tg(2) views(2) by simp
    then have "map_of (cm_nodes cm) (nt_NodeID tg) \<noteq> None" by (simp add: addr_of_def)
    then have "cm_inv cm'" unfolding eq by (rule inv_AddChunkToNode [OF inv(1)])
    moreover have "set (replicas cm' c) = insert (nt_NodeID tg) (set (replicas cm c))"
      using inv(2) by (auto simp: eq add_replicas cm_known_def)
    ultimately show ?thesis using t ok(1) by (simp add: i eq moving_def race_ok_def add_remove_keep mt_Node_def)
  next
    assume i: "i = 3"
    let ?ev = "(mt_Event t)\<lparr>me_Success := True, me_Duration := clock w - me_StartedAt (mt_Event t)\<rparr>"
    have eq: "cm' = cm_RemoveChunkFromNode c n cm" "w' = w" "t' = log_event ?ev t"
      using t st by (auto simp: i moving_def mig_step_def ChunkManagerAdapter_def ad_RemoveChunkFromNode_def)
    have "set (replicas cm' c) = set (replicas cm c) - {n}"
      using replicas_distinct [OF inv(1), of c] by (simp add: eq remove_replicas set_remove1_eq)
    then show ?thesis using t ok(1) inv_RemoveChunkFromNode [OF inv(1)]
      by (simp add: i eq moving_def race_ok_def add_remove_keep log_event_def Let_def mt_Node_def)
  qed
qed

text \<open>The replicas after \<open>i\<close> and \<open>j\<close> steps of the two tasks.\<close>

definition raced :: "string set \<Rightarrow> string \<Rightarrow> string \<Rightarrow> string \<Rightarrow> nat \<Rightarrow> nat \<Rightarrow> string set" where
  "raced R a b k i j = (R - (if 4 \<le> i then {a} else {}) - (if 4 \<le> j then {b} else {})) \<union> (if 3 \<le> i \<or> 3 \<le> j then {k} else {})"

lemma raced_sym: "raced R a b k i j = raced R b a k j i"
  by (auto simp: raced_def)

lemma raced_Suc:
  "k \<noteq> a \<Longrightarrow> i < 4 \<Longrightarrow> (if i = 2 then insert k (raced R a b k i j) else if i = 3 then raced R a b k i j - {a} else raced R a b k i j) =
     raced R a b k (Suc i) j"
  by (auto simp: raced_def)

lemma race_run:
  assumes it: "perm_iter ita" "perm_iter itb" and srcs: "sa \<in> srcs" "sb \<in> srcs"
    and tg: "{k. takes_chunks cm0 k \<and> k \<notin> set old} = {nt_NodeID tg}" "addr_of cm0 (nt_NodeID tg) = Some (nt_Address tg)"
    and ab: "nt_NodeID tg \<noteq> a" "nt_NodeID tg \<noteq> b"
    and works: "no_slash c" "\<forall>x\<in>srcs. dial x = None \<and> net_alive env x" "net_alive env (nt_Address tg)" "en_fits env (length data)"
    and "moving a sa c old tg i ta" "moving b sb c old tg j tb" "i \<le> 4" "j \<le> 4" "race_ok sha c data srcs tg cm0 cm w"
      "set (replicas cm c) = raced (set old) a b (nt_NodeID tg) i j"
      "2 \<le> i \<or> 2 \<le> j \<longrightarrow> net_holds sha w (nt_Address tg) c = Some data"
      "count_list sched True = 4 - i" "count_list sched False = 4 - j"
      "fold (race_step (ChunkManagerAdapter ita) (ChunkManagerAdapter itb) dial (net_TransferChunk env sha) clock) sched (ta, tb, m, cm, w) =
         (ta', tb', m', cm', w')"
  shows "moving a sa c old tg 4 ta' \<and> moving b sb c old tg 4 tb' \<and> race_ok sha c data srcs tg cm0 cm' w' \<and>
    set (replicas cm' c) = raced (set old) a b (nt_NodeID tg) 4 4 \<and> net_holds sha w' (nt_Address tg) c = Some data"
  using assms(13-)
proof (induction sched arbitrary: i j ta tb m cm w)
  case Nil
  then show ?case by simp
next
  case (Cons x sched)
  let ?step = "race_step (ChunkManagerAdapter ita) (ChunkManagerAdapter itb) dial (net_TransferChunk env sha) clock"
  show ?case
  proof (cases x)
    case True
    then have i: "i < 4" "count_list sched True = 4 - Suc i" "count_list sched False = 4 - j" using Cons.prems(8,9) by auto
    obtain t1 m1 cm1 w1 where st: "mig_step (ChunkManagerAdapter ita) dial (net_TransferChunk env sha) clock (ta, m, cm, w) = (t1, m1, cm1, w1)"
      by (metis prod_cases4)
    have run: "fold ?step sched (t1, tb, m1, cm1, w1) = (ta', tb', m', cm', w')"
      using Cons.prems(10) True st by simp
    have "dial sa = None" "net_alive env sa" using works(2) srcs(1) by simp_all
    note mv = race_move [OF Cons.prems(1) i(1) Cons.prems(5) srcs(1) it(1) tg works(1) this works(3,4) st]
    have "set (replicas cm1 c) = raced (set old) a b (nt_NodeID tg) (Suc i) j"
      using mv raced_Suc [OF ab(1) i(1), of "set old" b j] unfolding Cons.prems(6) by simp
    moreover have "2 \<le> Suc i \<or> 2 \<le> j \<longrightarrow> net_holds sha w1 (nt_Address tg) c = Some data" using mv Cons.prems(7) by auto
    ultimately show ?thesis using Cons.IH [OF _ Cons.prems(2) _ Cons.prems(4) _ _ _ i(2,3) run] mv i(1) by simp
  next
    case False
    then have j: "j < 4" "count_list sched False = 4 - Suc j" "count_list sched True = 4 - i" using Cons.prems(8,9) by auto
    obtain t1 m1 cm1 w1 where st: "mig_step (ChunkManagerAdapter itb) dial (net_TransferChunk env sha) clock (tb, m, cm, w) = (t1, m1, cm1, w1)"
      by (metis prod_cases4)
    have run: "fold ?step sched (ta, t1, m1, cm1, w1) = (ta', tb', m', cm', w')"
      using Cons.prems(10) False st by simp
    have "dial sb = None" "net_alive env sb" using works(2) srcs(2) by simp_all
    note mv = race_move [OF Cons.prems(2) j(1) Cons.prems(5) srcs(2) it(2) tg works(1) this works(3,4) st]
    have "set (replicas cm1 c) = raced (set old) a b (nt_NodeID tg) i (Suc j)"
      using mv raced_Suc [OF ab(2) j(1), of "set old" a i] raced_sym unfolding Cons.prems(6) by (metis (no_types, lifting))
    moreover have "2 \<le> i \<or> 2 \<le> Suc j \<longrightarrow> net_holds sha w1 (nt_Address tg) c = Some data" using mv Cons.prems(7) by auto
    ultimately show ?thesis using Cons.IH [OF Cons.prems(1) _ Cons.prems(3) _ _ _ _ j(3,2) run] mv j(1) by simp
  qed
qed

text \<open>
  C33: two migrations of one chunk at once lose a replica. Two nodes \<open>a\<close> and \<open>b\<close> that hold a chunk are migrated
  by two goroutines, one step of \<open>migrateChunk\<close> at a time, and both read the chunk's replicas and pick their targets before
  either changes the metadata; no lock is held in between. If only one node can take the chunk, as with three replicas
  in a cluster of four, both pick this one, whatever the orders in which they visit the map of nodes. Then under every schedule of the
  remaining steps (two transfers and four updates of the metadata) both migrations report success, and the chunk has one
  replica less than before, although all of the nodes involved work.
\<close>

theorem concurrent_migrations_lose_replica:
  assumes "cm_inv cm" "perm_iter ita" "perm_iter itb" "net_inv w" "no_slash c"
    and "a \<in> set (replicas cm c)" "b \<in> set (replicas cm c)" "a \<noteq> b"
    and only: "{k. takes_chunks cm k \<and> k \<notin> set (replicas cm c)} = {k}" "addr_of cm k = Some adr" "net_alive env adr" "net_present w adr"
    and ta: "mt_Pc ta = Checking" "mt_Node ta = a" "mt_Chunks ta = c # csa"
    and tb: "mt_Pc tb = Checking" "mt_Node tb = b" "mt_Chunks tb = c # csb"
    and works: "\<forall>x\<in>{mt_Source ta, mt_Source tb}. dial x = None \<and> net_alive env x \<and> net_holds sha w x c = Some data"
      "en_fits env (length data)"
    and sched: "count_list sched True = 3" "count_list sched False = 3"
    and run: "fold (race_step (ChunkManagerAdapter ita) (ChunkManagerAdapter itb) dial (net_TransferChunk env sha) clock)
      ([True, False, True, False] @ sched) (ta, tb, m, cm, w) = (ta', tb', m', cm', w')"
  shows "cm_inv cm' \<and> set (replicas cm' c) = insert k (set (replicas cm c) - {a, b}) \<and>
    length (replicas cm' c) + 1 = length (replicas cm c) \<and> net_holds sha w' adr c = Some data \<and>
    (\<forall>t\<in>{ta', tb'}. me_Success (last (rp_Events (mt_Report t))) \<and> me_ToNodeID (last (rp_Events (mt_Report t))) = k)"
proof -
  let ?old = "replicas cm c" and ?tg = "\<lparr>nt_NodeID = k, nt_Address = adr\<rparr>"
  let ?srcs = "{mt_Source ta, mt_Source tb}"
  have known: "cm_known cm c" using assms(6) by (rule replica_known)
  then have meta: "cl_GetChunkMeta (ChunkManagerAdapter it) cm c = Some ?old" for it
    by (auto simp: ChunkManagerAdapter_def cm_known_def ad_GetChunkMeta_def cm_GetChunkMeta_def replicas_def)
  let ?ev = "\<lambda>t. no_event\<lparr>me_ChunkID := c, me_FromNodeID := mt_Node t, me_StartedAt := clock w\<rparr>"
  have run': "fold (race_step (ChunkManagerAdapter ita) (ChunkManagerAdapter itb) dial (net_TransferChunk env sha) clock) ([True, False] @ sched)
      (ta\<lparr>mt_Event := ?ev ta, mt_Pc := Picking ?old\<rparr>, tb\<lparr>mt_Event := ?ev tb, mt_Pc := Picking ?old\<rparr>, m, cm, w) = (ta', tb', m', cm', w')"
    using run ta tb meta by (simp add: mig_step_def Let_def)
  have mv: "moving a (mt_Source ta) c ?old ?tg 0 (ta\<lparr>mt_Event := ?ev ta, mt_Pc := Picking ?old\<rparr>)"
    "moving b (mt_Source tb) c ?old ?tg 0 (tb\<lparr>mt_Event := ?ev tb, mt_Pc := Picking ?old\<rparr>)"
    using ta tb by (simp_all add: moving_def mt_Node_def)
  have k: "k \<notin> set ?old" using only(1) by blast
  then have ne: "nt_NodeID ?tg \<noteq> a" "nt_NodeID ?tg \<noteq> b" using assms(6,7) by auto
  have ok: "race_ok sha c data ?srcs ?tg cm cm w" using assms(1,4) known only(4) works(1) by (simp add: race_ok_def)
  have "set ?old = raced (set ?old) a b (nt_NodeID ?tg) 0 0" by (simp add: raced_def)
  then have R: "moving a (mt_Source ta) c ?old ?tg 4 ta' \<and> moving b (mt_Source tb) c ?old ?tg 4 tb' \<and> race_ok sha c data ?srcs ?tg cm cm' w' \<and>
      set (replicas cm' c) = raced (set ?old) a b (nt_NodeID ?tg) 4 4 \<and> net_holds sha w' (nt_Address ?tg) c = Some data"
    by (intro race_run [OF assms(2,3) _ _ _ _ ne assms(5) _ _ works(2) mv _ _ ok _ _ _ _ run']) (use only works(1) sched in simp_all)
  have set': "set (replicas cm' c) = insert k (set ?old - {a, b})" using R by (auto simp: raced_def)
  have "card (set ?old - {a, b}) + 2 = card (set ?old)"
    using card_Diff_subset [of "{a, b}" "set ?old"] assms(6-8) card_mono [of "set ?old" "{a, b}"] by auto
  then have "card (set (replicas cm' c)) + 1 = card (set ?old)" unfolding set' using k by simp
  moreover have "cm_inv cm'" using R by (simp add: race_ok_def)
  ultimately show ?thesis
    using R set' distinct_card [OF replicas_distinct [OF assms(1), of c]] distinct_card [OF replicas_distinct [of cm' c]]
    by (simp add: moving_def)
qed

text \<open>
  Of four nodes, the first three with a chunk, the first two are migrated at once, and three replicas become two.
\<close>

definition demo_task :: "string \<Rightarrow> string \<Rightarrow> string \<Rightarrow> mig_task" where
  "demo_task n src c = (new_task (Locator_Adapter.demo_prediction\<lparr>pr_NodeID := n\<rparr>))\<lparr>mt_Pc := Checking, mt_Chunks := [c], mt_Source := src\<rparr>"

definition demo_store :: "string \<Rightarrow> bytes \<Rightarrow> World \<Rightarrow> World" where
  "demo_store a data w = fst (net_StoreChunk good_env pad_sha a \<lparr>sc_ChunkId = hd demo_ids_of, sc_Data = data, sc_Checksum = ''''\<rparr> w)"

definition demo_five :: World where
  "demo_five = \<lparr>w_nodes = map (\<lambda>a. (a, demo_data_node a)) [''a:1'', ''b:1'', ''c:1'', ''d:1'', ''e:1''], w_calls = 0\<rparr>"

lemma demo_store_inv: "net_inv w \<Longrightarrow> net_inv (demo_store a data w)"
proof -
  assume w: "net_inv w"
  have "no_slash (hd demo_ids_of)" by code_simp
  moreover obtain w' r where st: "net_StoreChunk good_env pad_sha a \<lparr>sc_ChunkId = hd demo_ids_of, sc_Data = data, sc_Checksum = ''''\<rparr> w = (w', r)"
    by force
  ultimately show ?thesis using dn.store_inv [OF w _ st] by (simp add: demo_store_def)
qed

lemma demo_five_inv: "net_inv demo_five"
  by (auto simp: demo_five_def net_inv_def demo_data_node_def cs_inv_new split: if_splits)

lemma status_view:
  "map_option (\<lambda>n. (dni_Status n, dni_Address n)) (map_of (cm_nodes cm) k) =
     map_of (map (\<lambda>(k, n). (k, dni_Status n, dni_Address n)) (cm_nodes cm)) k"
  by (induction "cm_nodes cm") (auto simp: map_of_map)

theorem concurrent_migrations_lose_replica_witness:
  "let c = hd demo_ids_of; w = demo_store ''b:1'' ''abc'' (demo_store ''a:1'' ''abc'' demo_five); L = ChunkManagerAdapter (\<lambda>ks. ks)
   in \<exists>ta tb m cm w'. fold (race_step L L (\<lambda>_. None) (net_TransferChunk good_env pad_sha) (\<lambda>_. 0))
        [True, False, True, False, True, True, False, True, False, False]
        (demo_task ''node-1'' ''a:1'' c, demo_task ''node-2'' ''b:1'' c, NewMigrator, demo_four, w) = (ta, tb, m, cm, w') \<and>
      length (replicas demo_four c) = 3 \<and> set (replicas cm c) = {''node-3'', ''node-4''} \<and> length (replicas cm c) = 2"
proof -
  let ?c = "hd demo_ids_of" and ?w = "demo_store ''b:1'' ''abc'' (demo_store ''a:1'' ''abc'' demo_five)"
  let ?run = "fold (race_step (ChunkManagerAdapter (\<lambda>ks. ks)) (ChunkManagerAdapter (\<lambda>ks. ks)) (\<lambda>_. None) (net_TransferChunk good_env pad_sha) (\<lambda>_. 0))
      ([True, False, True, False] @ [True, True, False, True, False, False])
      (demo_task ''node-1'' ''a:1'' ?c, demo_task ''node-2'' ''b:1'' ?c, NewMigrator, demo_four, ?w)"
  obtain ta tb m cm w' where run: "?run = (ta, tb, m, cm, w')" by (metis prod_cases5)
  have r: "replicas demo_four ?c = [''node-1'', ''node-2'', ''node-3'']" by code_simp
  have nodes: "map (\<lambda>(k, n). (k, dni_Status n, dni_Address n)) (cm_nodes demo_four) = [(''node-1'', StatusHealthy, ''a:1''),
      (''node-2'', StatusHealthy, ''b:1''), (''node-3'', StatusHealthy, ''c:1''), (''node-4'', StatusHealthy, ''d:1'')]" by code_simp
  have "takes_chunks demo_four k \<longleftrightarrow> (\<exists>s a. map_option (\<lambda>n. (dni_Status n, dni_Address n)) (map_of (cm_nodes demo_four) k) = Some (s, a) \<and> s \<le> StatusWarning)"
    for k by (auto simp: takes_chunks_def)
  then have only: "{k. takes_chunks demo_four k \<and> k \<notin> set (replicas demo_four ?c)} = {''node-4''}"
    unfolding status_view nodes r by (auto simp: status_le_Warning split: if_splits)
  have adr: "addr_of demo_four ''node-4'' = Some ''d:1''" by code_simp
  have p: "net_present ?w ''d:1''" unfolding net_present_def by code_simp
  have h: "net_holds pad_sha ?w ''a:1'' ?c = Some ''abc''" "net_holds pad_sha ?w ''b:1'' ?c = Some ''abc''" by code_simp+
  have ns: "no_slash ?c" by code_simp
  have t: "mt_Pc (demo_task n s ?c) = Checking" "mt_Node (demo_task n s ?c) = n" "mt_Chunks (demo_task n s ?c) = ?c # []"
    "mt_Source (demo_task n s ?c) = s" for n s by (simp_all add: demo_task_def mt_Node_def new_task_def)
  have wk: "\<forall>x\<in>{mt_Source (demo_task ''node-1'' ''a:1'' ?c), mt_Source (demo_task ''node-2'' ''b:1'' ?c)}.
      (\<lambda>_. None :: string option) x = None \<and> net_alive good_env x \<and> net_holds pad_sha ?w x ?c = Some ''abc''"
    using h by (simp add: t good_env_alive)
  have "set (replicas cm ?c) = insert ''node-4'' ({''node-1'', ''node-2'', ''node-3''} - {''node-1'', ''node-2''})"
    "length (replicas cm ?c) + 1 = 3"
    using concurrent_migrations_lose_replica [where dial = "\<lambda>_. None" and env = good_env and sha = pad_sha and data = "''abc''",
      OF demo_four_ok(1) perm_iter_id perm_iter_id demo_store_inv [OF demo_store_inv [OF demo_five_inv]] ns
      _ _ _ only adr good_env_alive(1) p t(1-3) t(1-3) wk _ _ _ run] by (simp_all add: r good_env_def)
  then show ?thesis using run r by (auto simp: Let_def)
qed

section \<open>A stale entry\<close>

text \<open>What the migration of other chunks leaves of \<open>c\<close>, and of the nodes.\<close>

definition same_chunk :: "(bytes \<Rightarrow> bytes) \<Rightarrow> string \<Rightarrow> ChunkManager \<Rightarrow> World \<Rightarrow> ChunkManager \<Rightarrow> World \<Rightarrow> bool" where
  "same_chunk sha c cm w cm' w' \<longleftrightarrow> cm_inv cm' \<and> net_inv w' \<and> takes_chunks cm' = takes_chunks cm \<and> addr_of cm' = addr_of cm \<and>
     cm_known cm' = cm_known cm \<and> net_present w' = net_present w \<and> replicas cm' c = replicas cm c \<and>
     (\<forall>a. net_holds sha w' a c = net_holds sha w a c)"

lemma migrateChunk_elsewhere:
  assumes "cm_inv cm" "net_inv w" "perm_iter it" "no_slash d"
    and m: "migrateChunk (ChunkManagerAdapter it) dial (net_TransferChunk env sha) clock d n src cm w = (cm', w', ev)"
  shows "c \<noteq> d \<Longrightarrow> same_chunk sha c cm w cm' w'"
proof -
  have "w' = w \<or> (\<exists>t a. net_TransferChunk env sha src d t w = (w', a))" using migrate_outcome [OF m] by blast
  then have net: "net_inv w' \<and> net_present w' = net_present w \<and> (c \<noteq> d \<longrightarrow> (\<forall>a. net_holds sha w' a c = net_holds sha w a c))"
  proof (elim disjE exE)
    fix t a assume "net_TransferChunk env sha src d t w = (w', a)"
    from net_transfer [OF assms(2,4) this] net_transfer_present [OF assms(2,4) this] show ?thesis by simp
  qed (simp add: assms(2))
  show ?thesis if "c \<noteq> d"
  proof (cases rule: chunk_locator.migrateChunk_cases [OF adapter_contract [OF assms(3)] assms(1) m])
    case 1
    then show ?thesis using assms(1) net that by (simp add: same_chunk_def)
  next
    case (2 t)
    have eq: "cm' = cm_RemoveChunkFromNode d n (cm_AddChunkToNode d t cm)"
      using 2(6) by (simp add: ChunkManagerAdapter_def ad_AddChunkToNode_def ad_RemoveChunkFromNode_def)
    have "map_of (cm_nodes cm) t \<noteq> None" using 2(5) by (simp add: cm_registered_def)
    then have "cm_inv cm'" unfolding eq by (intro inv_RemoveChunkFromNode inv_AddChunkToNode assms(1))
    moreover have "replicas cm' c = replicas cm c" using that 2(3) by (simp add: eq remove_replicas add_replicas cm_known_def)
    ultimately show ?thesis using net that by (simp add: eq same_chunk_def add_remove_keep)
  qed
qed

lemma migrate_loop_elsewhere:
  assumes "migrate_loop (ChunkManagerAdapter it) dial (net_TransferChunk env sha) clock n src ds cm w rep = (cm', w', rep')"
    and "cm_inv cm" "net_inv w" "perm_iter it" "\<forall>d\<in>set ds. no_slash d" "c \<notin> set ds"
  shows "same_chunk sha c cm w cm' w'"
  using assms
proof (induction ds arbitrary: cm w rep)
  case Nil
  then show ?case by (simp add: same_chunk_def)
next
  case (Cons d ds)
  obtain cm1 w1 e where e: "migrateChunk (ChunkManagerAdapter it) dial (net_TransferChunk env sha) clock d n src cm w = (cm1, w1, e)"
    by (metis prod_cases3)
  obtain rep1 where l: "migrate_loop (ChunkManagerAdapter it) dial (net_TransferChunk env sha) clock n src ds cm1 w1 rep1 = (cm', w', rep')"
    using Cons.prems(1) e by (auto simp: Let_def)
  have "same_chunk sha c cm w cm1 w1" using migrateChunk_elsewhere [OF Cons.prems(2-4) _ e] Cons.prems(5,6) by simp
  moreover from this have "same_chunk sha c cm1 w1 cm' w'" using Cons.IH [OF l] Cons.prems(4-6) by (simp add: same_chunk_def)
  ultimately show ?case by (simp add: same_chunk_def)
qed

text \<open>The loop reaches \<open>c\<close> with everything about it as it was, and leaves it as \<open>migrateChunk\<close> left it.\<close>

lemma migrate_loop_at:
  assumes l: "migrate_loop (ChunkManagerAdapter it) dial (net_TransferChunk env sha) clock n src (ds @ c # es) cm w rep = (cm', w', rep')"
    and inv: "cm_inv cm" "net_inv w" "perm_iter it" "\<forall>d\<in>set (ds @ c # es). no_slash d" and dist: "distinct (ds @ c # es)"
  obtains cm1 w1 cm2 w2 ev where "same_chunk sha c cm w cm1 w1"
    "migrateChunk (ChunkManagerAdapter it) dial (net_TransferChunk env sha) clock c n src cm1 w1 = (cm2, w2, ev)"
    "cm_inv cm2 \<longrightarrow> net_inv w2 \<longrightarrow> same_chunk sha c cm2 w2 cm' w'"
proof -
  let ?loop = "migrate_loop (ChunkManagerAdapter it) dial (net_TransferChunk env sha) clock n src"
  have split: "\<exists>cm1 w1 rep1. ?loop xs cm w rep = (cm1, w1, rep1) \<and> ?loop ys cm1 w1 rep1 = (cm', w', rep')"
    if "?loop (xs @ ys) cm w rep = (cm', w', rep')" for xs ys cm w rep
    using that by (induction xs arbitrary: cm w rep) (auto simp: Let_def split: prod.splits)
  obtain cm1 w1 rep1 where 1: "?loop ds cm w rep = (cm1, w1, rep1)" "?loop (c # es) cm1 w1 rep1 = (cm', w', rep')"
    using split [OF l] by blast
  obtain cm2 w2 ev where m: "migrateChunk (ChunkManagerAdapter it) dial (net_TransferChunk env sha) clock c n src cm1 w1 = (cm2, w2, ev)"
    by (metis prod_cases3)
  obtain rep2 where 2: "?loop es cm2 w2 rep2 = (cm', w', rep')" using 1(2) m by (auto simp: Let_def)
  have "same_chunk sha c cm w cm1 w1" using migrate_loop_elsewhere [OF 1(1) inv(1-3)] inv(4) dist by simp
  moreover have "cm_inv cm2 \<longrightarrow> net_inv w2 \<longrightarrow> same_chunk sha c cm2 w2 cm' w'"
    using migrate_loop_elsewhere [OF 2 _ _ inv(3)] inv(4) dist by simp
  ultimately show ?thesis using that m by blast
qed

lemma stale_move:
  assumes inv: "cm_inv cm" "net_inv w" "perm_iter it" "no_slash c"
    and c: "cm_known cm c" "n \<notin> set (replicas cm c)" "\<not> takes_chunks cm n" "\<exists>k. takes_chunks cm k \<and> k \<notin> set (replicas cm c)"
    and works: "net_holds sha w src c = Some old" "en_fits env (length old)" "dial src = None" "net_alive env src" "peers_work env cm w"
    and m: "migrateChunk (ChunkManagerAdapter it) dial (net_TransferChunk env sha) clock c n src cm w = (cm', w', ev)"
  shows "cm_inv cm' \<and> net_inv w' \<and> addr_of cm' = addr_of cm \<and>
    (\<exists>t a. t \<notin> set (replicas cm c) \<and> addr_of cm t = Some a \<and> replicas cm' c = replicas cm c @ [t] \<and>
       net_holds sha w' a c = Some old \<and> (\<forall>b. b \<noteq> a \<longrightarrow> net_holds sha w' b c = net_holds sha w b c))"
proof -
  note off = targets_iff [OF inv(1,3), where ex = "replicas cm c"]
  obtain k where k: "takes_chunks cm k" "k \<notin> set (replicas cm c)" using c(4) by blast
  then obtain b where "addr_of cm k = Some b" by (auto simp: takes_chunks_def addr_of_def)
  then have "\<lparr>nt_NodeID = k, nt_Address = b\<rparr> \<in> set (ad_GetHealthyNodeAddresses it cm (replicas cm c))" using off k by simp
  then obtain t ts where t: "ad_GetHealthyNodeAddresses it cm (replicas cm c) = t # ts"
    by (cases "ad_GetHealthyNodeAddresses it cm (replicas cm c)") auto
  then have tt: "nt_NodeID t \<notin> set (replicas cm c)" "takes_chunks cm (nt_NodeID t)" "addr_of cm (nt_NodeID t) = Some (nt_Address t)"
    using off [of t] by simp_all
  obtain w1 r where tr: "net_TransferChunk env sha src c (nt_Address t) w = (w1, r)" by force
  have peer: "net_alive env (nt_Address t)" "net_present w (nt_Address t)" using works(5) tt(2,3) by (simp_all add: peers_work_def)
  obtain msg where r: "r = Inr (True, msg)" using net_transfer_works [OF inv(2) works(4) peer works(1,2) tr] by blast
  have meta: "ad_GetChunkMeta cm c = Some (replicas cm c)"
    using c(1) by (auto simp: cm_known_def ad_GetChunkMeta_def cm_GetChunkMeta_def replicas_def)
  have eq: "cm' = cm_RemoveChunkFromNode c n (cm_AddChunkToNode c (nt_NodeID t) cm)" "w' = w1"
    using m meta t tr r works(3)
    by (simp_all add: migrateChunk_def transferChunk_def ChunkManagerAdapter_def ad_AddChunkToNode_def ad_RemoveChunkFromNode_def Let_def)
  have "map_of (cm_nodes cm) (nt_NodeID t) \<noteq> None" using tt(3) by (auto simp: addr_of_def)
  then have "cm_inv cm'" unfolding eq by (intro inv_RemoveChunkFromNode inv_AddChunkToNode inv(1))
  moreover have "nt_NodeID t \<noteq> n" using c(3) tt(2) by auto
  then have "replicas cm' c = replicas cm c @ [nt_NodeID t]"
    using c(1,2) tt(1) by (simp add: eq remove_replicas add_replicas cm_known_def remove1_append remove1_idem)
  ultimately show ?thesis
    using net_transfer [OF inv(2,4) tr] r works(1) tt unfolding eq(2) by (auto simp: eq(1) add_remove_keep)
qed

text \<open>
  C39: a stale copy becomes a replica. After a file was overwritten, its chunk IDs name new replicas, but a node that held
  the old version still lists the chunk, and still serves the old data. If this node is then migrated (it takes no chunks
  itself, but still answers, the nodes that take chunks work, and one of them is not yet a replica), the outdated data is
  copied to such a node, which is added to the replicas of the chunk: their number grows, the replicas that
  were listed serve the new data, and the added one serves the old data.
\<close>

theorem stale_copy_becomes_replica:
  assumes "cm_inv cm" "ids_plain cm" "perm_iter it" "net_inv w" "\<not> IsMigrating m (pr_NodeID p)"
    and "c \<in> holdings cm (pr_NodeID p)" "cm_known cm c" "pr_NodeID p \<notin> set (replicas cm c)" "\<not> takes_chunks cm (pr_NodeID p)"
    and old: "addr_of cm (pr_NodeID p) = Some src" "net_holds sha w src c = Some old"
    and new: "\<forall>k\<in>set (replicas cm c). \<exists>b. addr_of cm k = Some b \<and> net_holds sha w b c = Some new"
    and works: "en_fits env (length old)" "dial src = None" "net_alive env src" "peers_work env cm w"
      "\<exists>k. takes_chunks cm k \<and> k \<notin> set (replicas cm c)"
    and run: "MigrateNode (ChunkManagerAdapter it) dial (net_TransferChunk env sha) clock p m cm w = (m', cm', w', res)"
  shows "\<exists>t a. t \<notin> set (replicas cm c) \<and> replicas cm' c = replicas cm c @ [t] \<and>
    addr_of cm' t = Some a \<and> net_holds sha w' a c = Some old \<and>
    (\<forall>k\<in>set (replicas cm c). \<exists>b. addr_of cm' k = Some b \<and> net_holds sha w' b c = Some new)"
proof -
  let ?n = "pr_NodeID p" and ?L = "ChunkManagerAdapter it"
  have cs: "distinct (cl_GetChunksOnNode ?L cm ?n)" "set (cl_GetChunksOnNode ?L cm ?n) = holdings cm ?n"
    using chunks_on_node [OF assms(1,3)] by (simp_all add: ChunkManagerAdapter_def ad_GetChunksOnNode_def)
  have a: "cl_GetNodeAddress ?L cm ?n = Some src" using old(1) by (simp add: ChunkManagerAdapter_def ad_addr)
  obtain rep keep where "mig_body ?L dial (net_TransferChunk env sha) clock p cm w = (cm', w', rep, keep)"
    using run assms(5) by (auto simp: MigrateNode_def mig_begin_def IsMigrating_def split: prod.splits)
  moreover obtain ds es where ds: "cl_GetChunksOnNode ?L cm ?n = ds @ c # es" using assms(6) cs(2) by (metis split_list)
  ultimately obtain rep0 rep1 where
    l: "migrate_loop ?L dial (net_TransferChunk env sha) clock ?n src (ds @ c # es) cm w rep0 = (cm', w', rep1)"
    using a by (auto simp: mig_body_def Let_def split: prod.splits)
  have plain: "\<forall>d\<in>set (ds @ c # es). no_slash d" using assms(2) cs(2) unfolding ds ids_plain_def by blast
  obtain cm1 w1 cm2 w2 ev where 1: "same_chunk sha c cm w cm1 w1"
    and mc: "migrateChunk ?L dial (net_TransferChunk env sha) clock c ?n src cm1 w1 = (cm2, w2, ev)"
    and 2: "cm_inv cm2 \<longrightarrow> net_inv w2 \<longrightarrow> same_chunk sha c cm2 w2 cm' w'"
    by (rule migrate_loop_at [OF l assms(1,4,3) plain cs(1) [unfolded ds]])
  have ns: "no_slash c" using plain by simp
  have i1: "cm_inv cm1" "net_inv w1" and v1: "takes_chunks cm1 = takes_chunks cm" "addr_of cm1 = addr_of cm" "cm_known cm1 = cm_known cm"
    "net_present w1 = net_present w" "replicas cm1 c = replicas cm c" "\<And>b. net_holds sha w1 b c = net_holds sha w b c"
    using 1 by (simp_all add: same_chunk_def)
  have "peers_work env cm1 w1" using works(4) by (simp add: peers_work_def v1)
  then have st: "cm_inv cm2 \<and> net_inv w2 \<and> addr_of cm2 = addr_of cm1 \<and>
    (\<exists>t a. t \<notin> set (replicas cm1 c) \<and> addr_of cm1 t = Some a \<and> replicas cm2 c = replicas cm1 c @ [t] \<and>
       net_holds sha w2 a c = Some old \<and> (\<forall>b. b \<noteq> a \<longrightarrow> net_holds sha w2 b c = net_holds sha w1 b c))"
    using assms(7-9) old(2) works by (intro stale_move [OF i1 assms(3) ns _ _ _ _ _ _ _ _ _ mc]) (simp_all add: v1)
  then obtain t b where t: "t \<notin> set (replicas cm c)" "addr_of cm t = Some b" "replicas cm2 c = replicas cm c @ [t]"
    "net_holds sha w2 b c = Some old" "\<And>x. x \<noteq> b \<Longrightarrow> net_holds sha w2 x c = net_holds sha w x c"
    unfolding v1 by blast
  have end_same: "replicas cm' c = replicas cm2 c" "addr_of cm' = addr_of cm" "\<And>x. net_holds sha w' x c = net_holds sha w2 x c"
    using 2 st v1(2) by (simp_all add: same_chunk_def)
  have "\<exists>x. addr_of cm' k = Some x \<and> net_holds sha w' x c = Some new" if k: "k \<in> set (replicas cm c)" for k
  proof -
    obtain x where x: "addr_of cm k = Some x" "net_holds sha w x c = Some new" using new k by blast
    then have "x \<noteq> b" using addr_of_inj [OF assms(1) t(2)] k t(1) by blast
    then show ?thesis using x t(5) by (simp add: end_same)
  qed
  then show ?thesis using t end_same by auto
qed

text \<open>
  A file is stored on the first three of five nodes; the first is found critical, the file is
  overwritten, so its chunk now names nodes 4, 5 and 2, and then the first node is migrated.
\<close>

definition demo_alloc :: "ChunkManager \<Rightarrow> ChunkManager" where
  "demo_alloc cm = fst (cm_AllocateChunks (\<lambda>ks. ks) insertion_sort rev 0 ''/f'' 1 5 cm)"

definition demo_overwritten :: ChunkManager where
  "demo_overwritten = demo_alloc (cm_UpdateNodeHealth ''node-1'' StatusCritical 1
     (demo_alloc (demo_join ''e:1'' (demo_join ''d:1'' demo_cm))))"

definition demo_two_versions :: World where
  "demo_two_versions = fold (\<lambda>(a, data). demo_store a data)
     [(''a:1'', ''old''), (''b:1'', ''old''), (''c:1'', ''old''), (''d:1'', ''new''), (''e:1'', ''new''), (''b:1'', ''new'')] demo_five"

lemma demo_overwritten_views:
  "map (\<lambda>(k, n). (k, dni_Status n, dni_Address n)) (cm_nodes demo_overwritten) = [(''node-1'', StatusCritical, ''a:1''),
      (''node-2'', StatusHealthy, ''b:1''), (''node-3'', StatusHealthy, ''c:1''), (''node-4'', StatusHealthy, ''d:1''),
      (''node-5'', StatusHealthy, ''e:1'')]"
  "replicas demo_overwritten (hd demo_ids_of) = [''node-4'', ''node-5'', ''node-2'']"
  by code_simp+

lemma demo_overwritten_ok: "cm_inv demo_overwritten" "ids_plain demo_overwritten" "hd demo_ids_of \<in> holdings demo_overwritten ''node-1''"
proof -
  show "cm_inv demo_overwritten"
    unfolding demo_overwritten_def demo_alloc_def demo_join_def
    by (intro inv_allocate inv_health inv_register inv_reachable [OF demo_cm_reachable] perm_iter_id go_sort.sort_slice_axioms)
  have "\<forall>(k, n)\<in>set (cm_nodes demo_overwritten). \<forall>c\<in>gm_keys (dni_Chunks n). no_slash c" by code_simp
  then show "ids_plain demo_overwritten"
    by (fastforce simp: ids_plain_def holdings_def split: option.splits dest: map_of_SomeD)
  have "map_option (\<lambda>n. hd demo_ids_of \<in> gm_keys (dni_Chunks n)) (map_of (cm_nodes demo_overwritten) ''node-1'') = Some True" by code_simp
  then show "hd demo_ids_of \<in> holdings demo_overwritten ''node-1''"
    unfolding holdings_def by (cases "map_of (cm_nodes demo_overwritten) ''node-1''") simp_all
qed

lemma takes_view: "takes_chunks cm k \<longleftrightarrow>
    (\<exists>s a. map_of (map (\<lambda>(k, n). (k, dni_Status n, dni_Address n)) (cm_nodes cm)) k = Some (s, a) \<and> s \<le> StatusWarning)"
  unfolding status_view [symmetric] by (auto simp: takes_chunks_def)

lemma addr_view: "addr_of cm k = map_option snd (map_of (map (\<lambda>(k, n). (k, dni_Status n, dni_Address n)) (cm_nodes cm)) k)"
  unfolding status_view [symmetric] by (simp add: addr_of_def option.map_comp comp_def)

theorem stale_copy_becomes_replica_witness:
  "let c = hd demo_ids_of
   in \<exists>m cm w res t a. MigrateNode (ChunkManagerAdapter (\<lambda>ks. ks)) (\<lambda>_. None) (net_TransferChunk good_env pad_sha) (\<lambda>_. 0)
        Locator_Adapter.demo_prediction NewMigrator demo_overwritten demo_two_versions = (m, cm, w, res) \<and>
      replicas cm c = [''node-4'', ''node-5'', ''node-2'', t] \<and> addr_of cm t = Some a \<and> net_holds pad_sha w a c = Some ''old''"
proof -
  let ?c = "hd demo_ids_of" and ?p = "Locator_Adapter.demo_prediction"
  obtain m cm w res where run: "MigrateNode (ChunkManagerAdapter (\<lambda>ks. ks)) (\<lambda>_. None) (net_TransferChunk good_env pad_sha) (\<lambda>_. 0)
      ?p NewMigrator demo_overwritten demo_two_versions = (m, cm, w, res)" by (metis prod_cases4)
  have p: "pr_NodeID ?p = ''node-1''" by (simp add: Locator_Adapter.demo_prediction_def)
  note v = demo_overwritten_views
  have inv: "net_inv demo_two_versions" unfolding demo_two_versions_def by (simp add: demo_store_inv demo_five_inv)
  have idle: "\<not> IsMigrating NewMigrator (pr_NodeID ?p)" by (simp add: IsMigrating_def NewMigrator_def)
  have known: "cm_known demo_overwritten ?c" by (rule replica_known [of "''node-2''"]) (simp add: v)
  have h: "net_holds pad_sha demo_two_versions ''a:1'' ?c = Some ''old''" "net_holds pad_sha demo_two_versions ''d:1'' ?c = Some ''new''"
    "net_holds pad_sha demo_two_versions ''e:1'' ?c = Some ''new''" "net_holds pad_sha demo_two_versions ''b:1'' ?c = Some ''new''" by code_simp+
  have there: "\<forall>a\<in>set [''a:1'', ''b:1'', ''c:1'', ''d:1'', ''e:1'']. net_present demo_two_versions a" unfolding net_present_def by code_simp
  have t: "\<not> takes_chunks demo_overwritten (pr_NodeID ?p)" "\<exists>k. takes_chunks demo_overwritten k \<and> k \<notin> set (replicas demo_overwritten ?c)"
    unfolding takes_view v p by (auto simp: status_le_Warning intro: exI [of _ "''node-3''"])
  have new: "\<forall>k\<in>set (replicas demo_overwritten ?c). \<exists>b. addr_of demo_overwritten k = Some b \<and> net_holds pad_sha demo_two_versions b ?c = Some ''new''"
    unfolding addr_view v using h by simp
  have peers: "peers_work good_env demo_overwritten demo_two_versions"
    unfolding peers_work_def addr_view v using there by (auto simp: good_env_alive split: if_splits)
  have src: "addr_of demo_overwritten (pr_NodeID ?p) = Some ''a:1''" unfolding addr_view v p by simp
  obtain t a where "replicas cm ?c = replicas demo_overwritten ?c @ [t]" "addr_of cm t = Some a" "net_holds pad_sha w a ?c = Some ''old''"
    using stale_copy_becomes_replica [OF demo_overwritten_ok(1,2) perm_iter_id inv idle _ known _ t(1) src h(1) new _ _ good_env_alive(1) peers t(2) run]
      demo_overwritten_ok(3) by (auto simp: p v good_env_def)
  then show ?thesis using run unfolding Let_def v by (intro exI conjI) simp_all
qed

end
