(* ===== verification/Spec2Isabelle.thy ===== *)
theory Spec2Isabelle
  imports Conflicting_Puts Processes Handlers Migration_Hazards
begin

text \<open>
  SentinelFS, verified in Isabelle/HOL
  ====================================

  SentinelFS is a distributed file system in Go (\<^verbatim>\<open>src/\<close>). A metadata server keeps the directory tree and
  the map from chunks to data nodes; data nodes keep chunks on disk; a client splits a file into chunks
  of 4 MiB, asks the metadata server where to put them and talks to the data nodes directly. Data nodes
  report health metrics; the metadata server predicts failures from them and moves the chunks of a node
  at risk to other nodes.

  Theories and sources (paths under \<^verbatim>\<open>src/internal/\<close>)

  \<^item> \<open>Prelude\<close>, \<open>Go_Strings\<close>: the parts of Go the sources use: wrapped integers, maps with their
    unspecified iteration order, \<open>sort.Slice\<close> (locale \<open>sort_slice\<close>), \<open>strings\<close> and \<open>fmt\<close>.
  \<^item> \<open>Common\<close>: \<^verbatim>\<open>common/config.go\<close>, \<^verbatim>\<open>common/utils.go\<close>: constants, chunk IDs, checksums, splitting files.
  \<^item> \<open>Namespace\<close>: \<^verbatim>\<open>metaserver/namespace.go\<close>: the tree; its abstraction \<open>ns_files\<close> is a map from
    component lists to file entries (locale \<open>file_namespace\<close>).
  \<^item> \<open>Chunk_Manager\<close>: \<^verbatim>\<open>metaserver/chunk_manager.go\<close>: node registry, chunk map, placement, dead nodes.
  \<^item> \<open>Metrics\<close>, \<open>Predictor\<close>: \<^verbatim>\<open>health/metrics.go\<close>, \<^verbatim>\<open>health/monitor.go\<close>, \<^verbatim>\<open>health/predictor.go\<close>.
  \<^item> \<open>Migrator\<close>, \<open>Locator_Adapter\<close>: \<^verbatim>\<open>health/migrator.go\<close> over the Go interface \<open>ChunkLocator\<close> (a record of
    functions; its contract is the locale \<open>chunk_locator\<close>), and \<^verbatim>\<open>metaserver/locator_adapter.go\<close>, which
    implements it on the chunk manager (interpretation \<open>cml\<close>).
  \<^item> \<open>Messages\<close>: the message structs of \<^verbatim>\<open>proto/sentinelfs.pb.go\<close>.
  \<^item> \<open>Meta_Server\<close>: \<^verbatim>\<open>metaserver/server.go\<close>: all RPC handlers and the bodies of the background loops; the
    relation \<open>sv_step\<close> has one step per handler or round, in any order.
  \<^item> \<open>Chunk_Store\<close>: \<^verbatim>\<open>datanode/store.go\<close>: chunks on a disk, a map from file names to contents.
  \<^item> \<open>Health_Collector\<close>: \<^verbatim>\<open>datanode/health.go\<close> and \<^verbatim>\<open>datanode/admin.go\<close>: the reported metrics and their
    simulated degradation.
  \<^item> \<open>Chunk_Service\<close>: the contract of the \<open>StoreChunk\<close> and \<open>GetChunk\<close> RPCs (locale \<open>chunk_service\<close>).
  \<^item> \<open>Data_Node\<close>: \<^verbatim>\<open>datanode/server.go\<close>: handlers, registration, heartbeat; and the world of all data nodes,
    on which the three node RPCs act (interpretation \<open>dn\<close>).
  \<^item> \<open>Client\<close>: \<^verbatim>\<open>client/transfer.go\<close> and the file operations of \<^verbatim>\<open>client/client.go\<close>, proved over
    \<open>chunk_service\<close>: parallel uploads and downloads under every schedule of their goroutines.
  \<^item> \<open>System\<close>: server, nodes and client together (interpretation \<open>sys\<close>): a put, a get, a delete as a whole.
  \<^item> \<open>Cluster\<close>: the life of a cluster, a step relation \<open>cluster_step\<close> over all commands, handlers,
    background rounds, migrations, joins and restarts, with a ghost map of what was stored; its invariant
    \<open>cluster_inv\<close> says that every node listed for a chunk of a stored file holds its data.
  \<^item> \<open>Migrate_Steps\<close>, \<open>Concurrent\<close>: the same cluster with everything in flight at once. \<open>MigrateNode\<close> is a machine
    of single steps, shown to be \<open>MigrateNode\<close> when nothing interrupts it; in \<open>conc_step\<close> uploads, downloads and
    migrations are tasks whose RPCs and calls of the metadata interleave freely, migrations of one chunk included.
  \<^item> \<open>Evacuation\<close>: from bad metrics to a node without chunks: the prediction round that finds a failing node, and the
    migration that moves every chunk which the node serves and a healthy node can take.
  \<^item> \<open>Migration_Hazards\<close>: two migrations of one chunk step by step, and a node that still lists a chunk which was
    allocated anew: in the first case the chunk loses a replica, in the second outdated data becomes one.
  \<^item> \<open>Conflicting_Puts\<close>: two clients that write one path at once.
  \<^item> \<open>Well_Typed\<close>: the shape of the server's state for every hash function, colliding ones too, and that the file
    handlers do not panic in it (but for a negative chunk count).
  \<^item> \<open>Handlers\<close>: the file handlers lock by lock. What a delete does to a \<open>GetFile\<close> or \<open>PutFile\<close> of the same path that it
    overlaps, and that a lock per path is enough: \<open>locked_step\<close> interleaves everything else freely (puts with a negative
    chunk count, on which \<open>PutFile\<close> panics by itself, are left out).
  \<^item> \<open>Membership\<close>: registration and heartbeats, from \<^verbatim>\<open>datanode/server.go\<close> through to \<^verbatim>\<open>metaserver/server.go\<close>, with
    a step relation whose heartbeats and dead-node checks are bounded in time; in \<open>Processes\<close> heartbeats are delayed and lost.
  \<^item> \<open>Console\<close>, \<open>Cli\<close>: what the client prints (\<^verbatim>\<open>client/client.go\<close>, \<^verbatim>\<open>client/watch.go\<close>) and the command line
    (\<^verbatim>\<open>cmd/client/main.go\<close>). \<open>Meta_Admin\<close>: the HTTP handlers of \<^verbatim>\<open>metaserver/admin.go\<close>.
  \<^item> \<open>Processes\<close>: \<^verbatim>\<open>cmd/metaserver\<close>, \<^verbatim>\<open>cmd/datanode\<close>, \<open>Start\<close> and \<open>Stop\<close> of the servers, flags, signals, the
    routes of the admin servers, the ticker loops of a data node, opening and closing a client.
  \<^item> This theory: the properties of the whole. Stored files survive and read back exactly; a put and a
    get; what the message limit of gRPC does to full chunks; what a migration and a delete leave on the nodes.

  How the code is modelled

  \<^item> State is passed explicitly. A method that holds a mutex from beginning to end is one function of
    the state; a method that releases it in between is split there (\<open>mig_begin\<close>, \<open>mig_body\<close>, \<open>mig_end\<close>; the
    client's goroutines, one step per RPC). A panic is the value \<open>Panic\<close> or \<open>None\<close>. A handler of the
    metadata server is one step, although it takes the locks of its components one after the other; \<open>Handlers\<close>
    takes it apart.
  \<^item> In \<open>cluster_step\<close> a put is one step, with its uploads; in \<open>conc_step\<close> each RPC is one, and anything may come
    between two of them (there, writes to a disk are refused or done, never torn, and no put uses a chunk ID again for
    other data: chunk IDs depend only on the path and the index, so this excludes a put of other content under a path; what such
    a put can do is the subject of \<open>Conflicting_Puts\<close> and \<open>Migration_Hazards\<close>). A put in \<open>cluster_step\<close> takes a path that
    has no file and chunk IDs that no node lists, since a node that kept an old copy of a chunk can become
    its replica again (\<open>stale_copy_becomes_replica\<close>). A node that is lost for good is one that never answers.
  \<^item> \<open>int32\<close> and \<open>int64\<close> are integers wrapped where the code computes or converts; times and durations
    are nanoseconds in \<open>int\<close>; \<open>float64\<close> is \<open>real\<close>, so rounding errors and NaN are outside the model.
  \<^item> What the code does not determine is an argument: the order \<open>it\<close> in which a map is iterated (any
    permutation, \<open>perm_iter\<close>), the algorithm of \<open>sort.Slice\<close> (any that satisfies the locale), SHA-256
    (\<open>sha\<close>, any function; injectivity on the keys at hand is assumed where IDs must not collide), the
    clock, random numbers, the faults of disk operations, the schedule of goroutines, the faults of the
    network and the message limit of gRPC (record \<open>env\<close>: an RPC is delivered, or lost before or after it
    ran). Every theorem holds for all of them, or states what it needs.
  \<^item> Loops over data are structural recursion. The read loop of a file, whose end depends on the reads,
    is proved to end (\<open>read_loop\<close>); a parallel transfer takes a schedule, a list of goroutine numbers, and
    is \<open>None\<close> while a goroutine is unfinished; schedules with more steps per goroutine than the chunk has
    addresses finish (\<open>transfers_return\<close>), at most 3 addresses per chunk after a put.

  What the lemmas show

  \<^item> Each component: an invariant (\<open>ns_inv\<close>, \<open>cm_inv\<close>, \<open>mon_inv\<close>, \<open>hc_inv\<close>, \<open>cs_inv\<close>, \<open>net_inv\<close>, \<open>sv_inv\<close>) and that every
    operation keeps it; the effect of each operation on an abstract view (\<open>ns_files\<close>, \<open>replicas\<close> and
    \<open>holdings\<close>, \<open>net_holds\<close>); every error branch.
  \<^item> Contracts: clients are verified against locales and the locales are interpreted on the model.
  \<^item> Where the code does something its authors did not want, a theorem says what it does: see the
    findings among the properties (concurrent migrations lose a replica, a dead node revived by the
    prediction loop, leaked and stale chunks, a full chunk above the message limit, nodes that a restarted
    server never learns of, and others).

  Not modelled

  \<^item> Generated code (\<^verbatim>\<open>proto/\<close>: marshalling, stubs) and gRPC itself: the transport is the parameter \<open>env\<close>.
  \<^item> JSON encoding, logging, and the inside of \<open>net\<close>, \<open>net/http\<close> and \<open>time.Ticker\<close>: what they return is an argument.
  \<^item> Go's memory model: a step reads and writes shared state atomically, although some methods return pointers
    into what a lock guards (\<open>GetNode\<close>, \<open>GetAllNodes\<close>, \<open>GetChunkMeta\<close>). The one that a migration keeps across
    other steps, the slice of node IDs from \<open>GetChunkMeta\<close>, is the step \<open>race\<close> of \<open>conc_step\<close>.
\<close>

section \<open>A small system\<close>

text \<open>The environment in which only the second node answers.\<close>

definition one_env :: env where
  "one_env = good_env\<lparr>en_rpc := \<lambda>_ a. if a = ''b:1'' then Delivered else NotDelivered ''down''\<rparr>"

definition demo_stored_sys :: system where
  "demo_stored_sys =
     (case sys_PutFile (\<lambda>ks. ks) insertion_sort pad_sha 0 demo_request (demo_sv0, demo_nodes) of
        (sw, Inr resp) \<Rightarrow> fst (uploadChunks (\<lambda>_. None) pad_sha (sys_StoreChunk good_env pad_sha) [0, 0, 0, 0] [''abc''] (pfr_Placements resp) sw)
      | (sw, Inl e) \<Rightarrow> sw)"

lemma one_env_alive: "net_alive one_env ''b:1''" "en_fits one_env n"
  by (simp_all add: net_alive_def one_env_def good_env_def)

lemma demo_put_sys:
  "cl_PutFile demo_lf (\<lambda>_. None) pad_sha (sys_PutFile (\<lambda>ks. ks) insertion_sort pad_sha 0) (sys_StoreChunk good_env pad_sha)
     [0, 0, 0, 0] ''/x'' ''/f'' (demo_sv0, demo_nodes) = (demo_stored_sys, Some (Ok ()))"
proof -
  have "int32 (int (length [''abc''])) = 1" by (simp add: int32_id)
  then have "cl_PutFile demo_lf (\<lambda>_. None) pad_sha (sys_PutFile (\<lambda>ks. ks) insertion_sort pad_sha 0) (sys_StoreChunk good_env pad_sha)
     [0, 0, 0, 0] ''/x'' ''/f'' (demo_sv0, demo_nodes) =
     (case sys_PutFile (\<lambda>ks. ks) insertion_sort pad_sha 0 demo_request (demo_sv0, demo_nodes) of
        (sw, Inl e) \<Rightarrow> (sw, Some (Err (''PutFile RPC: '' @ e)))
      | (sw, Inr resp) \<Rightarrow>
          if \<not> pfr_Success resp then (sw, Some (Err (''PutFile failed: '' @ pfr_Message resp)))
          else case uploadChunks (\<lambda>_. None) pad_sha (sys_StoreChunk good_env pad_sha) [0, 0, 0, 0] [''abc''] (pfr_Placements resp) sw of
                 (sw', r) \<Rightarrow> (sw', wrap_err ''upload chunks: '' r))"
    unfolding cl_PutFile_def demo_read sum.case prod.case demo_request_def by (simp only:)
  moreover have "snd (case sys_PutFile (\<lambda>ks. ks) insertion_sort pad_sha 0 demo_request (demo_sv0, demo_nodes) of
        (sw, Inl e) \<Rightarrow> (sw, Some (Err (''PutFile RPC: '' @ e)))
      | (sw, Inr resp) \<Rightarrow>
          if \<not> pfr_Success resp then (sw, Some (Err (''PutFile failed: '' @ pfr_Message resp)))
          else case uploadChunks (\<lambda>_. None) pad_sha (sys_StoreChunk good_env pad_sha) [0, 0, 0, 0] [''abc''] (pfr_Placements resp) sw of
                 (sw', r) \<Rightarrow> (sw', wrap_err ''upload chunks: '' r)) = Some (Ok ())" by code_simp
  ultimately show ?thesis
    by (auto simp: demo_stored_sys_def split: prod.splits sum.splits if_splits)
qed

lemma demo_stored_meta: "fst demo_stored_sys = fst (sv_PutFile (\<lambda>ks. ks) insertion_sort pad_sha 0 demo_request demo_sv0)"
  by (simp add: demo_stored_sys_def sys_PutFile_def sys_upload_fst split: prod.split option.split)

section \<open>Stored files are safe\<close>

text \<open>
  C1: what a client was told is stored stays stored. In every state that a cluster can reach, by any
  sequence of puts of new paths, gets, deletes, node registrations, heartbeats, health reports, dead-node
  checks, prediction rounds, migrations, joins and restarts of nodes, with any faults of disks and
  network: every file whose put reported success and that was not deleted is in the namespace, each of
  its chunks still has the number of replicas it got, and every node listed for a chunk holds exactly
  its data.
\<close>

theorem acknowledged_files_survive:
  assumes "inj_on (\<lambda>x. take 8 (sha x)) K" "cluster_reachable sha K ((s, w), good)"
    and "good (ns_target path) = Some (xs, r)" "plain path"
  shows "\<exists>f. ns_GetFile (sv_namespace s) path = Inr (Some f) \<and>
    fm_ChunkIDs f = chunk_ids sha (fm_Path f) (int (length xs)) \<and>
    (\<forall>k<length xs. length (replicas (sv_chunkMgr s) (fm_ChunkIDs f ! k)) = r \<and>
       (\<forall>n\<in>set (replicas (sv_chunkMgr s) (fm_ChunkIDs f ! k)). \<exists>a. addr_of (sv_chunkMgr s) n = Some a \<and>
          net_holds sha w a (fm_ChunkIDs f ! k) = Some (xs ! k)))"
proof -
  note I = cluster_inv_reachable [OF assms(1,2)]
  have cm: "cm_inv (sv_chunkMgr s)" using I by (simp add: cluster_inv_def mig_ok_def)
  obtain f where f: "ns_GetFile (sv_namespace s) path = Inr (Some f)" "fm_ChunkIDs f = chunk_ids sha (fm_Path f) (int (length xs))"
    and cg: "\<And>k. k < length xs \<Longrightarrow> chunk_good sha (sv_chunkMgr s) w (fm_ChunkIDs f ! k) k r (xs ! k)"
    by (rule stored_chunks_good [OF I assms(3,4)]) blast
  show ?thesis
    using f cg replica_registered(1) [OF cm] by (fastforce simp: chunk_good_def)
qed

text \<open>
  C2: nobody reads anything else. In every such state a \<open>GetFile\<close> of the client that reports success has
  written exactly the bytes that were put, whatever nodes answered, in whatever order, and however many
  chunks were migrated in between.
\<close>

theorem reads_are_exact:
  assumes "inj_on (\<lambda>x. take 8 (sha x)) K" "cluster_reachable sha K ((s, w), good)"
    and "good (ns_target path) = Some (xs, r)" "plain path" "sort_slice rsrt"
    and "cl_GetFile fault dial sha sys_GetFile (sys_GetChunk env sha) rsrt sched path target ((s, w), disk) =
      ((sw', disk'), Some (Ok ()))"
  shows "disk' = AList.update target (concat xs) disk"
proof -
  note I = cluster_inv_reachable [OF assms(1,2)]
  have nw: "net_inv (snd (s, w))" using I by (simp add: cluster_inv_def mig_ok_def)
  obtain f g where g: "sv_GetFile path s = Some g" and
    loc0: "gfr_Success g \<longrightarrow> gfr_FileInfo g \<noteq> None \<and> length (gfr_ChunkLocations g) = length xs \<and> (\<forall>k<length xs. located sha s w xs r f g k)"
    by (rule stored_located [OF I assms(3,4)]) blast
  let ?locs = "gfr_ChunkLocations g"
  have ok: "gfr_Success g"
    by (rule get_file_ok [OF assms(6)]) (use g in \<open>auto simp: sys_GetFile_def\<close>)
  have len: "length ?locs = length xs" and loc: "\<And>k. k < length xs \<Longrightarrow> located sha s w xs r f g k" using loc0 ok by auto
  obtain data where dl: "downloadChunks dial sha (sys_GetChunk env sha) rsrt sched ?locs (s, w) = (sw', Some (Ok data))"
    and wr: "disk' = AList.update target data disk"
    by (rule get_file_ok [OF assms(6)]) (use g in \<open>auto simp: sys_GetFile_def\<close>)
  have sorted: "sorted_wrt (<) (map cl_ChunkIndex ?locs)"
    using loc len by (auto simp: sorted_wrt_iff_nth_less located_def)
  obtain ds where ds: "data = concat ds"
    "list_all2 (\<lambda>l d. \<exists>a\<in>set (cl_NodeAddresses l). net_holds sha (snd (s, w)) a (cl_ChunkId l) = Some d) ?locs ds"
    using sys.download_sound [OF nw assms(5) sorted dl] by blast
  have "ds = xs"
  proof (rule nth_equalityI)
    show "length ds = length xs" using list_all2_lengthD [OF ds(2)] len by simp
    fix i assume "i < length ds"
    then have i: "i < length ?locs" using list_all2_lengthD [OF ds(2)] by simp
    show "ds ! i = xs ! i" using list_all2_nthD [OF ds(2) i] loc [of i] i len by (auto simp: located_def)
  qed
  then show ?thesis using wr ds(1) by simp
qed


text \<open>The small system, built by steps of the cluster: three nodes join and register, a client puts a file.\<close>

lemma demo_cluster_nodes: "cluster_reachable pad_sha K ((demo_sv0, demo_nodes), Map.empty)"
proof -
  have cs: "cs_inv (ds_store (fst (demo_data_node a)))" for a by (simp add: demo_data_node_def cs_inv_new)
  define w1 where "w1 = \<lparr>w_nodes = [(''a:1'', demo_data_node ''a:1'')], w_calls = 0\<rparr>"
  define w2 where "w2 = \<lparr>w_nodes = [(''a:1'', demo_data_node ''a:1''), (''b:1'', demo_data_node ''b:1'')], w_calls = 0\<rparr>"
  have "cluster_reachable pad_sha K ((NewServer, w1), Map.empty)"
    using cluster_reachable.step [OF cluster_reachable.new cluster_step.join [OF _ cs, where a = "''a:1''" and a1 = "''a:1''"]]
    by (simp add: w1_def)
  then have "cluster_reachable pad_sha K ((NewServer, w2), Map.empty)"
    using cluster_reachable.step [OF _ cluster_step.join [OF _ cs, where a = "''b:1''" and a1 = "''b:1''"], of pad_sha K NewServer w1]
    by (simp add: w1_def w2_def)
  then have "cluster_reachable pad_sha K ((NewServer, demo_nodes), Map.empty)"
    using cluster_reachable.step [OF _ cluster_step.join [OF _ cs, where a = "''c:1''" and a1 = "''c:1''"], of pad_sha K NewServer w2]
    by (simp add: w2_def demo_nodes_def)
  then show ?thesis
    unfolding demo_sv0_def demo_reg_def
    by (intro cluster_reachable.step [OF _ cluster_step.register] perm_iter_id)
qed

definition demo_good :: stored where
  "demo_good = [[''f''] \<mapsto> ([''abc''], 3)]"

lemma demo_cluster: "cluster_reachable pad_sha demo_K1 (demo_stored_sys, demo_good)"
proof -
  have "list_all (\<lambda>(k, n). dni_Chunks n = []) (cm_nodes (sv_chunkMgr demo_sv0))" by code_simp
  then have "holdings (sv_chunkMgr demo_sv0) n = {}" for n
    by (auto simp: holdings_def list_all_iff split: option.split dest!: map_of_SomeD)
  then have fr: "fresh_ids (sv_chunkMgr demo_sv0) ids" for ids by (simp add: fresh_ids_def)
  have t: "ns_target ''/f'' = [''f'']" by code_simp
  have h: "length (cm_healthyNodes (\<lambda>ks. ks) 0 (sv_chunkMgr demo_sv0)) = 3" by code_simp
  have nw: "ns_files (sv_namespace demo_sv0) (ns_target ''/f'') = None" unfolding t by code_simp
  have k: "\<forall>i<length [''abc'']. chunk_key ''/f'' (int i) \<in> demo_K1" by (simp add: demo_K1_def)
  have n: "int (length [''abc'']) < 2 ^ 31" by simp
  show ?thesis
    using cluster_reachable.step [OF demo_cluster_nodes cluster_step.put [OF perm_iter_id go_sort.sort_slice_axioms demo_read n k nw fr demo_put_sys]]
    by (simp add: demo_good_def t h)
qed

lemma demo_good_f: "demo_good (ns_target ''/f'') = Some ([''abc''], 3)" "plain ''/f''"
proof -
  have "ns_target ''/f'' = [''f'']" by code_simp
  then show "demo_good (ns_target ''/f'') = Some ([''abc''], 3)" by (simp add: demo_good_def)
  show "plain ''/f''" by code_simp
qed

theorem acknowledged_files_survive_witness:
  "\<exists>f. ns_GetFile (sv_namespace (fst demo_stored_sys)) ''/f'' = Inr (Some f) \<and>
     length (replicas (sv_chunkMgr (fst demo_stored_sys)) (fm_ChunkIDs f ! 0)) = 3"
proof -
  have r: "cluster_reachable pad_sha demo_K1 ((fst demo_stored_sys, snd demo_stored_sys), demo_good)" using demo_cluster by simp
  show ?thesis using acknowledged_files_survive [OF demo_K1_inj r demo_good_f] by force
qed

lemma demo_stored_live:
  assumes "ns_GetFile (sv_namespace (fst demo_stored_sys)) ''/f'' = Inr (Some f)" "c \<in> set (fm_ChunkIDs f)"
  shows "\<exists>n\<in>set (replicas (sv_chunkMgr (fst demo_stored_sys)) c). \<exists>d.
    map_of (cm_nodes (sv_chunkMgr (fst demo_stored_sys))) n = Some d \<and> dni_Status d \<noteq> StatusDead \<and>
    (None :: string option) = None \<and> net_alive one_env (dni_Address d)"
proof -
  have "case ns_GetFile (sv_namespace (fst demo_stored_sys)) ''/f'' of Inr (Some f) \<Rightarrow>
      list_all (\<lambda>c. ''node-2'' \<in> set (replicas (sv_chunkMgr (fst demo_stored_sys)) c)) (fm_ChunkIDs f) | _ \<Rightarrow> True"
    unfolding demo_stored_meta by code_simp
  then have r: "''node-2'' \<in> set (replicas (sv_chunkMgr (fst demo_stored_sys)) c)" using assms by (auto simp: list_all_iff)
  have "case map_of (cm_nodes (sv_chunkMgr (fst demo_stored_sys))) ''node-2'' of None \<Rightarrow> False
      | Some d \<Rightarrow> dni_Status d \<noteq> StatusDead \<and> dni_Address d = ''b:1''"
    unfolding demo_stored_meta by code_simp
  then obtain d where "map_of (cm_nodes (sv_chunkMgr (fst demo_stored_sys))) ''node-2'' = Some d"
    "dni_Status d \<noteq> StatusDead" "dni_Address d = ''b:1''" by (auto split: option.splits)
  then show ?thesis using r one_env_alive(1) by force
qed


theorem reads_are_exact_witness:
  "\<exists>sw' disk'. cl_GetFile NoFault (\<lambda>_. None) pad_sha sys_GetFile (sys_GetChunk one_env pad_sha) insertion_sort [0, 0, 0, 0] ''/f'' ''/copy''
     (demo_stored_sys, []) = ((sw', disk'), Some (Ok ())) \<and> disk' = [(''/copy'', ''abc'')]"
proof -
  have n: "\<forall>c\<in>set [''abc'']. en_fits one_env (length c)" "\<forall>k<length [''abc'']. 3 < count_list [0, 0, 0, 0] k"
    by (simp_all add: one_env_alive)
  have r: "cluster_reachable pad_sha demo_K1 ((fst demo_stored_sys, snd demo_stored_sys), demo_good)" using demo_cluster by simp
  have "\<exists>sw'. cl_GetFile NoFault (\<lambda>_. None) pad_sha sys_GetFile (sys_GetChunk one_env pad_sha) insertion_sort
      [0, 0, 0, 0] ''/f'' ''/copy'' ((fst demo_stored_sys, snd demo_stored_sys), []) = ((sw', [(''/copy'', ''abc'')]), Some (Ok ()))"
    using stored_readable [where disk = "[]" and target = "''/copy''", OF demo_K1_inj pad_sha_long(1) r demo_good_f
      go_sort.sort_slice_axioms demo_stored_live n] by simp
  then obtain sw' disk' where g: "cl_GetFile NoFault (\<lambda>_. None) pad_sha sys_GetFile (sys_GetChunk one_env pad_sha) insertion_sort
      [0, 0, 0, 0] ''/f'' ''/copy'' ((fst demo_stored_sys, snd demo_stored_sys), []) = ((sw', disk'), Some (Ok ()))" by blast
  show ?thesis
    using reads_are_exact [OF demo_K1_inj r demo_good_f go_sort.sort_slice_axioms g] g by auto
qed

section \<open>A failing node\<close>

text \<open>
  C4: the promise of the system. In a reachable state of a cluster, let the six metrics of a node be at or over their
  danger thresholds in at least two reports (on a single one the risk is 0). Suppose that no migration works on the node yet and that it still
  answers, that the nodes which are at most in state WARNING after the next prediction round work, that the chunks of some stored file
  fit into a message, and that for each of them which the node keeps there is such a node that does not keep it yet. Then the next prediction
  round rates the node CRITICAL and starts a migration of it, and the node is offered no chunk any more; and after this migration, if
  it runs in the state that the round left, with nothing else in between, no chunk of the file depends on the failing node: each
  chunk has as many replicas as before, none of them on this node, and all of them hold the data that was put. So the node can be lost.
\<close>

theorem failing_node_is_evacuated:
  assumes "inj_on (\<lambda>x. take 8 (sha x)) K" "cluster_reachable sha K ((s, w), good)"
    and bad: "mon_GetNodeMetrics (sv_monitor s) n = Some nm"
      "\<forall>mt\<in>set AllMetricTypes. \<exists>win. nm_GetWindow nm mt ''short'' = Some win \<and> 2 \<le> sw_Len win \<and>
         lookup0 MetricThreshold mt \<le> sw_Latest win"
    and tick: "perm_iter it" "predictionLoop_tick it now s = (s1, started)"
    and node: "addr_of (sv_chunkMgr s) n = Some src" "dial src = None" "net_alive env src" "\<not> IsMigrating (sv_migrator s) n"
      "peers_work env (sv_chunkMgr s1) w"
    and stored: "good (ns_target path) = Some (xs, r)" "plain path" "\<forall>x\<in>set xs. en_fits env (length x)"
    and spare: "\<And>f c. ns_GetFile (sv_namespace s) path = Inr (Some f) \<Longrightarrow> c \<in> set (fm_ChunkIDs f) \<Longrightarrow>
      n \<in> set (replicas (sv_chunkMgr s) c) \<Longrightarrow> \<exists>m. takes_chunks (sv_chunkMgr s1) m \<and> m \<notin> set (replicas (sv_chunkMgr s) c)"
  shows "\<not> takes_chunks (sv_chunkMgr s1) n \<and> (\<exists>p\<in>set started. pr_NodeID p = n \<and> pr_Status p = StatusCritical \<and>
    (\<forall>it2 s2 w2. perm_iter it2 \<and> sv_migrate it2 dial (net_TransferChunk env sha) clock p s1 w = (s2, w2) \<longrightarrow>
       (\<exists>f. ns_GetFile (sv_namespace s2) path = Inr (Some f) \<and> length (fm_ChunkIDs f) = length xs \<and>
          (\<forall>k<length xs. n \<notin> set (replicas (sv_chunkMgr s2) (fm_ChunkIDs f ! k)) \<and>
             length (replicas (sv_chunkMgr s2) (fm_ChunkIDs f ! k)) = r \<and>
             (\<forall>m\<in>set (replicas (sv_chunkMgr s2) (fm_ChunkIDs f ! k)). \<exists>a. addr_of (sv_chunkMgr s2) m = Some a \<and>
                net_holds sha w2 a (fm_ChunkIDs f ! k) = Some (xs ! k))))))"
proof -
  note I = cluster_inv_reachable [OF assms(1,2)]
  have R1: "cluster_reachable sha K ((s1, w), good)"
    using cluster_reachable.step [OF assms(2) cluster_step.predict [of sha K s w good it now]] tick(2) by simp
  note I1 = cluster_inv_reachable [OF assms(1) R1] and kept = tick_keeps [OF tick(2)]
  obtain f where f: "ns_GetFile (sv_namespace s) path = Inr (Some f)" "fm_ChunkIDs f = chunk_ids sha (fm_Path f) (int (length xs))"
    and cg: "\<And>k. k < length xs \<Longrightarrow> chunk_good sha (sv_chunkMgr s) w (fm_ChunkIDs f ! k) k r (xs ! k)"
    by (rule stored_chunks_good [OF I stored(1,2)]) blast
  have len: "length (fm_ChunkIDs f) = length xs" by (simp add: f(2) chunk_ids_def)
  have sp: "n \<in> set (replicas (sv_chunkMgr s) (fm_ChunkIDs f ! k)) \<Longrightarrow>
      \<exists>m. takes_chunks (sv_chunkMgr s1) m \<and> m \<notin> set (replicas (sv_chunkMgr s) (fm_ChunkIDs f ! k))" if "k < length xs" for k
    using spare [OF f(1), of "fm_ChunkIDs f ! k"] that len by simp
  obtain p where p: "p \<in> set started" "pr_NodeID p = n" "pr_Status p = StatusCritical" using tick_finds(1) [OF bad tick] by blast
  have "\<exists>f'. ns_GetFile (sv_namespace s2) path = Inr (Some f') \<and> length (fm_ChunkIDs f') = length xs \<and>
      (\<forall>k<length xs. n \<notin> set (replicas (sv_chunkMgr s2) (fm_ChunkIDs f' ! k)) \<and>
         length (replicas (sv_chunkMgr s2) (fm_ChunkIDs f' ! k)) = r \<and>
         (\<forall>m\<in>set (replicas (sv_chunkMgr s2) (fm_ChunkIDs f' ! k)). \<exists>a. addr_of (sv_chunkMgr s2) m = Some a \<and>
            net_holds sha w2 a (fm_ChunkIDs f' ! k) = Some (xs ! k)))"
    if m: "perm_iter it2" "sv_migrate it2 dial (net_TransferChunk env sha) clock p s1 w = (s2, w2)" for it2 s2 w2
  proof -
    have ok: "mig_ok (sv_chunkMgr s) w" "mig_ok (sv_chunkMgr s1) w" using I I1 by (simp_all add: cluster_inv_def)
    note mg = sv_migrate_good [OF ok(2) m]
    have same: "ns_GetFile (sv_namespace s2) path = Inr (Some f)" using f(1) mg(3) kept(1) by simp
    have cg2: "chunk_good sha (sv_chunkMgr s2) w2 (fm_ChunkIDs f ! k) k r (xs ! k)" if "k < length xs" for k
    proof -
      have "quiet (sv_chunkMgr s) (sv_chunkMgr s1)" using tick(2) quiet_predict by (auto simp: predictionLoop_tick_def Let_def)
      then show ?thesis using mg(4) quiet_good [OF _ _ cg [OF that]] ok(1) by (simp add: mig_ok_def)
    qed
    have away: "n \<notin> set (replicas (sv_chunkMgr s2) (fm_ChunkIDs f ! k))" if k: "k < length xs" for k
      using tick_migrate_away [OF ok(1) tick(2) ok(2) node [folded p(2)] cg [OF k] _ sp [OF k, folded p(2)] m] stored(3) k p(2) by simp
    have reg: "\<exists>a. addr_of (sv_chunkMgr s2) m = Some a \<and> net_holds sha w2 a (fm_ChunkIDs f ! k) = Some (xs ! k)"
      if that: "k < length xs" "m \<in> set (replicas (sv_chunkMgr s2) (fm_ChunkIDs f ! k))" for k m
    proof -
      have "addr_of (sv_chunkMgr s2) m \<noteq> None" using replica_registered(1) that(2) mg(1) by (simp add: mig_ok_def)
      then show ?thesis using cg2 [OF that(1)] that(2) by (auto simp: chunk_good_def)
    qed
    show ?thesis using same len away cg2 reg by (intro exI [of _ f]) (auto simp: chunk_good_def)
  qed
  then show ?thesis using tick_finds(2) [OF bad tick] p by blast
qed

text \<open>A fourth node joins the small system; then the first one reports bad metrics twice.\<close>

definition demo_bad_report :: "int \<Rightarrow> int \<Rightarrow> HealthMetrics" where
  "demo_bad_report ms errs = \<lparr>hm_NodeId = ''node-1'', hm_DiskIoLatencyMs = 80, hm_DiskUtilization = 0.95, hm_ErrorCount = errs,
     hm_ResponseTimeMs = 40, hm_CpuUsage = 0.99, hm_MemoryUsage = 0.91, hm_Timestamp = ms\<rparr>"

definition demo_failing :: Server where
  "demo_failing = fst (sv_ReportHealth (Some (demo_bad_report 1000 9))
     (fst (sv_ReportHealth (Some (demo_bad_report 0 3)) (demo_reg ''d:1'' (fst demo_stored_sys)))))"

definition demo_four_nodes :: World where
  "demo_four_nodes = (snd demo_stored_sys)\<lparr>w_nodes := AList.update ''d:1'' (demo_data_node ''d:1'') (w_nodes (snd demo_stored_sys))\<rparr>"

lemma demo_present: "net_present (snd demo_stored_sys) = net_present demo_nodes"
proof -
  have "net_present (fst (net_StoreChunk env sha a req w)) = net_present w" for env sha a req w
  proof -
    obtain w' r where "net_StoreChunk env sha a req w = (w', r)" by (metis prod.exhaust)
    then show ?thesis by (cases rule: net_store_cases) (simp_all add: \<open>net_StoreChunk env sha a req w = (w', r)\<close> net_present_def fun_eq_iff)
  qed
  then have "net_present (snd (fst (uploadChunks dial sha (sys_StoreChunk env sha) sched cs ps sw))) = net_present (snd sw)" for dial sha env sched cs ps sw
    by (intro upload_keeps [where f = "\<lambda>sw. net_present (snd sw)"]) (simp add: sys_StoreChunk_def on_nodes_def case_prod_beta)
  then show ?thesis by (auto simp: demo_stored_sys_def sys_PutFile_def split: prod.split option.split)
qed

lemma demo_failing_reachable: "cluster_reachable pad_sha demo_K1 ((demo_failing, demo_four_nodes), demo_good)"
proof -
  have "\<not> net_present (snd demo_stored_sys) ''d:1''" by (simp add: demo_present) (simp add: net_present_def demo_nodes_def)
  then have "map_of (w_nodes (snd demo_stored_sys)) ''d:1'' = None" unfolding net_present_def by blast
  moreover have "cs_inv (ds_store (fst (demo_data_node ''d:1'')))" by (simp add: demo_data_node_def cs_inv_new)
  moreover have "cluster_reachable pad_sha demo_K1 ((fst demo_stored_sys, snd demo_stored_sys), demo_good)" using demo_cluster by simp
  ultimately have "cluster_reachable pad_sha demo_K1 ((fst demo_stored_sys, demo_four_nodes), demo_good)"
    unfolding demo_four_nodes_def by (blast intro: cluster_reachable.step cluster_step.join)
  then show ?thesis
    unfolding demo_failing_def demo_reg_def
    by (intro cluster_reachable.step [OF _ cluster_step.report] cluster_reachable.step [OF _ cluster_step.register] perm_iter_id)
qed

lemma demo_failing_views:
  "sv_monitor demo_failing = monitor_after [demo_hot 0 3, demo_hot Second 9]"
  "sv_chunkMgr demo_failing = sv_chunkMgr (demo_reg ''d:1'' (fst demo_stored_sys))"
  "sv_migrator demo_failing = NewMigrator"
proof -
  have m: "sv_monitor (fst demo_stored_sys) = NewMonitor" "sv_migrator (fst demo_stored_sys) = NewMigrator"
    unfolding demo_stored_meta by code_simp+
  have r: "sv_monitor (fst (sv_ReportHealth (Some x) s)) = mon_IngestReport
      \<lparr>hr_NodeID = hm_NodeId x, hr_DiskIOLatency = hm_DiskIoLatencyMs x, hr_DiskUtil = hm_DiskUtilization x,
       hr_ErrorCount = hm_ErrorCount x, hr_ResponseTime = hm_ResponseTimeMs x, hr_CPUUsage = hm_CpuUsage x,
       hr_MemoryUsage = hm_MemoryUsage x, hr_Timestamp = UnixMilli (hm_Timestamp x)\<rparr> (sv_monitor s)"
    "sv_chunkMgr (fst (sv_ReportHealth (Some x) s)) = sv_chunkMgr s" "sv_migrator (fst (sv_ReportHealth (Some x) s)) = sv_migrator s" for x s
    by (simp_all add: sv_ReportHealth_def Let_def split: option.split)
  have g: "sv_monitor (demo_reg a s) = sv_monitor s" "sv_migrator (demo_reg a s) = sv_migrator s" for a s
    by (simp_all add: demo_reg_def sv_RegisterNode_def split: prod.split sum.split)
  show "sv_monitor demo_failing = monitor_after [demo_hot 0 3, demo_hot Second 9]"
    by (simp add: demo_failing_def r g m monitor_after_def demo_hot_def demo_bad_report_def UnixMilli_def Second_def)
  show "sv_chunkMgr demo_failing = sv_chunkMgr (demo_reg ''d:1'' (fst demo_stored_sys))"
    "sv_migrator demo_failing = NewMigrator" by (simp_all add: demo_failing_def r g m)
qed

lemma demo_failing_peers:
  assumes "predictionLoop_tick it now demo_failing = (s1, started)"
  shows "peers_work good_env (sv_chunkMgr s1) demo_four_nodes" "takes_chunks (sv_chunkMgr s1) ''node-4''"
proof -
  have "list_all (\<lambda>(k, d). dni_Address d \<in> set [''a:1'', ''b:1'', ''c:1'', ''d:1'']) (cm_nodes (sv_chunkMgr demo_failing))"
    unfolding demo_failing_views(2) demo_stored_meta by code_simp
  then have "addr_of (sv_chunkMgr demo_failing) m = Some a \<Longrightarrow> a \<in> set [''a:1'', ''b:1'', ''c:1'', ''d:1'']" for m a
    unfolding list_all_iff addr_of_def by (auto dest: map_of_SomeD split: option.splits)
  moreover have "net_present demo_four_nodes = (\<lambda>a. a = ''d:1'' \<or> net_present demo_nodes a)"
    by (auto simp: demo_four_nodes_def demo_present [symmetric] net_present_def fun_eq_iff)
  ultimately have p: "addr_of (sv_chunkMgr demo_failing) m = Some a \<Longrightarrow> net_present demo_four_nodes a" for m a
    by (fastforce simp: net_present_def demo_nodes_def)
  then show "peers_work good_env (sv_chunkMgr s1) demo_four_nodes"
    using tick_keeps(4) [OF assms] by (simp add: peers_work_def good_env_alive)
  let ?rs = "PredictAll it now (sv_monitor demo_failing)"
  have "mon_GetNodeMetrics (sv_monitor demo_failing) ''node-4'' = None"
    by (simp add: demo_failing_views(1) monitor_after_tracked reports_of_def demo_hot_def)
  then have "\<forall>q\<in>set ?rs. pr_NodeID q \<noteq> ''node-4''"
    using PredictAll_sound [of it now "sv_monitor demo_failing"] by (auto simp: PredictNode_def)
  then have same: "map_of (cm_nodes (sv_chunkMgr s1)) ''node-4'' = map_of (cm_nodes (sv_chunkMgr demo_failing)) ''node-4''"
    using assms predict_fold_other by (auto simp: predictionLoop_tick_def Let_def)
  have "map_option (\<lambda>d. dni_Status d = StatusHealthy) (map_of (cm_nodes (sv_chunkMgr demo_failing)) ''node-4'') = Some True"
    unfolding demo_failing_views(2) demo_stored_meta by code_simp
  then show "takes_chunks (sv_chunkMgr s1) ''node-4''" using same by (auto simp: takes_chunks_def less_eq_NodeStatus_def)
qed

theorem failing_node_is_evacuated_witness:
  "\<exists>s1 started p. predictionLoop_tick (\<lambda>ks. ks) 5 demo_failing = (s1, started) \<and> p \<in> set started \<and> pr_NodeID p = ''node-1'' \<and>
     (case sv_migrate (\<lambda>ks. ks) (\<lambda>_. None) (net_TransferChunk good_env pad_sha) (\<lambda>_. 0) p s1 demo_four_nodes of
        (s2, w2) \<Rightarrow> \<exists>f. ns_GetFile (sv_namespace s2) ''/f'' = Inr (Some f) \<and>
          ''node-1'' \<notin> set (replicas (sv_chunkMgr s2) (fm_ChunkIDs f ! 0)) \<and>
          length (replicas (sv_chunkMgr s2) (fm_ChunkIDs f ! 0)) = 3)"
proof -
  obtain s1 started where t: "predictionLoop_tick (\<lambda>ks. ks) 5 demo_failing = (s1, started)" by (metis prod.exhaust)
  have a: "addr_of (sv_chunkMgr demo_failing) ''node-1'' = Some ''a:1''"
    unfolding demo_failing_views(2) demo_stored_meta by code_simp
  have i: "\<not> IsMigrating (sv_migrator demo_failing) ''node-1''" by (simp add: demo_failing_views(3) IsMigrating_def NewMigrator_def)
  have "list_all (\<lambda>(c, m). ''node-4'' \<notin> set (ck_NodeIDs m)) (cm_chunks (sv_chunkMgr demo_failing))"
    unfolding demo_failing_views(2) demo_stored_meta by code_simp
  then have sp: "''node-4'' \<notin> set (replicas (sv_chunkMgr demo_failing) c)" for c
    unfolding list_all_iff replicas_def by (cases "map_of (cm_chunks (sv_chunkMgr demo_failing)) c") (auto dest: map_of_SomeD)
  have fits: "\<forall>x\<in>set [''abc'']. en_fits good_env (length x)" by (simp add: good_env_def)
  note bad = demo_hot_tracked [folded demo_failing_views(1)] demo_hot_windows [folded demo_failing_views(1)]
  obtain p where p: "p \<in> set started" "pr_NodeID p = ''node-1''" and out:
    "\<And>s2 w2. sv_migrate (\<lambda>ks. ks) (\<lambda>_. None) (net_TransferChunk good_env pad_sha) (\<lambda>_. 0) p s1 demo_four_nodes = (s2, w2) \<Longrightarrow>
      \<exists>f. ns_GetFile (sv_namespace s2) ''/f'' = Inr (Some f) \<and> ''node-1'' \<notin> set (replicas (sv_chunkMgr s2) (fm_ChunkIDs f ! 0)) \<and>
        length (replicas (sv_chunkMgr s2) (fm_ChunkIDs f ! 0)) = 3"
    using failing_node_is_evacuated [OF demo_K1_inj demo_failing_reachable bad perm_iter_id t a _ good_env_alive(1) i
        demo_failing_peers(1) [OF t] demo_good_f fits, where dial = "\<lambda>_. None" and clock = "\<lambda>_. 0"]
      demo_failing_peers(2) [OF t] sp perm_iter_id by fastforce
  then show ?thesis using t by (auto split: prod.split)
qed

section \<open>End to end\<close>



text \<open>
  C18: no file with a full chunk can be stored. grpc-go refuses to receive a message over 4 MiB unless
  told otherwise, and the servers do not set another limit; a \<open>StoreChunk\<close> request is longer than its
  data, and a full chunk has exactly 4 MiB. So with such a limit the \<open>PutFile\<close> of every file of at
  least \<open>ChunkSize\<close> bytes fails (even if every node works), and it fails after the metadata server has
  committed the file: the path is listed and located, although its chunks were not stored.
\<close>

theorem full_chunk_put_fails:
  assumes limit: "\<forall>n. ChunkSize \<le> int n \<longrightarrow> \<not> en_fits env n"
    and inv: "ns_inv (sv_namespace s)" "cm_inv (sv_chunkMgr s)" "perm_iter it" "sort_slice srt"
    and sha: "\<And>x. 6 \<le> length (sha x)" "inj_on (\<lambda>i. GenerateChunkID sha remotePath (int i)) {..<nat ((int (length data) + ChunkSize - 1) div ChunkSize)}"
    and reads: "\<forall>p. lf_Read lf p = Inr (nat ChunkSize)" "lf_Open lf localPath = Inr data" "lf_StatErr lf = None" "lf_CopyErr lf = None"
    and big: "ChunkSize \<le> int (length data)" "int (length data) < 2 ^ 31" "plain remotePath"
    and fair: "\<forall>k<nat ((int (length data) + ChunkSize - 1) div ChunkSize). 3 < count_list sched k"
    and accepted: "cm_healthyNodes it now (sv_chunkMgr s) \<noteq> []"
      "\<And>meta. \<exists>rt'. ns_CreateFile (sv_namespace s) remotePath meta = (rt', Inr ())"
  shows "\<exists>sw' e g. cl_PutFile lf dial sha (sys_PutFile it srt sha now) (sys_StoreChunk env sha) sched localPath remotePath (s, w) =
      (sw', Some (Err e)) \<and> sv_GetFile remotePath (fst sw') = Some g \<and> gfr_Success g"
proof -
  obtain chunks where ch: "readAndChunkFile sha lf localPath = Inr (chunks, int64 (int (length data)), fmt_x (sha data))"
    "chunks \<noteq> []" "int (length (chunks ! 0)) = ChunkSize"
    "length chunks = nat ((int (length data) + ChunkSize - 1) div ChunkSize)"
    by (rule full_first_chunk [OF reads big(1)])
  have le: "length chunks \<le> length data" using chunks_nonempty_bound [OF reads(2) ch(1)] by simp
  then have n: "int32 (int (length chunks)) = int (length chunks)" using big(2) by (intro int32_id) simp
  define req where "req = \<lparr>pf_Path = remotePath, pf_FileSize = int64 (int (length data)),
      pf_ChunkCount = int (length chunks), pf_Checksum = fmt_x (sha data)\<rparr>"
  obtain s' resp where sv: "sv_PutFile it srt sha now req s = (s', Some resp)" "pfr_Success resp"
    using put_accepted [where req = req and sha = sha, OF inv(2-4) accepted(1)] accepted(2) by (auto simp: req_def)
  let ?ps = "pfr_Placements resp"
  note pl = put_placements [OF inv sv]
  have len: "length ?ps = length chunks" using arg_cong [OF pl(1), of length] by (simp add: chunk_ids_def req_def)
  have long: "\<forall>p\<in>set ?ps. 12 \<le> length (cp_ChunkId p)"
  proof
    fix p assume "p \<in> set ?ps"
    then have "cp_ChunkId p \<in> set (chunk_ids sha (pf_Path req) (pf_ChunkCount req))" using pl(1) by (metis image_eqI list.set_map)
    then show "12 \<le> length (cp_ChunkId p)" using chunk_id_long [OF sha(1)] by (auto simp: chunk_ids_def)
  qed
  obtain sw' r where up: "uploadChunks dial sha (sys_StoreChunk env sha) sched chunks ?ps (s', w) = (sw', r)" by (metis prod.exhaust)
  have "r \<noteq> None"
    using upload_returns [OF put_placements_fair [OF inv sv] up] fair ch(4) len by simp
  moreover have "r \<noteq> Some Panic" by (rule upload_no_panic [OF long up])
  moreover have "r \<noteq> Some (Ok ())"
  proof (rule upload_refused [OF _ _ _ _ up])
    show "0 < length ?ps" "0 < length chunks" using ch(2) len by auto
    then show "cp_NodeAddresses (?ps ! 0) \<noteq> []" using pl(4) by blast
    have "\<not> en_fits env (length (chunks ! 0))" using limit ch(3) by simp
    then show "snd (sendChunkToNode dial (sys_StoreChunk env sha) a (cp_ChunkId (?ps ! 0)) (chunks ! 0)
        (DataChecksum sha (chunks ! 0)) v) \<noteq> None" for a v by (rule oversized_refused)
  qed
  ultimately obtain e where e: "r = Some (Err e)" by (metis (full_types) old.unit.exhaust option.exhaust outcome.exhaust)
  have "inj_on (\<lambda>i. GenerateChunkID sha (pf_Path req) (int i)) {..<nat (pf_ChunkCount req)}"
    using sha(2) ch(4) by (simp add: req_def)
  then obtain g where g: "sv_GetFile remotePath s' = Some g" "gfr_Success g"
    using put_get_locations [OF inv _ _ sv] big(3) by (auto simp: req_def)
  have "fst sw' = s'" using sys_upload_fst [of dial sha env sched chunks ?ps "(s', w)"] up by simp
  then show ?thesis
    using ch(1) sv up e g by (auto simp: cl_PutFile_def sys_PutFile_def req_def n wrap_err_def)
qed

text \<open>The default limit, and a file of exactly one full chunk.\<close>

definition limited_env :: env where
  "limited_env = good_env\<lparr>en_fits := \<lambda>n. int n < ChunkSize\<rparr>"

definition big_lf :: local_files where
  "big_lf = \<lparr>lf_Open = \<lambda>_. Inr (replicate (nat ChunkSize) CHR ''x''), lf_StatErr = None, lf_CopyErr = None,
     lf_Read = \<lambda>_. Inr (nat ChunkSize)\<rparr>"

theorem full_chunk_put_fails_witness:
  "\<exists>sw' e g. cl_PutFile big_lf (\<lambda>_. None) pad_sha (sys_PutFile (\<lambda>ks. ks) insertion_sort pad_sha 0)
      (sys_StoreChunk limited_env pad_sha) [0, 0, 0, 0] ''/x'' ''/f'' (demo_sv0, demo_nodes) = (sw', Some (Err e)) \<and>
     sv_GetFile ''/f'' (fst sw') = Some g \<and> gfr_Success g"
proof -
  have one: "nat ((int (length (replicate (nat ChunkSize) CHR ''x'')) + ChunkSize - 1) div ChunkSize) = 1"
    by (simp add: ChunkSize_def)
  have h: "cm_healthyNodes (\<lambda>ks. ks) 0 (sv_chunkMgr demo_sv0) \<noteq> []" by code_simp
  have new: "sv_namespace demo_sv0 = NewNamespace"
  proof -
    have "sv_namespace (demo_reg a s) = sv_namespace s" for a s
      by (auto simp: demo_reg_def sv_RegisterNode_def split: prod.split sum.split)
    then show ?thesis by (simp add: demo_sv0_def NewServer_def)
  qed
  have t: "ns_target ''/f'' = [''f'']" "TrimPrefix ''/f'' ''/'' \<noteq> ''''" by code_simp+
  have empty: "ns_files NewNamespace qs = None" for qs by (cases qs) (auto simp: NewNamespace_def)
  have cr: "\<exists>rt'. ns_CreateFile (sv_namespace demo_sv0) ''/f'' meta = (rt', Inr ())" for meta
    using CreateFile_ok_iff [of NewNamespace "''/f''" meta] t empty by (simp add: new) (simp add: NewNamespace_def)
  have pl: "plain ''/f''" by code_simp
  show ?thesis
    by (rule full_chunk_put_fails [OF _ demo_sv0_inv perm_iter_id go_sort.sort_slice_axioms pad_sha_long(1) _ _ _ _ _ _ _ pl _ h cr,
          where lf = big_lf and data = "replicate (nat ChunkSize) CHR ''x''"])
      (simp_all only: one, simp_all add: limited_env_def good_env_def big_lf_def lessThan_Suc ChunkSize_def)
qed

text \<open>
  C25: deleting a file does not delete its data. After a put that reported success and a successful
  \<open>DeleteFile\<close> of the client, the path is gone and the metadata of its chunks as well, but every node that stored a
  chunk still serves it: \<open>DeleteFile\<close> drops the node addresses that \<open>RemoveChunks\<close> collects for the
  clean-up, and no code calls the nodes' \<open>DeleteChunk\<close>.
\<close>

theorem deleted_file_data_stays:
  assumes inv: "ns_inv (sv_namespace s)" "cm_inv (sv_chunkMgr s)" "net_inv w" "perm_iter it" "sort_slice srt"
    and ids: "inj_on (\<lambda>i. GenerateChunkID sha path (int i)) {..<length chunks}" "plain path"
    and rd: "readAndChunkFile sha lf localPath = Inr (chunks, fsize, ck)" "int (length chunks) < 2 ^ 31"
    and put: "cl_PutFile lf dial sha (sys_PutFile it srt sha now) (sys_StoreChunk env sha) sched localPath path (s, w) =
      ((s', w'), Some (Ok ()))"
    and del: "cl_DeleteFile (sys_DeleteFile it) path (s', w') = ((s'', w''), None)"
  shows "\<exists>g. sv_GetFile path s' = Some g \<and> length (gfr_ChunkLocations g) = length chunks \<and>
    (\<forall>k<length chunks. \<forall>a\<in>set (cl_NodeAddresses (gfr_ChunkLocations g ! k)).
       net_holds sha w'' a (cl_ChunkId (gfr_ChunkLocations g ! k)) = Some (chunks ! k)) \<and>
    (\<exists>e. sv_GetFile path s'' = Some e \<and> \<not> gfr_Success e)"
proof -
  obtain g where g: "sv_GetFile path s' = Some g" "length (gfr_ChunkLocations g) = length chunks"
    "\<And>k. k < length chunks \<Longrightarrow> cl_ChunkId (gfr_ChunkLocations g ! k) = GenerateChunkID sha path (int k) \<and>
       cl_ChunkIndex (gfr_ChunkLocations g ! k) = int k \<and> length (cl_NodeAddresses (gfr_ChunkLocations g ! k)) \<le> 3 \<and>
       (\<forall>a\<in>set (cl_NodeAddresses (gfr_ChunkLocations g ! k)).
          net_holds sha w' a (GenerateChunkID sha path (int k)) = Some (chunks ! k))"
    by (rule put_state [OF inv ids rd put]) auto
  obtain resp where d: "sv_DeleteFile it path s' = (s'', Some resp)" "dfr_Success resp" "w'' = w'"
    using del by (auto simp: cl_DeleteFile_def sys_DeleteFile_def split: prod.splits option.splits sum.splits if_splits)
  have nsi: "ns_inv (sv_namespace s')" using put_keeps_ns [OF inv(1) put] by simp
  show ?thesis using g d(3) delete_gone [OF nsi ids(2) d(1,2)] by auto
qed

theorem deleted_file_data_stays_witness:
  "\<exists>s'' w'' g. cl_DeleteFile (sys_DeleteFile (\<lambda>ks. ks)) ''/f'' demo_stored_sys = ((s'', w''), None) \<and>
     sv_GetFile ''/f'' (fst demo_stored_sys) = Some g \<and>
     (\<forall>a\<in>set (cl_NodeAddresses (gfr_ChunkLocations g ! 0)).
        net_holds pad_sha w'' a (cl_ChunkId (gfr_ChunkLocations g ! 0)) = Some ''abc'') \<and>
     (\<exists>e. sv_GetFile ''/f'' s'' = Some e \<and> \<not> gfr_Success e)"
proof -
  have ids: "inj_on (\<lambda>i. GenerateChunkID pad_sha ''/f'' (int i)) {..<length [''abc'']}" by (simp add: lessThan_Suc)
  have pl: "plain ''/f''" by code_simp
  have n: "int (length [''abc'']) < 2 ^ 31" by simp
  obtain s' w' where st: "demo_stored_sys = (s', w')" by (metis prod.exhaust)
  have "case snd (sv_DeleteFile (\<lambda>ks. ks) ''/f'' (fst demo_stored_sys)) of None \<Rightarrow> False | Some r \<Rightarrow> dfr_Success r"
    unfolding demo_stored_meta by code_simp
  then obtain s'' where d: "cl_DeleteFile (sys_DeleteFile (\<lambda>ks. ks)) ''/f'' (s', w') = ((s'', w'), None)"
    by (cases "sv_DeleteFile (\<lambda>ks. ks) ''/f'' s'")
      (auto simp: st cl_DeleteFile_def sys_DeleteFile_def split: option.splits)
  from deleted_file_data_stays [OF demo_sv0_inv demo_nodes_inv perm_iter_id go_sort.sort_slice_axioms ids pl
      demo_read n demo_put_sys [unfolded st] d] d
  show ?thesis by (auto simp: st)
qed

text \<open>
  C13: a migrated chunk is really there. When \<open>migrateChunk\<close>, run on the chunk manager and the data
  nodes, reports success, the target node serves exactly the data the source served, the metadata
  lists the target in place of the source (if they differ), under the address the data went to, and no other chunk on any
  node has changed; in particular the source still serves its copy, which nothing ever deletes. When it
  reports failure the metadata is unchanged.
\<close>

theorem migrated_chunk_is_served:
  assumes "cm_inv cm" "perm_iter it" "net_inv w" "no_slash c"
    and "migrateChunk (ChunkManagerAdapter it) dial (net_TransferChunk env sha) clock c n src cm w = (cm', w', ev)"
  shows "net_inv w' \<and>
    (if me_Success ev then
       (\<exists>data. net_holds sha w src c = Some data \<and> net_holds sha w' (me_ToAddress ev) c = Some data) \<and>
       (n \<noteq> me_ToNodeID ev \<longrightarrow> me_ToNodeID ev \<in> set (replicas cm' c) \<and> n \<notin> set (replicas cm' c)) \<and>
       map_option dni_Address (map_of (cm_nodes cm') (me_ToNodeID ev)) = Some (me_ToAddress ev) \<and>
       (\<forall>b j. (b, j) \<noteq> (me_ToAddress ev, c) \<longrightarrow> net_holds sha w' b j = net_holds sha w b j)
     else cm' = cm)"
proof -
  let ?L = "ChunkManagerAdapter it"
  note loc = adapter_contract [OF assms(2)]
  show ?thesis
  proof (cases "me_Success ev")
    case False
    then show ?thesis
      using migrate_outcome [OF assms(5)] net_transfer [OF assms(3,4)] assms(3) by auto
  next
    case True
    obtain ex t ts msg where m: "cl_GetChunkMeta ?L cm c = Some ex" "cl_GetHealthyNodeAddresses ?L cm ex = t # ts"
      and tr: "net_TransferChunk env sha src c (nt_Address t) w = (w', Inr (True, msg))"
      and cm': "cm' = cl_RemoveChunkFromNode ?L c n (cl_AddChunkToNode ?L c (nt_NodeID t) cm)"
      and ev: "me_ToNodeID ev = nt_NodeID t" "me_ToAddress ev = nt_Address t"
      using migrate_outcome [OF assms(5)] True by blast
    have known: "cm_known cm c" "ex = replicas cm c"
      using chunk_locator.meta [OF loc assms(1), of c] m(1) by (auto split: if_splits)
    have t: "nt_NodeID t \<notin> set ex" "cm_registered cm (nt_NodeID t)" "cl_GetNodeAddress ?L cm (nt_NodeID t) = Some (nt_Address t)"
      using chunk_locator.targets [OF loc assms(1), of t ex] m(2) by auto
    let ?cm1 = "cl_AddChunkToNode ?L c (nt_NodeID t) cm"
    have i1: "cm_inv ?cm1" by (rule chunk_locator.add_inv [OF loc assms(1) t(2)])
    have r1: "replicas ?cm1 c = ex @ [nt_NodeID t]"
      using chunk_locator.add_reps [OF loc assms(1) known(1), of "nt_NodeID t" c] t(1) known(2) by simp
    have r: "replicas cm' c = remove1 n (ex @ [nt_NodeID t])"
      using chunk_locator.remove_reps [OF loc i1, of c n c] r1 cm' by simp
    have d: "distinct (ex @ [nt_NodeID t])" using t(1) chunk_locator.reps_distinct [OF loc assms(1), of c] known(2) by simp
    have "cl_GetNodeAddress ?L cm' (nt_NodeID t) = Some (nt_Address t)"
      using chunk_locator.remove_address [OF loc i1] chunk_locator.add_address [OF loc assms(1)] t(3) cm' by simp
    then have ad: "map_option dni_Address (map_of (cm_nodes cm') (nt_NodeID t)) = Some (nt_Address t)"
      by (auto simp: ChunkManagerAdapter_def ad_GetNodeAddress_def cm_GetNode_def split: option.splits)
    have reps: "n \<noteq> nt_NodeID t \<longrightarrow> nt_NodeID t \<in> set (replicas cm' c) \<and> n \<notin> set (replicas cm' c)"
      using d by (simp add: r set_remove1_eq)
    show ?thesis using net_transfer [OF assms(3,4) tr] ev ad reps True by simp
  qed
qed

text \<open>The first of four nodes stores a chunk and is migrated.\<close>

definition demo_migrated :: "ChunkManager \<times> World \<times> MigrationEvent" where
  "demo_migrated =
     (let c = hd demo_ids_of;
          nodes = demo_nodes\<lparr>w_nodes := w_nodes demo_nodes @ [(''d:1'', demo_data_node ''d:1'')]\<rparr>;
          w = fst (net_StoreChunk good_env pad_sha ''a:1'' \<lparr>sc_ChunkId = c, sc_Data = ''abc'', sc_Checksum = ''''\<rparr> nodes)
      in migrateChunk (ChunkManagerAdapter (\<lambda>ks. ks)) (\<lambda>_. None) (net_TransferChunk good_env pad_sha) (\<lambda>_. 0)
           c ''node-1'' ''a:1'' demo_four w)"

theorem migrated_chunk_is_served_witness:
  "\<exists>cm w ev. demo_migrated = (cm, w, ev) \<and> me_ToAddress ev = ''d:1'' \<and>
     replicas cm (hd demo_ids_of) = [''node-2'', ''node-3'', ''node-4''] \<and>
     net_holds pad_sha w ''d:1'' (hd demo_ids_of) = Some ''abc''"
proof -
  let ?c = "hd demo_ids_of"
  define w0 where "w0 = demo_nodes\<lparr>w_nodes := w_nodes demo_nodes @ [(''d:1'', demo_data_node ''d:1'')]\<rparr>"
  define req where "req = \<lparr>sc_ChunkId = ?c, sc_Data = ''abc'', sc_Checksum = ''''\<rparr>"
  define w1 where "w1 = fst (net_StoreChunk good_env pad_sha ''a:1'' req w0)"
  obtain cm w ev where m: "demo_migrated = (cm, w, ev)" by (metis prod_cases3)
  then have mig: "migrateChunk (ChunkManagerAdapter (\<lambda>ks. ks)) (\<lambda>_. None) (net_TransferChunk good_env pad_sha) (\<lambda>_. 0)
      ?c ''node-1'' ''a:1'' demo_four w1 = (cm, w, ev)"
    by (simp add: demo_migrated_def w1_def w0_def req_def Let_def)
  have "me_Success (snd (snd demo_migrated)) \<and> me_ToAddress (snd (snd demo_migrated)) = ''d:1''" by code_simp
  then have e: "me_Success ev" "me_ToAddress ev = ''d:1''" unfolding m by simp_all
  have r: "replicas (fst demo_migrated) ?c = [''node-2'', ''node-3'', ''node-4'']" by code_simp
  have ns: "no_slash ?c" by code_simp
  have i0: "net_inv w0"
    by (auto simp: w0_def net_inv_def demo_nodes_def demo_data_node_def cs_inv_new split: if_splits)
  obtain w1' rr where st: "net_StoreChunk good_env pad_sha ''a:1'' req w0 = (w1', rr)" by (metis prod.exhaust)
  have "net_inv w1"
    using dn.store_inv [OF i0 _ st] ns st by (simp add: w1_def req_def)
  moreover have "net_holds pad_sha w1 ''a:1'' ?c = Some ''abc''"
    unfolding w1_def w0_def req_def by code_simp
  ultimately have "net_holds pad_sha w ''d:1'' ?c = Some ''abc''"
    using migrated_chunk_is_served [OF demo_four_ok(1) perm_iter_id _ ns mig] e by auto
  moreover have "replicas cm ?c = [''node-2'', ''node-3'', ''node-4'']" using r unfolding m by simp
  ultimately show ?thesis using m e(2) by blast
qed

end
